(* ===== verification/Ceph_Prelude.thy ===== *)
theory Ceph_Prelude
  imports "HOL-Library.Word"
begin

text \<open>
  Shared vocabulary of the development: the C integer types as words, the error numbers the
  sources return, conversions between bytes and little-endian words, and the list and word facts
  that several components use.  The collections \<open>ceph_defs\<close> and \<open>ceph_simps\<close> gather what the
  component proofs unfold and rewrite with.
\<close>

unbundle bit_operations_syntax

named_theorems ceph_defs "definitions the component proofs unfold"
named_theorems ceph_simps "rewrite rules shared by the component proofs"

section \<open>C integer types\<close>

type_synonym u8 = "8 word"
type_synonym u16 = "16 word"
type_synonym u32 = "32 word"
type_synonym u64 = "64 word"

text \<open>Conversion of a mathematical integer to the value a 32-bit (64-bit) signed variable holds.\<close>

definition to_s32 :: "int \<Rightarrow> int" where
  "to_s32 x = sint (word_of_int x :: u32)"

definition to_s64 :: "int \<Rightarrow> int" where
  "to_s64 x = sint (word_of_int x :: u64)"

text \<open>C division of signed integers truncates towards zero.\<close>

definition c_div :: "int \<Rightarrow> int \<Rightarrow> int" where
  "c_div a b = sgn a * sgn b * (\<bar>a\<bar> div \<bar>b\<bar>)"

section \<open>Error numbers\<close>

abbreviation (input) EPERM :: int where "EPERM \<equiv> 1"
abbreviation (input) ENOENT :: int where "ENOENT \<equiv> 2"
abbreviation (input) EIO :: int where "EIO \<equiv> 5"
abbreviation (input) EAGAIN :: int where "EAGAIN \<equiv> 11"
abbreviation (input) ENOMEM :: int where "ENOMEM \<equiv> 12"
abbreviation (input) EACCES :: int where "EACCES \<equiv> 13"
abbreviation (input) EEXIST :: int where "EEXIST \<equiv> 17"
abbreviation (input) EINVAL :: int where "EINVAL \<equiv> 22"
abbreviation (input) ENOSPC :: int where "ENOSPC \<equiv> 28"
abbreviation (input) EDOM :: int where "EDOM \<equiv> 33"
abbreviation (input) ERANGE :: int where "ERANGE \<equiv> 34"
abbreviation (input) EOPNOTSUPP :: int where "EOPNOTSUPP \<equiv> 95"

section \<open>Bytes and little-endian words\<close>

definition le16_bytes :: "u16 \<Rightarrow> u8 list" where
  "le16_bytes w = [ucast w, ucast (drop_bit 8 w)]"

definition le32_bytes :: "u32 \<Rightarrow> u8 list" where
  "le32_bytes w = [ucast w, ucast (drop_bit 8 w), ucast (drop_bit 16 w), ucast (drop_bit 24 w)]"

definition le16_read :: "u8 list \<Rightarrow> u16" where
  "le16_read bs = ucast (bs ! 0) OR push_bit 8 (ucast (bs ! 1))"

definition le32_read :: "u8 list \<Rightarrow> u32" where
  "le32_read bs = ucast (bs ! 0) OR push_bit 8 (ucast (bs ! 1)) OR
     push_bit 16 (ucast (bs ! 2)) OR push_bit 24 (ucast (bs ! 3))"

lemma length_le16_bytes [simp]: "length (le16_bytes w) = 2"
  by (simp add: le16_bytes_def)

lemma length_le32_bytes [simp]: "length (le32_bytes w) = 4"
  by (simp add: le32_bytes_def)

lemma le16_read_bytes [simp]: "le16_read (le16_bytes w @ bs) = w"
  by (rule bit_word_eqI) (auto simp: le16_read_def le16_bytes_def bit_simps not_less)

lemma le32_read_bytes [simp]: "le32_read (le32_bytes w @ bs) = w"
proof (rule bit_word_eqI)
  fix n :: nat
  assume "n < LENGTH(32)"
  then show "bit (le32_read (le32_bytes w @ bs)) n \<longleftrightarrow> bit w n"
    by (cases "n < 24"; cases "n < 16") (auto simp: le32_read_def le32_bytes_def bit_simps not_less)
qed

lemma le32_bytes_inject [simp]: "le32_bytes v = le32_bytes w \<longleftrightarrow> v = w"
  by (metis le32_read_bytes)

section \<open>Runs that can crash or not end\<close>

text \<open>
  The value of a C computation that may touch memory it does not own, dereference NULL or fail an
  assertion (\<open>Fault\<close>), or run longer than the fuel given (\<open>NoFuel\<close>).
\<close>

datatype 'a exec = Ret 'a | Fault | NoFuel

primrec exec_bind :: "'a exec \<Rightarrow> ('a \<Rightarrow> 'b exec) \<Rightarrow> 'b exec" where
  "exec_bind (Ret x) f = f x"
| "exec_bind Fault f = Fault"
| "exec_bind NoFuel f = NoFuel"

lemma exec_bind_eq_Ret [simp]:
  "exec_bind m f = Ret y \<longleftrightarrow> (\<exists>x. m = Ret x \<and> f x = Ret y)"
  by (cases m) auto

lemma exec_bind_assoc: "exec_bind (exec_bind m f) g = exec_bind m (\<lambda>x. exec_bind (f x) g)"
  by (cases m) auto

text \<open>Total correctness: the computation returns, with a value that satisfies \<open>Q\<close>.\<close>

definition exec_post :: "'a exec \<Rightarrow> ('a \<Rightarrow> bool) \<Rightarrow> bool" where
  "exec_post m Q \<longleftrightarrow> (\<exists>v. m = Ret v \<and> Q v)"

lemma exec_post_Ret [simp]: "exec_post (Ret v) Q = Q v"
  and exec_post_Fault [simp]: "\<not> exec_post Fault Q"
  and exec_post_NoFuel [simp]: "\<not> exec_post NoFuel Q"
  by (simp_all add: exec_post_def)

lemma exec_post_bind [simp]: "exec_post (exec_bind m f) Q = exec_post m (\<lambda>x. exec_post (f x) Q)"
  by (cases m) simp_all

lemma exec_post_mono: "exec_post m P \<Longrightarrow> (\<And>x. P x \<Longrightarrow> Q x) \<Longrightarrow> exec_post m Q"
  by (auto simp: exec_post_def)

lemma exec_postD: "exec_post m Q \<Longrightarrow> \<exists>v. m = Ret v \<and> Q v"
  by (simp add: exec_post_def)

text \<open>Reading and writing an array through an index that may be out of range.\<close>

definition arr_get :: "'a list \<Rightarrow> int \<Rightarrow> 'a exec" where
  "arr_get xs i = (if 0 \<le> i \<and> i < int (length xs) then Ret (xs ! nat i) else Fault)"

definition arr_set :: "'a list \<Rightarrow> int \<Rightarrow> 'a \<Rightarrow> 'a list exec" where
  "arr_set xs i v = (if 0 \<le> i \<and> i < int (length xs) then Ret (xs[nat i := v]) else Fault)"

lemma arr_get_in [simp]: "i < length xs \<Longrightarrow> arr_get xs (int i) = Ret (xs ! i)"
  by (simp add: arr_get_def)

lemma arr_set_in [simp]: "i < length xs \<Longrightarrow> arr_set xs (int i) v = Ret (xs[i := v])"
  by (simp add: arr_set_def)

lemma arr_get_eq_Ret:
  "arr_get xs i = Ret v \<longleftrightarrow> 0 \<le> i \<and> i < int (length xs) \<and> v = xs ! nat i"
  by (auto simp: arr_get_def)

lemma arr_set_eq_Ret:
  "arr_set xs i v = Ret ys \<longleftrightarrow> 0 \<le> i \<and> i < int (length xs) \<and> ys = xs[nat i := v]"
  by (auto simp: arr_set_def)

lemma arr_get_not_NoFuel [simp]: "arr_get xs i \<noteq> NoFuel"
  by (simp add: arr_get_def)

lemma arr_set_not_NoFuel [simp]: "arr_set xs i v \<noteq> NoFuel"
  by (simp add: arr_set_def)

section \<open>Signed 32-bit values\<close>

lemma to_s32_id: "- (2 ^ 31) \<le> x \<Longrightarrow> x < 2 ^ 31 \<Longrightarrow> to_s32 x = x"
  by (simp add: to_s32_def int_word_sint)

lemma to_s32_range: "- (2 ^ 31) \<le> to_s32 x" "to_s32 x < 2 ^ 31"
  using sint_ge [of "word_of_int x :: u32"] sint_lt [of "word_of_int x :: u32"]
  by (simp_all add: to_s32_def)

section \<open>Shifts and masks read as arithmetic\<close>

lemma uint_drop_bit: "uint (drop_bit n w) = uint w div 2 ^ n"
  by (simp add: unsigned_drop_bit_eq drop_bit_eq_div [where 'a = int] take_bit_int_eq_self unsigned_less)

lemma unat_drop_bit: "unat (drop_bit n w) = unat w div 2 ^ n"
  by (simp only: unat_eq_nat_uint uint_drop_bit) (simp add: nat_div_distrib nat_power_eq)

lemma int_and_low_mask: "(a :: int) AND (2 ^ n - 1) = a mod 2 ^ n"
  by (simp flip: take_bit_eq_mod take_bit_eq_mask mask_eq_exp_minus_1)

lemma uint_ucast_u32_u64 [simp]: "uint (ucast (w :: u32) :: u64) = uint w"
  by (rule uint_up_ucast) (simp add: is_up)

lemma div_less_iff_mult:
  fixes m b a :: int
  assumes "0 < b"
  shows "m div b < a \<longleftrightarrow> m < a * b"
proof
  assume "m div b < a"
  then have "(m div b + 1) * b \<le> a * b" using assms by (intro mult_right_mono) auto
  moreover have "m < m div b * b + b"
    using div_mod_decomp_int [of m b] pos_mod_bound [OF assms, of m] by linarith
  ultimately show "m < a * b" by (simp add: distrib_right)
next
  assume lt: "m < a * b"
  show "m div b < a"
  proof (rule ccontr)
    assume "\<not> m div b < a"
    then have "a * b \<le> m div b * b" using assms by (intro mult_right_mono) auto
    moreover have "m div b * b \<le> m" using assms
      by (metis add_increasing2 div_mod_decomp_int order_refl pos_mod_sign)
    ultimately show False using lt by simp
  qed
qed

lemma c_div_mult: "0 < b \<Longrightarrow> c_div (a * b) b = a"
  by (simp add: c_div_def sgn_mult abs_mult) (simp add: abs_mult_sgn mult.commute)

end
