(* ===== verification/Std_Map.thy ===== *)
theory Std_Map
imports Ceph_Prelude
begin

text \<open>
  \<open>std::map\<close> as the list of its pairs in the order of the keys, the order in which the code iterates
  over it: the insertion or assignment of an entry, its removal, and what a look-up finds afterwards.
\<close>

fun map_put :: "('k :: linorder \<times> 'v) list \<Rightarrow> 'k \<Rightarrow> 'v \<Rightarrow> ('k \<times> 'v) list" where
  "map_put [] k v = [(k, v)]"
| "map_put ((a, b) # m) k v =
     (if k < a then (k, v) # (a, b) # m else if k = a then (k, v) # m else (a, b) # map_put m k v)"

definition map_del :: "('k \<times> 'v) list \<Rightarrow> 'k \<Rightarrow> ('k \<times> 'v) list" where
  "map_del m k = filter (\<lambda>(s, l). s \<noteq> k) m"

text \<open>The keys of a map are in strictly increasing order.\<close>

definition map_ok :: "('k :: linorder \<times> 'v) list \<Rightarrow> bool" where
  "map_ok m = sorted_wrt (<) (map fst m)"

lemma map_ok_simps [simp]:
  "map_ok []"
  "map_ok ((a, b) # m) \<longleftrightarrow> (\<forall>k \<in> fst ` set m. a < k) \<and> map_ok m"
  by (auto simp: map_ok_def)

lemma keys_map_put: "fst ` set (map_put m k v) = insert k (fst ` set m)"
  by (induction m k v rule: map_put.induct) auto

lemma map_ok_put [simp]: "map_ok m \<Longrightarrow> map_ok (map_put m k v)"
  by (induction m k v rule: map_put.induct) (auto simp: keys_map_put simp del: image_eqI)

lemma map_of_put [simp]: "map_ok m \<Longrightarrow> map_of (map_put m k v) = (map_of m)(k \<mapsto> v)"
proof (induction m k v rule: map_put.induct)
  case (2 a b m k v)
  have "map_of m k = None" if "k < a"
    using 2(2) that by (force simp: map_of_eq_None_iff)
  with 2 show ?case
    by (auto simp: fun_eq_iff)
qed simp

lemma map_ok_distinct: "map_ok m \<Longrightarrow> distinct (map fst m)"
  by (simp add: map_ok_def strict_sorted_iff)

lemma map_put_between:
  "\<forall>p \<in> set xs. fst p < k \<Longrightarrow> \<forall>p \<in> set ys. k < fst p \<Longrightarrow> map_put (xs @ ys) k v = xs @ (k, v) # ys"
proof (induction xs)
  case Nil
  then show ?case
    by (cases ys) auto
qed (auto split: prod.splits)

lemma map_del_between:
  "\<forall>p \<in> set xs. fst p \<noteq> k \<Longrightarrow> \<forall>p \<in> set ys. fst p \<noteq> k \<Longrightarrow> map_del (xs @ (k, v) # ys) k = xs @ ys"
  by (simp add: map_del_def split_def)

end
