(* ===== verification/Interval_Set.thy ===== *)
theory Interval_Set
imports Std_Map
begin

text \<open>
  The class \<open>interval_set\<close> of \<open>include/interval_set.h\<close>: a set of integers kept as a map from the starts of
  its intervals to their lengths, and the number of its members.  The type \<open>T\<close> of the members is a
  parameter of the class and of the operations here.  Sums and differences wrap around as those of \<open>T\<close>
  do.  The lemmas are first shown for integers without bounds and then for the machine types, on sets
  that leave room for the ends of their intervals.
\<close>

section \<open>The type of the members\<close>

text \<open>
  The instances the source has are \<open>int\<close> and the unsigned types of 64 bits (\<open>uint64_t\<close> itself, \<open>snapid_t\<close>, \<open>inodeno_t\<close>).
  \<open>T_ideal\<close> is no instance: it has the integers without bounds, which the class is specified for.  The
  size is of type \<open>int64_t\<close> in every instance.
\<close>

datatype num_type = T_int | T_uint64 | T_ideal

fun t_wrap :: "num_type \<Rightarrow> int \<Rightarrow> int" where
  "t_wrap T_int x = to_s32 x"
| "t_wrap T_uint64 x = x mod 2 ^ 64"
| "t_wrap T_ideal x = x"

fun size_wrap :: "num_type \<Rightarrow> int \<Rightarrow> int" where
  "size_wrap T_ideal x = x"
| "size_wrap t x = to_s64 x"

section \<open>The map and its iterators\<close>

text \<open>A \<open>std::map\<close> as the list of its pairs in order; an iterator is an index, the length being \<open>end()\<close>.\<close>

type_synonym imap = "(int \<times> int) list"

record interval_set =
  i_m :: imap
  i_size :: int

definition iset_empty :: interval_set where
  "iset_empty = \<lparr>i_m = [], i_size = 0\<rparr>"

definition lower_bound :: "imap \<Rightarrow> int \<Rightarrow> nat" where
  "lower_bound m k = length (takeWhile (\<lambda>(s, l). s < k) m)"

definition iv_end :: "num_type \<Rightarrow> int \<times> int \<Rightarrow> int" where
  "iv_end t p = t_wrap t (fst p + snd p)"

definition find_inc :: "num_type \<Rightarrow> imap \<Rightarrow> int \<Rightarrow> nat" where
  "find_inc t m start =
     (let p = lower_bound m start in
      if p \<noteq> 0 \<and> (p = length m \<or> fst (m ! p) > start)
      then (if iv_end t (m ! (p - 1)) \<le> start then p else p - 1)
      else p)"

definition find_adj :: "num_type \<Rightarrow> imap \<Rightarrow> int \<Rightarrow> nat" where
  "find_adj t m start =
     (let p = lower_bound m start in
      if p \<noteq> 0 \<and> (p = length m \<or> fst (m ! p) > start)
      then (if iv_end t (m ! (p - 1)) < start then p else p - 1)
      else p)"

section \<open>Queries\<close>

definition contains :: "num_type \<Rightarrow> interval_set \<Rightarrow> int \<Rightarrow> bool" where
  "contains t s i =
     (let m = i_m s; p = find_inc t m i in
      if p = length m then False else if fst (m ! p) > i then False else \<not> iv_end t (m ! p) \<le> i)"

definition contains_range :: "num_type \<Rightarrow> interval_set \<Rightarrow> int \<Rightarrow> int \<Rightarrow> bool" where
  "contains_range t s start len =
     (let m = i_m s; p = find_inc t m start in
      if p = length m then False
      else if fst (m ! p) > start then False
      else if iv_end t (m ! p) \<le> start then False
      else \<not> iv_end t (m ! p) < t_wrap t (start + len))"

definition range_start :: "interval_set \<Rightarrow> int exec" where
  "range_start s = (case i_m s of [] \<Rightarrow> Fault | p # _ \<Rightarrow> Ret (fst p))"

definition range_end :: "num_type \<Rightarrow> interval_set \<Rightarrow> int exec" where
  "range_end t s = (if i_m s = [] then Fault else Ret (iv_end t (last (i_m s))))"

definition starts_after :: "num_type \<Rightarrow> interval_set \<Rightarrow> int \<Rightarrow> bool exec" where
  "starts_after t s i = (if contains t s i then Fault else Ret (find_inc t (i_m s) i \<noteq> length (i_m s)))"

text \<open>At the end of the map the iterator is dereferenced all the same.\<close>

definition start_after :: "num_type \<Rightarrow> interval_set \<Rightarrow> int \<Rightarrow> int exec" where
  "start_after t s i =
     (if contains t s i then Fault
      else let p = find_inc t (i_m s) i in if p = length (i_m s) then Fault else Ret (fst (i_m s ! p)))"

definition end_after :: "num_type \<Rightarrow> interval_set \<Rightarrow> int \<Rightarrow> int exec" where
  "end_after t s start = (if contains t s start then Ret (iv_end t (i_m s ! find_inc t (i_m s) start)) else Fault)"

definition subset_of :: "num_type \<Rightarrow> interval_set \<Rightarrow> interval_set \<Rightarrow> bool" where
  "subset_of t s big = list_all (\<lambda>(start, len). contains_range t big start len) (i_m s)"

text \<open>The size is returned as an \<open>int\<close>.\<close>

definition size_of :: "interval_set \<Rightarrow> int" where
  "size_of s = to_s32 (i_size s)"

definition set_eq :: "interval_set \<Rightarrow> interval_set \<Rightarrow> bool" where
  "set_eq a b \<longleftrightarrow> i_size a = i_size b \<and> i_m a = i_m b"

section \<open>Changes\<close>

text \<open>The failing assertions are faults.\<close>

definition insert_map :: "num_type \<Rightarrow> imap \<Rightarrow> int \<Rightarrow> int \<Rightarrow> imap exec" where
  "insert_map t m start len =
     (let p = find_adj t m start in
      if p = length m then Ret (map_put m start len)
      else
        let (ps, pl) = m ! p in
        if ps < start then
          (if t_wrap t (ps + pl) \<noteq> start then Fault
           else if p + 1 < length m \<and> t_wrap t (start + len) = fst (m ! (p + 1))
           then Ret (map_del (m[p := (ps, t_wrap t (pl + len + snd (m ! (p + 1))))]) (fst (m ! (p + 1))))
           else Ret (m[p := (ps, t_wrap t (pl + len))]))
        else if t_wrap t (start + len) = ps then Ret (map_del (map_put m start (t_wrap t (len + pl))) ps)
        else if ps > t_wrap t (start + len) then Ret (map_put m start len)
        else Fault)"

definition insert_range :: "num_type \<Rightarrow> interval_set \<Rightarrow> int \<Rightarrow> int \<Rightarrow> interval_set exec" where
  "insert_range t s start len =
     (if len > 0
      then exec_bind (insert_map t (i_m s) start len) (\<lambda>m. Ret \<lparr>i_m = m, i_size = size_wrap t (i_size s + len)\<rparr>)
      else Fault)"

definition erase_range :: "num_type \<Rightarrow> interval_set \<Rightarrow> int \<Rightarrow> int \<Rightarrow> interval_set exec" where
  "erase_range t s start len =
     (let m = i_m s; p = find_inc t m start in
      if size_wrap t (i_size s - len) < 0 \<or> p = length m \<or> fst (m ! p) > start then Fault
      else
        let before = t_wrap t (start - fst (m ! p)) in
        if snd (m ! p) < t_wrap t (before + len) then Fault
        else
          let after = t_wrap t (snd (m ! p) - before - len);
              m1 = (if before \<noteq> 0 then m[p := (fst (m ! p), before)] else map_del m (fst (m ! p)))
          in Ret \<lparr>i_m = (if after \<noteq> 0 then map_put m1 (t_wrap t (start + len)) after else m1), i_size = size_wrap t (i_size s - len)\<rparr>)"

text \<open>Erasing the interval at an iterator.\<close>

definition erase_at :: "num_type \<Rightarrow> interval_set \<Rightarrow> nat \<Rightarrow> interval_set" where
  "erase_at t s i = \<lparr>i_m = take i (i_m s) @ drop (Suc i) (i_m s), i_size = size_wrap t (i_size s - snd (i_m s ! i))\<rparr>"

fun subtract_map :: "num_type \<Rightarrow> interval_set \<Rightarrow> imap \<Rightarrow> interval_set exec" where
  "subtract_map t s [] = Ret s"
| "subtract_map t s ((start, len) # rest) = exec_bind (erase_range t s start len) (\<lambda>s'. subtract_map t s' rest)"

definition subtract :: "num_type \<Rightarrow> interval_set \<Rightarrow> interval_set \<Rightarrow> interval_set exec" where
  "subtract t s a = subtract_map t s (i_m a)"

fun insert_all :: "num_type \<Rightarrow> interval_set \<Rightarrow> imap \<Rightarrow> interval_set exec" where
  "insert_all t s [] = Ret s"
| "insert_all t s ((start, len) # rest) = exec_bind (insert_range t s start len) (\<lambda>s'. insert_all t s' rest)"

definition insert_set :: "num_type \<Rightarrow> interval_set \<Rightarrow> interval_set \<Rightarrow> interval_set exec" where
  "insert_set t s a = insert_all t s (i_m a)"

text \<open>The loop of \<open>intersection_of\<close> over what is left of the two maps.\<close>

function intersection_loop :: "num_type \<Rightarrow> interval_set \<Rightarrow> imap \<Rightarrow> imap \<Rightarrow> interval_set exec" where
  "intersection_loop t s [] pb = Ret s"
| "intersection_loop t s (a # pa) [] = Ret s"
| "intersection_loop t s (a # pa) (b # pb) =
     (if iv_end t a \<le> fst b then intersection_loop t s pa (b # pb)
      else if iv_end t b \<le> fst a then intersection_loop t s (a # pa) pb
      else
        let start = max (fst a) (fst b); en = min (iv_end t a) (iv_end t b) in
        if en > start then
          exec_bind (insert_range t s start (t_wrap t (en - start))) (\<lambda>s'.
            if iv_end t a > iv_end t b then intersection_loop t s' (a # pa) pb else intersection_loop t s' pa (b # pb))
        else Fault)"
  by pat_completeness auto
termination by (relation "measure (\<lambda>(t, s, pa, pb). length pa + length pb)") auto

definition intersection_of :: "num_type \<Rightarrow> interval_set \<Rightarrow> interval_set \<Rightarrow> interval_set exec" where
  "intersection_of t a b = intersection_loop t iset_empty (i_m a) (i_m b)"

definition intersects :: "num_type \<Rightarrow> interval_set \<Rightarrow> int \<Rightarrow> int \<Rightarrow> bool exec" where
  "intersects t s start len =
     exec_bind (insert_range t iset_empty start len) (\<lambda>a.
     exec_bind (intersection_of t s a) (\<lambda>i. Ret (i_m i \<noteq> [])))"

definition union_of :: "num_type \<Rightarrow> interval_set \<Rightarrow> interval_set \<Rightarrow> interval_set exec" where
  "union_of t a b =
     exec_bind (intersection_of t a b) (\<lambda>ab.
     exec_bind (subtract t a ab) (\<lambda>s. insert_set t s b))"

text \<open>\<open>span_of\<close>: the loop, and the part before it.\<close>

fun span_loop :: "num_type \<Rightarrow> interval_set \<Rightarrow> imap \<Rightarrow> int \<Rightarrow> interval_set exec" where
  "span_loop t s [] len = Ret s"
| "span_loop t s ((ps, pl) # rest) len =
     (if len > 0 then
        (if pl < len then exec_bind (insert_range t s ps pl) (\<lambda>s'. span_loop t s' rest (t_wrap t (len - pl)))
         else insert_range t s ps len)
      else Ret s)"

definition span_of :: "num_type \<Rightarrow> interval_set \<Rightarrow> int \<Rightarrow> int \<Rightarrow> interval_set exec" where
  "span_of t other start len =
     (case drop (find_inc t (i_m other) start) (i_m other) of
        [] \<Rightarrow> Ret iset_empty
      | (ps, pl) # rest \<Rightarrow>
          if ps < start then
            (if t_wrap t (ps + pl) < start then Ret iset_empty
             else if t_wrap t (ps + pl) < t_wrap t (start + len) then
               (let howmuch = t_wrap t (pl - (start - ps)) in
                exec_bind (insert_range t iset_empty start howmuch) (\<lambda>s. span_loop t s rest (t_wrap t (len - howmuch))))
             else insert_range t iset_empty start len)
          else span_loop t iset_empty ((ps, pl) # rest) len)"

section \<open>Well-formed maps\<close>

definition imap_ok :: "imap \<Rightarrow> bool" where
  "imap_ok m \<longleftrightarrow> sorted_wrt (\<lambda>p q. iv_end T_ideal p < fst q) m \<and> (\<forall>p \<in> set m. 0 < snd p)"

definition members :: "imap \<Rightarrow> int set" where
  "members m = (\<Union>p \<in> set m. {fst p..<iv_end T_ideal p})"

definition lengths :: "imap \<Rightarrow> int" where
  "lengths m = sum_list (map snd m)"

lemma members_simps [simp]:
  "members [] = {}" "members (p # m) = {fst p..<iv_end T_ideal p} \<union> members m" "members (m @ m') = members m \<union> members m'"
  by (auto simp: members_def)

lemma lengths_simps [simp]:
  "lengths [] = 0" "lengths (p # m) = snd p + lengths m" "lengths (m @ m') = lengths m + lengths m'"
  by (simp_all add: lengths_def)

lemma iv_end_pair [simp]: "iv_end T_ideal (s, l) = s + l"
  by (simp add: iv_end_def)

lemma iv_end_gt: "0 < snd p \<Longrightarrow> fst p < iv_end T_ideal p"
  by (simp add: iv_end_def)

lemma imap_ok_Nil [simp]: "imap_ok []"
  by (simp add: imap_ok_def)

lemma imap_ok_Cons: "imap_ok (p # m) \<longleftrightarrow> 0 < snd p \<and> (\<forall>q \<in> set m. iv_end T_ideal p < fst q) \<and> imap_ok m"
  by (auto simp: imap_ok_def)

lemma imap_ok_append:
  "imap_ok (m @ m') \<longleftrightarrow> imap_ok m \<and> imap_ok m' \<and> (\<forall>p \<in> set m. \<forall>q \<in> set m'. iv_end T_ideal p < fst q)"
  by (auto simp: imap_ok_def sorted_wrt_append)

lemmas imap_ok_simps = imap_ok_Cons imap_ok_append

lemma finite_members [simp]: "finite (members m)"
  by (simp add: members_def)

text \<open>The ends of the intervals are in order as well, so that an iterator splits the map by them.\<close>

lemma find_split:
  assumes "imap_ok m"
  obtains xs ys where "m = xs @ ys" "\<forall>p \<in> set xs. fst p < k" "\<forall>p \<in> set ys. k \<le> fst p" "lower_bound m k = length xs"
proof
  let ?P = "\<lambda>(s, l). s < k"
  show "m = takeWhile ?P m @ dropWhile ?P m" by simp
  show "\<forall>p \<in> set (takeWhile ?P m). fst p < k" by (auto dest: set_takeWhileD)
  show "\<forall>p \<in> set (dropWhile ?P m). k \<le> fst p"
  proof (cases "dropWhile ?P m")
    case (Cons q qs)
    then have "\<not> ?P q" by (metis hd_dropWhile list.distinct(1) list.sel(1))
    moreover have "imap_ok (q # qs)" using assms Cons by (metis imap_ok_append takeWhile_dropWhile_id)
    ultimately show ?thesis using Cons iv_end_gt [of q] by (fastforce simp: imap_ok_Cons)
  next
    case Nil
    then show ?thesis by (simp only: Nil) simp
  qed
qed (simp add: lower_bound_def)

lemma find_eq:
  assumes "imap_ok m"
  shows "find_inc T_ideal m k = length (takeWhile (\<lambda>p. iv_end T_ideal p \<le> k) m)"
    "find_adj T_ideal m k = length (takeWhile (\<lambda>p. iv_end T_ideal p < k) m)"
proof -
  obtain xs ys where m: "m = xs @ ys" "\<forall>p \<in> set xs. fst p < k" "\<forall>p \<in> set ys. k \<le> fst p" "lower_bound m k = length xs"
    using find_split [OF assms] by blast
  have ys: "\<forall>p \<in> set ys. k < iv_end T_ideal p"
    using m(3) assms iv_end_gt by (fastforce simp: m(1) imap_ok_def)
  then have stop: "takeWhile (\<lambda>p. iv_end T_ideal p \<le> k) ys = []" "takeWhile (\<lambda>p. iv_end T_ideal p < k) ys = []"
    by (cases ys; simp)+
  have nxt: "ys = [] \<or> k < fst (ys ! 0)" if "\<not> (length ys \<noteq> 0 \<and> fst (ys ! 0) \<le> k)" using that by auto
  show "find_inc T_ideal m k = length (takeWhile (\<lambda>p. iv_end T_ideal p \<le> k) m)" "find_adj T_ideal m k = length (takeWhile (\<lambda>p. iv_end T_ideal p < k) m)"
  proof (atomize (full), cases xs rule: rev_cases)
    case Nil
    then show "find_inc T_ideal m k = length (takeWhile (\<lambda>p. iv_end T_ideal p \<le> k) m) \<and> find_adj T_ideal m k = length (takeWhile (\<lambda>p. iv_end T_ideal p < k) m)"
      using m stop by (simp add: find_inc_def find_adj_def)
  next
    case (snoc us u)
    have us: "\<forall>p \<in> set us. iv_end T_ideal p < k"
      using assms m(2) by (force simp: m(1) snoc imap_ok_simps)
    have exact: "iv_end T_ideal u < k" if "ys \<noteq> []" "fst (ys ! 0) \<le> k"
      using that assms by (cases ys) (auto simp: m(1) snoc imap_ok_simps)
    have "takeWhile (\<lambda>p. iv_end T_ideal p \<le> k) (us @ u # ys) = us @ (if iv_end T_ideal u \<le> k then [u] else [])"
      "takeWhile (\<lambda>p. iv_end T_ideal p < k) (us @ u # ys) = us @ (if iv_end T_ideal u < k then [u] else [])"
      using us stop by (auto simp: takeWhile_append)
    then show "find_inc T_ideal m k = length (takeWhile (\<lambda>p. iv_end T_ideal p \<le> k) m) \<and> find_adj T_ideal m k = length (takeWhile (\<lambda>p. iv_end T_ideal p < k) m)"
      using m exact by (cases ys) (auto simp: find_inc_def find_adj_def Let_def snoc nth_append order_le_less)
  qed
qed

text \<open>The split of the map at the iterator that \<open>find_inc\<close> or \<open>find_adj\<close> returns.\<close>

lemma takeWhile_ends:
  assumes "imap_ok m" "\<And>p q. P q \<Longrightarrow> iv_end T_ideal p < iv_end T_ideal q \<Longrightarrow> P p"
  shows "\<forall>p \<in> set (dropWhile P m). \<not> P p"
proof (cases "dropWhile P m")
  case (Cons q qs)
  then have q: "\<not> P q" by (metis hd_dropWhile list.distinct(1) list.sel(1))
  have "imap_ok (q # qs)" using assms(1) Cons by (metis imap_ok_append takeWhile_dropWhile_id)
  then have "iv_end T_ideal q < iv_end T_ideal p" if "p \<in> set qs" for p
    using that iv_end_gt [of p] by (fastforce simp: imap_ok_def)
  then have "\<not> P p" if "p \<in> set qs" for p using that q assms(2) by blast
  then show ?thesis using q by (simp only: Cons) simp
next
  case Nil
  then show ?thesis by (simp only: Nil) simp
qed

lemma find_inc_split:
  assumes "imap_ok m"
  obtains xs ys where "m = xs @ ys" "find_inc T_ideal m k = length xs" "\<forall>p \<in> set xs. iv_end T_ideal p \<le> k" "\<forall>p \<in> set ys. k < iv_end T_ideal p"
proof
  let ?P = "\<lambda>p. iv_end T_ideal p \<le> k"
  show "m = takeWhile ?P m @ dropWhile ?P m" by simp
  show "\<forall>p \<in> set (takeWhile ?P m). iv_end T_ideal p \<le> k" by (auto dest: set_takeWhileD)
  show "\<forall>p \<in> set (dropWhile ?P m). k < iv_end T_ideal p" using takeWhile_ends [OF assms, of ?P] by fastforce
qed (simp add: find_eq [OF assms])

lemma find_adj_split:
  assumes "imap_ok m"
  obtains xs ys where "m = xs @ ys" "find_adj T_ideal m k = length xs" "\<forall>p \<in> set xs. iv_end T_ideal p < k" "\<forall>p \<in> set ys. k \<le> iv_end T_ideal p"
proof
  let ?P = "\<lambda>p. iv_end T_ideal p < k"
  show "m = takeWhile ?P m @ dropWhile ?P m" by simp
  show "\<forall>p \<in> set (takeWhile ?P m). iv_end T_ideal p < k" by (auto dest: set_takeWhileD)
  show "\<forall>p \<in> set (dropWhile ?P m). k \<le> iv_end T_ideal p" using takeWhile_ends [OF assms, of ?P] by fastforce
qed (simp add: find_eq [OF assms])

section \<open>Updating the map\<close>

text \<open>The new interval follows the one at the iterator, and may join it with the next.\<close>

lemma insert_map_after:
  assumes ok: "imap_ok (xs @ (ps, pl) # zs)" and p: "find_adj T_ideal (xs @ (ps, pl) # zs) start = length xs" and len: "0 < len"
    and e: "ps < start" "ps + pl = start" and away: "\<forall>q \<in> set zs. start + len \<le> fst q"
  shows "\<exists>m'. insert_map T_ideal (xs @ (ps, pl) # zs) start len = Ret m' \<and> imap_ok m' \<and>
    members m' = members (xs @ (ps, pl) # zs) \<union> {start..<start + len} \<and> lengths m' = lengths (xs @ (ps, pl) # zs) + len"
proof (cases "zs \<noteq> [] \<and> start + len = fst (hd zs)")
  case True
  then obtain l ws where w: "zs = (start + len, l) # ws" by (cases zs) auto
  have "iv_end T_ideal q < ps" "0 < snd q" if "q \<in> set xs" for q using ok that by (auto simp: imap_ok_def sorted_wrt_append)
  then have pos: "\<forall>q \<in> set xs. fst q < ps" by (metis iv_end_gt order.strict_trans)
  have "insert_map T_ideal (xs @ (ps, pl) # zs) start len = Ret (map_del ((xs @ [(ps, pl + len + l)]) @ (start + len, l) # ws) (start + len))"
    using p e w by (simp add: insert_map_def nth_append)
  also have "map_del ((xs @ [(ps, pl + len + l)]) @ (start + len, l) # ws) (start + len) = (xs @ [(ps, pl + len + l)]) @ ws"
    using pos e len ok w by (intro map_del_between) (fastforce simp: imap_ok_simps)+
  finally show ?thesis using ok len e w by (auto simp: imap_ok_simps)
next
  case False
  then have run: "insert_map T_ideal (xs @ (ps, pl) # zs) start len = Ret (xs @ (ps, pl + len) # zs)"
    using p e by (cases zs) (auto simp: insert_map_def nth_append)
  have "start + len < fst q" if q: "q \<in> set zs" for q
  proof -
    obtain z ws where z: "zs = z # ws" using q by (cases zs) auto
    then have "start + len < fst z" using away False by fastforce
    moreover have "fst z < iv_end T_ideal z" using ok z by (simp add: imap_ok_simps iv_end_gt)
    moreover have "iv_end T_ideal z < fst p" if "p \<in> set ws" for p using that ok z by (simp add: imap_ok_simps)
    ultimately show ?thesis using q z by fastforce
  qed
  then have "\<forall>q \<in> set zs. ps + (pl + len) < fst q" using e by (metis add.assoc)
  then show ?thesis using run ok len e by (auto simp: imap_ok_simps)
qed

text \<open>The new interval is in front of the one at the iterator, and may join it.\<close>

lemma insert_map_before:
  assumes ok: "imap_ok (xs @ (ps, pl) # zs)" and p: "find_adj T_ideal (xs @ (ps, pl) # zs) start = length xs" and len: "0 < len"
    and xs: "\<forall>q \<in> set xs. iv_end T_ideal q < start" "\<forall>q \<in> set xs. fst q < start" and far: "start + len \<le> ps"
  shows "\<exists>m'. insert_map T_ideal (xs @ (ps, pl) # zs) start len = Ret m' \<and> imap_ok m' \<and>
    members m' = members (xs @ (ps, pl) # zs) \<union> {start..<start + len} \<and> lengths m' = lengths (xs @ (ps, pl) # zs) + len"
proof -
  have pl: "0 < pl" "\<forall>q \<in> set zs. ps + pl < fst q" using ok by (simp_all add: imap_ok_simps)
  then have ys: "\<forall>q \<in> set ((ps, pl) # zs). start < fst q" using far len by fastforce
  show ?thesis
  proof (cases "start + len = ps")
    case True
    have "insert_map T_ideal (xs @ (ps, pl) # zs) start len = Ret (map_del ((xs @ [(start, len + pl)]) @ (ps, pl) # zs) ps)"
      using p far len True map_put_between [OF xs(2) ys] by (simp add: insert_map_def)
    also have "map_del ((xs @ [(start, len + pl)]) @ (ps, pl) # zs) ps = (xs @ [(start, len + pl)]) @ zs"
      using xs(2) True len pl by (intro map_del_between) fastforce+
    finally show ?thesis using ok xs True len by (auto simp: imap_ok_simps)
  next
    case False
    then have "insert_map T_ideal (xs @ (ps, pl) # zs) start len = Ret (xs @ (start, len) # (ps, pl) # zs)"
      using p far len map_put_between [OF xs(2) ys] by (simp add: insert_map_def)
    then show ?thesis using ok xs far False len pl by (fastforce simp: imap_ok_simps)
  qed
qed

lemma insert_map_correct:
  assumes ok: "imap_ok m" and len: "0 < len" and disj: "{start..<start + len} \<inter> members m = {}"
  shows "\<exists>m'. insert_map T_ideal m start len = Ret m' \<and> imap_ok m' \<and> members m' = members m \<union> {start..<start + len} \<and>
    lengths m' = lengths m + len"
proof -
  obtain xs ys where m: "m = xs @ ys" and p: "find_adj T_ideal m start = length xs"
    and xs: "\<forall>p \<in> set xs. iv_end T_ideal p < start" and ys: "\<forall>p \<in> set ys. start \<le> iv_end T_ideal p"
    using find_adj_split [OF ok, of start] by metis
  have pos: "\<forall>p \<in> set m. fst p < iv_end T_ideal p" using ok iv_end_gt by (auto simp: imap_ok_def)
  have xs': "\<forall>p \<in> set xs. fst p < start" using xs pos m by (metis UnCI dual_order.strict_trans set_append)
  have away: "start + len \<le> fst p \<or> iv_end T_ideal p \<le> start" if "p \<in> set m" for p
  proof (rule ccontr)
    assume "\<not> ?thesis"
    then have "max start (fst p) \<in> {start..<start + len} \<inter> {fst p..<iv_end T_ideal p}" using len pos that by auto
    moreover have "{fst p..<iv_end T_ideal p} \<subseteq> members m" using that by (auto simp: members_def)
    ultimately show False using disj by blast
  qed
  show ?thesis
  proof (cases ys)
    case Nil
    then have "insert_map T_ideal m start len = Ret (xs @ [(start, len)])"
      using p m map_put_between [OF xs', of "[]"] by (simp add: insert_map_def)
    then show ?thesis using ok xs len m Nil by (auto simp: imap_ok_simps)
  next
    case (Cons q zs)
    obtain ps pl where q: "q = (ps, pl)" by (cases q)
    have zs: "\<forall>p \<in> set zs. ps + pl < fst p" using ok m Cons q by (simp add: imap_ok_simps)
    show ?thesis
    proof (cases "ps < start")
      case True
      then have e: "ps + pl = start" using away [of q] ys m Cons q len by auto
      have "start + len \<le> fst p" if "p \<in> set zs" for p
        using away [of p] pos zs that e m Cons by (metis UnCI list.set_intros(2) not_le order.strict_trans2 set_append less_asym)
      then show ?thesis using insert_map_after [of xs ps pl zs start len] ok p len True e m Cons q by blast
    next
      case False
      then have "start + len \<le> ps" using away [of q] m Cons q pos by auto
      then show ?thesis using insert_map_before [of xs ps pl zs start len] ok p len xs xs' m Cons q by blast
    qed
  qed
qed

text \<open>The interval that holds a member is where \<open>find_inc\<close> points.\<close>

lemma find_inc_member:
  assumes "imap_ok m" "x \<in> members m"
  obtains xs ps pl zs where "m = xs @ (ps, pl) # zs" "find_inc T_ideal m x = length xs" "ps \<le> x" "x < ps + pl"
proof -
  obtain xs ys where m: "m = xs @ ys" "find_inc T_ideal m x = length xs" "\<forall>p \<in> set xs. iv_end T_ideal p \<le> x" "\<forall>p \<in> set ys. x < iv_end T_ideal p"
    using find_inc_split [OF assms(1)] by metis
  then obtain q where q: "q \<in> set ys" "fst q \<le> x" using assms(2) by (fastforce simp: members_def)
  then obtain y zs where y: "ys = y # zs" by (cases ys) auto
  have "fst y \<le> x"
  proof (cases "q = y")
    case False
    then have "iv_end T_ideal y < fst q" "0 < snd y" using q y assms(1) m(1) by (auto simp: imap_ok_simps)
    then show ?thesis using q iv_end_gt [of y] by simp
  qed (use q in simp)
  then show thesis using that [of xs "fst y" "snd y" zs] m y by (simp add: iv_end_def)
qed

lemma find_inc_not_member:
  assumes "imap_ok m" "x \<notin> members m"
  obtains xs ys where "m = xs @ ys" "find_inc T_ideal m x = length xs" "\<forall>p \<in> set xs. iv_end T_ideal p \<le> x" "\<forall>p \<in> set ys. x < fst p"
proof -
  obtain xs ys where m: "m = xs @ ys" "find_inc T_ideal m x = length xs" "\<forall>p \<in> set xs. iv_end T_ideal p \<le> x" "\<forall>p \<in> set ys. x < iv_end T_ideal p"
    using find_inc_split [OF assms(1)] by metis
  then have "\<forall>p \<in> set ys. x < fst p" using assms(2) by (fastforce simp: members_def)
  then show thesis using that m by blast
qed

lemma contains_iff:
  assumes "imap_ok (i_m s)"
  shows "contains T_ideal s x \<longleftrightarrow> x \<in> members (i_m s)"
proof (cases "x \<in> members (i_m s)")
  case True
  from find_inc_member [OF assms True] show ?thesis
    by (metis (no_types, lifting) True append_Cons append_is_Nil_conv contains_def fst_conv iv_end_pair leD length_append_singleton
        length_append less_add_same_cancel1 length_greater_0_conv list.distinct(1) nat_neq_iff nth_append_length)
next
  case False
  from find_inc_not_member [OF assms False] obtain xs ys where
    m: "i_m s = xs @ ys" "find_inc T_ideal (i_m s) x = length xs" "\<forall>p \<in> set ys. x < fst p" by metis
  then show ?thesis using False by (cases ys) (auto simp: contains_def Let_def)
qed

lemma block_in_interval:
  assumes "imap_ok (xs @ (ps, pl) # zs)" "{start..<start + len} \<subseteq> members (xs @ (ps, pl) # zs)" "ps \<le> start" "start < ps + pl" "0 < len"
  shows "start + len \<le> ps + pl"
proof (rule ccontr)
  assume "\<not> ?thesis"
  then have "ps + pl \<in> {start..<start + len}" using assms(4) by simp
  then have "ps + pl \<in> members (xs @ (ps, pl) # zs)" using assms(2) by blast
  moreover have "iv_end T_ideal p \<le> ps + pl \<or> ps + pl < fst p" if "p \<in> set (xs @ (ps, pl) # zs)" for p
    using that assms(1) by (fastforce simp: imap_ok_simps)
  ultimately show False by (fastforce simp: members_def)
qed

lemma contains_range_iff:
  assumes "imap_ok (i_m s)" "0 < len"
  shows "contains_range T_ideal s start len \<longleftrightarrow> {start..<start + len} \<subseteq> members (i_m s)"
proof (cases "start \<in> members (i_m s)")
  case True
  obtain xs ps pl zs where m: "i_m s = xs @ (ps, pl) # zs" "find_inc T_ideal (i_m s) start = length xs" "ps \<le> start" "start < ps + pl"
    using find_inc_member [OF assms(1) True] by metis
  have "start + len \<le> ps + pl \<longleftrightarrow> {start..<start + len} \<subseteq> members (i_m s)"
    using block_in_interval [of xs ps pl zs start len] assms m by (auto simp: subset_iff)
  then show ?thesis using m by (auto simp: contains_range_def Let_def)
next
  case False
  obtain xs ys where m: "i_m s = xs @ ys" "find_inc T_ideal (i_m s) start = length xs" "\<forall>p \<in> set ys. start < fst p"
    using find_inc_not_member [OF assms(1) False] by metis
  have "start \<in> {start..<start + len}" using assms(2) by simp
  then have "\<not> {start..<start + len} \<subseteq> members (i_m s)" using False by blast
  then show ?thesis using m by (cases ys) (simp_all add: contains_range_def Let_def)
qed

section \<open>Well-formed sets\<close>

definition iset_ok :: "interval_set \<Rightarrow> bool" where
  "iset_ok s \<longleftrightarrow> imap_ok (i_m s) \<and> i_size s = lengths (i_m s)"

definition iset :: "interval_set \<Rightarrow> int set" where
  "iset s = members (i_m s)"

lemma iset_empty [simp]: "iset_ok iset_empty" "iset iset_empty = {}"
  by (simp_all add: iset_ok_def iset_def iset_empty_def)

lemma lengths_card: "imap_ok m \<Longrightarrow> lengths m = int (card (members m))"
proof (induction m)
  case (Cons p m)
  then have "{fst p..<iv_end T_ideal p} \<inter> members m = {}" by (fastforce simp: members_def imap_ok_Cons)
  then show ?case using Cons by (simp add: card_Un_disjoint imap_ok_Cons iv_end_def)
qed simp

lemma insert_range_ideal:
  assumes "iset_ok s" "0 < len" "{start..<start + len} \<inter> iset s = {}"
  shows "exec_post (insert_range T_ideal s start len) (\<lambda>s'. iset_ok s' \<and> iset s' = iset s \<union> {start..<start + len})"
  using insert_map_correct [of "i_m s" len start] assms
  by (auto simp: iset_ok_def iset_def insert_range_def exec_post_def)

lemma erase_range_ideal:
  assumes "iset_ok s" "0 < len" "{start..<start + len} \<subseteq> iset s"
  shows "exec_post (erase_range T_ideal s start len) (\<lambda>s'. iset_ok s' \<and> iset s' = iset s - {start..<start + len})"
proof -
  have ok: "imap_ok (i_m s)" and sub: "{start..<start + len} \<subseteq> members (i_m s)"
    using assms by (simp_all add: iset_ok_def iset_def)
  have "start \<in> members (i_m s)" using sub assms(2) by auto
  then obtain xs ps pl zs where m: "i_m s = xs @ (ps, pl) # zs" and p: "find_inc T_ideal (i_m s) start = length xs"
    and ps: "ps \<le> start" "start < ps + pl" using find_inc_member [OF ok] by metis
  have le: "start + len \<le> ps + pl" using block_in_interval [of xs ps pl zs start len] ok sub m ps assms(2) by simp
  have pos: "fst q < iv_end T_ideal q" if "q \<in> set (i_m s)" for q using ok that iv_end_gt by (auto simp: imap_ok_def)
  have xs: "\<forall>q \<in> set xs. iv_end T_ideal q < ps" "\<forall>q \<in> set xs. fst q < ps" and zs: "\<forall>q \<in> set zs. ps + pl < fst q"
    using ok pos m by (fastforce simp: imap_ok_simps)+
  have sz: "0 \<le> i_size s - len"
  proof -
    have "0 \<le> lengths xs" "0 \<le> lengths zs" using ok m by (simp_all add: imap_ok_simps lengths_card)
    then show ?thesis using assms(1) m le ps by (simp add: iset_ok_def)
  qed
  let ?b = "start - ps" and ?a = "pl - (start - ps) - len"
  let ?m1 = "xs @ (if ?b \<noteq> 0 then [(ps, ?b)] else [])"
  have m1: "(if ?b \<noteq> 0 then (i_m s)[length xs := (ps, ?b)] else map_del (i_m s) ps) = ?m1 @ zs"
    using m xs zs pos map_del_between [of xs ps zs pl] ps by fastforce
  have put: "?a \<noteq> 0 \<Longrightarrow> map_put (?m1 @ zs) (start + len) ?a = ?m1 @ (start + len, ?a) # zs"
    using xs zs ps le assms(2) by (intro map_put_between) (auto split: if_splits)
  have run: "erase_range T_ideal s start len = Ret \<lparr>i_m = ?m1 @ (if ?a \<noteq> 0 then [(start + len, ?a)] else []) @ zs, i_size = i_size s - len\<rparr>"
  proof -
    have at: "fst (i_m s ! find_inc T_ideal (i_m s) start) = ps" "snd (i_m s ! find_inc T_ideal (i_m s) start) = pl"
      "find_inc T_ideal (i_m s) start \<noteq> length (i_m s)" using p m by simp_all
    show ?thesis
      using sz le ps put unfolding erase_range_def Let_def at t_wrap.simps size_wrap.simps m1 [folded p] using at(3) by (cases "start = ps") simp_all
  qed
  have "imap_ok (?m1 @ (if ?a \<noteq> 0 then [(start + len, ?a)] else []) @ zs)"
    using ok xs zs ps le assms(2) m by (auto simp: imap_ok_simps)
  moreover have "members (?m1 @ (if ?a \<noteq> 0 then [(start + len, ?a)] else []) @ zs) = members (i_m s) - {start..<start + len}"
  proof -
    have "members xs \<inter> {start..<start + len} = {}" "members zs \<inter> {start..<start + len} = {}"
      using xs zs ps le by (fastforce simp: members_def)+
    then show ?thesis using ps le m assms(2) by auto
  qed
  ultimately show ?thesis using run assms(1) m by (simp add: iset_ok_def iset_def)
qed

section \<open>Sets of a machine type\<close>

text \<open>
  The members for which no sum of the operations overflows.  The end of an interval has to be a value of
  the type as well, and the size has to be one of \<open>int64_t\<close>.
\<close>

fun t_dom :: "num_type \<Rightarrow> int set" where
  "t_dom T_int = {0..<2 ^ 31 - 1}"
| "t_dom T_uint64 = {0..<2 ^ 63 - 1}"
| "t_dom T_ideal = UNIV"

definition fits :: "num_type \<Rightarrow> interval_set \<Rightarrow> bool" where
  "fits t s \<longleftrightarrow> iset_ok s \<and> iset s \<subseteq> t_dom t"

definition t_lim :: "num_type \<Rightarrow> int" where
  "t_lim t = (if t = T_int then 2 ^ 31 - 1 else 2 ^ 63 - 1)"

lemma to_s64_id: "- (2 ^ 63) \<le> x \<Longrightarrow> x < 2 ^ 63 \<Longrightarrow> to_s64 x = x"
  by (simp add: to_s64_def int_word_sint)

lemma t_dom_eq: "t \<noteq> T_ideal \<Longrightarrow> t_dom t = {0..<t_lim t}"
  by (cases t) (simp_all add: t_lim_def)

lemma wrap_id:
  assumes "0 \<le> x" "x \<le> t_lim t"
  shows "t_wrap t x = x" "size_wrap t x = x"
proof -
  have "x < 2 ^ 63" "t = T_int \<Longrightarrow> x < 2 ^ 31"
    using assms(2) by (auto simp: t_lim_def split: if_splits)
  then show "t_wrap t x = x" "size_wrap t x = x"
    using assms(1) by (cases t; simp add: to_s32_id to_s64_id)+
qed

lemma block_dom:
  assumes "t \<noteq> T_ideal" "0 < len"
  shows "{start..<start + len} \<subseteq> t_dom t \<longleftrightarrow> 0 \<le> start \<and> start + len \<le> t_lim t"
  using assms by (auto simp: t_dom_eq)

lemma fits_empty [simp]: "fits t iset_empty"
  by (simp add: fits_def)

text \<open>A map whose intervals lie in the type.\<close>

definition imap_fits :: "num_type \<Rightarrow> imap \<Rightarrow> bool" where
  "imap_fits t m \<longleftrightarrow> (\<forall>p \<in> set m. 0 \<le> fst p \<and> 0 < snd p \<and> fst p + snd p \<le> t_lim t)"

lemma fits_imap:
  assumes "t \<noteq> T_ideal" "imap_ok m" "members m \<subseteq> t_dom t"
  shows "imap_fits t m"
  unfolding imap_fits_def
proof
  fix p
  assume p: "p \<in> set m"
  then have "0 < snd p" "{fst p..<fst p + snd p} \<subseteq> t_dom t"
    using assms(2,3) by (auto simp: imap_ok_def members_def iv_end_def)
  then show "0 \<le> fst p \<and> 0 < snd p \<and> fst p + snd p \<le> t_lim t"
    using block_dom [OF assms(1)] by simp
qed

lemma iv_end_fits: "0 \<le> fst p \<Longrightarrow> 0 < snd p \<Longrightarrow> fst p + snd p \<le> t_lim t \<Longrightarrow> iv_end t p = iv_end T_ideal p"
  by (simp add: iv_end_def wrap_id)

lemma imap_fits_nth:
  assumes "imap_fits t m" "i < length m"
  shows "0 \<le> fst (m ! i)" "0 < snd (m ! i)" "fst (m ! i) + snd (m ! i) \<le> t_lim t" "iv_end t (m ! i) = iv_end T_ideal (m ! i)"
  using assms by (auto simp: imap_fits_def iv_end_fits)

lemma find_fits:
  assumes "imap_fits t m"
  shows "find_inc t m k = find_inc T_ideal m k" "find_adj t m k = find_adj T_ideal m k"
proof -
  have "lower_bound m k - 1 < length m" if "lower_bound m k \<noteq> 0"
  proof -
    have "lower_bound m k \<le> length m" by (simp add: lower_bound_def length_takeWhile_le)
    then show ?thesis using that by linarith
  qed
  then show "find_inc t m k = find_inc T_ideal m k" "find_adj t m k = find_adj T_ideal m k"
    using imap_fits_nth(4) [OF assms] by (simp_all add: find_inc_def find_adj_def Let_def)
qed

lemma find_le: "find_inc t m k \<le> length m" "find_adj t m k \<le> length m"
  using length_takeWhile_le [of "\<lambda>(s, l). s < k" m] by (auto simp: find_inc_def find_adj_def lower_bound_def Let_def)

lemma insert_map_fits:
  assumes m: "imap_fits t m" and new: "0 \<le> start" "0 < len" "start + len \<le> t_lim t"
  shows "insert_map t m start len = insert_map T_ideal m start len"
proof (cases "find_adj T_ideal m start = length m")
  case True
  then show ?thesis by (simp add: insert_map_def find_fits [OF m] Let_def)
next
  case False
  define p where "p = find_adj T_ideal m start"
  have p: "p < length m" using False find_le(2) [of T_ideal m start] by (simp add: p_def)
  obtain ps pl where at: "m ! p = (ps, pl)" by (cases "m ! p")
  have b: "0 \<le> ps" "0 < pl" "ps + pl \<le> t_lim t" using imap_fits_nth(1-3) [OF m p] by (simp_all add: at)
  have e: "t_wrap t (ps + pl) = ps + pl" "t_wrap t (start + len) = start + len"
    using b new by (simp_all add: wrap_id)
  have app: "t_wrap t (pl + len) = pl + len" if "ps + pl = start" using that b new by (simp add: wrap_id)
  have joined: "t_wrap t (pl + len + snd (m ! Suc p)) = pl + len + snd (m ! Suc p)"
    if "ps + pl = start" "Suc p < length m" "start + len = fst (m ! Suc p)"
    using that b new imap_fits_nth [OF m that(2)] by (intro wrap_id) linarith+
  have front: "t_wrap t (len + pl) = len + pl" if "start + len = ps" using that b new by (simp add: wrap_id)
  show ?thesis
    using app joined front e unfolding insert_map_def find_fits [OF m] p_def [symmetric] Let_def at
    by (auto simp: p_def [symmetric])
qed

lemma fits_size: "fits t s \<Longrightarrow> t \<noteq> T_ideal \<Longrightarrow> 0 \<le> i_size s \<and> i_size s \<le> t_lim t"
proof -
  assume s: "fits t s" "t \<noteq> T_ideal"
  then have "card (iset s) \<le> card {0..<t_lim t}"
    by (intro card_mono) (auto simp: fits_def t_dom_eq)
  moreover have "0 \<le> t_lim t" by (simp add: t_lim_def)
  ultimately show ?thesis using s by (simp add: fits_def iset_ok_def iset_def lengths_card)
qed

lemma insert_range_correct:
  assumes "fits t s" "0 < len" "{start..<start + len} \<inter> iset s = {}" "{start..<start + len} \<subseteq> t_dom t"
  shows "exec_post (insert_range t s start len) (\<lambda>s'. fits t s' \<and> iset s' = iset s \<union> {start..<start + len})"
proof -
  obtain s' where s': "insert_range T_ideal s start len = Ret s'" "iset_ok s'" "iset s' = iset s \<union> {start..<start + len}"
    using insert_range_ideal [of s len start] assms by (auto simp: fits_def exec_post_def)
  then have ok: "fits t s'" using assms(1,4) by (auto simp: fits_def)
  show ?thesis
  proof (cases "t = T_ideal")
    case True
    then show ?thesis using s' ok by simp
  next
    case False
    have "imap_fits t (i_m s)" using fits_imap [OF False] assms(1) by (simp add: fits_def iset_ok_def iset_def)
    moreover have "i_size s' = i_size s + len" using s'(1) assms(2) by (auto simp: insert_range_def)
    ultimately have "insert_range t s start len = Ret s'"
      using s'(1) insert_map_fits [of t "i_m s" start len] assms(2,4) block_dom [OF False assms(2)] fits_size [OF ok False]
      by (auto simp: insert_range_def wrap_id)
    then show ?thesis using s' ok by simp
  qed
qed

lemma erase_range_correct:
  assumes "fits t s" "0 < len" "{start..<start + len} \<subseteq> iset s"
  shows "exec_post (erase_range t s start len) (\<lambda>s'. fits t s' \<and> iset s' = iset s - {start..<start + len})"
proof -
  obtain s' where s': "erase_range T_ideal s start len = Ret s'" "iset_ok s'" "iset s' = iset s - {start..<start + len}"
    using erase_range_ideal [of s len start] assms by (auto simp: fits_def exec_post_def)
  then have ok: "fits t s'" using assms(1) by (auto simp: fits_def)
  show ?thesis
  proof (cases "t = T_ideal")
    case True
    then show ?thesis using s' ok by simp
  next
    case False
    define p where "p = find_inc T_ideal (i_m s) start"
    have m: "imap_fits t (i_m s)" using fits_imap [OF False] assms(1) by (simp add: fits_def iset_ok_def iset_def)
    have run: "p \<noteq> length (i_m s)" "fst (i_m s ! p) \<le> start" "start - fst (i_m s ! p) + len \<le> snd (i_m s ! p)"
      "i_size s' = i_size s - len"
      using s'(1) by (auto simp: erase_range_def p_def Let_def not_less split: if_splits)
    then have p: "p < length (i_m s)" using find_le(1) [of T_ideal "i_m s" start] by (simp add: p_def)
    note at = imap_fits_nth [OF m p]
    have "t_wrap t (start - fst (i_m s ! p)) = start - fst (i_m s ! p)"
      "t_wrap t (start - fst (i_m s ! p) + len) = start - fst (i_m s ! p) + len"
      "t_wrap t (snd (i_m s ! p) - (start - fst (i_m s ! p)) - len) = snd (i_m s ! p) - (start - fst (i_m s ! p)) - len"
      "t_wrap t (start + len) = start + len"
      using run at assms(2) by (simp_all add: wrap_id)
    moreover have "size_wrap t (i_size s - len) = i_size s - len"
      using fits_size [OF ok False] run(4) by (simp add: wrap_id)
    ultimately have "erase_range t s start len = erase_range T_ideal s start len"
      unfolding erase_range_def find_fits [OF m] p_def [symmetric] Let_def by simp
    then show ?thesis using s' ok by simp
  qed
qed

lemma subtract_map_correct:
  "fits t s \<Longrightarrow> imap_ok m \<Longrightarrow> members m \<subseteq> iset s \<Longrightarrow>
   exec_post (subtract_map t s m) (\<lambda>s'. fits t s' \<and> iset s' = iset s - members m)"
proof (induction m arbitrary: s)
  case (Cons p m)
  obtain st len where p: "p = (st, len)" by (cases p)
  have m: "0 < len" "imap_ok m" "\<forall>q \<in> set m. st + len < fst q" using Cons.prems p by (simp_all add: imap_ok_Cons)
  then have "members m \<inter> {st..<st + len} = {}" by (fastforce simp: members_def)
  then have "members m \<subseteq> iset s - {st..<st + len}" using Cons.prems(3) p by auto
  moreover obtain s1 where s1: "erase_range t s st len = Ret s1" "fits t s1" "iset s1 = iset s - {st..<st + len}"
    using erase_range_correct [OF Cons.prems(1) m(1), of st] Cons.prems(3) p by (auto simp: exec_post_def)
  ultimately show ?case using Cons.IH [OF s1(2) m(2)] p by (auto elim!: exec_post_mono)
qed simp

lemma insert_all_correct:
  "fits t s \<Longrightarrow> imap_ok m \<Longrightarrow> members m \<inter> iset s = {} \<Longrightarrow> members m \<subseteq> t_dom t \<Longrightarrow>
   exec_post (insert_all t s m) (\<lambda>s'. fits t s' \<and> iset s' = iset s \<union> members m)"
proof (induction m arbitrary: s)
  case (Cons p m)
  obtain st len where p: "p = (st, len)" by (cases p)
  have m: "0 < len" "imap_ok m" "\<forall>q \<in> set m. st + len < fst q" using Cons.prems p by (simp_all add: imap_ok_Cons)
  then have "members m \<inter> {st..<st + len} = {}" by (fastforce simp: members_def)
  then have "members m \<inter> (iset s \<union> {st..<st + len}) = {}" using Cons.prems(3) p by auto
  moreover obtain s1 where s1: "insert_range t s st len = Ret s1" "fits t s1" "iset s1 = iset s \<union> {st..<st + len}"
    using insert_range_correct [OF Cons.prems(1) m(1), of st] Cons.prems(3,4) p by (auto simp: exec_post_def)
  ultimately show ?case using Cons.IH [OF s1(2) m(2)] Cons.prems(4) p by (auto elim!: exec_post_mono)
qed simp

text \<open>The members of later intervals are above the end of the first.\<close>

lemma members_above: "imap_ok (p # m) \<Longrightarrow> x \<in> members m \<Longrightarrow> iv_end T_ideal p < x"
  by (fastforce simp: imap_ok_Cons members_def)

lemma members_from: "imap_ok (p # m) \<Longrightarrow> x \<in> members (p # m) \<Longrightarrow> fst p \<le> x"
  using members_above [of p m x] by (fastforce simp: imap_ok_Cons iv_end_def)

text \<open>The arithmetic on the ends of intervals that lie in the type.\<close>

lemma ends_dom:
  assumes "{fst p..<iv_end T_ideal p} \<subseteq> t_dom t" "0 < snd p"
  shows "iv_end t p = iv_end T_ideal p"
  using assms iv_end_fits [of p t] block_dom [of t "snd p" "fst p"] by (cases "t = T_ideal") (simp_all add: iv_end_def)

lemma part_dom:
  assumes "{x..<y} \<subseteq> t_dom t" "x < y" "0 \<le> n" "n \<le> y - x"
  shows "t_wrap t n = n"
proof (cases "t = T_ideal")
  case False
  then show ?thesis using assms block_dom [OF False, of "y - x" x] by (intro wrap_id) simp_all
qed simp

lemma intersection_loop_correct:
  "fits t s \<Longrightarrow> imap_ok pa \<Longrightarrow> imap_ok pb \<Longrightarrow> \<forall>x \<in> iset s. \<forall>y \<in> members pa \<inter> members pb. x < y \<Longrightarrow>
   members pa \<subseteq> t_dom t \<Longrightarrow> members pb \<subseteq> t_dom t \<Longrightarrow>
   exec_post (intersection_loop t s pa pb) (\<lambda>s'. fits t s' \<and> iset s' = iset s \<union> (members pa \<inter> members pb))"
proof (induction t s pa pb rule: intersection_loop.induct)
  case (3 t s a pa b pb)
  have ok: "imap_ok pa" "imap_ok pb" "fst a < iv_end T_ideal a" "fst b < iv_end T_ideal b"
    using "3.prems"(2,3) by (simp_all add: imap_ok_Cons iv_end_def)
  have sub: "members pa \<subseteq> t_dom t" "members pb \<subseteq> t_dom t" using "3.prems"(5,6) by simp_all
  have ends: "iv_end t a = iv_end T_ideal a" "iv_end t b = iv_end T_ideal b"
    using ends_dom [of a t] ends_dom [of b t] "3.prems"(2,3,5,6) by (simp_all add: imap_ok_Cons)
  note IH = "3.IH" [unfolded ends]
  note above = members_above [OF "3.prems"(2)] members_above [OF "3.prems"(3)]
  note from_ = members_from [OF "3.prems"(2)] members_from [OF "3.prems"(3)]
  consider (a) "iv_end T_ideal a \<le> fst b" | (b) "\<not> iv_end T_ideal a \<le> fst b" "iv_end T_ideal b \<le> fst a" | (both) "fst b < iv_end T_ideal a" "fst a < iv_end T_ideal b"
    by linarith
  then show ?case
  proof cases
    case a
    then have "members (a # pa) \<inter> members (b # pb) = members pa \<inter> members (b # pb)" using from_(2) by fastforce
    then show ?thesis using IH(1) [OF a "3.prems"(1) ok(1) "3.prems"(3)] "3.prems"(4,6) sub a by (simp add: ends)
  next
    case b
    then have "members (a # pa) \<inter> members (b # pb) = members (a # pa) \<inter> members pb" using from_(1) by fastforce
    then show ?thesis using IH(2) [OF b "3.prems"(1,2) ok(2)] "3.prems"(4,5) sub b by (simp add: ends)
  next
    case both
    let ?st = "max (fst a) (fst b)" and ?en = "min (iv_end T_ideal a) (iv_end T_ideal b)"
    have ne: "?st < ?en" using both ok by simp
    have blk: "{?st..<?st + (?en - ?st)} \<subseteq> members (a # pa) \<inter> members (b # pb)" by auto
    then have disj: "{?st..<?st + (?en - ?st)} \<inter> iset s = {}" using "3.prems"(4) by fastforce
    have dom: "{?st..<?st + (?en - ?st)} \<subseteq> t_dom t" using blk "3.prems"(5) by blast
    have w: "t_wrap t (?en - ?st) = ?en - ?st" using part_dom [of ?st ?en t "?en - ?st"] dom ne by simp
    from insert_range_correct [OF "3.prems"(1) _ disj dom] ne obtain s' where
      s': "insert_range t s ?st (?en - ?st) = Ret s'" "fits t s'" "iset s' = iset s \<union> {?st..<?en}"
      by (auto simp: exec_post_def)
    have run: "intersection_loop t s (a # pa) (b # pb) =
        (if iv_end T_ideal a > iv_end T_ideal b then intersection_loop t s' (a # pa) pb else intersection_loop t s' pa (b # pb))"
      using both ne s'(1) w by (simp add: Let_def ends)
    show ?thesis
    proof (cases "iv_end T_ideal a > iv_end T_ideal b")
      case True
      have ord: "\<forall>x \<in> iset s'. \<forall>y \<in> members (a # pa) \<inter> members pb. x < y" 
      proof (intro ballI)
        fix x y assume "x \<in> iset s'" "y \<in> members (a # pa) \<inter> members pb"
        then show "x < y" using s'(3) "3.prems"(4) above(2) [of y] True by auto
      qed
      have eq: "{?st..<?en} \<union> (members (a # pa) \<inter> members pb) = members (a # pa) \<inter> members (b # pb)"
      proof (rule set_eqI)
        fix x
        show "x \<in> {?st..<?en} \<union> (members (a # pa) \<inter> members pb) \<longleftrightarrow> x \<in> members (a # pa) \<inter> members (b # pb)"
          using True above(1) [of x] above(2) [of x] ok(3,4) by auto
      qed
      have "exec_post (intersection_loop t s' (a # pa) pb) (\<lambda>s''. fits t s'' \<and> iset s'' = iset s \<union> (members (a # pa) \<inter> members (b # pb)))"
        using IH(3) [OF _ _ refl refl ne True s'(2) "3.prems"(2) ok(2) ord "3.prems"(5) sub(2)] both unfolding s'(3) Un_assoc eq by (simp only: not_le)
      then show ?thesis unfolding run using True by (simp only: if_True if_False)
    next
      case False
      have ord: "\<forall>x \<in> iset s'. \<forall>y \<in> members pa \<inter> members (b # pb). x < y" 
      proof (intro ballI)
        fix x y assume "x \<in> iset s'" "y \<in> members pa \<inter> members (b # pb)"
        then show "x < y" using s'(3) "3.prems"(4) above(1) [of y] False by auto
      qed
      have eq: "{?st..<?en} \<union> (members pa \<inter> members (b # pb)) = members (a # pa) \<inter> members (b # pb)"
      proof (rule set_eqI)
        fix x
        show "x \<in> {?st..<?en} \<union> (members pa \<inter> members (b # pb)) \<longleftrightarrow> x \<in> members (a # pa) \<inter> members (b # pb)"
          using False above(1) [of x] above(2) [of x] ok(3,4) by auto
      qed
      have "exec_post (intersection_loop t s' pa (b # pb)) (\<lambda>s''. fits t s'' \<and> iset s'' = iset s \<union> (members (a # pa) \<inter> members (b # pb)))"
        using IH(4) [OF _ _ refl refl ne False s'(2) ok(1) "3.prems"(3) ord sub(1) "3.prems"(6)] both unfolding s'(3) Un_assoc eq by (simp only: not_le)
      then show ?thesis unfolding run using False by (simp only: if_True if_False)
    qed
  qed
qed simp_all

lemma intersection_of_correct:
  "fits t a \<Longrightarrow> fits t b \<Longrightarrow> exec_post (intersection_of t a b) (\<lambda>s. fits t s \<and> iset s = iset a \<inter> iset b)"
  using intersection_loop_correct [of t iset_empty "i_m a" "i_m b"]
  by (simp add: intersection_of_def fits_def [of t a] fits_def [of t b] iset_ok_def [of a] iset_ok_def [of b] iset_def [of a] iset_def [of b])

lemma subtract_correct:
  "fits t s \<Longrightarrow> iset_ok a \<Longrightarrow> iset a \<subseteq> iset s \<Longrightarrow>
   exec_post (subtract t s a) (\<lambda>s'. fits t s' \<and> iset s' = iset s - iset a)"
  using subtract_map_correct [of t s "i_m a"] by (simp add: subtract_def iset_ok_def [of a] iset_def [of a])

lemma insert_set_correct:
  "fits t s \<Longrightarrow> fits t a \<Longrightarrow> iset a \<inter> iset s = {} \<Longrightarrow>
   exec_post (insert_set t s a) (\<lambda>s'. fits t s' \<and> iset s' = iset s \<union> iset a)"
  using insert_all_correct [of t s "i_m a"]
  by (simp add: insert_set_def fits_def [of t a] iset_ok_def [of a] iset_def [of a])

lemma union_of_correct:
  assumes "fits t a" "fits t b"
  shows "exec_post (union_of t a b) (\<lambda>s. fits t s \<and> iset s = iset a \<union> iset b)"
proof -
  obtain ab where ab: "intersection_of t a b = Ret ab" "fits t ab" "iset ab = iset a \<inter> iset b"
    using intersection_of_correct [OF assms] by (auto simp: exec_post_def)
  obtain s where s: "subtract t a ab = Ret s" "fits t s" "iset s = iset a - iset b"
    using subtract_correct [OF assms(1), of ab] ab(2,3) by (auto simp: exec_post_def fits_def [of t ab])
  show ?thesis using insert_set_correct [OF s(2) assms(2)] s ab(1) by (auto simp: union_of_def elim!: exec_post_mono)
qed

lemma intersects_correct:
  assumes "fits t s" "0 < len" "{start..<start + len} \<subseteq> t_dom t"
  shows "intersects t s start len = Ret (iset s \<inter> {start..<start + len} \<noteq> {})"
proof -
  obtain a where a: "insert_range t iset_empty start len = Ret a" "fits t a" "iset a = {start..<start + len}"
    using insert_range_correct [of t iset_empty len start] assms(2,3) by (auto simp: exec_post_def)
  obtain i where i: "intersection_of t s a = Ret i" "fits t i" "iset i = iset s \<inter> iset a"
    using intersection_of_correct [OF assms(1) a(2)] by (auto simp: exec_post_def)
  have "i_m i = [] \<longleftrightarrow> iset i = {}"
    using i(2) by (cases "i_m i") (auto simp: fits_def iset_def iset_ok_def imap_ok_Cons iv_end_def)
  then show ?thesis using a i by (simp add: intersects_def)
qed

section \<open>Equal sets have equal representations\<close>

lemma first_interval:
  assumes "imap_ok (p # m)"
  shows "fst p \<in> members (p # m)" "\<forall>x \<in> members (p # m). fst p \<le> x" "iv_end T_ideal p \<notin> members (p # m)"
    "{fst p..<iv_end T_ideal p} \<subseteq> members (p # m)"
  using assms members_from [OF assms] members_above [OF assms] by (auto simp: imap_ok_Cons iv_end_def)

lemma imap_unique: "imap_ok m \<Longrightarrow> imap_ok m' \<Longrightarrow> members m = members m' \<Longrightarrow> m = m'"
proof (induction m arbitrary: m')
  case Nil
  then show ?case using first_interval(1) by (cases m') auto
next
  case (Cons p m)
  have "members (p # m) \<noteq> {}" using first_interval(1) [OF Cons.prems(1)] by blast
  then obtain p' n where m': "m' = p' # n" using Cons.prems(3) by (cases m') auto
  note f = first_interval [OF Cons.prems(1)] and f' = first_interval [OF Cons.prems(2) [unfolded m']]
  have mem: "members (p # m) = members (p' # n)" using Cons.prems(3) m' by simp
  have s: "fst p = fst p'" using f(1,2) f'(1,2) mem by (metis order_antisym)
  have "fst p < iv_end T_ideal p" "fst p' < iv_end T_ideal p'" using Cons.prems m' by (simp_all add: imap_ok_Cons iv_end_def)
  then have e: "iv_end T_ideal p = iv_end T_ideal p'" using f(3,4) f'(3,4) mem s
    by (metis atLeastLessThan_iff in_mono less_imp_le linorder_neqE)
  then have p: "p = p'" using s by (simp add: iv_end_def prod_eq_iff)
  have "members m = members (p # m) - {fst p..<iv_end T_ideal p}" "members n = members (p' # n) - {fst p'..<iv_end T_ideal p'}"
    using members_above [OF Cons.prems(1)] members_above [OF Cons.prems(2) [unfolded m']] by fastforce+
  then have "members m = members n" using mem p by simp
  then show ?case using Cons.IH [of n] Cons.prems m' p by (simp add: imap_ok_Cons)
qed

lemma imap_bounds:
  assumes "imap_ok m" "p \<in> set m"
  shows "fst p \<in> members m" "iv_end T_ideal p - 1 \<in> members m"
  using assms by (auto simp: members_def imap_ok_def iv_end_def intro!: bexI [of _ p])

section \<open>The first members\<close>

text \<open>The first \<open>n\<close> members of a set.\<close>

definition firsts :: "int \<Rightarrow> int set \<Rightarrow> int set" where
  "firsts n A = {x \<in> A. int (card {y \<in> A. y < x}) < n}"

lemma firsts_none [simp]: "n \<le> 0 \<Longrightarrow> firsts n A = {}" "firsts n {} = {}"
  by (auto simp: firsts_def)

lemma firsts_block:
  assumes "finite B" "\<forall>y \<in> B. s + l \<le> y" "0 < l"
  shows "firsts n ({s..<s + l} \<union> B) = (if l < n then {s..<s + l} \<union> firsts (n - l) B else {s..<s + n})"
proof -
  have low: "{y \<in> {s..<s + l} \<union> B. y < x} = {s..<x}" if "x \<in> {s..<s + l}" for x using that assms(2) by auto
  have high: "{y \<in> {s..<s + l} \<union> B. y < x} = {s..<s + l} \<union> {y \<in> B. y < x}" if "x \<in> B" for x using that assms(2) by auto
  have card_high: "int (card ({s..<s + l} \<union> {y \<in> B. y < x})) = l + int (card {y \<in> B. y < x})" for x
  proof -
    have "{s..<s + l} \<inter> {y \<in> B. y < x} = {}" using assms(2) by auto
    then show ?thesis using assms(1,3) by (simp add: card_Un_disjoint)
  qed
  have eq: "x \<in> firsts n ({s..<s + l} \<union> B) \<longleftrightarrow>
      x \<in> {s..<s + l} \<and> x < s + n \<or> x \<in> B \<and> int (card {y \<in> B. y < x}) < n - l" for x
  proof (cases "x \<in> {s..<s + l}")
    case True
    then have "x \<notin> B" using assms(2) by auto
    then show ?thesis using True unfolding firsts_def mem_Collect_eq low [OF True] by auto
  next
    case False
    show ?thesis
    proof (cases "x \<in> B")
      case True
      then show ?thesis using False unfolding firsts_def mem_Collect_eq high [OF True] card_high by auto
    qed (use False in \<open>auto simp: firsts_def\<close>)
  qed
  show ?thesis
    by (rule set_eqI) (simp only: eq, auto simp: firsts_def)
qed

lemma span_loop_correct:
  assumes "fits t s" "imap_ok m" "\<forall>x \<in> iset s. \<forall>y \<in> members m. x < y" "members m \<subseteq> t_dom t" "t = T_ideal \<or> len \<le> t_lim t"
  shows "exec_post (span_loop t s m len) (\<lambda>s'. fits t s' \<and> iset s' = iset s \<union> firsts len (members m))"
  using assms
proof (induction m arbitrary: s len)
  case (Cons p m)
  obtain ps pl where p: "p = (ps, pl)" by (cases p)
  have pl: "0 < pl" "imap_ok m" and above: "\<forall>y \<in> members m. ps + pl \<le> y"
    using Cons.prems(2) members_above [OF Cons.prems(2)] p by (auto simp: imap_ok_Cons less_imp_le)
  have disj: "{ps..<ps + l} \<inter> iset s = {}" if "l \<le> pl" for l using Cons.prems(3) p that by fastforce
  have dom: "{ps..<ps + l} \<subseteq> t_dom t" if "l \<le> pl" for l using Cons.prems(4) p that by (auto simp: subset_iff)
  note first = firsts_block [OF finite_members above pl(1)]
  show ?case
  proof (cases "0 < len")
    case True
    show ?thesis
    proof (cases "pl < len")
      case True
      obtain s1 where s1: "insert_range t s ps pl = Ret s1" "fits t s1" "iset s1 = iset s \<union> {ps..<ps + pl}"
        using insert_range_correct [OF Cons.prems(1) pl(1) disj dom] by (auto simp: exec_post_def)
      have w: "t_wrap t (len - pl) = len - pl" "t = T_ideal \<or> len - pl \<le> t_lim t"
        using Cons.prems(5) True pl(1) wrap_id(1) [of "len - pl" t] by auto
      have "\<forall>x \<in> iset s1. \<forall>y \<in> members m. x < y" using s1(3) Cons.prems(3) above p by fastforce
      from Cons.IH [OF s1(2) pl(2) this _ w(2)] Cons.prems(4)
      show ?thesis using s1 True \<open>0 < len\<close> p first [of len] w(1) by (auto elim!: exec_post_mono)
    next
      case False
      then show ?thesis using insert_range_correct [OF Cons.prems(1) True, of ps] disj [of len] dom [of len] True p first [of len]
        by (auto elim!: exec_post_mono)
    qed
  next
    case False
    then show ?thesis using Cons.prems(1) p by simp
  qed
qed simp

lemma span_of_correct:
  assumes fit: "fits t other" and "0 < len" and rng: "t = T_ideal \<or> 0 \<le> start \<and> start + len \<le> t_lim t"
  shows "exec_post (span_of t other start len) (\<lambda>s. fits t s \<and> iset s = firsts len (iset other \<inter> {start..}))"
proof -
  note assms = fit [unfolded fits_def, THEN conjunct1] assms(2)
  have dom: "members (i_m other) \<subseteq> t_dom t" using fit by (simp add: fits_def iset_def)
  have len: "t = T_ideal \<or> len \<le> t_lim t" using rng assms(2) by auto
  have wl: "t_wrap t (start + len) = start + len" using rng assms(2) wrap_id(1) [of "start + len" t] by auto
  have same: "find_inc t (i_m other) start = find_inc T_ideal (i_m other) start"
    using find_fits(1) [of t] fits_imap [OF _ _ dom] assms(1) by (cases "t = T_ideal") (auto simp: iset_ok_def)
  obtain xs ys where m: "i_m other = xs @ ys" "find_inc t (i_m other) start = length xs"
    "\<forall>p \<in> set xs. iv_end T_ideal p \<le> start" "\<forall>p \<in> set ys. start < iv_end T_ideal p"
    unfolding same using find_inc_split assms(1) by (metis iset_ok_def)
  have domy: "members ys \<subseteq> t_dom t" using dom m(1) by simp
  have ok: "imap_ok ys" using assms(1) m by (simp add: iset_ok_def imap_ok_append)
  have "members xs \<inter> {start..} = {}" using m(3) by (fastforce simp: members_def)
  then have tgt: "iset other \<inter> {start..} = members ys \<inter> {start..}" using m(1) by (auto simp: iset_def)
  show ?thesis
  proof (cases ys)
    case Nil
    then show ?thesis using tgt m by (simp add: span_of_def)
  next
    case (Cons p zs)
    obtain ps pl where p: "p = (ps, pl)" by (cases p)
    have zs: "imap_ok zs" "\<forall>y \<in> members zs. ps + pl \<le> y" "start < ps + pl"
      using ok members_above [OF ok [unfolded Cons]] m(4) Cons p by (auto simp: imap_ok_Cons less_imp_le)
    have ends: "t_wrap t (ps + pl) = ps + pl"
      using ends_dom [of p t] domy ok Cons p by (simp add: imap_ok_Cons iv_end_def)
    show ?thesis
    proof (cases "ps < start")
      case True
      let ?h = "pl - (start - ps)"
      have part: "{start..<start + ?h} \<subseteq> t_dom t" using domy Cons p True by (auto simp: subset_iff)
      have wh: "t_wrap t ?h = ?h" using part_dom [OF part, of ?h] zs(3) by simp
      have "{ps..<ps + pl} \<inter> {start..} = {start..<start + ?h}" "members zs \<inter> {start..} = members zs" using True zs by fastforce+
      then have t: "iset other \<inter> {start..} = {start..<start + ?h} \<union> members zs" using tgt Cons p by (simp add: Int_Un_distrib2)
      have first: "firsts len (iset other \<inter> {start..}) =
          (if ?h < len then {start..<start + ?h} \<union> firsts (len - ?h) (members zs) else {start..<start + len})"
        unfolding t using zs by (intro firsts_block) auto
      show ?thesis
      proof (cases "?h < len")
        case True
        obtain s1 where s1: "insert_range t iset_empty start ?h = Ret s1" "fits t s1" "iset s1 = {start..<start + ?h}"
          using insert_range_correct [of t iset_empty ?h start] zs(3) part by (auto simp: exec_post_def)
        have w: "t_wrap t (len - ?h) = len - ?h" "t = T_ideal \<or> len - ?h \<le> t_lim t"
          using len True zs(3) wrap_id(1) [of "len - ?h" t] by auto
        have "\<forall>x \<in> iset s1. \<forall>y \<in> members zs. x < y" using s1(3) zs(2) by fastforce
        from span_loop_correct [OF s1(2) zs(1) this _ w(2)] domy Cons show ?thesis
          using s1 zs(3) m p \<open>ps < start\<close> True first by (simp add: span_of_def Let_def ends wl wh w(1))
      next
        case False
        then have "{start..<start + len} \<subseteq> t_dom t" using part by (auto simp: subset_iff)
        then show ?thesis
          using insert_range_correct [of t iset_empty len start] assms(2) zs m Cons p \<open>ps < start\<close> first False
          by (simp add: span_of_def ends wl)
      qed
    next
      case False
      then have "members ys \<inter> {start..} = members ys" using members_from [OF ok [unfolded Cons]] Cons p by fastforce
      then show ?thesis using span_loop_correct [of t iset_empty ys len] ok tgt m Cons p False domy len by (simp add: span_of_def)
    qed
  qed
qed

section \<open>Further queries\<close>

lemma fits_find: "fits t s \<Longrightarrow> find_inc t (i_m s) k = find_inc T_ideal (i_m s) k"
  using find_fits(1) [OF fits_imap [of t "i_m s"]] by (cases "t = T_ideal") (auto simp: fits_def iset_ok_def iset_def)

lemma fits_end:
  assumes "fits t s" "p \<in> set (i_m s)"
  shows "iv_end t p = iv_end T_ideal p"
proof (rule ends_dom)
  show "{fst p..<iv_end T_ideal p} \<subseteq> t_dom t" using assms by (auto simp: fits_def iset_def members_def)
  show "0 < snd p" using assms by (auto simp: fits_def iset_ok_def imap_ok_def)
qed

lemma fits_found:
  assumes "fits t s" "find_inc t (i_m s) k \<noteq> length (i_m s)"
  shows "iv_end t (i_m s ! find_inc t (i_m s) k) = iv_end T_ideal (i_m s ! find_inc T_ideal (i_m s) k)"
  using fits_end [OF assms(1)] find_le(1) [of t "i_m s" k] assms by (simp add: fits_find [OF assms(1)])

lemma contains_correct:
  assumes "fits t s"
  shows "contains t s x \<longleftrightarrow> x \<in> iset s"
proof -
  have "contains t s x = contains T_ideal s x"
    using fits_found [OF assms, of x] by (auto simp: contains_def Let_def fits_find [OF assms])
  then show ?thesis using contains_iff assms by (simp add: fits_def iset_ok_def iset_def)
qed

lemma contains_range_correct:
  assumes "fits t s" "0 < len" "t = T_ideal \<or> 0 \<le> start \<and> start + len \<le> t_lim t"
  shows "contains_range t s start len \<longleftrightarrow> {start..<start + len} \<subseteq> iset s"
proof -
  have "t_wrap t (start + len) = start + len" using assms(2,3) wrap_id(1) [of "start + len" t] by auto
  then have "contains_range t s start len = contains_range T_ideal s start len"
    using fits_found [OF assms(1), of start] by (auto simp: contains_range_def Let_def fits_find [OF assms(1)])
  then show ?thesis using contains_range_iff assms by (simp add: fits_def iset_ok_def iset_def)
qed

lemma subset_of_iff:
  assumes "fits t s" "fits t big"
  shows "subset_of t s big \<longleftrightarrow> iset s \<subseteq> iset big"
proof -
  have "contains_range t big (fst p) (snd p) \<longleftrightarrow> {fst p..<iv_end T_ideal p} \<subseteq> iset big" if p: "p \<in> set (i_m s)" for p
  proof -
    have "0 < snd p" "{fst p..<fst p + snd p} \<subseteq> t_dom t"
      using assms(1) p by (auto simp: fits_def iset_ok_def imap_ok_def iset_def members_def iv_end_def)
    then show ?thesis
      using contains_range_correct [OF assms(2), of "snd p" "fst p"] block_dom [of t "snd p" "fst p"] by (auto simp: iv_end_def)
  qed
  then have "subset_of t s big \<longleftrightarrow> (\<forall>p \<in> set (i_m s). {fst p..<iv_end T_ideal p} \<subseteq> iset big)"
    by (auto simp: subset_of_def list_all_iff split_def)
  also have "\<dots> \<longleftrightarrow> iset s \<subseteq> iset big" by (auto simp: iset_def [of s] members_def)
  finally show ?thesis .
qed

lemma range_start_correct:
  assumes "iset_ok s" "iset s \<noteq> {}"
  shows "range_start s = Ret (Min (iset s))"
proof (cases "i_m s")
  case (Cons p m)
  then have "imap_ok (p # m)" using assms(1) by (simp add: iset_ok_def)
  then have "Min (iset s) = fst p" using first_interval [of p m] Cons
    by (intro Min_eqI) (simp_all add: iset_def del: members_simps(2))
  then show ?thesis using Cons by (simp add: range_start_def)
qed (use assms in \<open>simp add: iset_def\<close>)

lemma range_end_correct:
  assumes fit: "fits t s" and "iset s \<noteq> {}"
  shows "range_end t s = Ret (Max (iset s) + 1)"
proof (cases "i_m s" rule: rev_cases)
  case (snoc m p)
  have ok: "imap_ok (m @ [p])" using fit snoc by (simp add: fits_def iset_ok_def)
  have "Max (iset s) = iv_end T_ideal p - 1"
  proof (rule Max_eqI)
    show "iv_end T_ideal p - 1 \<in> iset s" using imap_bounds(2) [OF ok, of p] snoc by (simp add: iset_def)
    fix x assume "x \<in> iset s"
    then obtain q where q: "q \<in> set (m @ [p])" "x < iv_end T_ideal q" unfolding iset_def members_def snoc by fastforce
    moreover have "iv_end T_ideal q \<le> iv_end T_ideal p" using q(1) ok by (auto simp: imap_ok_simps iv_end_def)
    ultimately show "x \<le> iv_end T_ideal p - 1" by simp
  qed (simp add: iset_def)
  then show ?thesis using snoc fits_end [OF fit, of p] by (simp add: range_end_def)
qed (use assms in \<open>simp add: iset_def\<close>)

lemma end_after_correct:
  assumes "fits t s" "x \<in> iset s"
  obtains e where "end_after t s x = Ret e" "x < e" "{x..<e} \<subseteq> iset s" "e \<notin> iset s"
proof -
  have ok: "imap_ok (i_m s)" using assms(1) by (simp add: fits_def iset_ok_def)
  obtain xs ps pl zs where m: "i_m s = xs @ (ps, pl) # zs" "find_inc t (i_m s) x = length xs" "ps \<le> x" "x < ps + pl"
    unfolding fits_find [OF assms(1)] using find_inc_member [OF ok] assms(2) by (metis iset_def)
  have "iv_end T_ideal p \<le> ps + pl \<or> ps + pl < fst p" if "p \<in> set (i_m s)" for p
    using that ok unfolding m(1) by (fastforce simp: imap_ok_simps)
  then have "ps + pl \<notin> iset s" by (fastforce simp: iset_def members_def)
  moreover have "{x..<ps + pl} \<subseteq> iset s" using m by (auto simp: iset_def)
  moreover have "end_after t s x = Ret (ps + pl)" using m assms(2) fits_end [OF assms(1), of "(ps, pl)"] by (simp add: end_after_def contains_correct [OF assms(1)])
  ultimately show thesis using that m(4) by blast
qed

lemma start_after_correct:
  assumes "fits t s" "x \<notin> iset s"
  shows "starts_after t s x = Ret (\<exists>y \<in> iset s. x < y)"
    "(\<exists>y \<in> iset s. x < y) \<Longrightarrow> start_after t s x = Ret (Min {y \<in> iset s. x < y})"
proof -
  have ok: "imap_ok (i_m s)" using assms(1) by (simp add: fits_def iset_ok_def)
  obtain xs ys where m: "i_m s = xs @ ys" "find_inc t (i_m s) x = length xs" "\<forall>p \<in> set xs. iv_end T_ideal p \<le> x" "\<forall>p \<in> set ys. x < fst p"
    unfolding fits_find [OF assms(1)] using find_inc_not_member [OF ok] assms(2) by (metis iset_def)
  have "\<forall>y \<in> members xs. y < x" using m(3) by (fastforce simp: members_def)
  moreover have "\<forall>y \<in> members ys. x < y" using m(4) by (fastforce simp: members_def)
  ultimately have set: "{y \<in> iset s. x < y} = members ys" using m(1) by (auto simp: iset_def)
  have oky: "imap_ok ys" using ok m(1) by (simp add: imap_ok_append)
  have no: "\<not> contains t s x" using contains_correct [OF assms(1)] assms(2) by simp
  have ne: "ys = [] \<longleftrightarrow> members ys = {}" using oky first_interval(1) by (cases ys) auto
  then show "starts_after t s x = Ret (\<exists>y \<in> iset s. x < y)" using m no set by (auto simp: starts_after_def)
  assume "\<exists>y \<in> iset s. x < y"
  then obtain p zs where ys: "ys = p # zs" using set ne by (cases ys) auto
  then have "Min (members ys) = fst p" using first_interval [of p zs] oky by (intro Min_eqI) (simp_all del: members_simps(2))
  then show "start_after t s x = Ret (Min {y \<in> iset s. x < y})" using m no set ys by (simp add: start_after_def Let_def)
qed

lemma erase_at_correct:
  assumes fit: "fits t s" and "i < length (i_m s)"
  shows "fits t (erase_at t s i)" "iset (erase_at t s i) = iset s - {fst (i_m s ! i)..<iv_end T_ideal (i_m s ! i)}"
proof -
  let ?xs = "take i (i_m s)" and ?p = "i_m s ! i" and ?zs = "drop (Suc i) (i_m s)"
  have m: "i_m s = ?xs @ ?p # ?zs" using assms(2) by (rule id_take_nth_drop)
  have ok: "imap_ok (?xs @ ?p # ?zs)" using fit m by (simp add: fits_def iset_ok_def)
  then have ok': "imap_ok (?xs @ ?zs)" "\<forall>q \<in> set ?xs. iv_end T_ideal q < fst ?p" "\<forall>q \<in> set ?zs. iv_end T_ideal ?p < fst q"
    by (simp_all add: imap_ok_simps)
  let ?i = "\<lparr>i_m = ?xs @ ?zs, i_size = i_size s - snd ?p\<rparr>"
  have len: "lengths (i_m s) = lengths (?xs @ ?p # ?zs)" using m by (rule arg_cong)
  have "set (?xs @ ?zs) \<subseteq> set (i_m s)" by (auto dest: in_set_takeD in_set_dropD)
  then have "members (?xs @ ?zs) \<subseteq> t_dom t" using fit by (fastforce simp: fits_def iset_def members_def)
  then have ideal: "fits t ?i" using ok'(1) fit len by (simp add: fits_def iset_ok_def iset_def)
  then have same: "erase_at t s i = ?i"
    using fits_size [OF ideal] wrap_id(2) [of "i_size s - snd ?p" t] by (cases "t = T_ideal") (simp_all add: erase_at_def)
  then show "fits t (erase_at t s i)" using ideal by simp
  have "members ?xs \<inter> {fst ?p..<iv_end T_ideal ?p} = {}" "members ?zs \<inter> {fst ?p..<iv_end T_ideal ?p} = {}"
    using ok'(2,3) by (fastforce simp: members_def)+
  moreover have "members (i_m s) = members (?xs @ ?p # ?zs)" using m by (rule arg_cong)
  ultimately show "iset (erase_at t s i) = iset s - {fst ?p..<iv_end T_ideal ?p}" by (auto simp: iset_def same)
qed

section \<open>Properties\<close>

definition sample_set :: interval_set where
  "sample_set = \<lparr>i_m = [(5, 10), (20, 5)], i_size = 15\<rparr>"

lemma sample_set_ok: "iset_ok sample_set" "iset sample_set = {5..<15} \<union> {20..<25}"
  by (simp_all add: iset_ok_def sample_set_def imap_ok_Cons iset_def)

lemma sample_set_fits: "fits T_uint64 sample_set"
  using sample_set_ok by (auto simp: fits_def)

lemma size_of_correct:
  assumes "fits t s" "card (iset s) < 2 ^ 31"
  shows "size_of s = int (card (iset s))"
  using assms lengths_card [of "i_m s"] by (simp add: fits_def iset_ok_def iset_def size_of_def to_s32_id)

text \<open>C21: For every type of members: inserting an interval that does not overlap the set, and erasing one
  that lies in the set, never fail an assertion and give the union and the difference, and keep the
  representation normalised, with disjoint, non-adjacent, non-empty intervals in order and the right size.
  The members of the set and of the new interval are in the part of the type for which no sum overflows:
  from 0 to \<open>2 ^ 31 - 2\<close> for \<open>int\<close> and to \<open>2 ^ 63 - 2\<close> for the unsigned types of 64 bits.\<close>
theorem interval_insert_erase:
  assumes "fits t s" "0 < len"
  shows "({start..<start + len} \<inter> iset s = {} \<longrightarrow> {start..<start + len} \<subseteq> t_dom t \<longrightarrow>
      exec_post (insert_range t s start len) (\<lambda>s'. fits t s' \<and> iset s' = iset s \<union> {start..<start + len})) \<and>
    ({start..<start + len} \<subseteq> iset s \<longrightarrow>
      exec_post (erase_range t s start len) (\<lambda>s'. fits t s' \<and> iset s' = iset s - {start..<start + len}))"
  using insert_range_correct [OF assms] erase_range_correct [OF assms] by blast

theorem interval_insert_erase_witness:
  "exec_post (insert_range T_uint64 sample_set 15 5) (\<lambda>s'. fits T_uint64 s' \<and> iset s' = {5..<25}) \<and>
   exec_post (erase_range T_uint64 sample_set 7 2) (\<lambda>s'. fits T_uint64 s' \<and> iset s' = {5..<7} \<union> {9..<15} \<union> {20..<25})"
proof
  have "{15..<20} \<inter> iset sample_set = {}" "iset sample_set \<union> {15..<20} = {5..<25}" by (auto simp: sample_set_ok)
  then show "exec_post (insert_range T_uint64 sample_set 15 5) (\<lambda>s'. fits T_uint64 s' \<and> iset s' = {5..<25})"
    using interval_insert_erase [OF sample_set_fits, of 5 15] by auto
  have "{7..<9} \<subseteq> iset sample_set" "iset sample_set - {7..<9} = {5..<7} \<union> {9..<15} \<union> {20..<25}" by (auto simp: sample_set_ok)
  then show "exec_post (erase_range T_uint64 sample_set 7 2) (\<lambda>s'. fits T_uint64 s' \<and> iset s' = {5..<7} \<union> {9..<15} \<union> {20..<25})"
    using interval_insert_erase [OF sample_set_fits, of 2 7] by simp
qed

text \<open>C20: On well-formed sets whose members are in the part of their type for which no sum overflows, the
  operations on whole sets return and compute union and intersection; the queries decide membership,
  inclusion and overlap with an interval in that part; \<open>size\<close>, which truncates to \<open>int\<close>, is the number of
  members when that is below \<open>2 ^ 31\<close>; and two sets are equal as objects exactly if they have the same
  members.\<close>
theorem interval_set_refines:
  assumes "fits t a" "fits t b" "0 < len" "{x..<x + len} \<subseteq> t_dom t"
  shows "exec_post (union_of t a b) (\<lambda>s. fits t s \<and> iset s = iset a \<union> iset b) \<and>
    exec_post (intersection_of t a b) (\<lambda>s. fits t s \<and> iset s = iset a \<inter> iset b) \<and>
    (contains t a x \<longleftrightarrow> x \<in> iset a) \<and> (contains_range t a x len \<longleftrightarrow> {x..<x + len} \<subseteq> iset a) \<and>
    intersects t a x len = Ret (iset a \<inter> {x..<x + len} \<noteq> {}) \<and> (subset_of t a b \<longleftrightarrow> iset a \<subseteq> iset b) \<and>
    (card (iset a) < 2 ^ 31 \<longrightarrow> size_of a = int (card (iset a))) \<and> (set_eq a b \<longleftrightarrow> iset a = iset b)"
proof -
  have ok: "imap_ok (i_m a)" "imap_ok (i_m b)" using assms by (simp_all add: fits_def iset_ok_def)
  have "set_eq a b \<longleftrightarrow> iset a = iset b"
    using imap_unique [OF ok] assms by (auto simp: set_eq_def iset_def fits_def iset_ok_def)
  moreover have "t = T_ideal \<or> 0 \<le> x \<and> x + len \<le> t_lim t"
    using block_dom [OF _ assms(3)] assms(4) by blast
  ultimately show ?thesis
    using union_of_correct [OF assms(1,2)] intersection_of_correct [OF assms(1,2)] contains_correct [OF assms(1)]
      contains_range_correct [OF assms(1,3)] intersects_correct [OF assms(1,3,4)] subset_of_iff [OF assms(1,2)]
      size_of_correct [OF assms(1)] by blast
qed

theorem interval_set_refines_witness:
  "exec_post (union_of T_uint64 sample_set \<lparr>i_m = [(12, 9)], i_size = 9\<rparr>) (\<lambda>s. fits T_uint64 s \<and> iset s = {5..<25})"
proof -
  have b: "fits T_uint64 \<lparr>i_m = [(12, 9)], i_size = 9\<rparr>" "iset \<lparr>i_m = [(12, 9)], i_size = 9\<rparr> = {12..<21}"
    by (auto simp: fits_def iset_ok_def imap_ok_Cons iset_def)
  have "iset sample_set \<union> {12..<21} = {5..<25}" by (auto simp: sample_set_ok)
  then show ?thesis using interval_set_refines [OF sample_set_fits b(1), of 1 0] b(2) by simp
qed



text \<open>The example of the comment: \<open>span_of([5~10,20~5], 8, 5)\<close> is \<open>[8~5]\<close>, where the comment has \<open>[8~2,20~3]\<close>.\<close>

theorem span_of_comment:
  "\<exists>s. span_of T_uint64 sample_set 8 5 = Ret s \<and> i_m s = [(8, 5)] \<and> i_m s \<noteq> [(8, 2), (20, 3)]"
proof -
  have "span_of T_uint64 sample_set 8 5 = Ret \<lparr>i_m = [(8, 5)], i_size = 5\<rparr>"
    by (simp add: span_of_def sample_set_def find_inc_def find_adj_def lower_bound_def iv_end_def insert_range_def
      insert_map_def iset_empty_def to_s64_id)
  then show ?thesis by simp
qed

text \<open>The assertions of \<open>insert\<close> do not catch every overlap: an interval that starts where one of the set
  ends and runs into the next one is accepted, and the result is no longer a set of disjoint intervals.\<close>
theorem insert_overlap_undetected:
  assumes "0 < l1" "0 < l2" "0 < gap" "gap < len"
  shows "\<exists>s'. insert_range T_ideal \<lparr>i_m = [(a, l1), (a + l1 + gap, l2)], i_size = l1 + l2\<rparr> (a + l1) len = Ret s' \<and>
    i_m s' = [(a, l1 + len), (a + l1 + gap, l2)] \<and> \<not> iset_ok s'"
  using assms by (simp add: insert_range_def insert_map_def find_adj_def lower_bound_def iset_ok_def imap_ok_Cons)

theorem insert_overlap_undetected_witness:
  "\<exists>s'. insert_range T_ideal \<lparr>i_m = [(0, 5), (10, 5)], i_size = 10\<rparr> 5 8 = Ret s' \<and> \<not> iset_ok s'"
  using insert_overlap_undetected [of 5 5 5 8 0] by auto

text \<open>With a length for which \<open>start + len\<close> wraps around, \<open>contains\<close> answers yes for intervals that are not in the set.\<close>
theorem contains_range_wraps:
  "contains_range T_uint64 sample_set 8 (2 ^ 64 - 1) \<and> \<not> {8..<8 + (2 ^ 64 - 1)} \<subseteq> iset sample_set"
proof -
  have "contains_range T_uint64 sample_set 8 (2 ^ 64 - 1)"
    by (simp add: contains_range_def sample_set_def find_inc_def lower_bound_def iv_end_def)
  moreover have "(15 :: int) \<in> {8..<8 + (2 ^ 64 - 1)} \<and> (15 :: int) \<notin> iset sample_set" by (simp add: sample_set_ok)
  ultimately show ?thesis by blast
qed

end
