(* ===== verification/Client_Fd.thy ===== *)
theory Client_Fd
imports Interval_Set
begin

text \<open>
  The file descriptors of the client library, \<open>client/Client.h\<close> and \<open>client/Client.cc\<close>: the set of free
  descriptors, the map from descriptors to open files, and the parts of \<open>Client::open\<close> and
  \<open>Client::close\<close> that use them.  The driver's callbacks see these descriptors.
\<close>

section \<open>A pool of identifiers\<close>

text \<open>What a client of a pool relies on: taking from a pool that is not empty gives one of its members.\<close>

locale id_pool =
  fixes ids :: "'s \<Rightarrow> int set" and pool_ok :: "'s \<Rightarrow> bool" and take_id :: "'s \<Rightarrow> (int \<times> 's) exec"
  assumes take_member: "pool_ok s \<Longrightarrow> ids s \<noteq> {} \<Longrightarrow>
    exec_post (take_id s) (\<lambda>(n, s'). pool_ok s' \<and> n \<in> ids s \<and> ids s' = ids s - {n})"
    and take_empty: "pool_ok s \<Longrightarrow> ids s = {} \<Longrightarrow> take_id s = Fault"
begin

lemma take_cases:
  assumes "pool_ok s"
  obtains "take_id s = Fault" "ids s = {}"
  | n s' where "take_id s = Ret (n, s')" "pool_ok s'" "n \<in> ids s" "ids s' = ids s - {n}"
  using take_member [OF assms] take_empty [OF assms] by (cases "ids s = {}") (auto simp: exec_post_def)

lemma take_not_used: "pool_ok s \<Longrightarrow> used \<inter> ids s = {} \<Longrightarrow> take_id s = Ret (n, s') \<Longrightarrow>
   n \<notin> used \<and> insert n used \<inter> ids s' = {} \<and> pool_ok s'"
  by (rule take_cases [of s]) auto

end

section \<open>The descriptors of the client\<close>

type_synonym fh = nat

record client_fds =
  free_fd_set :: interval_set
  fd_map :: "int \<rightharpoonup> fh"

definition client_init :: "client_fds exec" where
  "client_init = exec_bind (insert_range T_int iset_empty 10 (2 ^ 30)) (\<lambda>s. Ret \<lparr>free_fd_set = s, fd_map = Map.empty\<rparr>)"

definition get_fd :: "interval_set \<Rightarrow> (int \<times> interval_set) exec" where
  "get_fd s = exec_bind (range_start s) (\<lambda>n. exec_bind (erase_range T_int s n 1) (\<lambda>s'. Ret (n, s')))"

definition put_fd :: "interval_set \<Rightarrow> int \<Rightarrow> interval_set exec" where
  "put_fd s n = insert_range T_int s n 1"

definition get_filehandle :: "client_fds \<Rightarrow> int \<Rightarrow> fh option" where
  "get_filehandle c n = fd_map c n"

text \<open>The end of \<open>Client::open\<close>, when the file has been opened as \<open>f\<close>.\<close>

definition open_fd :: "client_fds \<Rightarrow> fh \<Rightarrow> (int \<times> client_fds) exec" where
  "open_fd c f =
     exec_bind (get_fd (free_fd_set c)) (\<lambda>(r, s).
       if fd_map c r \<noteq> None then Fault else Ret (r, \<lparr>free_fd_set = s, fd_map = (fd_map c)(r \<mapsto> f)\<rparr>))"

text \<open>\<open>Client::close\<close>; the result of releasing the file is \<open>err\<close>.\<close>

abbreviation (input) EBADF :: int where "EBADF \<equiv> 9"

definition close_fd :: "(fh \<Rightarrow> int) \<Rightarrow> client_fds \<Rightarrow> int \<Rightarrow> int \<times> client_fds" where
  "close_fd err c n =
     (case get_filehandle c n of
        None \<Rightarrow> (- EBADF, c)
      | Some f \<Rightarrow> (err f, c\<lparr>fd_map := (fd_map c)(n := None)\<rparr>))"

text \<open>\<open>Client::unmount\<close> releases the files that are still open, one after the other, until the map is empty.\<close>

definition unmount_fds :: "client_fds \<Rightarrow> client_fds" where
  "unmount_fds c = c\<lparr>fd_map := Map.empty\<rparr>"

section \<open>The mount\<close>

text \<open>\<open>ceph_mount_info\<close> of \<open>libcephfs.cc\<close>: whether the file system is mounted, and the client.  Once it is not mounted, every
  call is answered with an error before it gets to the client, which has been deleted.\<close>

record mount_info =
  mounted :: bool
  client :: client_fds

abbreviation (input) ENOTCONN :: int where "ENOTCONN \<equiv> 107"

definition ceph_open_fd :: "mount_info \<Rightarrow> fh \<Rightarrow> (int \<times> mount_info) exec" where
  "ceph_open_fd mi f =
     (if \<not> mounted mi then Ret (- ENOTCONN, mi)
      else exec_bind (open_fd (client mi) f) (\<lambda>(n, c). Ret (n, mi\<lparr>client := c\<rparr>)))"

definition ceph_close_fd :: "(fh \<Rightarrow> int) \<Rightarrow> mount_info \<Rightarrow> int \<Rightarrow> int \<times> mount_info" where
  "ceph_close_fd err mi n =
     (if \<not> mounted mi then (- ENOTCONN, mi)
      else case close_fd err (client mi) n of (r, c) \<Rightarrow> (r, mi\<lparr>client := c\<rparr>))"

definition ceph_unmount :: "mount_info \<Rightarrow> int \<times> mount_info" where
  "ceph_unmount mi =
     (if \<not> mounted mi then (- ENOTCONN, mi)
      else (0, mi\<lparr>mounted := False, client := unmount_fds (client mi)\<rparr>))"

section \<open>Laws\<close>

interpretation fd_pool: id_pool iset "fits T_int" get_fd
proof
  fix s assume s: "fits T_int s" "iset s \<noteq> {}"
  have min: "Min (iset s) \<in> iset s" using s by (simp add: iset_def)
  moreover have "{Min (iset s)..<Min (iset s) + 1} = {Min (iset s)}" by auto
  ultimately obtain s' where "erase_range T_int s (Min (iset s)) 1 = Ret s'" "fits T_int s'" "iset s' = iset s - {Min (iset s)}"
    using erase_range_correct [OF s(1), of 1 "Min (iset s)"] by (auto simp: exec_post_def)
  then show "exec_post (get_fd s) (\<lambda>(n, s'). fits T_int s' \<and> n \<in> iset s \<and> iset s' = iset s - {n})"
    using min range_start_correct [of s] s by (simp add: get_fd_def fits_def)
next
  fix s assume s: "fits T_int s" "iset s = {}"
  then have "i_m s = []" using first_interval(1) by (cases "i_m s") (auto simp: iset_def iset_ok_def fits_def)
  then show "get_fd s = Fault" by (simp add: get_fd_def range_start_def)
qed

text \<open>Free and used descriptors are apart, and all are positive and of 31 bits.\<close>

definition fds_ok :: "client_fds \<Rightarrow> bool" where
  "fds_ok c \<longleftrightarrow> fits T_int (free_fd_set c) \<and> dom (fd_map c) \<inter> iset (free_fd_set c) = {} \<and>
     iset (free_fd_set c) \<subseteq> {10..<10 + 2 ^ 30}"

definition client_start :: client_fds where
  "client_start = \<lparr>free_fd_set = \<lparr>i_m = [(10, 2 ^ 30)], i_size = 2 ^ 30\<rparr>, fd_map = Map.empty\<rparr>"

lemma client_init_run: "client_init = Ret client_start"
  by (simp add: client_init_def client_start_def insert_range_def insert_map_def find_adj_def lower_bound_def iset_empty_def to_s64_id)

lemma client_start_ok: "fds_ok client_start"
  by (simp add: fds_ok_def fits_def client_start_def iset_ok_def imap_ok_Cons iset_def)

lemma open_fd_cases:
  assumes "fds_ok c"
  obtains "open_fd c f = Fault" "iset (free_fd_set c) = {}"
  | n c' where "open_fd c f = Ret (n, c')" "fds_ok c'" "n \<in> iset (free_fd_set c)" "fd_map c n = None"
      "fd_map c' = (fd_map c)(n \<mapsto> f)" "iset (free_fd_set c') = iset (free_fd_set c) - {n}"
proof -
  have ok: "fits T_int (free_fd_set c)" using assms by (simp add: fds_ok_def)
  show thesis
  proof (cases rule: fd_pool.take_cases [OF ok])
    case 1
    then show ?thesis using that(1) by (simp add: open_fd_def)
  next
    case (2 n s')
    note fresh = fd_pool.take_not_used [OF ok _ 2(1), of "dom (fd_map c)"]
    then have "fd_map c n = None" using assms by (auto simp: fds_ok_def)
    then show ?thesis using that(2) [of n "\<lparr>free_fd_set = s', fd_map = (fd_map c)(n \<mapsto> f)\<rparr>"] 2 fresh assms
      by (simp add: open_fd_def fds_ok_def) blast
  qed
qed

lemma close_fd_ok: "fds_ok c \<Longrightarrow> fds_ok (snd (close_fd err c n))"
  by (auto simp: fds_ok_def close_fd_def split: option.split)

lemma unmount_fds_ok: "fds_ok c \<Longrightarrow> fds_ok (unmount_fds c)"
  by (simp add: fds_ok_def unmount_fds_def)

text \<open>Of a mount, moreover, no file is open when it is not mounted.\<close>

definition mount_ok :: "mount_info \<Rightarrow> bool" where
  "mount_ok mi \<longleftrightarrow> fds_ok (client mi) \<and> (\<not> mounted mi \<longrightarrow> fd_map (client mi) = Map.empty)"

lemma ceph_open_fd_cases:
  assumes "mount_ok mi"
  obtains "\<not> mounted mi" "ceph_open_fd mi f = Ret (- ENOTCONN, mi)"
  | "mounted mi" "ceph_open_fd mi f = Fault"
  | n mi' where "mounted mi" "mounted mi'" "ceph_open_fd mi f = Ret (n, mi')" "mount_ok mi'" "10 \<le> n" "n < 2 ^ 30 + 10"
      "fd_map (client mi) n = None" "fd_map (client mi') = (fd_map (client mi))(n \<mapsto> f)"
proof (cases "mounted mi")
  case False
  then show ?thesis using that(1) by (simp add: ceph_open_fd_def)
next
  case True
  have ok: "fds_ok (client mi)" using assms by (simp add: mount_ok_def)
  show ?thesis
  proof (cases rule: open_fd_cases [OF ok, of f])
    case 1
    then show ?thesis using True that(2) by (simp add: ceph_open_fd_def)
  next
    case (2 n c')
    then have "10 \<le> n" "n < 2 ^ 30 + 10" using ok by (auto simp: fds_ok_def)
    then show ?thesis using True 2 that(3) [of "mi\<lparr>client := c'\<rparr>" n] by (simp add: ceph_open_fd_def mount_ok_def)
  qed
qed

lemma ceph_close_fd_ok:
  "mount_ok mi \<Longrightarrow> mount_ok (snd (ceph_close_fd err mi n))"
  "mounted (snd (ceph_close_fd err mi n)) = mounted mi"
  "mount_ok mi \<Longrightarrow> dom (fd_map (client (snd (ceph_close_fd err mi n)))) = dom (fd_map (client mi)) - {n}"
  using close_fd_ok [of "client mi" err n]
  by (auto simp: mount_ok_def ceph_close_fd_def close_fd_def get_filehandle_def split: option.splits)

lemma ceph_unmount_ok:
  "mount_ok mi \<Longrightarrow> mount_ok (snd (ceph_unmount mi))" "\<not> mounted (snd (ceph_unmount mi))"
  by (auto simp: mount_ok_def ceph_unmount_def unmount_fds_def fds_ok_def)

lemma open_fd_start:
  "open_fd client_start f =
     Ret (10, \<lparr>free_fd_set = \<lparr>i_m = [(11, 2 ^ 30 - 1)], i_size = 2 ^ 30 - 1\<rparr>, fd_map = [10 \<mapsto> f]\<rparr>)"
  by (simp add: open_fd_def get_fd_def range_start_def client_start_def erase_range_def find_inc_def lower_bound_def map_del_def
    iv_end_def to_s32_id to_s64_id)

text \<open>While descriptors are left, opening a file returns one between 10 and \<open>2 ^ 30 + 9\<close> that no open file
  has, without failing the assertion that says so, and the file is found under it; closing it removes
  that file and no other.\<close>
theorem open_close_fd:
  assumes "fds_ok c" "iset (free_fd_set c) \<noteq> {}"
  shows "\<exists>n c'. open_fd c f = Ret (n, c') \<and> fds_ok c' \<and> 10 \<le> n \<and> n < 2 ^ 30 + 10 \<and> fd_map c n = None \<and>
    get_filehandle c' n = Some f \<and> fd_map c' = (fd_map c)(n \<mapsto> f) \<and>
    (\<exists>c''. close_fd err c' n = (err f, c'') \<and> fds_ok c'' \<and> fd_map c'' = fd_map c)"
proof (cases rule: open_fd_cases [OF assms(1), of f])
  case (2 n c')
  then have "10 \<le> n" "n < 2 ^ 30 + 10" using assms(1) by (auto simp: fds_ok_def)
  then show ?thesis using 2 close_fd_ok [OF 2(2), of err n] by (auto simp: close_fd_def get_filehandle_def fun_upd_idem)
qed (use assms in simp)

theorem open_close_fd_witness:
  "\<exists>n c'. open_fd client_start 7 = Ret (n, c') \<and> 10 \<le> n \<and> get_filehandle c' n = Some 7"
proof -
  have "iset (free_fd_set client_start) \<noteq> {}" by (simp add: client_start_def iset_def)
  from open_close_fd [OF client_start_ok this, of 7 "\<lambda>f. 0"] show ?thesis by blast
qed

text \<open>A descriptor that is closed is not used again: closing leaves the set of free descriptors as it is,
  and when the set is empty, opening fails an assertion even if no file is open.\<close>
theorem closed_fd_not_reused:
  "free_fd_set (snd (close_fd err c n)) = free_fd_set c \<and>
   open_fd \<lparr>free_fd_set = iset_empty, fd_map = Map.empty\<rparr> f = Fault"
  by (simp add: close_fd_def open_fd_def get_fd_def range_start_def iset_empty_def split: option.split)

end
