(* ===== verification/Posix_Acl.thy ===== *)
theory Posix_Acl
  imports Ceph_Prelude
begin

text \<open>
  POSIX access control lists as \<open>src/dokan/posix_acl.cc\<close> and \<open>posix_acl.h\<close> implement them: the
  in-memory entry list, its extended-attribute byte format in both directions, the validity check,
  the access decision, and the mask applied to a default ACL when an inode is created.  The
  functions that talk to the mounted file system are in \<open>Acl_Walk\<close>.

  An ACL pointer is NULL, an error pointer or a list of entries.  The identifier union of an entry
  (\<open>e_uid\<close>, \<open>e_gid\<close>, \<open>e_id\<close>) is one 64-bit field, the width of \<open>kuid_t\<close> and \<open>kgid_t\<close>; the code
  reads it for \<open>ACL_USER\<close> and \<open>ACL_GROUP\<close> entries only, and leaves it unset for the other tags,
  where the model has 0.
\<close>

unbundle bit_operations_syntax

section \<open>Data\<close>

abbreviation (input) ACL_USER_OBJ :: u16 where "ACL_USER_OBJ \<equiv> 0x01"
abbreviation (input) ACL_USER :: u16 where "ACL_USER \<equiv> 0x02"
abbreviation (input) ACL_GROUP_OBJ :: u16 where "ACL_GROUP_OBJ \<equiv> 0x04"
abbreviation (input) ACL_GROUP :: u16 where "ACL_GROUP \<equiv> 0x08"
abbreviation (input) ACL_MASK :: u16 where "ACL_MASK \<equiv> 0x10"
abbreviation (input) ACL_OTHER :: u16 where "ACL_OTHER \<equiv> 0x20"

abbreviation (input) ACL_UNDEFINED_ID :: u32 where "ACL_UNDEFINED_ID \<equiv> -1"

abbreviation (input) MAY_EXEC :: u16 where "MAY_EXEC \<equiv> 0x01"
abbreviation (input) MAY_WRITE :: u16 where "MAY_WRITE \<equiv> 0x02"
abbreviation (input) MAY_READ :: u16 where "MAY_READ \<equiv> 0x04"
abbreviation (input) MAY_NOT_BLOCK :: u16 where "MAY_NOT_BLOCK \<equiv> 0x80"

abbreviation (input) S_IRWXU :: u16 where "S_IRWXU \<equiv> 0x1C0"
abbreviation (input) S_IRWXG :: u16 where "S_IRWXG \<equiv> 0x38"
abbreviation (input) S_IRWXO :: u16 where "S_IRWXO \<equiv> 0x07"
abbreviation (input) S_IRWXUGO :: u16 where "S_IRWXUGO \<equiv> 0x1FF"

record posix_acl_entry =
  e_tag :: u16
  e_perm :: u16
  e_uid :: u64

record posix_acl =
  a_refcount :: int
  a_entries :: "posix_acl_entry list"

datatype acl_ptr = AclNull | AclErr int | Acl posix_acl

record inode_cxt =
  i_uid :: u64
  i_gid :: u64

definition make_kuid :: "u64 \<Rightarrow> u64" where
  "make_kuid uid = uid"

definition make_kgid :: "u64 \<Rightarrow> u64" where
  "make_kgid gid = gid"

definition from_kuid :: "u64 \<Rightarrow> u64" where
  "from_kuid kuid = kuid"

definition from_kgid :: "u64 \<Rightarrow> u64" where
  "from_kgid kgid = kgid"

definition uid_eq :: "u64 \<Rightarrow> u64 \<Rightarrow> bool" where
  "uid_eq l r \<longleftrightarrow> l = r"

definition gid_eq :: "u64 \<Rightarrow> u64 \<Rightarrow> bool" where
  "gid_eq l r \<longleftrightarrow> l = r"

definition uid_valid :: "u64 \<Rightarrow> bool" where
  "uid_valid uid \<longleftrightarrow> \<not> uid_eq uid (- 1)"

definition gid_valid :: "u64 \<Rightarrow> bool" where
  "gid_valid gid \<longleftrightarrow> \<not> gid_eq gid (- 1)"

definition uid_lte :: "u64 \<Rightarrow> u64 \<Rightarrow> bool" where
  "uid_lte l r \<longleftrightarrow> l \<le> r"

definition gid_lte :: "u64 \<Rightarrow> u64 \<Rightarrow> bool" where
  "gid_lte l r \<longleftrightarrow> l \<le> r"

lemmas id_defs = make_kuid_def make_kgid_def from_kuid_def from_kgid_def uid_eq_def gid_eq_def
  uid_valid_def gid_valid_def uid_lte_def gid_lte_def

section \<open>Identifier maps\<close>

record uid_gid_extent =
  ext_first :: u32
  ext_lower_first :: u32
  ext_count :: u32

text \<open>
  The extents searched are the first \<open>nr_extents\<close> of the map.  The bounds are computed in 32 bits,
  as in the code.
\<close>

fun map_id_down :: "uid_gid_extent list \<Rightarrow> u32 \<Rightarrow> u32" where
  "map_id_down [] i = - 1"
| "map_id_down (x # xs) i =
     (if ext_first x \<le> i \<and> i \<le> ext_first x + ext_count x - 1
      then (i - ext_first x) + ext_lower_first x
      else map_id_down xs i)"

section \<open>Extended attribute format\<close>

text \<open>The header is one 32-bit word, an entry is 8 bytes.\<close>

definition posix_acl_xattr_count :: "nat \<Rightarrow> int" where
  "posix_acl_xattr_count sz =
     (if sz < 4 then - 1
      else let sz = sz - 4 in
        if sz mod 8 \<noteq> 0 then - 1 else int (sz div 8))"

definition posix_acl_xattr_size :: "nat \<Rightarrow> nat" where
  "posix_acl_xattr_size count = 4 + count * 8"

text \<open>\<open>alloc\<close> says whether the memory is there; fresh entries hold no meaningful value yet.\<close>

definition posix_acl_alloc :: "bool \<Rightarrow> nat \<Rightarrow> posix_acl option" where
  "posix_acl_alloc alloc count =
     (if alloc
      then Some \<lparr>a_refcount = 1, a_entries = replicate count \<lparr>e_tag = 0, e_perm = 0, e_uid = 0\<rparr>\<rparr>
      else None)"

text \<open>One round of the decoding loop: an entry, or None for the jump to \<open>fail\<close>.\<close>

definition xattr_entry_decode :: "u8 list \<Rightarrow> posix_acl_entry option" where
  "xattr_entry_decode bs =
     (let tag = le16_read bs; perm = le16_read (drop 2 bs); xid = le32_read (drop 4 bs) in
      if tag \<in> {ACL_USER_OBJ, ACL_GROUP_OBJ, ACL_MASK, ACL_OTHER}
      then Some \<lparr>e_tag = tag, e_perm = perm, e_uid = 0\<rparr>
      else if tag = ACL_USER then
        (if uid_valid (make_kuid (ucast xid))
         then Some \<lparr>e_tag = tag, e_perm = perm, e_uid = make_kuid (ucast xid)\<rparr> else None)
      else if tag = ACL_GROUP then
        (if gid_valid (make_kgid (ucast xid))
         then Some \<lparr>e_tag = tag, e_perm = perm, e_uid = make_kgid (ucast xid)\<rparr> else None)
      else None)"

fun xattr_entries_decode :: "nat \<Rightarrow> u8 list \<Rightarrow> posix_acl_entry list option" where
  "xattr_entries_decode 0 bs = Some []"
| "xattr_entries_decode (Suc n) bs =
     (case xattr_entry_decode bs of
        None \<Rightarrow> None
      | Some e \<Rightarrow>
          (case xattr_entries_decode n (drop 8 bs) of None \<Rightarrow> None | Some es \<Rightarrow> Some (e # es)))"

text \<open>
  The value pointer may be NULL; otherwise it addresses the bytes given, and the size argument is
  their number.
\<close>

definition posix_acl_from_xattr :: "bool \<Rightarrow> u8 list option \<Rightarrow> acl_ptr" where
  "posix_acl_from_xattr alloc val =
     (case val of
        None \<Rightarrow> AclNull
      | Some bs \<Rightarrow>
          let sz = length bs in
          if sz < 4 then AclErr (- EINVAL)
          else if le32_read bs \<noteq> 2 then AclErr (- EOPNOTSUPP)
          else
            let count = posix_acl_xattr_count sz in
            if count < 0 then AclErr (- EINVAL)
            else if count = 0 then AclNull
            else
              (case posix_acl_alloc alloc (nat count) of
                 None \<Rightarrow> AclErr (- ENOMEM)
               | Some acl \<Rightarrow>
                   (case xattr_entries_decode (nat count) (drop 4 bs) of
                      None \<Rightarrow> AclErr (- EINVAL)
                    | Some es \<Rightarrow> Acl (acl\<lparr>a_entries := es\<rparr>))))"

definition xattr_entry_encode :: "posix_acl_entry \<Rightarrow> u8 list" where
  "xattr_entry_encode e =
     le16_bytes (e_tag e) @ le16_bytes (e_perm e) @
     le32_bytes (if e_tag e = ACL_USER then ucast (from_kuid (e_uid e))
                 else if e_tag e = ACL_GROUP then ucast (from_kgid (e_uid e))
                 else ACL_UNDEFINED_ID)"

text \<open>
  With no buffer the needed size is returned; otherwise the result code and the buffer after the
  call.  \<open>sz\<close> is the capacity the caller states, and the code trusts it: a caller that stated more than it
  has would overrun its buffer, which is not modelled here.  The callers pass an array of
  \<open>XATTR_MAX_SIZE\<close> bytes and that size.
\<close>

definition posix_acl_to_xattr :: "posix_acl \<Rightarrow> u8 list option \<Rightarrow> nat \<Rightarrow> int \<times> u8 list option" where
  "posix_acl_to_xattr acl buffer sz =
     (let real_size = posix_acl_xattr_size (length (a_entries acl)) in
      case buffer of
        None \<Rightarrow> (int real_size, None)
      | Some buf \<Rightarrow>
          if real_size > sz then (- ERANGE, Some buf)
          else (int real_size,
                Some (le32_bytes 2 @ concat (map xattr_entry_encode (a_entries acl)) @ drop real_size buf)))"

section \<open>Access decision\<close>

definition acl_check_perm :: "posix_acl_entry \<Rightarrow> u16 \<Rightarrow> int" where
  "acl_check_perm pa want = (if e_perm pa AND want = want then 0 else - EACCES)"

text \<open>The code at label \<open>mask\<close>: the search for a mask entry after the matching one.\<close>

fun acl_mask_search :: "posix_acl_entry \<Rightarrow> posix_acl_entry list \<Rightarrow> u16 \<Rightarrow> int" where
  "acl_mask_search pa [] want = acl_check_perm pa want"
| "acl_mask_search pa (m # ms) want =
     (if e_tag m = ACL_MASK
      then (if e_perm pa AND e_perm m AND want = want then 0 else - EACCES)
      else acl_mask_search pa ms want)"

fun acl_scan :: "inode_cxt \<Rightarrow> inode_cxt \<Rightarrow> u16 \<Rightarrow> bool \<Rightarrow> posix_acl_entry list \<Rightarrow> int" where
  "acl_scan inode env want found [] = - EIO"
| "acl_scan inode env want found (pa # pe) =
     (if e_tag pa = ACL_USER_OBJ then
        (if uid_eq (i_uid inode) (i_uid env) then acl_check_perm pa want
         else acl_scan inode env want found pe)
      else if e_tag pa = ACL_USER then
        (if uid_eq (e_uid pa) (i_uid env) then acl_mask_search pa pe want
         else acl_scan inode env want found pe)
      else if e_tag pa = ACL_GROUP_OBJ then
        (if gid_eq (i_gid inode) (i_gid env) then
           (if e_perm pa AND want = want then acl_mask_search pa pe want
            else acl_scan inode env want True pe)
         else acl_scan inode env want found pe)
      else if e_tag pa = ACL_GROUP then
        (if gid_eq (e_uid pa) (i_gid env) then
           (if e_perm pa AND want = want then acl_mask_search pa pe want
            else acl_scan inode env want True pe)
         else acl_scan inode env want found pe)
      else if e_tag pa = ACL_MASK then acl_scan inode env want found pe
      else if e_tag pa = ACL_OTHER then
        (if found then - EACCES else acl_check_perm pa want)
      else - EIO)"

definition posix_acl_permission :: "inode_cxt \<Rightarrow> inode_cxt \<Rightarrow> posix_acl \<Rightarrow> u16 \<Rightarrow> int" where
  "posix_acl_permission inode env acl want =
     acl_scan inode env
       (want AND (MAY_READ OR MAY_WRITE OR MAY_EXEC OR MAY_NOT_BLOCK)) False (a_entries acl)"

section \<open>Validity\<close>

fun acl_valid_scan :: "u16 \<Rightarrow> u64 \<Rightarrow> u64 \<Rightarrow> bool \<Rightarrow> posix_acl_entry list \<Rightarrow> int" where
  "acl_valid_scan state prev_uid prev_gid needs_mask [] = (if state = 0 then 0 else - EINVAL)"
| "acl_valid_scan state prev_uid prev_gid needs_mask (pa # pe) =
     (if e_perm pa AND NOT 7 \<noteq> 0 then - EINVAL
      else if e_tag pa = ACL_USER_OBJ then
        (if state = ACL_USER_OBJ then acl_valid_scan ACL_USER prev_uid prev_gid needs_mask pe
         else - EINVAL)
      else if e_tag pa = ACL_USER then
        (if state \<noteq> ACL_USER then - EINVAL
         else if \<not> uid_valid (e_uid pa) then - EINVAL
         else if uid_valid prev_uid \<and> uid_lte (e_uid pa) prev_uid then - EINVAL
         else acl_valid_scan state (e_uid pa) prev_gid True pe)
      else if e_tag pa = ACL_GROUP_OBJ then
        (if state = ACL_USER then acl_valid_scan ACL_GROUP prev_uid prev_gid needs_mask pe
         else - EINVAL)
      else if e_tag pa = ACL_GROUP then
        (if state \<noteq> ACL_GROUP then - EINVAL
         else if \<not> gid_valid (e_uid pa) then - EINVAL
         else if gid_valid prev_gid \<and> gid_lte (e_uid pa) prev_gid then - EINVAL
         else acl_valid_scan state prev_uid (e_uid pa) True pe)
      else if e_tag pa = ACL_MASK then
        (if state \<noteq> ACL_GROUP then - EINVAL
         else acl_valid_scan ACL_OTHER prev_uid prev_gid needs_mask pe)
      else if e_tag pa = ACL_OTHER then
        (if state = ACL_OTHER \<or> (state = ACL_GROUP \<and> \<not> needs_mask)
         then acl_valid_scan 0 prev_uid prev_gid needs_mask pe
         else - EINVAL)
      else - EINVAL)"

definition posix_acl_valid :: "posix_acl \<Rightarrow> int" where
  "posix_acl_valid acl = acl_valid_scan ACL_USER_OBJ (- 1) (- 1) False (a_entries acl)"

section \<open>Masking a default ACL at creation\<close>

text \<open>The two assignments of every class: the entry's permissions, then the mode.\<close>

definition masq_perm :: "u16 \<Rightarrow> u16 \<Rightarrow> u16" where
  "masq_perm perm bits = perm AND (bits OR NOT S_IRWXO)"

definition masq_mode :: "u16 \<Rightarrow> u16 \<Rightarrow> u16 \<Rightarrow> u16" where
  "masq_mode mode bits cls = mode AND (bits OR NOT cls)"

text \<open>
  The loop of \<open>posix_acl_create_masq\<close> updates the owner and other entries and the mode in place
  and remembers where the group and mask entries are.  The result says whether every tag was known,
  and gives the entries, the mode, the two positions and the \<open>not_equiv\<close> flag.
\<close>

fun masq_loop :: "nat \<Rightarrow> posix_acl_entry list \<Rightarrow> u16 \<Rightarrow> nat option \<Rightarrow> nat option \<Rightarrow> int
    \<Rightarrow> bool \<times> posix_acl_entry list \<times> u16 \<times> nat option \<times> nat option \<times> int" where
  "masq_loop i [] mode g m ne = (True, [], mode, g, m, ne)"
| "masq_loop i (pa # pe) mode g m ne =
     (if e_tag pa = ACL_USER_OBJ then
        (let perm = masq_perm (e_perm pa) (drop_bit 6 mode);
             mode' = masq_mode mode (push_bit 6 perm) S_IRWXU;
             (ok, es, r) = masq_loop (Suc i) pe mode' g m ne
         in (ok, pa\<lparr>e_perm := perm\<rparr> # es, r))
      else if e_tag pa = ACL_USER \<or> e_tag pa = ACL_GROUP then
        (let (ok, es, r) = masq_loop (Suc i) pe mode g m 1 in (ok, pa # es, r))
      else if e_tag pa = ACL_GROUP_OBJ then
        (let (ok, es, r) = masq_loop (Suc i) pe mode (Some i) m ne in (ok, pa # es, r))
      else if e_tag pa = ACL_OTHER then
        (let perm = masq_perm (e_perm pa) mode;
             mode' = masq_mode mode perm S_IRWXO;
             (ok, es, r) = masq_loop (Suc i) pe mode' g m ne
         in (ok, pa\<lparr>e_perm := perm\<rparr> # es, r))
      else if e_tag pa = ACL_MASK then
        (let (ok, es, r) = masq_loop (Suc i) pe mode g (Some i) 1 in (ok, pa # es, r))
      else (False, pa # pe, mode, g, m, ne))"

text \<open>The second half, on the entry the group class is limited by.\<close>

definition masq_group :: "posix_acl_entry list \<Rightarrow> nat \<Rightarrow> u16 \<Rightarrow> posix_acl_entry list \<times> u16" where
  "masq_group es k mode =
     (let perm = masq_perm (e_perm (es ! k)) (drop_bit 3 mode)
      in (es[k := (es ! k)\<lparr>e_perm := perm\<rparr>], masq_mode mode (push_bit 3 perm) S_IRWXG))"

text \<open>The result code, the ACL as the call leaves it, and \<open>*mode_p\<close>.\<close>

definition posix_acl_create_masq :: "posix_acl \<Rightarrow> u16 \<Rightarrow> int \<times> posix_acl \<times> u16" where
  "posix_acl_create_masq acl mode_p =
     (let (ok, es, mode, g, m, ne) = masq_loop 0 (a_entries acl) mode_p None None 0 in
      if \<not> ok then (- EIO, acl\<lparr>a_entries := es\<rparr>, mode_p)
      else
        case (m, g) of
          (Some k, _) \<Rightarrow>
            (let (es', mode') = masq_group es k mode
             in (ne, acl\<lparr>a_entries := es'\<rparr>, (mode_p AND NOT S_IRWXUGO) OR mode'))
        | (None, Some k) \<Rightarrow>
            (let (es', mode') = masq_group es k mode
             in (ne, acl\<lparr>a_entries := es'\<rparr>, (mode_p AND NOT S_IRWXUGO) OR mode'))
        | (None, None) \<Rightarrow> (- EIO, acl\<lparr>a_entries := es\<rparr>, mode_p))"

definition posix_acl_clone :: "bool \<Rightarrow> posix_acl \<Rightarrow> posix_acl option" where
  "posix_acl_clone alloc acl = (if alloc then Some (acl\<lparr>a_refcount := 1\<rparr>) else None)"

text \<open>The result code, the ACL pointer (\<open>None\<close> is NULL) and the mode after the call.\<close>

definition posix_acl_create :: "bool \<Rightarrow> posix_acl \<Rightarrow> u16 \<Rightarrow> int \<times> posix_acl option \<times> u16" where
  "posix_acl_create alloc acl mode_p =
     (case posix_acl_clone alloc acl of
        None \<Rightarrow> (- ENOMEM, None, mode_p)
      | Some clone \<Rightarrow>
          let (err, clone', mode') = posix_acl_create_masq clone mode_p in
          if err < 0 then (err, None, mode') else (err, Some clone', mode'))"

section \<open>Round trip of the attribute format\<close>

lemma length_xattr_entry_encode [simp]: "length (xattr_entry_encode e) = 8"
  by (simp add: xattr_entry_encode_def)

lemma length_concat_entries [simp]: "length (concat (map xattr_entry_encode es)) = 8 * length es"
  by (induction es) auto

text \<open>An entry that survives the format: a known tag, and the identifier where it has one.\<close>

definition storable_entry :: "posix_acl_entry \<Rightarrow> bool" where
  "storable_entry e \<longleftrightarrow>
     (if e_tag e = ACL_USER \<or> e_tag e = ACL_GROUP then unat (e_uid e) < 2 ^ 32
      else e_tag e \<in> {ACL_USER_OBJ, ACL_GROUP_OBJ, ACL_MASK, ACL_OTHER} \<and> e_uid e = 0)"

lemma ucast_ucast_u32: "unat (x :: u64) < 2 ^ 32 \<Longrightarrow> ucast (ucast x :: u32) = x"
  by (rule word_unat_eq_iff [THEN iffD2])
    (simp add: unsigned_ucast_eq unsigned_take_bit_eq take_bit_nat_eq_self_iff)

lemma u32_uid_valid [simp]: "uid_valid (ucast (x :: u32))" "gid_valid (ucast (x :: u32))"
proof -
  have "ucast x \<noteq> (- 1 :: u64)"
  proof
    assume "ucast x = (- 1 :: u64)"
    then have "bit (ucast x :: u64) 63" by simp
    then show False by (auto simp: bit_simps dest: bit_imp_le_length)
  qed
  then show "uid_valid (ucast x)" "gid_valid (ucast x)" by (simp_all add: id_defs)
qed

lemma xattr_entry_decode_encode:
  assumes "storable_entry e"
  shows "xattr_entry_decode (xattr_entry_encode e @ bs) = Some e"
proof -
  have "e_tag e = ACL_USER \<or> e_tag e = ACL_GROUP \<Longrightarrow> ucast (ucast (e_uid e) :: u32) = e_uid e"
    using assms by (intro ucast_ucast_u32) (auto simp: storable_entry_def)
  then show ?thesis
    using assms
    by (cases e) (auto simp: xattr_entry_decode_def xattr_entry_encode_def storable_entry_def id_defs
      u32_uid_valid [unfolded id_defs] split: if_splits)
qed

lemma xattr_entries_decode_encode:
  "\<forall>e \<in> set es. storable_entry e \<Longrightarrow>
   xattr_entries_decode (length es) (concat (map xattr_entry_encode es) @ bs) = Some es"
  by (induction es) (auto simp: xattr_entry_decode_encode)

lemma posix_acl_xattr_count_size [simp]:
  "posix_acl_xattr_count (4 + 8 * n) = int n"
  by (simp add: posix_acl_xattr_count_def)

lemma to_from_xattr:
  assumes "\<forall>e \<in> set (a_entries acl). storable_entry e" "a_entries acl \<noteq> []" "a_refcount acl = 1"
    and "posix_acl_xattr_size (length (a_entries acl)) \<le> sz"
  shows "\<exists>n out. posix_acl_to_xattr acl (Some buf) sz = (int n, Some out)
     \<and> posix_acl_from_xattr True (Some (take n out)) = Acl acl \<and> drop n out = drop n buf"
proof -
  let ?n = "posix_acl_xattr_size (length (a_entries acl))"
  let ?enc = "le32_bytes 2 @ concat (map xattr_entry_encode (a_entries acl))"
  have n: "?n = length ?enc" by (simp add: posix_acl_xattr_size_def)
  have "posix_acl_to_xattr acl (Some buf) sz = (int ?n, Some (?enc @ drop ?n buf))"
    using assms(4) by (simp add: posix_acl_to_xattr_def Let_def)
  moreover have "posix_acl_from_xattr True (Some ?enc) = Acl acl"
    using assms(1-3) xattr_entries_decode_encode [of "a_entries acl" "[]"]
    by (cases acl) (simp add: posix_acl_from_xattr_def posix_acl_alloc_def Let_def)
  ultimately show ?thesis using n by (metis append_eq_conv_conj)
qed

text \<open>C14: Writing an ACL into a buffer of sufficient capacity and parsing the bytes written gives
  the ACL back, and the rest of the buffer is untouched.  The entries must have known tags, and
  identifiers of named entries must fit the 32 bits the format has for them.\<close>
theorem acl_xattr_roundtrip:
  assumes "\<forall>e \<in> set (a_entries acl). storable_entry e" "a_entries acl \<noteq> []" "a_refcount acl = 1"
    and "posix_acl_xattr_size (length (a_entries acl)) \<le> sz"
  shows "\<exists>n out. posix_acl_to_xattr acl (Some buf) sz = (int n, Some out)
     \<and> posix_acl_from_xattr True (Some (take n out)) = Acl acl \<and> drop n out = drop n buf"
  using assms by (rule to_from_xattr)

definition sample_acl :: posix_acl where
  "sample_acl = \<lparr>a_refcount = 1, a_entries =
     [\<lparr>e_tag = ACL_USER_OBJ, e_perm = 7, e_uid = 0\<rparr>, \<lparr>e_tag = ACL_USER, e_perm = 6, e_uid = 1000\<rparr>,
      \<lparr>e_tag = ACL_GROUP_OBJ, e_perm = 5, e_uid = 0\<rparr>, \<lparr>e_tag = ACL_MASK, e_perm = 4, e_uid = 0\<rparr>,
      \<lparr>e_tag = ACL_OTHER, e_perm = 0, e_uid = 0\<rparr>]\<rparr>"

theorem acl_xattr_roundtrip_witness:
  "\<exists>n out. posix_acl_to_xattr sample_acl (Some (replicate 64 0)) 64 = (int n, Some out)
     \<and> posix_acl_from_xattr True (Some (take n out)) = Acl sample_acl
     \<and> drop n out = drop n (replicate 64 0)"
  by (rule acl_xattr_roundtrip)
    (simp_all add: sample_acl_def storable_entry_def posix_acl_xattr_size_def)

section \<open>Shape of a valid ACL\<close>

text \<open>
  What \<open>posix_acl_valid\<close> accepts: the owner, named users in increasing order, the owning group,
  named groups in increasing order, a mask (mandatory once there is a named entry) and others.
\<close>

definition acl_shape :: "posix_acl_entry list \<Rightarrow> posix_acl_entry \<Rightarrow> posix_acl_entry list \<Rightarrow>
    posix_acl_entry \<Rightarrow> posix_acl_entry list \<Rightarrow> posix_acl_entry list \<Rightarrow> posix_acl_entry \<Rightarrow> bool" where
  "acl_shape es u us g gs ms ot \<longleftrightarrow>
     es = u # us @ g # gs @ ms @ [ot] \<and>
     e_tag u = ACL_USER_OBJ \<and> (\<forall>e \<in> set us. e_tag e = ACL_USER) \<and>
     e_tag g = ACL_GROUP_OBJ \<and> (\<forall>e \<in> set gs. e_tag e = ACL_GROUP) \<and>
     (ms = [] \<or> (\<exists>m. ms = [m] \<and> e_tag m = ACL_MASK)) \<and> e_tag ot = ACL_OTHER \<and>
     (us \<noteq> [] \<or> gs \<noteq> [] \<longrightarrow> ms \<noteq> []) \<and>
     sorted_wrt (<) (map e_uid us) \<and> sorted_wrt (<) (map e_uid gs) \<and>
     (\<forall>e \<in> set us \<union> set gs. e_uid e \<noteq> - 1) \<and> (\<forall>e \<in> set es. e_perm e AND NOT 7 = 0)"

lemma valid_done: "acl_valid_scan 0 pu pg nm es = 0 \<Longrightarrow> es = []"
  by (cases es) (auto split: if_splits)

lemma valid_other:
  "acl_valid_scan ACL_OTHER pu pg nm es = 0 \<Longrightarrow>
   \<exists>ot. es = [ot] \<and> e_tag ot = ACL_OTHER \<and> e_perm ot AND NOT 7 = 0"
  by (cases es) (auto split: if_splits dest: valid_done)

lemma valid_groups:
  "acl_valid_scan ACL_GROUP pu pg nm es = 0 \<Longrightarrow>
   \<exists>gs ms ot. es = gs @ ms @ [ot] \<and> (\<forall>e \<in> set gs. e_tag e = ACL_GROUP) \<and>
     (ms = [] \<or> (\<exists>m. ms = [m] \<and> e_tag m = ACL_MASK)) \<and> e_tag ot = ACL_OTHER \<and>
     (nm \<or> gs \<noteq> [] \<longrightarrow> ms \<noteq> []) \<and> sorted_wrt (<) (map e_uid gs) \<and>
     (gid_valid pg \<longrightarrow> (\<forall>e \<in> set gs. pg < e_uid e)) \<and> (\<forall>e \<in> set gs. e_uid e \<noteq> - 1) \<and>
     (\<forall>e \<in> set es. e_perm e AND NOT 7 = 0)"
proof (induction es arbitrary: pg nm)
  case Nil
  then show ?case by simp
next
  case (Cons e es)
  consider (grp) "e_tag e = ACL_GROUP" | (mask) "e_tag e = ACL_MASK" | (oth) "e_tag e = ACL_OTHER"
    using Cons.prems by (auto split: if_splits)
  then show ?case
  proof cases
    case grp
    with Cons.prems have e: "e_perm e AND NOT 7 = 0" "gid_valid (e_uid e)"
        "gid_valid pg \<longrightarrow> pg < e_uid e"
        and rest: "acl_valid_scan ACL_GROUP pu (e_uid e) True es = 0"
      by (auto simp: gid_lte_def split: if_splits)
    from Cons.IH [OF rest] obtain gs ms ot where
      "es = gs @ ms @ [ot]" "\<forall>e \<in> set gs. e_tag e = ACL_GROUP"
      "ms = [] \<or> (\<exists>m. ms = [m] \<and> e_tag m = ACL_MASK)" "e_tag ot = ACL_OTHER" "ms \<noteq> []"
      "sorted_wrt (<) (map e_uid gs)" "\<forall>e' \<in> set gs. e_uid e < e_uid e'"
      "\<forall>e \<in> set gs. e_uid e \<noteq> - 1" "\<forall>e \<in> set es. e_perm e AND NOT 7 = 0"
      using e(2) by auto
    with e grp show ?thesis
      by (intro exI [of _ "e # gs"] exI [of _ ms] exI [of _ ot]) (auto simp: id_defs)
  next
    case mask
    with Cons.prems have "e_perm e AND NOT 7 = 0" "acl_valid_scan ACL_OTHER pu pg nm es = 0"
      by (auto split: if_splits)
    with mask show ?thesis
      by (intro exI [of _ "[]"] exI [of _ "[e]"] exI [of _ "hd es"]) (auto dest: valid_other)
  next
    case oth
    with Cons.prems have "e_perm e AND NOT 7 = 0" "\<not> nm" "es = []"
      by (auto split: if_splits dest: valid_done)
    with oth show ?thesis
      by (intro exI [of _ "[]"] exI [of _ e]) auto
  qed
qed


lemma valid_users:
  "acl_valid_scan ACL_USER pu pg nm es = 0 \<Longrightarrow>
   \<exists>us g rest. es = us @ g # rest \<and> (\<forall>e \<in> set us. e_tag e = ACL_USER) \<and> e_tag g = ACL_GROUP_OBJ \<and>
     sorted_wrt (<) (map e_uid us) \<and> (uid_valid pu \<longrightarrow> (\<forall>e \<in> set us. pu < e_uid e)) \<and>
     (\<forall>e \<in> set us. e_uid e \<noteq> - 1) \<and> (\<forall>e \<in> set (us @ [g]). e_perm e AND NOT 7 = 0) \<and>
     (\<exists>pu'. acl_valid_scan ACL_GROUP pu' pg (nm \<or> us \<noteq> []) rest = 0)"
proof (induction es arbitrary: pu nm)
  case Nil
  then show ?case by simp
next
  case (Cons e es)
  consider (usr) "e_tag e = ACL_USER" | (grp) "e_tag e = ACL_GROUP_OBJ"
    using Cons.prems by (auto split: if_splits)
  then show ?case
  proof cases
    case usr
    with Cons.prems have e: "e_perm e AND NOT 7 = 0" "uid_valid (e_uid e)"
        "uid_valid pu \<longrightarrow> pu < e_uid e"
        and rest: "acl_valid_scan ACL_USER (e_uid e) pg True es = 0"
      by (auto simp: uid_lte_def split: if_splits)
    from Cons.IH [OF rest] obtain us g rest' pu' where
      "es = us @ g # rest'" "\<forall>e \<in> set us. e_tag e = ACL_USER" "e_tag g = ACL_GROUP_OBJ"
      "sorted_wrt (<) (map e_uid us)" "\<forall>e' \<in> set us. e_uid e < e_uid e'"
      "\<forall>e \<in> set us. e_uid e \<noteq> - 1" "\<forall>e \<in> set (us @ [g]). e_perm e AND NOT 7 = 0"
      "acl_valid_scan ACL_GROUP pu' pg True rest' = 0"
      using e(2) by auto
    with e usr show ?thesis
      by (intro exI [of _ "e # us"] exI [of _ g] exI [of _ rest']) (auto simp: id_defs)
  next
    case grp
    with Cons.prems have "e_perm e AND NOT 7 = 0" "acl_valid_scan ACL_GROUP pu pg nm es = 0"
      by (auto split: if_splits)
    with grp show ?thesis
      by (intro exI [of _ "[]"] exI [of _ e] exI [of _ es]) auto
  qed
qed

lemma acl_valid_imp_shape:
  assumes "posix_acl_valid acl = 0"
  shows "\<exists>u us g gs ms ot. acl_shape (a_entries acl) u us g gs ms ot"
proof -
  from assms obtain u es where es: "a_entries acl = u # es" "e_tag u = ACL_USER_OBJ"
      "e_perm u AND NOT 7 = 0" and 1: "acl_valid_scan ACL_USER (- 1) (- 1) False es = 0"
    by (cases "a_entries acl") (auto simp: posix_acl_valid_def split: if_splits)
  from valid_users [OF 1] obtain us g rest pu' where u:
      "es = us @ g # rest" "\<forall>e \<in> set us. e_tag e = ACL_USER" "e_tag g = ACL_GROUP_OBJ"
      "sorted_wrt (<) (map e_uid us)" "\<forall>e \<in> set us. e_uid e \<noteq> - 1"
      "\<forall>e \<in> set (us @ [g]). e_perm e AND NOT 7 = 0"
    and 2: "acl_valid_scan ACL_GROUP pu' (- 1) (us \<noteq> []) rest = 0"
    by auto
  from valid_groups [OF 2] obtain gs ms ot where g: "rest = gs @ ms @ [ot]"
      "\<forall>e \<in> set gs. e_tag e = ACL_GROUP" "ms = [] \<or> (\<exists>m. ms = [m] \<and> e_tag m = ACL_MASK)"
      "e_tag ot = ACL_OTHER" "us \<noteq> [] \<or> gs \<noteq> [] \<longrightarrow> ms \<noteq> []" "sorted_wrt (<) (map e_uid gs)"
      "\<forall>e \<in> set gs. e_uid e \<noteq> - 1" "\<forall>e \<in> set rest. e_perm e AND NOT 7 = 0"
    by metis
  have "acl_shape (a_entries acl) u us g gs ms ot"
    unfolding acl_shape_def using es u g by auto
  then show ?thesis by blast
qed

lemma valid_scan_groups:
  "\<forall>e \<in> set gs. e_tag e = ACL_GROUP \<and> e_uid e \<noteq> - 1 \<and> e_perm e AND NOT 7 = 0 \<Longrightarrow>
   sorted_wrt (<) (map e_uid gs) \<Longrightarrow> gid_valid pg \<longrightarrow> (\<forall>e \<in> set gs. pg < e_uid e) \<Longrightarrow>
   \<exists>pg'. acl_valid_scan ACL_GROUP pu pg nm (gs @ rest)
     = acl_valid_scan ACL_GROUP pu pg' (nm \<or> gs \<noteq> []) rest"
proof (induction gs arbitrary: pg nm)
  case Nil
  then show ?case by auto
next
  case (Cons e gs)
  from Cons.IH [of "e_uid e" True] Cons.prems obtain pg' where "acl_valid_scan ACL_GROUP pu (e_uid e) True (gs @ rest)
     = acl_valid_scan ACL_GROUP pu pg' (True \<or> gs \<noteq> []) rest"
    by auto
  with Cons.prems show ?case by (auto simp: id_defs)
qed

lemma valid_scan_users:
  "\<forall>e \<in> set us. e_tag e = ACL_USER \<and> e_uid e \<noteq> - 1 \<and> e_perm e AND NOT 7 = 0 \<Longrightarrow>
   sorted_wrt (<) (map e_uid us) \<Longrightarrow> uid_valid pu \<longrightarrow> (\<forall>e \<in> set us. pu < e_uid e) \<Longrightarrow>
   \<exists>pu'. acl_valid_scan ACL_USER pu pg nm (us @ rest)
     = acl_valid_scan ACL_USER pu' pg (nm \<or> us \<noteq> []) rest"
proof (induction us arbitrary: pu nm)
  case Nil
  then show ?case by auto
next
  case (Cons e us)
  from Cons.IH [of "e_uid e" True] Cons.prems obtain pu' where "acl_valid_scan ACL_USER (e_uid e) pg True (us @ rest)
     = acl_valid_scan ACL_USER pu' pg (True \<or> us \<noteq> []) rest"
    by auto
  with Cons.prems show ?case by (auto simp: id_defs)
qed

lemma acl_shape_imp_valid:
  assumes "acl_shape (a_entries acl) u us g gs ms ot"
  shows "posix_acl_valid acl = 0"
proof -
  note sh = assms [unfolded acl_shape_def]
  have perm: "\<forall>e \<in> set (u # us @ g # gs @ ms @ [ot]). e_perm e AND NOT 7 = 0"
    using sh by simp
  obtain pu where 1: "acl_valid_scan ACL_USER (- 1) (- 1) False (us @ g # gs @ ms @ [ot])
      = acl_valid_scan ACL_USER pu (- 1) (us \<noteq> []) (g # gs @ ms @ [ot])"
    using valid_scan_users [of us "- 1" "- 1" False "g # gs @ ms @ [ot]"] sh perm by (auto simp: id_defs)
  obtain pg where 2: "acl_valid_scan ACL_GROUP pu (- 1) (us \<noteq> []) (gs @ ms @ [ot])
      = acl_valid_scan ACL_GROUP pu pg (us \<noteq> [] \<or> gs \<noteq> []) (ms @ [ot])"
    using valid_scan_groups [of gs "- 1" pu "us \<noteq> []" "ms @ [ot]"] sh perm by (auto simp: id_defs)
  have "acl_valid_scan ACL_GROUP pu pg (us \<noteq> [] \<or> gs \<noteq> []) (ms @ [ot]) = 0"
    using sh perm by auto
  with 1 2 sh perm show ?thesis by (simp add: posix_acl_valid_def)
qed

text \<open>C18: \<open>posix_acl_valid\<close> returns 0 exactly on the canonical ACLs: one owner entry, then named
  users with strictly increasing identifiers, one owning-group entry, named groups likewise, at most
  one mask (present whenever there is a named entry) and one entry for others, with no permission
  bits beyond read, write and execute.\<close>
theorem acl_valid_iff_shape:
  "posix_acl_valid acl = 0 \<longleftrightarrow> (\<exists>u us g gs ms ot. acl_shape (a_entries acl) u us g gs ms ot)"
  using acl_valid_imp_shape acl_shape_imp_valid by blast

section \<open>The access decision on valid ACLs\<close>

text \<open>
  The POSIX rule: the owner is judged by the owner entry alone; a user with an entry of its own by
  that entry and the mask; a user in a matching group needs one matching entry that grants
  everything wanted, and the mask; everybody else is judged by the entry for others.
\<close>

definition acl_covers :: "posix_acl_entry \<Rightarrow> u16 \<Rightarrow> bool" where
  "acl_covers e want \<longleftrightarrow> e_perm e AND want = want"

definition acl_grants :: "inode_cxt \<Rightarrow> inode_cxt \<Rightarrow> posix_acl_entry list \<Rightarrow> u16 \<Rightarrow> bool" where
  "acl_grants inode env es want \<longleftrightarrow>
     (let has = (\<lambda>P. \<exists>e \<in> set es. P e \<and> acl_covers e want);
          masked = (\<forall>e \<in> set es. e_tag e = ACL_MASK \<longrightarrow> acl_covers e want);
          named = (\<lambda>e. e_tag e = ACL_USER \<and> e_uid e = i_uid env);
          grouped = (\<lambda>e. (e_tag e = ACL_GROUP_OBJ \<and> i_gid inode = i_gid env) \<or>
                          (e_tag e = ACL_GROUP \<and> e_uid e = i_gid env))
      in if i_uid inode = i_uid env then has (\<lambda>e. e_tag e = ACL_USER_OBJ)
         else if \<exists>e \<in> set es. named e then has named \<and> masked
         else if \<exists>e \<in> set es. grouped e then has grouped \<and> masked
         else has (\<lambda>e. e_tag e = ACL_OTHER))"

lemma and_and_eq_iff: "(a AND b AND w = w) \<longleftrightarrow> (a AND w = w) \<and> (b AND w = w)" for a b w :: u16
  by (metis (no_types, lifting) and.assoc and.commute and.idem)

lemma acl_mask_search_append:
  "\<forall>e \<in> set xs. e_tag e \<noteq> ACL_MASK \<Longrightarrow> acl_mask_search pa (xs @ ys) want = acl_mask_search pa ys want"
  by (induction xs) auto

lemma acl_scan_users:
  "\<forall>e \<in> set us. e_tag e = ACL_USER \<Longrightarrow> \<forall>e \<in> set us. e_uid e \<noteq> i_uid env \<Longrightarrow>
   acl_scan inode env want f (us @ rest) = acl_scan inode env want f rest"
  by (induction us) (auto simp: id_defs)

lemma acl_scan_groups:
  "\<forall>e \<in> set gs. e_tag e = ACL_GROUP \<Longrightarrow>
   \<forall>e \<in> set gs. e_uid e = i_gid env \<longrightarrow> \<not> acl_covers e want \<Longrightarrow>
   acl_scan inode env want f (gs @ rest)
     = acl_scan inode env want (f \<or> (\<exists>e \<in> set gs. e_uid e = i_gid env)) rest"
  by (induction gs arbitrary: f) (auto simp: id_defs acl_covers_def)

lemma acl_mask_search_shape:
  assumes "\<forall>e \<in> set xs. e_tag e \<noteq> ACL_MASK"
    "ms = [] \<or> (\<exists>m. ms = [m] \<and> e_tag m = ACL_MASK)" "e_tag ot = ACL_OTHER"
  shows "acl_mask_search pa (xs @ ms @ [ot]) want
    = (if acl_covers pa want \<and> (\<forall>m \<in> set ms. acl_covers m want) then 0 else - EACCES)"
  using assms by (auto simp: acl_mask_search_append acl_check_perm_def acl_covers_def and_and_eq_iff)

text \<open>A scan that starts at the group entries.\<close>

lemma acl_scan_group_part:
  assumes "\<forall>e \<in> set gs. e_tag e = ACL_GROUP" "e_tag g = ACL_GROUP_OBJ"
    "ms = [] \<or> (\<exists>m. ms = [m] \<and> e_tag m = ACL_MASK)" "e_tag ot = ACL_OTHER"
  shows "acl_scan inode env want False (g # gs @ ms @ [ot]) =
    (if i_gid inode = i_gid env \<or> (\<exists>e \<in> set gs. e_uid e = i_gid env)
     then (if ((i_gid inode = i_gid env \<and> acl_covers g want) \<or>
               (\<exists>e \<in> set gs. e_uid e = i_gid env \<and> acl_covers e want)) \<and>
              (\<forall>m \<in> set ms. acl_covers m want) then 0 else - EACCES)
     else if acl_covers ot want then 0 else - EACCES)"
proof -
  have tail: "acl_scan inode env want f (ms @ [ot])
      = (if f then - EACCES else if acl_covers ot want then 0 else - EACCES)" for f
    using assms(3,4) by (auto simp: acl_check_perm_def acl_covers_def)
  have gpart: "acl_scan inode env want f (gs @ ms @ [ot]) =
      (if \<exists>e \<in> set gs. e_uid e = i_gid env \<and> acl_covers e want
       then (if \<forall>m \<in> set ms. acl_covers m want then 0 else - EACCES)
       else if f \<or> (\<exists>e \<in> set gs. e_uid e = i_gid env) then - EACCES
       else if acl_covers ot want then 0 else - EACCES)" for f
  proof (cases "\<exists>e \<in> set gs. e_uid e = i_gid env \<and> acl_covers e want")
    case True
    then obtain xs e ys where gs: "gs = xs @ e # ys" "e_uid e = i_gid env" "acl_covers e want"
        "\<forall>e' \<in> set xs. \<not> (e_uid e' = i_gid env \<and> acl_covers e' want)"
      using split_list_first_prop [of gs "\<lambda>e. e_uid e = i_gid env \<and> acl_covers e want"] by auto
    then have "acl_scan inode env want f (gs @ ms @ [ot]) = acl_mask_search e (ys @ ms @ [ot]) want"
      using assms(1) by (simp add: acl_scan_groups) (auto simp: id_defs acl_covers_def)
    also have "\<dots> = (if \<forall>m \<in> set ms. acl_covers m want then 0 else - EACCES)"
      using assms gs by (subst acl_mask_search_shape) auto
    finally show ?thesis using True by simp
  next
    case False
    then have "acl_scan inode env want f (gs @ ms @ [ot])
        = acl_scan inode env want (f \<or> (\<exists>e \<in> set gs. e_uid e = i_gid env)) (ms @ [ot])"
      using assms(1) by (intro acl_scan_groups) auto
    with False show ?thesis by (simp add: tail)
  qed
  show ?thesis
  proof (cases "i_gid inode = i_gid env")
    case True
    then have "acl_scan inode env want False (g # gs @ ms @ [ot]) =
        (if acl_covers g want then acl_mask_search g (gs @ ms @ [ot]) want
         else acl_scan inode env want True (gs @ ms @ [ot]))"
      using assms(2) by (auto simp: id_defs acl_covers_def)
    with True assms show ?thesis
      by (auto simp: gpart acl_mask_search_shape Let_def)
  next
    case False
    with assms(2) have "acl_scan inode env want False (g # gs @ ms @ [ot])
        = acl_scan inode env want False (gs @ ms @ [ot])" by (simp add: id_defs)
    with False show ?thesis by (auto simp: gpart Let_def)
  qed
qed

lemma acl_scan_shape:
  assumes sh: "acl_shape es u us g gs ms ot"
  shows "acl_scan inode env want False es = (if acl_grants inode env es want then 0 else - EACCES)"
proof -
  note sh' = sh [unfolded acl_shape_def]
  have es: "es = u # us @ g # gs @ ms @ [ot]" using sh' by blast
  have sel: "(\<exists>e \<in> set es. e_tag e = ACL_USER_OBJ \<and> P e) \<longleftrightarrow> P u"
    "(\<exists>e \<in> set es. e_tag e = ACL_USER \<and> P e) \<longleftrightarrow> (\<exists>e \<in> set us. P e)"
    "(\<exists>e \<in> set es. e_tag e = ACL_GROUP_OBJ \<and> P e) \<longleftrightarrow> P g"
    "(\<exists>e \<in> set es. e_tag e = ACL_GROUP \<and> P e) \<longleftrightarrow> (\<exists>e \<in> set gs. P e)"
    "(\<forall>e \<in> set es. e_tag e = ACL_MASK \<longrightarrow> P e) \<longleftrightarrow> (\<forall>e \<in> set ms. P e)"
    "(\<exists>e \<in> set es. e_tag e = ACL_OTHER \<and> P e) \<longleftrightarrow> P ot" for P
    unfolding es using sh' by auto
  have gobj: "\<exists>e \<in> set es. e_tag e = ACL_GROUP_OBJ" unfolding es using sh' by auto
  note spec = acl_grants_def Let_def sel conj_assoc conj_disj_distribR bex_disj_distrib
  consider (own) "i_uid inode = i_uid env"
    | (usr) "i_uid inode \<noteq> i_uid env" "\<exists>e \<in> set us. e_uid e = i_uid env"
    | (grp) "i_uid inode \<noteq> i_uid env" "\<forall>e \<in> set us. e_uid e \<noteq> i_uid env"
    by blast
  then show ?thesis
  proof cases
    case own
    then have "acl_grants inode env es want \<longleftrightarrow> acl_covers u want"
      by (simp add: spec)
    with own sh' show ?thesis by (simp add: es id_defs acl_check_perm_def acl_covers_def)
  next
    case usr
    then obtain xs e ys where us: "us = xs @ e # ys" "e_uid e = i_uid env"
        "\<forall>e' \<in> set xs. e_uid e' \<noteq> i_uid env"
      using split_list_first_prop [of us "\<lambda>e. e_uid e = i_uid env"] by auto
    have uniq: "e' = e" if "e' \<in> set us" "e_uid e' = i_uid env" for e'
      using that us sh' by (auto simp: sorted_wrt_append)
    have "acl_scan inode env want False es = acl_mask_search e ((ys @ g # gs) @ ms @ [ot]) want"
      using usr us sh' by (simp add: es acl_scan_users id_defs)
    also have "\<dots> = (if acl_covers e want \<and> (\<forall>m \<in> set ms. acl_covers m want) then 0 else - EACCES)"
      using us sh' by (intro acl_mask_search_shape) auto
    also have "acl_covers e want \<and> (\<forall>m \<in> set ms. acl_covers m want) \<longleftrightarrow> acl_grants inode env es want"
    proof -
      have "(\<exists>e' \<in> set us. e_uid e' = i_uid env \<and> acl_covers e' want) \<longleftrightarrow> acl_covers e want"
        using us(1,2) uniq by (metis in_set_conv_decomp)
      then show ?thesis using usr by (simp add: spec)
    qed
    finally show ?thesis .
  next
    case grp
    with sh' have "acl_scan inode env want False es = acl_scan inode env want False (g # gs @ ms @ [ot])"
      by (simp add: es acl_scan_users id_defs)
    also have "\<dots> = (if acl_grants inode env es want then 0 else - EACCES)"
    proof -
      have "\<forall>e \<in> set gs. e_tag e = ACL_GROUP" "e_tag g = ACL_GROUP_OBJ"
        "ms = [] \<or> (\<exists>m. ms = [m] \<and> e_tag m = ACL_MASK)" "e_tag ot = ACL_OTHER"
        using sh' by auto
      note part = acl_scan_group_part [OF this]
      show ?thesis unfolding part
        using grp gobj by (cases "i_gid inode = i_gid env") (simp_all add: spec)
    qed
    finally show ?thesis .
  qed
qed

lemma acl_permission_decides:
  assumes "posix_acl_valid acl = 0"
  shows "posix_acl_permission inode env acl want =
    (if acl_grants inode env (a_entries acl) (want AND (MAY_READ OR MAY_WRITE OR MAY_EXEC OR MAY_NOT_BLOCK))
     then 0 else - EACCES)"
  using acl_valid_imp_shape [OF assms] acl_scan_shape unfolding posix_acl_permission_def by blast

text \<open>C9: On every ACL that \<open>posix_acl_valid\<close> accepts, the single pass of
  \<open>posix_acl_permission\<close> with its jumps to the mask search decides exactly the declarative POSIX
  rule, and it never returns anything but 0 or \<open>-EACCES\<close>.\<close>
theorem acl_permission_posix:
  assumes "posix_acl_valid acl = 0"
  shows "posix_acl_permission inode env acl want =
    (if acl_grants inode env (a_entries acl) (want AND (MAY_READ OR MAY_WRITE OR MAY_EXEC OR MAY_NOT_BLOCK))
     then 0 else - EACCES)"
  using assms by (rule acl_permission_decides)

theorem acl_permission_posix_witness:
  "posix_acl_permission \<lparr>i_uid = 1, i_gid = 1\<rparr> \<lparr>i_uid = 1000, i_gid = 2\<rparr> sample_acl MAY_READ = 0 \<and>
   posix_acl_permission \<lparr>i_uid = 1, i_gid = 1\<rparr> \<lparr>i_uid = 1000, i_gid = 2\<rparr> sample_acl MAY_WRITE = - EACCES"
proof -
  have v: "posix_acl_valid sample_acl = 0"
    by (simp add: posix_acl_valid_def sample_acl_def id_defs)
  show ?thesis
    unfolding acl_permission_posix [OF v]
    by (simp add: acl_grants_def acl_covers_def sample_acl_def)
qed

section \<open>Masking a default ACL\<close>

lemma perm_bits: "p AND NOT 7 = (0 :: u16) \<Longrightarrow> bit p n \<Longrightarrow> n < 3"
proof -
  assume p: "p AND NOT 7 = 0" "bit p n"
  have "(7 :: u16) = mask 3" by (simp add: mask_eq_exp_minus_1)
  with p have "\<not> bit (p AND NOT (mask 3)) n" by simp
  with p(2) bit_imp_le_length [OF p(2)] show "n < 3" by (auto simp: bit_simps)
qed

lemma masq_loop_named:
  "\<forall>e \<in> set us. e_tag e = ACL_USER \<or> e_tag e = ACL_GROUP \<Longrightarrow>
   masq_loop i (us @ rest) mode g m ne =
     (let (ok, es, r) = masq_loop (i + length us) rest mode g m (if us = [] then ne else 1)
      in (ok, us @ es, r))"
  by (induction us arbitrary: i ne) (auto simp: Let_def split: prod.splits)

lemma class_bits:
  fixes p q o' mode :: u16
  assumes "p AND NOT 7 = 0" "q AND NOT 7 = 0" "o' AND NOT 7 = 0"
  defines "m1 \<equiv> masq_mode mode (push_bit 6 (masq_perm p (drop_bit 6 mode))) S_IRWXU"
  defines "m2 \<equiv> masq_mode m1 (masq_perm o' m1) S_IRWXO"
  shows "masq_perm p (drop_bit 6 mode) = p AND drop_bit 6 mode" (is ?A)
    "masq_perm o' m1 = o' AND mode" (is ?B)
    "masq_perm q (drop_bit 3 m2) = q AND drop_bit 3 mode" (is ?C)
    "(mode AND NOT S_IRWXUGO) OR masq_mode m2 (push_bit 3 (masq_perm q (drop_bit 3 m2))) S_IRWXG
      = (mode AND NOT S_IRWXUGO) OR push_bit 6 (p AND drop_bit 6 mode) OR
        push_bit 3 (q AND drop_bit 3 mode) OR (o' AND mode)" (is ?D)
proof -
  have masks: "S_IRWXO = mask 3" "S_IRWXU = push_bit 6 (mask 3)" "S_IRWXG = push_bit 3 (mask 3)"
    "S_IRWXUGO = mask 9"
    by (simp_all add: mask_eq_exp_minus_1 push_bit_eq_mult)
  note b = perm_bits [OF assms(1)] perm_bits [OF assms(2)] perm_bits [OF assms(3)]
  note defs = masq_perm_def masq_mode_def
  show A: ?A
    unfolding defs masks by (rule bit_word_eqI) (auto simp: bit_simps dest: b)
  show B: ?B
    unfolding m1_def A unfolding defs masks by (rule bit_word_eqI) (auto simp: bit_simps dest: b)
  show C: ?C
    unfolding m2_def B unfolding m1_def A unfolding defs masks
    by (rule bit_word_eqI) (auto simp: bit_simps dest: b)
  show ?D
    unfolding C unfolding m2_def B unfolding m1_def A unfolding defs masks
    by (rule bit_word_eqI) (auto simp: bit_simps dest: b)
qed

text \<open>The entry that limits the group class: the mask if there is one, the owning group if not.\<close>

lemma masq_shape:
  fixes mode :: u16
  assumes sh: "acl_shape (a_entries acl) u us g gs ms ot"
  defines "lim \<equiv> (if ms = [] then g else hd ms)"
  defines "u' \<equiv> u\<lparr>e_perm := e_perm u AND drop_bit 6 mode\<rparr>"
    and "lim' \<equiv> lim\<lparr>e_perm := e_perm lim AND drop_bit 3 mode\<rparr>"
    and "ot' \<equiv> ot\<lparr>e_perm := e_perm ot AND mode\<rparr>"
  shows "posix_acl_create_masq acl mode =
    (if ms = [] then 0 else 1,
     acl\<lparr>a_entries := u' # us @ (if ms = [] then lim' # gs else g # gs @ [lim']) @ [ot']\<rparr>,
     (mode AND NOT S_IRWXUGO) OR push_bit 6 (e_perm u') OR push_bit 3 (e_perm lim') OR e_perm ot')"
proof -
  note sh' = sh [unfolded acl_shape_def]
  have es: "a_entries acl = u # us @ g # gs @ ms @ [ot]" using sh' by blast
  have perm: "e_perm u AND NOT 7 = 0" "e_perm lim AND NOT 7 = 0" "e_perm ot AND NOT 7 = 0"
    using sh' by (auto simp: lim_def)
  have named: "\<forall>e \<in> set us. e_tag e = ACL_USER \<or> e_tag e = ACL_GROUP"
    "\<forall>e \<in> set gs. e_tag e = ACL_USER \<or> e_tag e = ACL_GROUP" using sh' by auto
  let ?m1 = "masq_mode mode (push_bit 6 (masq_perm (e_perm u) (drop_bit 6 mode))) S_IRWXU"
  let ?m2 = "masq_mode ?m1 (masq_perm (e_perm ot) ?m1) S_IRWXO"
  let ?k = "if ms = [] then Suc (length us) else Suc (Suc (length us + length gs))"
  let ?es = "u\<lparr>e_perm := masq_perm (e_perm u) (drop_bit 6 mode)\<rparr> # us @ g # gs @ ms @
     [ot\<lparr>e_perm := masq_perm (e_perm ot) ?m1\<rparr>]"
  note bits = class_bits [OF perm, of mode]
  have loop: "masq_loop 0 (a_entries acl) mode None None 0
    = (True, ?es, ?m2, Some (Suc (length us)), (if ms = [] then None else Some ?k), if ms = [] then 0 else 1)"
    using sh' by (auto simp: es Let_def masq_loop_named [OF named(1)] masq_loop_named [OF named(2)])
  have grp: "masq_group ?es ?k ?m2 =
    (u' # us @ (if ms = [] then lim' # gs else g # gs @ [lim']) @ [ot'],
     masq_mode ?m2 (push_bit 3 (masq_perm (e_perm lim) (drop_bit 3 ?m2))) S_IRWXG)"
    using sh' unfolding lim'_def bits(3) [symmetric] u'_def bits(1) [symmetric] ot'_def bits(2) [symmetric]
    by (auto simp: masq_group_def Let_def lim_def nth_append list_update_append)
  show ?thesis
    unfolding posix_acl_create_masq_def loop
    using grp bits(4) by (auto simp: Let_def u'_def lim'_def ot'_def)
qed

text \<open>C38: Creating an inode under a canonical default ACL cuts every class to the creation mode:
  the owner, the group-class entry (the mask, or the owning group when there is none) and others lose
  the bits the mode does not have, named entries stay, the mode's permission bits become those of
  the three entries, its file-type bits stay, and the result code says whether the ACL is more than
  the mode.\<close>
theorem acl_create_masq_valid:
  assumes "acl_shape (a_entries acl) u us g gs ms ot"
  shows "let lim = (if ms = [] then g else hd ms);
       u' = u\<lparr>e_perm := e_perm u AND drop_bit 6 mode\<rparr>;
       lim' = lim\<lparr>e_perm := e_perm lim AND drop_bit 3 mode\<rparr>;
       ot' = ot\<lparr>e_perm := e_perm ot AND mode\<rparr>
     in posix_acl_create_masq acl mode =
       (if ms = [] then 0 else 1,
        acl\<lparr>a_entries := u' # us @ (if ms = [] then lim' # gs else g # gs @ [lim']) @ [ot']\<rparr>,
        (mode AND NOT S_IRWXUGO) OR push_bit 6 (e_perm u') OR push_bit 3 (e_perm lim') OR e_perm ot')"
  unfolding Let_def by (rule masq_shape [OF assms])

theorem acl_create_masq_valid_witness:
  "fst (posix_acl_create_masq sample_acl 0x81ED) = 1 \<and>
   snd (snd (posix_acl_create_masq sample_acl 0x81ED)) = 0x81E0"
proof -
  have "acl_shape (a_entries sample_acl) (a_entries sample_acl ! 0) [a_entries sample_acl ! 1]
     (a_entries sample_acl ! 2) [] [a_entries sample_acl ! 3] (a_entries sample_acl ! 4)"
    by (simp add: acl_shape_def sample_acl_def)
  from acl_create_masq_valid [OF this, of "0x81ED"] show ?thesis
    by (simp add: Let_def sample_acl_def)
qed

end
