(* ===== verification/Host_Env.thy ===== *)
theory Host_Env
imports Ceph_Prelude
begin

text \<open>
  The surroundings of the file system driver: the calls it makes to the CephFS client library
  (\<open>libcephfs\<close>) and to Windows, what they return, and the computations that make such calls.  Nothing
  is assumed of the answers: an environment is any function from the calls made so far and the next
  call to a reply.
\<close>

section \<open>Calls and replies\<close>

text \<open>\<open>struct stat\<close> of \<open>mingw_include/sys/stat.h\<close>, the members that are used.\<close>

record stat =
  st_mode :: u32
  st_uid :: u32
  st_gid :: u32
  st_size :: int
  st_mtime :: int
  st_ino :: u64
  st_nlink :: u64

definition S_ISDIR :: "u32 \<Rightarrow> bool" where
  "S_ISDIR m \<longleftrightarrow> m AND 0xF000 = 0x4000"

definition S_ISREG :: "u32 \<Rightarrow> bool" where
  "S_ISREG m \<longleftrightarrow> m AND 0xF000 = 0x8000"

lemma dir_is_not_reg: "S_ISDIR m \<Longrightarrow> \<not> S_ISREG m"
  by (simp add: S_ISDIR_def S_ISREG_def)

type_synonym wide = "u16 list"

datatype call =
    Ceph_stat string
  | Ceph_lstat string
  | Ceph_fstat int
  | Ceph_open string int int
  | Ceph_close int
  | Ceph_read int int int
  | Ceph_write int "u8 list" int
  | Ceph_fsync int
  | Ceph_ftruncate int int
  | Ceph_mkdir string int
  | Ceph_rmdir string
  | Ceph_unlink string
  | Ceph_rename string string
  | Ceph_chown string int int
  | Ceph_getxattr string string int
  | Ceph_setxattr string string "u8 list" int
  | Ceph_opendir string
  | Ceph_readdir int
  | Ceph_readdirplus int
  | Ceph_closedir int
  | Ceph_unmount
  | Win_CreateFileA string
  | Win_CreateFileW wide u32 u32 u32 u32
  | Win_CloseHandle int
  | Win_WriteFile int "u8 list"
  | Win_ReadFile int nat
  | Win_GetLastError
  | Win_GetFileAttributes wide
  | Win_GetUserObjectSecurity int u32 u32
  | Win_WSAStartup
  | Win_CreateThread int
  | Ceph_create
  | Ceph_conf_read_file string
  | Ceph_mount string
  | Dokan_main u16 u32 "wide option"
  | Malloc nat

text \<open>
  A reply has the returned value, the \<open>stat\<close> structure filled in, the bytes written to a buffer of the
  caller, the name of a directory entry, and the value stored through a pointer to a handle or a number;
  a call uses the members that belong to it.
\<close>

record reply =
  r_ret :: int
  r_stat :: stat
  r_data :: "u8 list"
  r_name :: string
  r_out :: int

type_synonym env = "call list \<Rightarrow> call \<Rightarrow> reply"

section \<open>Computations that call the environment\<close>

text \<open>A computation gets the environment and the calls made before; it returns a value and its calls.\<close>

type_synonym 'a io = "env \<Rightarrow> call list \<Rightarrow> ('a \<times> call list) exec"

definition io_ret :: "'a \<Rightarrow> 'a io" where
  "io_ret x = (\<lambda>e h. Ret (x, []))"

definition io_exec :: "'a exec \<Rightarrow> 'a io" where
  "io_exec m = (\<lambda>e h. exec_bind m (\<lambda>x. Ret (x, [])))"

definition ask :: "call \<Rightarrow> reply io" where
  "ask c = (\<lambda>e h. Ret (e h c, [c]))"

definition io_bind :: "'a io \<Rightarrow> ('a \<Rightarrow> 'b io) \<Rightarrow> 'b io" where
  "io_bind m f = (\<lambda>e h. exec_bind (m e h) (\<lambda>(x, cs).
     exec_bind (f x e (h @ cs)) (\<lambda>(y, cs'). Ret (y, cs @ cs'))))"

abbreviation (input) io_fault :: "'a io" where
  "io_fault \<equiv> (\<lambda>e h. Fault)"

text \<open>The computation returns, and its value and calls satisfy \<open>Q\<close>.\<close>

definition io_post :: "'a io \<Rightarrow> env \<Rightarrow> call list \<Rightarrow> ('a \<Rightarrow> call list \<Rightarrow> bool) \<Rightarrow> bool" where
  "io_post m e h Q \<longleftrightarrow> exec_post (m e h) (\<lambda>(x, cs). Q x cs)"

lemma io_post_ret [simp]: "io_post (io_ret x) e h Q = Q x []"
  by (simp add: io_post_def io_ret_def)

lemma io_post_ask [simp]: "io_post (ask c) e h Q = Q (e h c) [c]"
  by (simp add: io_post_def ask_def)

lemma io_post_exec [simp]: "io_post (io_exec v) e h Q = exec_post v (\<lambda>x. Q x [])"
  by (simp add: io_post_def io_exec_def)

lemma io_post_bind [simp]:
  "io_post (io_bind m f) e h Q = io_post m e h (\<lambda>x cs. io_post (f x) e (h @ cs) (\<lambda>y cs'. Q y (cs @ cs')))"
  by (simp add: io_post_def io_bind_def split_def)

lemma io_post_fault [simp]: "\<not> io_post io_fault e h Q"
  by (simp add: io_post_def)

lemma io_post_run: "m e h = Ret (x, cs) \<Longrightarrow> io_post m e h Q = Q x cs"
  by (simp add: io_post_def)

lemma io_post_if [simp]:
  "io_post (if b then m else n) e h Q = (if b then io_post m e h Q else io_post n e h Q)"
  by simp

lemma io_post_mono:
  "io_post m e h P \<Longrightarrow> (\<And>x cs. P x cs \<Longrightarrow> Q x cs) \<Longrightarrow> io_post m e h Q"
  by (auto simp: io_post_def elim!: exec_post_mono)

lemma io_postD: "io_post m e h Q \<Longrightarrow> \<exists>x cs. m e h = Ret (x, cs) \<and> Q x cs"
  by (auto simp: io_post_def exec_post_def)

lemma io_postI: "m e h = Ret (x, cs) \<Longrightarrow> Q x cs \<Longrightarrow> io_post m e h Q"
  by (simp add: io_post_def)

lemma io_ret_run: "io_ret x e h = Ret (x, [])"
  by (simp add: io_ret_def)

lemma ask_run: "ask c e h = Ret (e h c, [c])"
  by (simp add: ask_def)

lemma io_exec_run: "io_exec v e h = exec_bind v (\<lambda>x. Ret (x, []))"
  by (simp add: io_exec_def)

lemma io_bind_run:
  "io_bind m f e h = exec_bind (m e h) (\<lambda>(x, cs). exec_bind (f x e (h @ cs)) (\<lambda>(y, cs'). Ret (y, cs @ cs')))"
  by (simp add: io_bind_def)

lemmas io_run_simps = io_ret_run ask_run io_exec_run io_bind_run

section \<open>What calls change\<close>

text \<open>The calls that change what the file system stores.\<close>

fun changes :: "call \<Rightarrow> bool" where
  "changes (Ceph_open p f m) \<longleftrightarrow> and f 0x300 \<noteq> 0"
| "changes (Ceph_write fd d off) \<longleftrightarrow> True"
| "changes (Ceph_ftruncate fd n) \<longleftrightarrow> True"
| "changes (Ceph_mkdir p m) \<longleftrightarrow> True"
| "changes (Ceph_rmdir p) \<longleftrightarrow> True"
| "changes (Ceph_unlink p) \<longleftrightarrow> True"
| "changes (Ceph_rename p q) \<longleftrightarrow> True"
| "changes (Ceph_chown p u g) \<longleftrightarrow> True"
| "changes (Ceph_setxattr p n d f) \<longleftrightarrow> True"
| "changes _ \<longleftrightarrow> False"

section \<open>Calls of a computation\<close>

named_theorems calls_intro "introduction rules for the calls a computation makes"

text \<open>Every call the computation makes satisfies \<open>P\<close>, whatever the environment answers.\<close>

definition io_calls :: "(call \<Rightarrow> bool) \<Rightarrow> 'a io \<Rightarrow> bool" where
  "io_calls P m \<longleftrightarrow> (\<forall>e h x cs. m e h = Ret (x, cs) \<longrightarrow> (\<forall>c \<in> set cs. P c))"

lemma io_callsD: "io_calls P m \<Longrightarrow> m e h = Ret (x, cs) \<Longrightarrow> c \<in> set cs \<Longrightarrow> P c"
  by (auto simp: io_calls_def)

lemma io_calls_ret [calls_intro]: "io_calls P (io_ret x)"
  by (simp add: io_calls_def io_ret_def)

lemma io_calls_fault [calls_intro]: "io_calls P io_fault"
  by (simp add: io_calls_def)

lemma io_calls_ask [calls_intro]: "P c \<Longrightarrow> io_calls P (ask c)"
  by (simp add: io_calls_def ask_def)

lemma io_calls_exec [calls_intro]: "io_calls P (io_exec v)"
  by (auto simp: io_calls_def io_exec_def)

lemma io_calls_bind [calls_intro]: "io_calls P m \<Longrightarrow> (\<And>x. io_calls P (f x)) \<Longrightarrow> io_calls P (io_bind m f)"
  unfolding io_calls_def io_bind_def by fastforce

lemma io_calls_if [calls_intro]: "(b \<Longrightarrow> io_calls P m) \<Longrightarrow> (\<not> b \<Longrightarrow> io_calls P n) \<Longrightarrow> io_calls P (if b then m else n)"
  by simp

lemma io_calls_option [calls_intro]:
  "(x = None \<Longrightarrow> io_calls P m) \<Longrightarrow> (\<And>y. x = Some y \<Longrightarrow> io_calls P (f y)) \<Longrightarrow>
   io_calls P (case x of None \<Rightarrow> m | Some y \<Rightarrow> f y)"
  by (cases x) simp_all

lemma io_calls_sum [calls_intro]:
  "(\<And>y. x = Inl y \<Longrightarrow> io_calls P (f y)) \<Longrightarrow> (\<And>y. x = Inr y \<Longrightarrow> io_calls P (g y)) \<Longrightarrow>
   io_calls P (case x of Inl y \<Rightarrow> f y | Inr y \<Rightarrow> g y)"
  by (cases x) simp_all

lemma io_calls_prod [calls_intro]:
  "(\<And>y z. x = (y, z) \<Longrightarrow> io_calls P (f y z)) \<Longrightarrow> io_calls P (case x of (y, z) \<Rightarrow> f y z)"
  by (cases x) simp

lemma io_calls_let [calls_intro]: "io_calls P (f v) \<Longrightarrow> io_calls P (let x = v in f x)"
  by simp

text \<open>Calls that change nothing, and calls that neither open nor close a descriptor; unmounting closes all.\<close>

definition reads_only :: "call \<Rightarrow> bool" where
  "reads_only c \<longleftrightarrow> \<not> changes c"

fun no_fd_call :: "call \<Rightarrow> bool" where
  "no_fd_call (Ceph_open p f m) \<longleftrightarrow> False"
| "no_fd_call (Ceph_close n) \<longleftrightarrow> False"
| "no_fd_call Ceph_unmount \<longleftrightarrow> False"
| "no_fd_call _ \<longleftrightarrow> True"

lemma no_fd_no_unmount: "\<forall>c \<in> set cs. no_fd_call c \<Longrightarrow> Ceph_unmount \<notin> set cs"
  by auto

section \<open>Partial correctness\<close>

text \<open>If the computation returns, its value and calls satisfy \<open>Q\<close>.\<close>

definition io_wlp :: "'a io \<Rightarrow> env \<Rightarrow> call list \<Rightarrow> ('a \<Rightarrow> call list \<Rightarrow> bool) \<Rightarrow> bool" where
  "io_wlp m e h Q \<longleftrightarrow> (\<forall>x cs. m e h = Ret (x, cs) \<longrightarrow> Q x cs)"

lemma io_wlp_ret [simp]: "io_wlp (io_ret x) e h Q = Q x []"
  by (simp add: io_wlp_def io_ret_def)

lemma io_wlp_ask [simp]: "io_wlp (ask c) e h Q = Q (e h c) [c]"
  by (simp add: io_wlp_def ask_def)

lemma io_wlp_fault [simp]: "io_wlp io_fault e h Q"
  by (simp add: io_wlp_def)

lemma io_wlp_bind [simp]:
  "io_wlp (io_bind m f) e h Q = io_wlp m e h (\<lambda>x cs. io_wlp (f x) e (h @ cs) (\<lambda>y cs'. Q y (cs @ cs')))"
  by (fastforce simp: io_wlp_def io_bind_def)

lemma io_wlp_if [simp]: "io_wlp (if b then m else n) e h Q = (if b then io_wlp m e h Q else io_wlp n e h Q)"
  by simp

lemma io_wlp_neutral:
  "io_calls no_fd_call m \<Longrightarrow> (\<And>x cs. \<forall>c \<in> set cs. no_fd_call c \<Longrightarrow> Q x cs) \<Longrightarrow> io_wlp m e h Q"
  unfolding io_wlp_def io_calls_def by blast

lemma io_wlpD: "io_wlp m e h Q \<Longrightarrow> m e h = Ret (x, cs) \<Longrightarrow> Q x cs"
  by (simp add: io_wlp_def)

lemma io_calls_nofuel [calls_intro]: "io_calls P (\<lambda>e h. NoFuel)"
  by (simp add: io_calls_def)

lemma io_calls_case_prod [calls_intro]:
  "(\<And>y z. io_calls P (f y z)) \<Longrightarrow> io_calls P ((\<lambda>(y, z). f y z) x)"
  by (cases x) simp

lemma io_wlp_any: "(\<And>x cs. Q x cs) \<Longrightarrow> io_wlp m e h Q"
  by (simp add: io_wlp_def)

lemma io_wlp_run: "m e h = Ret (x, cs) \<Longrightarrow> io_wlp m e h Q = Q x cs"
  by (simp add: io_wlp_def)

end
