(* ===== verification/Acl_Walk.thy ===== *)
theory Acl_Walk
imports Posix_Acl Host_Env
begin

text \<open>
  The functions of \<open>dokan/posix_acl.cc\<close> that decide and set permissions through the client library:
  \<open>permission_walk\<close> and its relatives, and the inheritance of ACLs by new files.
\<close>

section \<open>Reading an ACL\<close>

abbreviation (input) XATTR_MAX_SIZE :: nat where "XATTR_MAX_SIZE \<equiv> 8192"

definition POSIX_ACL_XATTR_ACCESS :: string where "POSIX_ACL_XATTR_ACCESS = ''system.posix_acl_access''"
definition POSIX_ACL_XATTR_DEFAULT :: string where "POSIX_ACL_XATTR_DEFAULT = ''system.posix_acl_default''"

text \<open>
  An attribute read into the zeroed buffer: \<open>None\<close> when the length is not positive.  A length beyond the
  buffer would be read past its end.
\<close>

definition getxattr :: "string \<Rightarrow> string \<Rightarrow> u8 list option io" where
  "getxattr path name =
     io_bind (ask (Ceph_getxattr path name (int XATTR_MAX_SIZE))) (\<lambda>r.
       if r_ret r \<le> 0 then io_ret None
       else if r_ret r > int XATTR_MAX_SIZE then io_fault
       else io_ret (Some (take (nat (r_ret r)) (r_data r @ replicate XATTR_MAX_SIZE 0))))"

text \<open>\<open>posix_acl_from_xattr\<close>, with the answer of the allocator from the environment.\<close>

definition acl_from_xattr :: "u8 list \<Rightarrow> acl_ptr io" where
  "acl_from_xattr bs =
     io_bind (ask (Malloc (length bs))) (\<lambda>a. io_ret (posix_acl_from_xattr (r_ret a \<noteq> 0) (Some bs)))"

text \<open>\<open>posix_acl_to_xattr\<close> into a zeroed buffer, and the attribute set to the bytes written.\<close>

definition set_acl :: "string \<Rightarrow> string \<Rightarrow> posix_acl \<Rightarrow> int io" where
  "set_acl path name acl =
     (case posix_acl_to_xattr acl (Some (replicate XATTR_MAX_SIZE 0)) XATTR_MAX_SIZE of
        (real_len, Some buffer) \<Rightarrow>
          if real_len < 0 then io_fault
          else io_bind (ask (Ceph_setxattr path name (take (nat real_len) buffer) 0)) (\<lambda>r. io_ret (r_ret r))
      | _ \<Rightarrow> io_fault)"

section \<open>Permission checks\<close>

definition permission_walk_ugo :: "string \<Rightarrow> u64 \<Rightarrow> u64 \<Rightarrow> u16 \<Rightarrow> int io" where
  "permission_walk_ugo path uid gid perm_chk =
     (if uid = 0 then io_ret 0
      else
        io_bind (ask (Ceph_stat path)) (\<lambda>r.
        if r_ret r \<noteq> 0 then io_ret (r_ret r)
        else
          let st = r_stat r;
              (mr, mw, mx) = (if ucast (st_uid st) = uid then (0x100, 0x80, 0x40)
                              else if ucast (st_gid st) = gid then (0x20, 0x10, 0x08)
                              else (0x04, 0x02, 0x01))
          in
          if perm_chk AND MAY_READ \<noteq> 0 \<and> st_mode st AND mr = 0 then io_ret (- EACCES)
          else if perm_chk AND MAY_WRITE \<noteq> 0 \<and> st_mode st AND mw = 0 then io_ret (- EACCES)
          else if perm_chk AND MAY_EXEC \<noteq> 0 \<and> st_mode st AND mx = 0 then io_ret (- EACCES)
          else io_ret 0))"

text \<open>The result of \<open>ceph_lstat\<close> is compared with -1 only; with another error the structure is used as it is.\<close>

definition fuse_check_acl :: "string \<Rightarrow> u8 list \<Rightarrow> u64 \<Rightarrow> u64 \<Rightarrow> u16 \<Rightarrow> int io" where
  "fuse_check_acl path acl_xattr uid gid msk =
     io_bind (acl_from_xattr acl_xattr) (\<lambda>p.
       case p of
         AclErr err \<Rightarrow> io_ret err
       | _ \<Rightarrow>
           io_bind (ask (Ceph_lstat path)) (\<lambda>r.
           if r_ret r = - 1 then io_ret (- 101)
           else
             let inode = \<lparr>i_uid = ucast (st_uid (r_stat r)), i_gid = ucast (st_gid (r_stat r))\<rparr>;
                 evn_cxt = \<lparr>i_uid = uid, i_gid = gid\<rparr>
             in case p of Acl acl \<Rightarrow> io_ret (posix_acl_permission inode evn_cxt acl msk) | _ \<Rightarrow> io_fault))"

definition permission_walk :: "string \<Rightarrow> u64 \<Rightarrow> u64 \<Rightarrow> u16 \<Rightarrow> int io" where
  "permission_walk path uid gid perm_chk =
     (if uid = 0 then io_ret 0
      else
        io_bind (getxattr path POSIX_ACL_XATTR_ACCESS) (\<lambda>x.
          case x of
            None \<Rightarrow> permission_walk_ugo path uid gid perm_chk
          | Some bs \<Rightarrow> fuse_check_acl path bs uid gid perm_chk))"

text \<open>The loop \<open>while(--l) if(path[l] == '/') break;\<close> entered with \<open>l = Suc k\<close>.\<close>

primrec parent_scan :: "string \<Rightarrow> nat \<Rightarrow> nat" where
  "parent_scan path 0 = 0"
| "parent_scan path (Suc k) = (if path ! Suc k = CHR ''/'' then Suc k else parent_scan path k)"

text \<open>On an empty path the loop starts below the string.\<close>

definition parent_path :: "string \<Rightarrow> string io" where
  "parent_path path =
     (if path = [] then io_fault else io_ret (take (parent_scan path (length path - 1)) path))"

definition permission_walk_parent :: "string \<Rightarrow> u64 \<Rightarrow> u64 \<Rightarrow> u16 \<Rightarrow> int io" where
  "permission_walk_parent path uid gid perm_chk =
     io_bind (parent_path path) (\<lambda>p. permission_walk p uid gid perm_chk)"

section \<open>Inheritance of ACLs\<close>

definition fuse_init_acl :: "string \<Rightarrow> u16 \<Rightarrow> int io" where
  "fuse_init_acl path i_mode =
     io_bind (parent_path path) (\<lambda>dir.
     io_bind (getxattr dir POSIX_ACL_XATTR_DEFAULT) (\<lambda>x.
       case x of
         None \<Rightarrow> io_ret 0
       | Some bs \<Rightarrow>
           io_bind (acl_from_xattr bs) (\<lambda>p.
             case p of
               AclErr err \<Rightarrow> io_ret err
             | AclNull \<Rightarrow> io_ret (- EAGAIN)
             | Acl acl \<Rightarrow>
                 io_bind (if S_ISDIR (ucast i_mode) then set_acl path POSIX_ACL_XATTR_DEFAULT acl else io_ret 0) (\<lambda>error.
                 if error \<noteq> 0 then io_ret error
                 else
                   io_bind (ask (Malloc (length bs))) (\<lambda>a.
                   case posix_acl_create (r_ret a \<noteq> 0) acl i_mode of
                     (error, acl', i_mode') \<Rightarrow>
                       if error > 0
                       then (case acl' of Some acl' \<Rightarrow> set_acl path POSIX_ACL_XATTR_ACCESS acl' | None \<Rightarrow> io_fault)
                       else io_ret error)))))"

definition fuse_disable_acl_mask :: "string \<Rightarrow> int io" where
  "fuse_disable_acl_mask path =
     io_bind (getxattr path POSIX_ACL_XATTR_ACCESS) (\<lambda>x.
       case x of
         None \<Rightarrow> io_ret 0
       | Some bs \<Rightarrow>
           io_bind (acl_from_xattr bs) (\<lambda>p.
             case p of
               AclErr err \<Rightarrow> io_ret err
             | AclNull \<Rightarrow> io_ret (- EAGAIN)
             | Acl acl \<Rightarrow> set_acl path POSIX_ACL_XATTR_ACCESS
                 (acl\<lparr>a_entries := map (\<lambda>e. if e_tag e = ACL_MASK then e\<lparr>e_perm := 7\<rparr> else e) (a_entries acl)\<rparr>)))"

definition fuse_inherit_acl :: "string \<Rightarrow> int io" where
  "fuse_inherit_acl path =
     io_bind (parent_path path) (\<lambda>dir.
     io_bind (getxattr dir POSIX_ACL_XATTR_ACCESS) (\<lambda>x.
       case x of
         None \<Rightarrow> io_ret 0
       | Some bs \<Rightarrow>
           io_bind (acl_from_xattr bs) (\<lambda>p.
             case p of
               AclErr err \<Rightarrow> io_ret err
             | AclNull \<Rightarrow> io_ret (- EAGAIN)
             | Acl acl \<Rightarrow> set_acl path POSIX_ACL_XATTR_ACCESS acl)))"

section \<open>The decision of permission\_walk\<close>

text \<open>The mode bits of the one class the caller is in.\<close>

definition ugo_grants :: "stat \<Rightarrow> u64 \<Rightarrow> u64 \<Rightarrow> u16 \<Rightarrow> bool" where
  "ugo_grants st uid gid want \<longleftrightarrow>
     (let cls = (if ucast (st_uid st) = uid then drop_bit 6 (st_mode st)
                 else if ucast (st_gid st) = gid then drop_bit 3 (st_mode st) else st_mode st)
      in \<forall>k < 3. bit want k \<longrightarrow> bit cls k)"

lemma and_flag: "(x AND 1 \<noteq> 0) = bit x 0" "(x AND 2 \<noteq> 0) = bit x 1" "(x AND 4 \<noteq> 0) = bit x 2"
  for x :: "'a::len word"
proof -
  have *: "(x AND 2 ^ n \<noteq> 0) = bit x n" for n by (simp add: and_exp_eq_0_iff_not_bit)
  from * [of 0] * [of 1] * [of 2] show "(x AND 1 \<noteq> 0) = bit x 0" "(x AND 2 \<noteq> 0) = bit x 1" "(x AND 4 \<noteq> 0) = bit x 2"
    by simp_all
qed

lemma and_mode_flag:
  "(x AND 1 = 0) = (\<not> bit x 0)" "(x AND 2 = 0) = (\<not> bit x 1)" "(x AND 4 = 0) = (\<not> bit x 2)"
  "(x AND 8 = 0) = (\<not> bit x 3)" "(x AND 0x10 = 0) = (\<not> bit x 4)" "(x AND 0x20 = 0) = (\<not> bit x 5)"
  "(x AND 0x40 = 0) = (\<not> bit x 6)" "(x AND 0x80 = 0) = (\<not> bit x 7)" "(x AND 0x100 = 0) = (\<not> bit x 8)"
  for x :: "'a::len word"
proof -
  have *: "(x AND 2 ^ n = 0) = (\<not> bit x n)" for n by (simp add: and_exp_eq_0_iff_not_bit)
  from * [of 0] * [of 1] * [of 2] * [of 3] * [of 4] * [of 5] * [of 6] * [of 7] * [of 8] show
    "(x AND 1 = 0) = (\<not> bit x 0)" "(x AND 2 = 0) = (\<not> bit x 1)" "(x AND 4 = 0) = (\<not> bit x 2)"
    "(x AND 8 = 0) = (\<not> bit x 3)" "(x AND 0x10 = 0) = (\<not> bit x 4)" "(x AND 0x20 = 0) = (\<not> bit x 5)"
    "(x AND 0x40 = 0) = (\<not> bit x 6)" "(x AND 0x80 = 0) = (\<not> bit x 7)" "(x AND 0x100 = 0) = (\<not> bit x 8)"
    by simp_all
qed

lemma permission_walk_ugo_run:
  assumes "uid \<noteq> 0" "r_ret (e h (Ceph_stat path)) = 0"
  shows "permission_walk_ugo path uid gid want e h =
    Ret (if ugo_grants (r_stat (e h (Ceph_stat path))) uid gid want then 0 else - EACCES, [Ceph_stat path])"
proof -
  have 3: "(\<forall>k < 3. P k) \<longleftrightarrow> P 0 \<and> P 1 \<and> P 2" for P :: "nat \<Rightarrow> bool"
    by (auto simp: numeral_3_eq_3 numeral_2_eq_2 less_Suc_eq)
  show ?thesis using assms
    by (simp add: permission_walk_ugo_def io_run_simps ugo_grants_def Let_def 3 and_mode_flag bit_simps)
qed

text \<open>The call that asks for an ACL.\<close>

abbreviation (input) acl_query :: "string \<Rightarrow> string \<Rightarrow> call" where
  "acl_query path name \<equiv> Ceph_getxattr path name 8192"

lemma getxattr_run:
  assumes "r_data (e h (acl_query path name)) = bs" "r_ret (e h (acl_query path name)) = int (length bs)"
    and "bs \<noteq> []" "length bs \<le> XATTR_MAX_SIZE"
  shows "getxattr path name e h = Ret (Some bs, [acl_query path name])"
  using assms by (simp add: getxattr_def io_run_simps)

lemma getxattr_none:
  assumes "r_ret (e h (acl_query path name)) \<le> 0"
  shows "getxattr path name e h = Ret (None, [acl_query path name])"
  using assms by (simp add: getxattr_def io_run_simps)

lemma acl_from_xattr_run:
  assumes "posix_acl_from_xattr True (Some bs) = Acl acl" "r_ret (e h (Malloc (length bs))) \<noteq> 0"
  shows "acl_from_xattr bs e h = Ret (Acl acl, [Malloc (length bs)])"
  using assms by (simp add: acl_from_xattr_def io_run_simps)

text \<open>An environment in which every file has the given attribute bytes and status.\<close>

definition acl_env :: "u8 list \<Rightarrow> stat \<Rightarrow> env" where
  "acl_env bs st = (\<lambda>h c. \<lparr>r_ret = (case c of Ceph_getxattr p n k \<Rightarrow> int (length bs) | Malloc n \<Rightarrow> 1 | _ \<Rightarrow> 0),
     r_stat = st, r_data = bs, r_name = [], r_out = 0\<rparr>)"

definition sample_stat :: stat where
  "sample_stat = \<lparr>st_mode = 0x81E0, st_uid = 1, st_gid = 1, st_size = 10, st_mtime = 0, st_ino = 5, st_nlink = 1\<rparr>"

definition sample_acl_bytes :: "u8 list" where
  "sample_acl_bytes = le32_bytes 2 @ concat (map xattr_entry_encode (a_entries sample_acl))"

lemma sample_acl_bytes: "length sample_acl_bytes = 44" "posix_acl_from_xattr True (Some sample_acl_bytes) = Acl sample_acl"
proof -
  show len: "length sample_acl_bytes = 44" by (simp add: sample_acl_bytes_def sample_acl_def)
  have "\<exists>n out. posix_acl_to_xattr sample_acl (Some []) 44 = (int n, Some out)
     \<and> posix_acl_from_xattr True (Some (take n out)) = Acl sample_acl \<and> drop n out = drop n []"
    by (rule to_from_xattr) (simp_all add: sample_acl_def storable_entry_def posix_acl_xattr_size_def)
  moreover have "posix_acl_to_xattr sample_acl (Some []) 44 = (44, Some sample_acl_bytes)"
    by (simp add: posix_acl_to_xattr_def posix_acl_xattr_size_def sample_acl_bytes_def) (simp add: sample_acl_def)
  ultimately show "posix_acl_from_xattr True (Some sample_acl_bytes) = Acl sample_acl" using len by auto
qed

lemma sample_acl_valid: "posix_acl_valid sample_acl = 0"
  by (simp add: posix_acl_valid_def sample_acl_def id_defs)

text \<open>C17: For a caller other than root and a file with a valid ACL, \<open>permission_walk\<close> decides as the
  POSIX rule says, from the ACL, the owner of the file and the caller; it only reads.\<close>
theorem permission_walk_posix:
  assumes "uid \<noteq> 0" "r_data (e h (acl_query path POSIX_ACL_XATTR_ACCESS)) = bs"
    and "r_ret (e h (acl_query path POSIX_ACL_XATTR_ACCESS)) = int (length bs)" "bs \<noteq> []" "length bs \<le> XATTR_MAX_SIZE"
    and "posix_acl_from_xattr True (Some bs) = Acl acl" "posix_acl_valid acl = 0"
    and "r_ret (e (h @ [acl_query path POSIX_ACL_XATTR_ACCESS]) (Malloc (length bs))) \<noteq> 0"
    and "e (h @ [acl_query path POSIX_ACL_XATTR_ACCESS, Malloc (length bs)]) (Ceph_lstat path) = r" "r_ret r = 0"
  shows "permission_walk path uid gid want e h =
    Ret (if acl_grants \<lparr>i_uid = ucast (st_uid (r_stat r)), i_gid = ucast (st_gid (r_stat r))\<rparr>
           \<lparr>i_uid = uid, i_gid = gid\<rparr> (a_entries acl) (want AND (MAY_READ OR MAY_WRITE OR MAY_EXEC OR MAY_NOT_BLOCK))
         then 0 else - EACCES,
         [acl_query path POSIX_ACL_XATTR_ACCESS, Malloc (length bs), Ceph_lstat path])"
  using assms
  by (simp add: permission_walk_def fuse_check_acl_def io_run_simps getxattr_run acl_from_xattr_run acl_permission_decides)

theorem permission_walk_posix_witness:
  "(\<exists>cs. permission_walk ''/f'' 1000 2 MAY_READ (acl_env sample_acl_bytes sample_stat) [] = Ret (0, cs)) \<and>
   (\<exists>cs. permission_walk ''/f'' 1000 2 MAY_WRITE (acl_env sample_acl_bytes sample_stat) [] = Ret (- EACCES, cs))"
proof -
  have ne: "sample_acl_bytes \<noteq> []" using sample_acl_bytes(1) by auto
  have run: "permission_walk ''/f'' 1000 2 want (acl_env sample_acl_bytes sample_stat) [] =
    Ret (if acl_grants \<lparr>i_uid = 1, i_gid = 1\<rparr> \<lparr>i_uid = 1000, i_gid = 2\<rparr> (a_entries sample_acl)
        (want AND (MAY_READ OR MAY_WRITE OR MAY_EXEC OR MAY_NOT_BLOCK)) then 0 else - EACCES,
      [acl_query ''/f'' POSIX_ACL_XATTR_ACCESS, Malloc (length sample_acl_bytes), Ceph_lstat ''/f''])" for want
    using permission_walk_posix [of 1000 "acl_env sample_acl_bytes sample_stat" "[]" "''/f''" sample_acl_bytes sample_acl _ 2 want]
      ne sample_acl_bytes sample_acl_valid by (simp add: acl_env_def sample_stat_def)
  show ?thesis unfolding run by (simp add: acl_grants_def acl_covers_def sample_acl_def)
qed

text \<open>For a caller other than root and a file without an ACL, \<open>permission_walk\<close> grants what the mode
  bits of the one class the caller is in grant: owner, group, or others.\<close>
theorem permission_walk_modes:
  assumes "uid \<noteq> 0" "r_ret (e h (acl_query path POSIX_ACL_XATTR_ACCESS)) \<le> 0"
    and "r_ret (e (h @ [acl_query path POSIX_ACL_XATTR_ACCESS]) (Ceph_stat path)) = 0"
  shows "permission_walk path uid gid want e h =
    Ret (if ugo_grants (r_stat (e (h @ [acl_query path POSIX_ACL_XATTR_ACCESS]) (Ceph_stat path))) uid gid want
         then 0 else - EACCES, [acl_query path POSIX_ACL_XATTR_ACCESS, Ceph_stat path])"
  using assms by (simp add: permission_walk_def io_run_simps getxattr_none permission_walk_ugo_run)

theorem permission_walk_modes_witness:
  "permission_walk ''/f'' 1000 1 MAY_READ (acl_env [] sample_stat) [] =
     Ret (0, [acl_query ''/f'' POSIX_ACL_XATTR_ACCESS, Ceph_stat ''/f'']) \<and>
   permission_walk ''/f'' 1000 1 MAY_WRITE (acl_env [] sample_stat) [] =
     Ret (- EACCES, [acl_query ''/f'' POSIX_ACL_XATTR_ACCESS, Ceph_stat ''/f''])"
proof -
  have g: "ugo_grants sample_stat 1000 1 MAY_READ" "\<not> ugo_grants sample_stat 1000 1 MAY_WRITE"
    by (simp_all add: ugo_grants_def sample_stat_def numeral_3_eq_3 less_Suc_eq all_conj_distrib bit_simps)
  have st: "r_stat (acl_env [] sample_stat h c) = sample_stat" "r_ret (acl_env [] sample_stat h (Ceph_stat p)) = 0"
    "r_ret (acl_env [] sample_stat h (acl_query p n)) = 0" for h c p n
    by (simp_all add: acl_env_def)
  show ?thesis
    using permission_walk_modes [of 1000 "acl_env [] sample_stat" "[]" "''/f''" 1 MAY_READ]
      permission_walk_modes [of 1000 "acl_env [] sample_stat" "[]" "''/f''" 1 MAY_WRITE] g st by simp
qed

section \<open>Inherited ACLs are valid\<close>

lemma entry_decode_storable: "xattr_entry_decode bs = Some e \<Longrightarrow> storable_entry e"
proof -
  have "unat (ucast (x :: u32) :: u64) < 2 ^ 32" for x
    using le_less_trans [OF take_bit_nat_less_eq_self [of 64 "unat x"], of "2 ^ 32"] unsigned_less [of x, where ?'a = nat]
    by (simp add: unsigned_ucast_eq)
  then show "xattr_entry_decode bs = Some e \<Longrightarrow> storable_entry e"
    by (auto simp: xattr_entry_decode_def storable_entry_def Let_def id_defs split: if_splits)
qed

lemma entries_decode_storable:
  "xattr_entries_decode n bs = Some es \<Longrightarrow> length es = n \<and> (\<forall>e \<in> set es. storable_entry e)"
  by (induction n arbitrary: bs es) (auto split: option.splits dest: entry_decode_storable)

text \<open>An ACL that can be stored in an attribute of the size allowed, and is then read back as it is.\<close>

definition acl_stores :: "posix_acl \<Rightarrow> bool" where
  "acl_stores acl \<longleftrightarrow> (\<forall>e \<in> set (a_entries acl). storable_entry e) \<and> a_entries acl \<noteq> [] \<and> a_refcount acl = 1 \<and>
     posix_acl_xattr_size (length (a_entries acl)) \<le> XATTR_MAX_SIZE"

lemma from_xattr_stores:
  assumes "posix_acl_from_xattr alloc (Some bs) = Acl acl" "length bs \<le> XATTR_MAX_SIZE"
  shows "acl_stores acl" "alloc"
proof -
  let ?n = "posix_acl_xattr_count (length bs)"
  from assms(1) obtain es where es: "xattr_entries_decode (nat ?n) (drop 4 bs) = Some es" "0 < ?n" "alloc"
      "acl = \<lparr>a_refcount = 1, a_entries = es\<rparr>"
    by (auto simp: posix_acl_from_xattr_def posix_acl_alloc_def Let_def split: if_splits option.splits)
  then have "length bs = posix_acl_xattr_size (nat ?n)"
    by (auto simp: posix_acl_xattr_count_def posix_acl_xattr_size_def Let_def split: if_splits)
  then show "acl_stores acl" "alloc"
    using es entries_decode_storable [OF es(1)] assms(2) by (auto simp: acl_stores_def)
qed

lemma set_acl_run:
  assumes "acl_stores acl"
  obtains bs where "\<And>e h. set_acl path name acl e h =
      Ret (r_ret (e h (Ceph_setxattr path name bs 0)), [Ceph_setxattr path name bs 0])"
    "posix_acl_from_xattr True (Some bs) = Acl acl"
proof -
  have "\<exists>n out. posix_acl_to_xattr acl (Some (replicate XATTR_MAX_SIZE 0)) XATTR_MAX_SIZE = (int n, Some out)
     \<and> posix_acl_from_xattr True (Some (take n out)) = Acl acl
     \<and> drop n out = drop n (replicate XATTR_MAX_SIZE (0 :: u8))"
    using assms unfolding acl_stores_def by (intro to_from_xattr) auto
  then obtain n out where "posix_acl_to_xattr acl (Some (replicate XATTR_MAX_SIZE 0)) XATTR_MAX_SIZE = (int n, Some out)"
    "posix_acl_from_xattr True (Some (take n out)) = Acl acl" by blast
  then show thesis using that [of "take n out"] by (simp add: set_acl_def io_run_simps)
qed

lemma and_perm: "p AND - 8 = (0 :: u16) \<Longrightarrow> (p AND q) AND - 8 = 0"
  by (metis and.assoc and.commute and_zero_eq)

lemma storable_entry_perm [simp]: "storable_entry (e\<lparr>e_perm := p\<rparr>) = storable_entry e"
  by (simp add: storable_entry_def)

lemma create_masq_valid:
  assumes "posix_acl_valid acl = 0" "acl_stores acl"
  shows "case posix_acl_create_masq acl mode of (n, acl', mode') \<Rightarrow> 0 \<le> n \<and> posix_acl_valid acl' = 0 \<and> acl_stores acl'"
proof -
  obtain u us g gs ms ot where sh: "acl_shape (a_entries acl) u us g gs ms ot"
    using acl_valid_imp_shape [OF assms(1)] by blast
  note run = masq_shape [OF sh, of mode]
  let ?u = "u\<lparr>e_perm := e_perm u AND drop_bit 6 mode\<rparr>" and ?ot = "ot\<lparr>e_perm := e_perm ot AND mode\<rparr>"
  show ?thesis
  proof (cases ms)
    case Nil
    let ?g = "g\<lparr>e_perm := e_perm g AND drop_bit 3 mode\<rparr>"
    have "acl_shape (?u # us @ (?g # gs) @ [?ot]) ?u us ?g gs [] ?ot"
      using sh Nil by (auto simp: acl_shape_def and_perm)
    then have "posix_acl_valid (acl\<lparr>a_entries := ?u # us @ (?g # gs) @ [?ot]\<rparr>) = 0"
      by (intro acl_shape_imp_valid) simp
    moreover have "acl_stores (acl\<lparr>a_entries := ?u # us @ (?g # gs) @ [?ot]\<rparr>)"
      using assms(2) sh Nil by (auto simp: acl_stores_def acl_shape_def)
    ultimately show ?thesis using run Nil by simp
  next
    case (Cons m ms')
    then have m: "ms = [m]" "e_tag m = ACL_MASK" using sh by (auto simp: acl_shape_def)
    let ?m = "m\<lparr>e_perm := e_perm m AND drop_bit 3 mode\<rparr>"
    have "acl_shape (?u # us @ (g # gs @ [?m]) @ [?ot]) ?u us g gs [?m] ?ot"
      using sh m by (auto simp: acl_shape_def and_perm)
    then have "posix_acl_valid (acl\<lparr>a_entries := ?u # us @ (g # gs @ [?m]) @ [?ot]\<rparr>) = 0"
      by (intro acl_shape_imp_valid) simp
    moreover have "acl_stores (acl\<lparr>a_entries := ?u # us @ (g # gs @ [?m]) @ [?ot]\<rparr>)"
      using assms(2) sh m by (auto simp: acl_stores_def acl_shape_def)
    ultimately show ?thesis using run m by simp
  qed
qed

text \<open>The attributes a call sets on \<open>path\<close> are valid ACLs, and nothing else is changed.\<close>

definition sets_valid_acl :: "string \<Rightarrow> call \<Rightarrow> bool" where
  "sets_valid_acl path c \<longleftrightarrow> (changes c \<longrightarrow> (\<exists>name bs acl. c = Ceph_setxattr path name bs 0 \<and>
     (name = POSIX_ACL_XATTR_ACCESS \<or> name = POSIX_ACL_XATTR_DEFAULT) \<and>
     posix_acl_from_xattr True (Some bs) = Acl acl \<and> posix_acl_valid acl = 0))"

lemma set_acl_valid:
  assumes "acl_stores acl" "posix_acl_valid acl = 0" "name = POSIX_ACL_XATTR_ACCESS \<or> name = POSIX_ACL_XATTR_DEFAULT"
  shows "io_post (set_acl path name acl) e h (\<lambda>r cs. \<forall>c \<in> set cs. sets_valid_acl path c)"
proof -
  obtain bs where bs: "\<And>e h. set_acl path name acl e h =
      Ret (r_ret (e h (Ceph_setxattr path name bs 0)), [Ceph_setxattr path name bs 0])"
    "posix_acl_from_xattr True (Some bs) = Acl acl" using set_acl_run [OF assms(1), of path name] by blast
  then show ?thesis using assms(2,3) by (auto simp: io_post_def sets_valid_acl_def)
qed

lemma getxattr_bytes:
  assumes "r_ret (e h (acl_query path name)) \<le> int XATTR_MAX_SIZE"
  obtains "getxattr path name e h = Ret (None, [acl_query path name])"
  | bs where "getxattr path name e h = Ret (Some bs, [acl_query path name])" "length bs \<le> XATTR_MAX_SIZE"
  using assms by (cases "r_ret (e h (acl_query path name)) \<le> 0") (auto simp: getxattr_def io_run_simps)

lemma init_acl_access:
  assumes "posix_acl_valid acl = 0" "acl_stores acl"
  shows "io_post (io_bind (ask (Malloc n)) (\<lambda>a. case posix_acl_create (r_ret a \<noteq> 0) acl i_mode of (error, acl', i_mode') \<Rightarrow>
      if error > 0 then (case acl' of Some acl' \<Rightarrow> set_acl path POSIX_ACL_XATTR_ACCESS acl' | None \<Rightarrow> io_fault)
      else io_ret error)) e h (\<lambda>r cs. \<forall>c \<in> set cs. sets_valid_acl path c)"
proof (cases "posix_acl_create (r_ret (e h (Malloc n)) \<noteq> 0) acl i_mode")
  case (fields err acl' mode')
  have "acl\<lparr>a_refcount := 1\<rparr> = acl" using assms(2) by (cases acl) (simp add: acl_stores_def)
  then have "err > 0 \<Longrightarrow> \<exists>acl''. acl' = Some acl'' \<and> posix_acl_valid acl'' = 0 \<and> acl_stores acl''"
    using create_masq_valid [OF assms, of i_mode] fields
    by (auto simp: posix_acl_create_def posix_acl_clone_def split: if_splits prod.splits)
  moreover have "sets_valid_acl path (Malloc n)" by (simp add: sets_valid_acl_def)
  ultimately show ?thesis
    using fields set_acl_valid [of _ POSIX_ACL_XATTR_ACCESS path e "h @ [Malloc n]"] by auto
qed

text \<open>C27: When the default ACL of the parent directory, if it has one that can be read, is a valid ACL of at most
  \<open>XATTR_MAX_SIZE\<close> bytes, \<open>fuse_init_acl\<close> returns, whatever else the client library and the allocator answer,
  and all it changes is to set ACLs of the new file, valid ones that \<open>posix_acl_from_xattr\<close> reads back.  The
  code never calls \<open>posix_acl_valid\<close> on the default ACL: for an invalid one nothing is claimed.\<close>
theorem fuse_init_acl_valid:
  assumes "path \<noteq> []" "\<And>dir. r_ret (e h (acl_query dir POSIX_ACL_XATTR_DEFAULT)) \<le> int XATTR_MAX_SIZE"
    and "\<And>dir bs cs acl. getxattr dir POSIX_ACL_XATTR_DEFAULT e h = Ret (Some bs, cs) \<Longrightarrow>
      posix_acl_from_xattr True (Some bs) = Acl acl \<Longrightarrow> posix_acl_valid acl = 0"
  shows "io_post (fuse_init_acl path i_mode) e h (\<lambda>r cs. \<forall>c \<in> set cs. sets_valid_acl path c)"
proof -
  define dir where "dir = take (parent_scan path (length path - 1)) path"
  have par: "parent_path path e h = Ret (dir, [])" using assms(1) by (simp add: parent_path_def dir_def io_run_simps)
  have noch: "sets_valid_acl path (acl_query d n)" "sets_valid_acl path (Malloc k)" for d n k
    by (simp_all add: sets_valid_acl_def)
  from assms(2) [of dir] show ?thesis
  proof (cases rule: getxattr_bytes [of e h dir POSIX_ACL_XATTR_DEFAULT])
    case 1
    then show ?thesis using noch by (simp add: fuse_init_acl_def io_post_run [of "parent_path path", OF par] io_post_run [of "getxattr dir POSIX_ACL_XATTR_DEFAULT", OF 1])
  next
    case (2 bs)
    define b where "b = (r_ret (e (h @ [acl_query dir POSIX_ACL_XATTR_DEFAULT]) (Malloc (length bs))) \<noteq> 0)"
    have ok: "posix_acl_valid acl = 0" "acl_stores acl" if "posix_acl_from_xattr b (Some bs) = Acl acl" for acl
      using that from_xattr_stores [OF that 2(2)] assms(3) [OF 2(1)] by auto
    show ?thesis
    proof (cases "posix_acl_from_xattr b (Some bs)")
      case (Acl acl)
      have first: "io_post (if S_ISDIR (ucast i_mode) then set_acl path POSIX_ACL_XATTR_DEFAULT acl else io_ret 0) e h'
          (\<lambda>r cs. \<forall>c \<in> set cs. sets_valid_acl path c)" for h'
        using set_acl_valid [OF ok(2,1) [OF Acl]] by simp
      have rest: "io_post (io_bind (if S_ISDIR (ucast i_mode) then set_acl path POSIX_ACL_XATTR_DEFAULT acl else io_ret 0)
          (\<lambda>error. if error \<noteq> 0 then io_ret error
            else io_bind (ask (Malloc (length bs))) (\<lambda>a. case posix_acl_create (r_ret a \<noteq> 0) acl i_mode of (error, acl', i_mode') \<Rightarrow>
              if error > 0 then (case acl' of Some acl' \<Rightarrow> set_acl path POSIX_ACL_XATTR_ACCESS acl' | None \<Rightarrow> io_fault)
              else io_ret error))) e h' (\<lambda>r cs. \<forall>c \<in> set cs. sets_valid_acl path c)" for h'
        unfolding io_post_bind [of "if S_ISDIR (ucast i_mode) then set_acl path POSIX_ACL_XATTR_DEFAULT acl else io_ret 0"]
        by (rule io_post_mono [OF first])
          (auto simp del: io_post_bind intro!: io_post_mono [OF init_acl_access [OF ok [OF Acl]]])
      show ?thesis
        using rest [of "h @ [acl_query dir POSIX_ACL_XATTR_DEFAULT, Malloc (length bs)]"] noch Acl
        by (simp add: fuse_init_acl_def io_post_run [of "parent_path path", OF par]
          io_post_run [of "getxattr dir POSIX_ACL_XATTR_DEFAULT", OF 2(1)] acl_from_xattr_def b_def [symmetric])
    qed (use noch in \<open>simp_all add: fuse_init_acl_def io_post_run [of "parent_path path", OF par] io_post_run [of "getxattr dir POSIX_ACL_XATTR_DEFAULT", OF 2(1)] acl_from_xattr_def b_def\<close>)
  qed
qed

theorem fuse_init_acl_valid_witness:
  "io_post (fuse_init_acl ''/d/f'' 0x81FF) (acl_env sample_acl_bytes sample_stat) [] (\<lambda>r cs. \<forall>c \<in> set cs. sets_valid_acl ''/d/f'' c)"
proof (rule fuse_init_acl_valid)
  fix dir bs cs acl
  assume b: "getxattr dir POSIX_ACL_XATTR_DEFAULT (acl_env sample_acl_bytes sample_stat) [] = Ret (Some bs, cs)"
    "posix_acl_from_xattr True (Some bs) = Acl acl"
  have "bs = sample_acl_bytes" using b(1) sample_acl_bytes(1)
    by (simp add: getxattr_def io_run_simps acl_env_def split: if_splits)
  then show "posix_acl_valid acl = 0" using b(2) sample_acl_bytes(2) sample_acl_valid by simp
qed (use sample_acl_bytes(1) in \<open>simp_all add: acl_env_def\<close>)

section \<open>The parent directory\<close>

lemma parent_scan_name:
  assumes "CHR ''/'' \<notin> set name" "dir \<noteq> []"
  shows "k \<le> length name \<Longrightarrow> parent_scan (dir @ CHR ''/'' # name) (length dir + k) = length dir"
proof (induction k)
  case 0
  obtain l where l: "length dir = Suc l" using assms(2) by (cases dir) auto
  have "(dir @ CHR ''/'' # name) ! length dir = CHR ''/''" by simp
  then show ?case using l by simp
next
  case (Suc k)
  then have "(dir @ CHR ''/'' # name) ! Suc (length dir + k) = name ! k" by (simp add: nth_append)
  moreover have "name ! k \<noteq> CHR ''/''" using assms(1) Suc.prems by (auto simp: in_set_conv_nth)
  ultimately show ?case using Suc by simp
qed

lemma parent_path_name:
  assumes "CHR ''/'' \<notin> set name" "dir \<noteq> []"
  shows "parent_path (dir @ CHR ''/'' # name) e h = Ret (dir, [])"
  using parent_scan_name [OF assms, of "length name"] by (simp add: parent_path_def io_run_simps)

lemma parent_path_empty: "parent_path [] e h = Fault"
  by (simp add: parent_path_def)

section \<open>Calls of the permission checks\<close>

lemma io_calls_acl_ptr [calls_intro]:
  "(p = AclNull \<Longrightarrow> io_calls P m) \<Longrightarrow> (\<And>n. p = AclErr n \<Longrightarrow> io_calls P (f n)) \<Longrightarrow>
   (\<And>a. p = Acl a \<Longrightarrow> io_calls P (g a)) \<Longrightarrow> io_calls P (case p of AclNull \<Rightarrow> m | AclErr n \<Rightarrow> f n | Acl a \<Rightarrow> g a)"
  by (cases p) simp_all

lemma permission_walk_reads [calls_intro]: "io_calls reads_only (permission_walk p u g w)"
  unfolding permission_walk_def permission_walk_ugo_def fuse_check_acl_def getxattr_def acl_from_xattr_def
  by (intro calls_intro) (auto simp: reads_only_def)

lemma permission_walk_no_fd [calls_intro]: "io_calls no_fd_call (permission_walk p u g w)"
  unfolding permission_walk_def permission_walk_ugo_def fuse_check_acl_def getxattr_def acl_from_xattr_def
  by (intro calls_intro) auto

lemma permission_walk_parent_calls [calls_intro]:
  "io_calls reads_only (permission_walk_parent p u g w)" "io_calls no_fd_call (permission_walk_parent p u g w)"
  unfolding permission_walk_parent_def parent_path_def by (intro calls_intro)+

lemma fuse_init_acl_no_fd [calls_intro]: "io_calls no_fd_call (fuse_init_acl p m)"
  unfolding fuse_init_acl_def parent_path_def getxattr_def acl_from_xattr_def set_acl_def
  by (intro calls_intro) auto

end
