(* ===== verification/Revise.thy ===== *)
theory Revise
imports Host_Env
begin

text \<open>
  The policy client of \<open>pipe/pipe_client.c\<close>, \<open>pipe/protocol.h\<close> and \<open>revise/revise.cpp\<close>: before the
  driver creates, deletes or moves a file it asks a server over a named pipe.  The messages are modelled
  byte by byte.  The small fixed-size allocations of these functions are taken to succeed.
\<close>

section \<open>The pipe\<close>

definition CEPH_CHANNEL_NAME :: string where
  "CEPH_CHANNEL_NAME = [CHR 0x5C, CHR 0x5C, CHR ''.'', CHR 0x5C] @ ''pipe'' @ [CHR 0x5C] @
     ''shutupandtakemymoney.2019.09.09'' @ [CHR 0x5C]"

definition PipeClose :: "int \<Rightarrow> unit io" where
  "PipeClose h = io_bind (ask (Win_CloseHandle h)) (\<lambda>_. io_ret ())"

definition PipeConnect :: "string \<Rightarrow> int io" where
  "PipeConnect path = io_bind (ask (Win_CreateFileA path)) (\<lambda>r. io_ret (r_ret r))"

abbreviation (input) ERROR_SUCCESS :: int where "ERROR_SUCCESS \<equiv> 0"
abbreviation (input) ERROR_MORE_DATA :: int where "ERROR_MORE_DATA \<equiv> 234"

text \<open>
  \<open>GetLastError\<close> is read whether or not the call before it failed; its value is a \<open>DWORD\<close>, negated as
  such and returned as an \<open>int\<close>.
\<close>

definition PipeSend :: "int \<Rightarrow> u8 list \<Rightarrow> int io" where
  "PipeSend h bs =
     io_bind (ask (Win_WriteFile h bs)) (\<lambda>w.
     io_bind (ask Win_GetLastError) (\<lambda>g.
       io_ret (if r_ret g = ERROR_MORE_DATA \<or> r_ret g = ERROR_SUCCESS then r_ret w else to_s32 (- r_ret g))))"

text \<open>The buffer after the call: the bytes received, and zeros behind them.\<close>

definition zero_padded :: "nat \<Rightarrow> u8 list \<Rightarrow> u8 list" where
  "zero_padded n bs = take n bs @ replicate (n - length bs) 0"

lemma length_zero_padded [simp]: "length (zero_padded n bs) = n"
  by (simp add: zero_padded_def)

definition PipeReceive :: "int \<Rightarrow> nat \<Rightarrow> (int \<times> u8 list) io" where
  "PipeReceive h n =
     io_bind (ask (Win_ReadFile h n)) (\<lambda>r.
     io_bind (ask Win_GetLastError) (\<lambda>g.
       io_ret (if r_ret g = ERROR_MORE_DATA \<or> r_ret g = ERROR_SUCCESS
               then int (length (take n (r_data r))) else to_s32 (- r_ret g), zero_padded n (r_data r))))"

text \<open>
  The thread of \<open>ListServerState\<close>: it waits for anything to arrive on the handle, or for the pipe to
  break, and then calls the registered \<open>abort\<close>.
\<close>

definition WatchPipeHandle :: "unit io \<Rightarrow> int \<Rightarrow> unit io" where
  "WatchPipeHandle abort h =
     (if h = - 1 then abort else io_bind (PipeReceive h 32) (\<lambda>_. abort))"

section \<open>Messages\<close>

datatype DDMAction = DDM_DELETE | DDM_MOVE | DDM_CREATE | DDM_RENAME | DDM_OPEN | DDM_CAPACITY | DDM_READDIR
  | DDM_READFILEINFO | DDM_FILESTATUS | DDM_MODIFY | DDM_CLOSE | DDM_MOUNT | DDM_UNMOUNT

fun action_code :: "DDMAction \<Rightarrow> u32" where
  "action_code DDM_DELETE = 0"
| "action_code DDM_MOVE = 1"
| "action_code DDM_CREATE = 2"
| "action_code DDM_RENAME = 3"
| "action_code DDM_OPEN = 4"
| "action_code DDM_CAPACITY = 5"
| "action_code DDM_READDIR = 6"
| "action_code DDM_READFILEINFO = 7"
| "action_code DDM_FILESTATUS = 8"
| "action_code DDM_MODIFY = 9"
| "action_code DDM_CLOSE = 10"
| "action_code DDM_MOUNT = 11"
| "action_code DDM_UNMOUNT = 12"

abbreviation (input) RET_FAILED :: u32 where "RET_FAILED \<equiv> 0"
abbreviation (input) RET_ALLOW :: u32 where "RET_ALLOW \<equiv> 1"
abbreviation (input) RET_FORBID :: u32 where "RET_FORBID \<equiv> 2"
abbreviation (input) RET_NOTFOUND :: u32 where "RET_NOTFOUND \<equiv> 3"

abbreviation (input) AUTH_READ :: u16 where "AUTH_READ \<equiv> 1"
abbreviation (input) AUTH_WRITE :: u16 where "AUTH_WRITE \<equiv> 2"
abbreviation (input) AUTH_ROOT :: u16 where "AUTH_ROOT \<equiv> 0xffff"

abbreviation (input) MAX_PATH :: nat where "MAX_PATH \<equiv> 260"

definition c_bytes :: "string \<Rightarrow> u8 list" where
  "c_bytes s = map of_char s"

text \<open>A character array of \<open>MAX_PATH\<close> bytes holding a string, the rest zero.\<close>

definition path_field :: "string \<Rightarrow> u8 list" where
  "path_field s = zero_padded MAX_PATH (c_bytes s)"

definition ctx_common :: "string \<Rightarrow> u32 \<Rightarrow> u8 list" where
  "ctx_common path isDirectory = path_field path @ le32_bytes isDirectory"

definition ctx_rename :: "string \<Rightarrow> string \<Rightarrow> u32 \<Rightarrow> u8 list" where
  "ctx_rename pathOld pathNew isDirectory = path_field pathOld @ path_field pathNew @ le32_bytes isDirectory"

text \<open>\<open>strcpy\<close> into such an array writes past its end when the string and its zero do not fit.\<close>

definition strcpy_path :: "string \<Rightarrow> string io" where
  "strcpy_path s = (if length s < MAX_PATH then io_ret s else io_fault)"

definition ddm_message :: "DDMAction \<Rightarrow> u8 list \<Rightarrow> u8 list" where
  "ddm_message action ctx = le32_bytes 0 @ le32_bytes (of_nat (length ctx)) @ le32_bytes (action_code action) @ ctx"

definition SendDataToUI2 :: "int \<Rightarrow> DDMAction \<Rightarrow> u8 list \<Rightarrow> int io" where
  "SendDataToUI2 h action ctx =
     io_bind (PipeSend h (ddm_message action ctx)) (\<lambda>n. io_ret (to_s32 (n - 12)))"

definition ReadDataFromUI2 :: "int \<Rightarrow> nat \<Rightarrow> (int \<times> u8 list) io" where
  "ReadDataFromUI2 h n = PipeReceive h n"

text \<open>The \<open>result\<close> and \<open>ctxLength\<close> members of a \<open>ddm_msg_ret\<close>.\<close>

definition msg_result :: "u8 list \<Rightarrow> u32" where
  "msg_result bs = le32_read bs"

definition msg_ctxLength :: "u8 list \<Rightarrow> u32" where
  "msg_ctxLength bs = le32_read (drop 4 bs)"

definition GetUI2ActionResult :: "DDMAction \<Rightarrow> u8 list \<Rightarrow> u32 io" where
  "GetUI2ActionResult action request =
     io_bind (PipeConnect CEPH_CHANNEL_NAME) (\<lambda>h.
     io_bind (SendDataToUI2 h action request) (\<lambda>n.
       if n \<noteq> int (length request) then io_ret RET_FAILED
       else
         io_bind (ReadDataFromUI2 h 8) (\<lambda>(_, bs).
         io_bind (ask (Win_CloseHandle h)) (\<lambda>_. io_ret (msg_result bs)))))"

section \<open>Policy questions\<close>

text \<open>\<open>std::string::rfind\<close> of a character.\<close>

fun rfind :: "char \<Rightarrow> string \<Rightarrow> nat option" where
  "rfind c [] = None"
| "rfind c (x # xs) = (case rfind c xs of Some i \<Rightarrow> Some (Suc i) | None \<Rightarrow> if x = c then Some 0 else None)"

abbreviation (input) backslash :: char where "backslash \<equiv> CHR 0x5C"

definition IsOfficeTempFile :: "string \<Rightarrow> bool" where
  "IsOfficeTempFile ptr_name =
     (let filename = (case rfind backslash ptr_name of Some i \<Rightarrow> drop (i + 1) ptr_name | None \<Rightarrow> ptr_name)
      in
      if filename \<noteq> [] \<and> hd filename = CHR ''~'' then True
      else
        (case rfind CHR ''.'' filename of
           Some i \<Rightarrow> (let suffix = drop (i + 1) filename in suffix = ''tmp'' \<or> suffix = ''wbk'')
         | None \<Rightarrow> False))"

definition UI2TellMeFileExistWhere :: "string \<Rightarrow> int io" where
  "UI2TellMeFileExistWhere path =
     (if IsOfficeTempFile path then io_ret 2
      else
        io_bind (PipeConnect CEPH_CHANNEL_NAME) (\<lambda>h.
        io_bind (SendDataToUI2 h DDM_FILESTATUS (ctx_common (take MAX_PATH path) 0)) (\<lambda>n.
        if n \<noteq> 264 then io_ret 1
        else
          io_bind (ReadDataFromUI2 h 8) (\<lambda>(_, bs).
          io_bind (PipeClose h) (\<lambda>_.
          io_ret (if msg_result bs = RET_NOTFOUND then 1 else if msg_result bs = RET_FAILED then 2 else 0))))))"

text \<open>The \<open>mode\<close> member of the file information is 40 bytes into it, behind the 8 bytes of the header.\<close>

definition FileAuth :: "string \<Rightarrow> u16 io" where
  "FileAuth FileName =
     io_bind (PipeConnect CEPH_CHANNEL_NAME) (\<lambda>h.
     io_bind (strcpy_path FileName) (\<lambda>path.
     io_bind (SendDataToUI2 h DDM_READFILEINFO (ctx_common path 0)) (\<lambda>n.
     if n \<noteq> 264 then io_ret 0
     else
       io_bind (ReadDataFromUI2 h (8 + 302)) (\<lambda>(_, bs).
       io_bind (ask (Win_CloseHandle h)) (\<lambda>_.
       io_ret (if msg_result bs = RET_NOTFOUND then AUTH_ROOT else le16_read (drop 48 bs)))))))"

definition FileParentAuth :: "string \<Rightarrow> u16 io" where
  "FileParentAuth FileName =
     (case rfind backslash FileName of None \<Rightarrow> io_ret 0 | Some index \<Rightarrow> FileAuth (take index FileName))"

definition FileExist :: "string \<Rightarrow> bool" where
  "FileExist FileName = False"

definition FileCreate :: "string \<Rightarrow> u32 \<Rightarrow> bool io" where
  "FileCreate FileName isDirectory =
     (if IsOfficeTempFile FileName then io_ret True
      else
        io_bind (strcpy_path FileName) (\<lambda>path.
        io_bind (GetUI2ActionResult DDM_CREATE (ctx_common path isDirectory)) (\<lambda>nRet.
        io_ret (nRet \<noteq> RET_FORBID))))"

definition FileDelete :: "string \<Rightarrow> u32 \<Rightarrow> bool io" where
  "FileDelete FileName isDirectory =
     (if IsOfficeTempFile FileName then io_ret True
      else
        io_bind (strcpy_path FileName) (\<lambda>path.
        io_bind (GetUI2ActionResult DDM_DELETE (ctx_common path isDirectory)) (\<lambda>nRet.
        io_ret (nRet \<noteq> RET_FORBID))))"

text \<open>The test for a rename compares two prefixes of the first path.\<close>

definition is_rename :: "string \<Rightarrow> string \<Rightarrow> bool" where
  "is_rename path1 path2 =
     (case (rfind backslash path1, rfind backslash path2) of
        (Some index1, Some index2) \<Rightarrow> take index1 path1 = take index2 path1
      | _ \<Rightarrow> False)"

definition FileMove :: "string \<Rightarrow> string \<Rightarrow> u32 \<Rightarrow> bool io" where
  "FileMove path1 path2 isDirectory =
     (if IsOfficeTempFile path1 \<or> IsOfficeTempFile path2 then io_ret True
      else if is_rename path1 path2 then
        io_bind (strcpy_path path1) (\<lambda>old.
        io_bind (strcpy_path path2) (\<lambda>new.
        io_bind (GetUI2ActionResult DDM_RENAME (ctx_rename old new isDirectory)) (\<lambda>nRet.
        io_ret (nRet \<noteq> RET_FORBID))))
      else
        io_bind (GetUI2ActionResult DDM_MOVE
            (ctx_rename (take MAX_PATH path1) (take MAX_PATH path2) isDirectory)) (\<lambda>nRet.
        io_ret (nRet \<noteq> RET_FORBID)))"

section \<open>The messages can be read back\<close>

lemma unat_of_char [simp]: "unat (of_char c :: u8) = of_char c"
proof -
  have "unat (of_char c :: u8) = unat (of_nat (of_char c) :: u8)" by (simp only: of_nat_of_char)
  then show ?thesis using nat_of_char_less_256 [of c] by (simp add: unat_of_nat)
qed

definition field_string :: "u8 list \<Rightarrow> string" where
  "field_string bs = map (\<lambda>b. char_of (unat b)) (takeWhile (\<lambda>b. b \<noteq> 0) bs)"

lemma field_string_path_field:
  assumes "length s < MAX_PATH" "CHR 0x00 \<notin> set s"
  shows "field_string (path_field s) = s"
proof -
  have nz: "of_char c \<noteq> (0 :: u8)" if "c \<in> set s" for c
  proof
    assume "of_char c = (0 :: u8)"
    then have "unat (of_char c :: u8) = 0" by simp
    then have "(of_char c :: nat) = of_char (CHR 0x00)" by simp
    then have "c = CHR 0x00" by (simp only: of_char_eq_iff)
    then show False using that assms(2) by simp
  qed
  have "takeWhile (\<lambda>b. b \<noteq> 0) (map of_char s @ replicate (260 - length s) (0 :: u8)) =
      map of_char s @ takeWhile (\<lambda>b. b \<noteq> 0) (replicate (260 - length s) 0)"
    using nz by (intro takeWhile_append2) auto
  then have "takeWhile (\<lambda>b. b \<noteq> 0) (path_field s) = c_bytes s"
    using assms(1) by (simp add: path_field_def zero_padded_def c_bytes_def takeWhile_replicate)
  then show ?thesis by (simp add: field_string_def c_bytes_def comp_def)
qed

section \<open>What the server is asked, and what its answer does\<close>

lemma length_ctx [simp]: "length (ctx_common p d) = 264" "length (ctx_rename p q d) = 524"
  by (simp_all add: ctx_common_def ctx_rename_def path_field_def)

text \<open>The server got the whole message, as far as the client can tell.\<close>

definition sent :: "env \<Rightarrow> call list \<Rightarrow> DDMAction \<Rightarrow> u8 list \<Rightarrow> int \<Rightarrow> bool" where
  "sent e h action req hnd \<longleftrightarrow>
     (let m = Win_WriteFile hnd (ddm_message action req);
          g = r_ret (e (h @ [Win_CreateFileA CEPH_CHANNEL_NAME, m]) Win_GetLastError);
          w = r_ret (e (h @ [Win_CreateFileA CEPH_CHANNEL_NAME]) m)
      in to_s32 ((if g = ERROR_MORE_DATA \<or> g = ERROR_SUCCESS then w else to_s32 (- g)) - 12) = int (length req))"

text \<open>The calls of one question: connect, send, and if that worked receive and close.\<close>

definition question :: "env \<Rightarrow> call list \<Rightarrow> DDMAction \<Rightarrow> u8 list \<Rightarrow> call list" where
  "question e h action req =
     (let hnd = r_ret (e h (Win_CreateFileA CEPH_CHANNEL_NAME));
          out = [Win_CreateFileA CEPH_CHANNEL_NAME, Win_WriteFile hnd (ddm_message action req), Win_GetLastError]
      in if sent e h action req hnd then out @ [Win_ReadFile hnd 8, Win_GetLastError, Win_CloseHandle hnd] else out)"

definition answer :: "env \<Rightarrow> call list \<Rightarrow> DDMAction \<Rightarrow> u8 list \<Rightarrow> u32" where
  "answer e h action req =
     (let hnd = r_ret (e h (Win_CreateFileA CEPH_CHANNEL_NAME));
          out = [Win_CreateFileA CEPH_CHANNEL_NAME, Win_WriteFile hnd (ddm_message action req), Win_GetLastError]
      in if sent e h action req hnd then msg_result (zero_padded 8 (r_data (e (h @ out) (Win_ReadFile hnd 8))))
         else RET_FAILED)"

lemma GetUI2ActionResult_run:
  "GetUI2ActionResult action req e h = Ret (answer e h action req, question e h action req)"
  by (simp add: GetUI2ActionResult_def PipeConnect_def SendDataToUI2_def PipeSend_def ReadDataFromUI2_def
    PipeReceive_def io_run_simps sent_def question_def answer_def Let_def)

lemma FileCreate_run:
  assumes "length p < MAX_PATH"
  shows "FileCreate p d e h = Ret (if IsOfficeTempFile p then (True, [])
    else (answer e h DDM_CREATE (ctx_common p d) \<noteq> RET_FORBID, question e h DDM_CREATE (ctx_common p d)))"
  using assms by (simp add: FileCreate_def strcpy_path_def io_run_simps GetUI2ActionResult_run)

lemma FileDelete_run:
  assumes "length p < MAX_PATH"
  shows "FileDelete p d e h = Ret (if IsOfficeTempFile p then (True, [])
    else (answer e h DDM_DELETE (ctx_common p d) \<noteq> RET_FORBID, question e h DDM_DELETE (ctx_common p d)))"
  using assms by (simp add: FileDelete_def strcpy_path_def io_run_simps GetUI2ActionResult_run)

lemma FileMove_run:
  assumes "length p < MAX_PATH" "length q < MAX_PATH"
  shows "FileMove p q d e h = Ret (if IsOfficeTempFile p \<or> IsOfficeTempFile q then (True, [])
    else (let action = (if is_rename p q then DDM_RENAME else DDM_MOVE)
          in (answer e h action (ctx_rename p q d) \<noteq> RET_FORBID, question e h action (ctx_rename p q d))))"
  using assms by (simp add: FileMove_def strcpy_path_def io_run_simps GetUI2ActionResult_run Let_def)

lemma rfind_less: "rfind c s = Some i \<Longrightarrow> i < length s"
  by (induction s arbitrary: i) (auto split: option.splits if_splits)

text \<open>The last occurrence, and nothing of it behind.\<close>

lemma rfind_Some: "rfind c s = Some i \<longleftrightarrow> i < length s \<and> s ! i = c \<and> c \<notin> set (drop (Suc i) s)"
proof (induction s arbitrary: i)
  case (Cons x xs)
  have none: "rfind c xs = None \<longleftrightarrow> c \<notin> set xs" for c and xs :: string
    by (induction xs) (auto split: option.splits)
  show ?case
  proof (cases i)
    case 0
    have "rfind c xs = Some j \<Longrightarrow> c \<in> set xs" for j using none [of c xs] by auto
    then show ?thesis using 0 none [of c xs] by (auto split: option.splits)
  next
    case (Suc j)
    then show ?thesis using Cons.IH [of j] by (auto split: option.splits if_splits)
  qed
qed simp

lemma is_rename_iff:
  "is_rename p q \<longleftrightarrow> (\<exists>i. rfind backslash p = Some i \<and> rfind backslash q = Some i)"
proof -
  have "take i p = take j p \<longleftrightarrow> i = j" if "rfind backslash p = Some i" for i j
  proof
    assume eq: "take i p = take j p"
    have "i < length p" using rfind_less [OF that] .
    then show "i = j" using arg_cong [OF eq, of length] by (simp split: if_splits add: min_def)
  qed simp
  then show ?thesis by (auto simp: is_rename_def split: option.splits)
qed

section \<open>Properties of the policy client\<close>

text \<open>The members of a message as the server reads them.\<close>

definition msg_action :: "u8 list \<Rightarrow> u32" where
  "msg_action m = le32_read (drop 8 m)"

definition msg_length :: "u8 list \<Rightarrow> u32" where
  "msg_length m = le32_read (drop 4 m)"

definition msg_path :: "u8 list \<Rightarrow> string" where
  "msg_path m = field_string (take MAX_PATH (drop 12 m))"

definition msg_path2 :: "u8 list \<Rightarrow> string" where
  "msg_path2 m = field_string (take MAX_PATH (drop (12 + MAX_PATH) m))"

lemma drop_le32_bytes [simp]:
  "drop 4 (le32_bytes w @ bs) = bs" "drop 8 (le32_bytes w @ bs) = drop 4 bs" "drop 12 (le32_bytes w @ bs) = drop 8 bs"
  by simp_all

lemma msg_members [simp]:
  "msg_action (ddm_message action ctx) = action_code action"
  "msg_length (ddm_message action ctx) = of_nat (length ctx)"
  by (simp_all add: msg_action_def msg_length_def ddm_message_def)

lemma length_path_field [simp]: "length (path_field p) = 260"
  by (simp add: path_field_def)

lemma msg_path_common [simp]:
  assumes "length p < MAX_PATH" "CHR 0x00 \<notin> set p"
  shows "msg_path (ddm_message action (ctx_common p d)) = p"
    "msg_path (ddm_message action (ctx_rename p q d)) = p"
  using field_string_path_field [OF assms] by (simp_all add: msg_path_def ddm_message_def ctx_common_def ctx_rename_def)

lemma msg_path2_rename [simp]:
  assumes "length q < MAX_PATH" "CHR 0x00 \<notin> set q"
  shows "msg_path2 (ddm_message action (ctx_rename p q d)) = q"
  using field_string_path_field [OF assms] by (simp add: msg_path2_def ddm_message_def ctx_rename_def)

lemma question_writes:
  "Win_WriteFile hnd m \<in> set (question e h action req) \<longleftrightarrow>
     hnd = r_ret (e h (Win_CreateFileA CEPH_CHANNEL_NAME)) \<and> m = ddm_message action req"
  by (auto simp: question_def Let_def)

text \<open>The creation of a file whose path fits and that is no temporary file of an office program is
  put to the server: exactly one message is written, its action is create and its path and length
  read back as the path and the size of the request, and the creation is refused exactly when the
  server's answer is that it forbids it.\<close>
theorem FileCreate_asks_server:
  assumes "length p < MAX_PATH" "CHR 0x00 \<notin> set p" "\<not> IsOfficeTempFile p"
  shows "io_post (FileCreate p d) e h (\<lambda>ok cs.
    (\<exists>hnd m. (\<forall>hnd' m'. Win_WriteFile hnd' m' \<in> set cs \<longleftrightarrow> hnd' = hnd \<and> m' = m) \<and>
       msg_action m = action_code DDM_CREATE \<and> msg_length m = 264 \<and> msg_path m = p) \<and>
    (ok \<longleftrightarrow> answer e h DDM_CREATE (ctx_common p d) \<noteq> RET_FORBID))"
  using assms by (auto simp: io_post_def FileCreate_run question_writes
    intro!: exI [of _ "r_ret (e h (Win_CreateFileA CEPH_CHANNEL_NAME))"] exI [of _ "ddm_message DDM_CREATE (ctx_common p d)"])

definition pipe_env :: "u32 \<Rightarrow> env" where
  "pipe_env res = (\<lambda>h c. \<lparr>r_ret = (case c of Win_CreateFileA _ \<Rightarrow> 77 | Win_WriteFile _ m \<Rightarrow> int (length m) | _ \<Rightarrow> 0),
     r_stat = \<lparr>st_mode = 0, st_uid = 0, st_gid = 0, st_size = 0, st_mtime = 0, st_ino = 0, st_nlink = 0\<rparr>,
     r_data = le32_bytes res @ le32_bytes 0, r_name = [], r_out = 0\<rparr>)"

lemma pipe_env_answer: "length req \<le> 1000 \<Longrightarrow> answer (pipe_env res) h action req = res"
  by (simp add: answer_def sent_def pipe_env_def ddm_message_def to_s32_id zero_padded_def msg_result_def)

theorem FileCreate_asks_server_witness:
  "io_post (FileCreate ''M:/a.txt'' 0) (pipe_env RET_FORBID) [] (\<lambda>ok cs. \<not> ok \<and>
     (\<exists>hnd m. Win_WriteFile hnd m \<in> set cs \<and> msg_path m = ''M:/a.txt''))"
proof -
  have "\<not> IsOfficeTempFile ''M:/a.txt''" by code_simp
  from FileCreate_asks_server [OF _ _ this, of 0 "pipe_env RET_FORBID" "[]"] show ?thesis
    by (auto simp: pipe_env_answer elim!: io_post_mono)
qed

text \<open>A move is put to the server as a rename exactly when the directory parts of the two paths are
  equally long, whatever they are; otherwise it is put as a move.\<close>
theorem FileMove_rename_by_length:
  assumes "length p < MAX_PATH" "length q < MAX_PATH" "\<not> IsOfficeTempFile p" "\<not> IsOfficeTempFile q"
    and "p = dir @ [backslash] @ name" "q = dir' @ [backslash] @ name'"
      "backslash \<notin> set name" "backslash \<notin> set name'"
  shows "io_post (FileMove p q d) e h (\<lambda>ok cs. \<exists>hnd m. Win_WriteFile hnd m \<in> set cs \<and>
    (msg_action m = action_code DDM_RENAME \<longleftrightarrow> length dir = length dir') \<and>
    (msg_action m = action_code DDM_MOVE \<longleftrightarrow> length dir \<noteq> length dir'))"
proof -
  have r: "rfind backslash p = Some (length dir)" "rfind backslash q = Some (length dir')"
    using assms(5-8) by (simp_all add: rfind_Some nth_append)
  then have "is_rename p q \<longleftrightarrow> length dir = length dir'" by (auto simp: is_rename_iff)
  then show ?thesis using assms(1-4)
    by (auto simp: io_post_def FileMove_run question_writes Let_def)
qed

theorem FileMove_rename_by_length_witness:
  "io_post (FileMove (''M:'' @ [backslash] @ ''alice'' @ [backslash] @ ''x'') (''M:'' @ [backslash] @ ''carol'' @ [backslash] @ ''x'') 0)
     (pipe_env RET_ALLOW) [] (\<lambda>ok cs. \<exists>hnd m. Win_WriteFile hnd m \<in> set cs \<and> msg_action m = action_code DDM_RENAME)"
proof -
  have "\<not> IsOfficeTempFile (''M:'' @ [backslash] @ ''alice'' @ [backslash] @ ''x'')"
    "\<not> IsOfficeTempFile (''M:'' @ [backslash] @ ''carol'' @ [backslash] @ ''x'')" by code_simp+
  from FileMove_rename_by_length [OF _ _ this, of "''M:'' @ [backslash] @ ''alice''" "''x''" "''M:'' @ [backslash] @ ''carol''" "''x''"
      0 "pipe_env RET_ALLOW" "[]"]
  show ?thesis by (auto elim!: io_post_mono)
qed

text \<open>When the message cannot be delivered, as when the server is gone, every operation is allowed:
  whatever error Windows reports after the write, creation, deletion and moving of a file whose path
  fits are answered with TRUE.\<close>
theorem policy_fails_open:
  assumes "\<And>h. 0 < r_ret (e h Win_GetLastError) \<and> r_ret (e h Win_GetLastError) < 2 ^ 16 \<and>
      r_ret (e h Win_GetLastError) \<noteq> ERROR_MORE_DATA"
    and "length p < MAX_PATH" "length q < MAX_PATH"
  shows "io_post (FileCreate p d) e h (\<lambda>ok cs. ok) \<and> io_post (FileDelete p d) e h (\<lambda>ok cs. ok) \<and>
    io_post (FileMove p q d) e h (\<lambda>ok cs. ok)"
proof -
  have "to_s32 (to_s32 (- g) - 12) \<noteq> int n" if "0 < g" "g < 2 ^ 16" for g n
    using that by (simp add: to_s32_id)
  then have "\<not> sent e h action req hnd" for action req hnd
    using assms(1) [of "h @ [Win_CreateFileA CEPH_CHANNEL_NAME, Win_WriteFile hnd (ddm_message action req)]"]
    by (auto simp: sent_def Let_def)
  then have "answer e h action req = RET_FAILED" for action req by (simp add: answer_def Let_def)
  then show ?thesis
    using assms(2,3) by (simp_all add: io_post_def FileCreate_run FileDelete_run FileMove_run Let_def)
qed

theorem policy_fails_open_witness:
  "io_post (FileCreate ''M:/a.txt'' 0) (\<lambda>h c. (pipe_env RET_FORBID h c)\<lparr>r_ret := 109\<rparr>) [] (\<lambda>ok cs. ok)"
  using policy_fails_open [of "\<lambda>h c. (pipe_env RET_FORBID h c)\<lparr>r_ret := 109\<rparr>" "''M:/a.txt''" "''M:/a.txt''" 0 "[]"] by simp

text \<open>The path is copied into a field of 260 bytes without a check, so a longer path, which the driver
  allows up to 8192 bytes, is written past the end of the request.\<close>
theorem policy_path_overflow:
  assumes "MAX_PATH \<le> length p" "\<not> IsOfficeTempFile p"
  shows "FileCreate p d e h = Fault \<and> FileDelete p d e h = Fault \<and> FileAuth p e h = Fault"
  using assms by (simp_all add: FileCreate_def FileDelete_def FileAuth_def PipeConnect_def strcpy_path_def io_run_simps)

theorem policy_path_overflow_witness: "FileCreate (replicate 300 CHR ''x'') 0 (pipe_env RET_ALLOW) [] = Fault"
proof -
  have "\<not> IsOfficeTempFile (replicate 300 CHR ''x'')" by code_simp
  then show ?thesis using policy_path_overflow [of "replicate 300 CHR ''x''" 0 "pipe_env RET_ALLOW" "[]"] by simp
qed

section \<open>Calls of the policy questions\<close>

lemma ask_server_calls [calls_intro]:
  "io_calls reads_only (GetUI2ActionResult a r)" "io_calls no_fd_call (GetUI2ActionResult a r)"
  unfolding GetUI2ActionResult_def PipeConnect_def SendDataToUI2_def PipeSend_def ReadDataFromUI2_def PipeReceive_def
  by (intro calls_intro; simp add: reads_only_def)+

lemma policy_calls [calls_intro]:
  "io_calls reads_only (FileCreate p n)" "io_calls no_fd_call (FileCreate p n)"
  "io_calls reads_only (FileDelete p n)" "io_calls no_fd_call (FileDelete p n)"
  "io_calls reads_only (FileMove p q n)" "io_calls no_fd_call (FileMove p q n)"
  unfolding FileCreate_def FileDelete_def FileMove_def strcpy_path_def
  by (intro calls_intro)+

lemma FileAuth_calls [calls_intro]: "io_calls reads_only (FileAuth p)" "io_calls no_fd_call (FileAuth p)"
  unfolding FileAuth_def PipeConnect_def SendDataToUI2_def PipeSend_def ReadDataFromUI2_def PipeReceive_def strcpy_path_def
  by (intro calls_intro; simp add: reads_only_def)+

end
