(* ===== verification/Dokan_Driver.thy ===== *)
theory Dokan_Driver
imports Acl_Walk Revise
begin

text \<open>
  The callbacks of \<open>dokan/ceph_dokan.c\<close> that open, close, read and write files.  Dokan calls them with a
  path and a \<open>DOKAN_FILE_INFO\<close>; they talk to the client library, to Windows and to the policy server.
  Debug output and the resetting of Dokan's timeouts are left out.
\<close>

section \<open>Windows constants\<close>

abbreviation (input) CREATE_NEW :: u32 where "CREATE_NEW \<equiv> 1"
abbreviation (input) CREATE_ALWAYS :: u32 where "CREATE_ALWAYS \<equiv> 2"
abbreviation (input) OPEN_EXISTING :: u32 where "OPEN_EXISTING \<equiv> 3"
abbreviation (input) OPEN_ALWAYS :: u32 where "OPEN_ALWAYS \<equiv> 4"
abbreviation (input) TRUNCATE_EXISTING :: u32 where "TRUNCATE_EXISTING \<equiv> 5"

abbreviation (input) GENERIC_READ :: u32 where "GENERIC_READ \<equiv> 0x80000000"
abbreviation (input) GENERIC_WRITE :: u32 where "GENERIC_WRITE \<equiv> 0x40000000"
abbreviation (input) FILE_SHARE_READ :: u32 where "FILE_SHARE_READ \<equiv> 1"
abbreviation (input) FILE_SHARE_WRITE :: u32 where "FILE_SHARE_WRITE \<equiv> 2"
abbreviation (input) FILE_SHARE_DELETE :: u32 where "FILE_SHARE_DELETE \<equiv> 4"
abbreviation (input) FILE_WRITE_DATA :: u32 where "FILE_WRITE_DATA \<equiv> 2"
abbreviation (input) STANDARD_RIGHTS_READ :: u32 where "STANDARD_RIGHTS_READ \<equiv> 0x20000"
abbreviation (input) STANDARD_RIGHTS_WRITE :: u32 where "STANDARD_RIGHTS_WRITE \<equiv> 0x20000"
abbreviation (input) FILE_ATTRIBUTE_READONLY :: u32 where "FILE_ATTRIBUTE_READONLY \<equiv> 1"
abbreviation (input) FILE_ATTRIBUTE_DIRECTORY :: u32 where "FILE_ATTRIBUTE_DIRECTORY \<equiv> 0x10"
abbreviation (input) FILE_ATTRIBUTE_ARCHIVE :: u32 where "FILE_ATTRIBUTE_ARCHIVE \<equiv> 0x20"
abbreviation (input) FILE_ATTRIBUTE_NORMAL :: u32 where "FILE_ATTRIBUTE_NORMAL \<equiv> 0x80"
abbreviation (input) FILE_ATTRIBUTE_TEMPORARY :: u32 where "FILE_ATTRIBUTE_TEMPORARY \<equiv> 0x100"
abbreviation (input) FILE_FLAG_DELETE_ON_CLOSE :: u32 where "FILE_FLAG_DELETE_ON_CLOSE \<equiv> 0x04000000"

abbreviation (input) ERROR_FILE_NOT_FOUND :: int where "ERROR_FILE_NOT_FOUND \<equiv> 2"
abbreviation (input) ERROR_PATH_NOT_FOUND :: int where "ERROR_PATH_NOT_FOUND \<equiv> 3"
abbreviation (input) ERROR_ACCESS_DENIED :: int where "ERROR_ACCESS_DENIED \<equiv> 5"
abbreviation (input) ERROR_FILE_EXISTS :: int where "ERROR_FILE_EXISTS \<equiv> 80"
abbreviation (input) ERROR_DIR_NOT_EMPTY :: int where "ERROR_DIR_NOT_EMPTY \<equiv> 145"
abbreviation (input) ERROR_ALREADY_EXISTS :: int where "ERROR_ALREADY_EXISTS \<equiv> 183"

abbreviation (input) O_RDONLY :: int where "O_RDONLY \<equiv> 0"
abbreviation (input) O_RDWR :: int where "O_RDWR \<equiv> 2"
abbreviation (input) O_CREAT :: int where "O_CREAT \<equiv> 0x100"
abbreviation (input) O_TRUNC :: int where "O_TRUNC \<equiv> 0x200"
abbreviation (input) O_EXCL :: int where "O_EXCL \<equiv> 0x400"

abbreviation (input) MAX_PATH_CEPH :: nat where "MAX_PATH_CEPH \<equiv> 8192"

section \<open>Settings, handles and paths\<close>

text \<open>
  The globals set by \<open>main\<close>, and the conversion between wide strings and UTF-8 that Windows provides.
\<close>

record driver =
  g_UID :: int
  g_GID :: int
  g_UseACL :: bool
  MountPoint :: wide
  Wceph_conf_file :: wide
  to_utf8 :: "wide \<Rightarrow> string"
  to_wide :: "string \<Rightarrow> wide"

text \<open>The members of \<open>DOKAN_FILE_INFO\<close> that are used.\<close>

record dokan_info =
  Context :: u64
  IsDirectory :: u8
  DeleteOnClose :: u8

text \<open>\<open>struct fd_context\<close>, kept in the 8 bytes of \<open>Context\<close>.\<close>

record fd_context =
  fd :: u32
  delete_on_close :: u16
  read_only :: u16

definition pack_context :: "fd_context \<Rightarrow> u64" where
  "pack_context c = ucast (fd c) OR push_bit 32 (ucast (delete_on_close c)) OR push_bit 48 (ucast (read_only c))"

definition unpack_context :: "u64 \<Rightarrow> fd_context" where
  "unpack_context w = \<lparr>fd = ucast w, delete_on_close = ucast (drop_bit 32 w), read_only = ucast (drop_bit 48 w)\<rparr>"

definition no_fd :: fd_context where
  "no_fd = \<lparr>fd = 0, delete_on_close = 0, read_only = 0\<rparr>"

text \<open>The copy of the path at the start of a callback, which overruns its buffer if the path is too long.\<close>

definition GetFilePath :: "wide \<Rightarrow> wide io" where
  "GetFilePath FileName = (if length FileName < MAX_PATH_CEPH then io_ret FileName else io_fault)"

definition GetAbsPath :: "driver \<Rightarrow> wide \<Rightarrow> wide io" where
  "GetAbsPath d FileName =
     (if length (MountPoint d @ FileName) < MAX_PATH_CEPH then io_ret (MountPoint d @ FileName) else io_fault)"

text \<open>The UTF-8 form, \<open>None\<close> when it does not fit: then the buffer is left as it was.\<close>

definition wchar_to_char :: "driver \<Rightarrow> wide \<Rightarrow> nat \<Rightarrow> string option" where
  "wchar_to_char d FileName n =
     (let s = to_utf8 d FileName in if length s + 1 > n then None else Some s)"

definition ToLinuxFilePath :: "string \<Rightarrow> string" where
  "ToLinuxFilePath filePath = map (\<lambda>c. if c = backslash then CHR ''/'' else c) filePath"

text \<open>The name for the client library; the buffer has no defined contents before the conversion.\<close>

definition linux_name :: "driver \<Rightarrow> wide \<Rightarrow> string io" where
  "linux_name d FileName =
     (case wchar_to_char d FileName MAX_PATH_CEPH of
        None \<Rightarrow> io_fault
      | Some s \<Rightarrow> io_ret (ToLinuxFilePath s))"

text \<open>The path with the drive for the policy server, in a buffer that is zeroed before.\<close>

definition abs_name :: "driver \<Rightarrow> wide \<Rightarrow> string io" where
  "abs_name d FileName =
     io_bind (GetAbsPath d FileName) (\<lambda>p.
       io_ret (case wchar_to_char d p MAX_PATH_CEPH of None \<Rightarrow> [] | Some s \<Rightarrow> s))"

section \<open>WinCephCreateFile\<close>

definition may_walk :: "driver \<Rightarrow> string \<Rightarrow> u16 \<Rightarrow> bool io" where
  "may_walk d file_name perm =
     (if g_UseACL d
      then io_bind (permission_walk file_name (word_of_int (g_UID d)) (word_of_int (g_GID d)) perm) (\<lambda>st. io_ret (st = 0))
      else io_ret True)"

definition may_walk_parent :: "driver \<Rightarrow> string \<Rightarrow> u16 \<Rightarrow> bool io" where
  "may_walk_parent d file_name perm =
     (if g_UseACL d
      then io_bind (permission_walk_parent file_name (word_of_int (g_UID d)) (word_of_int (g_GID d)) perm) (\<lambda>st. io_ret (st = 0))
      else io_ret True)"

definition wants_read :: "u32 \<Rightarrow> bool" where
  "wants_read AccessMode \<longleftrightarrow> AccessMode AND GENERIC_READ \<noteq> 0 \<or> AccessMode AND FILE_SHARE_READ \<noteq> 0 \<or>
     AccessMode AND STANDARD_RIGHTS_READ \<noteq> 0"

definition wants_write :: "u32 \<Rightarrow> bool" where
  "wants_write AccessMode \<longleftrightarrow> AccessMode AND GENERIC_WRITE \<noteq> 0 \<or> AccessMode AND FILE_SHARE_WRITE \<noteq> 0 \<or>
     AccessMode AND STANDARD_RIGHTS_WRITE \<noteq> 0 \<or> AccessMode AND FILE_SHARE_DELETE \<noteq> 0"

text \<open>The descriptor goes into the context; a negative one is returned as the error.\<close>

definition open_as :: "int \<Rightarrow> int \<Rightarrow> string \<Rightarrow> fd_context \<Rightarrow> dokan_info \<Rightarrow> (int \<times> dokan_info) io" where
  "open_as res flags file_name fdc info =
     io_bind (ask (Ceph_open file_name flags 0x1ED)) (\<lambda>r.
       if r_ret r < 0 then io_ret (r_ret r, info)
       else io_ret (res, info\<lparr>Context := pack_context (fdc\<lparr>fd := word_of_int (r_ret r)\<rparr>)\<rparr>))"

definition readonly_txt :: wide where
  "readonly_txt = map of_char ''readonly.txt''"

text \<open>
  The check for a file that Windows sees as read-only: a file next to the driver is opened in the same
  way, and the descriptor becomes read-only.  The result is an error to return or the context.
\<close>

definition check_readonly :: "driver \<Rightarrow> wide \<Rightarrow> u32 \<Rightarrow> u32 \<Rightarrow> u32 \<Rightarrow> u32 \<Rightarrow> fd_context \<Rightarrow> (int + fd_context) io" where
  "check_readonly d FileName AccessMode ShareMode CreationDisposition FlagsAndAttributes fdc =
     (if wants_write AccessMode then
        io_bind (GetAbsPath d FileName) (\<lambda>absPath.
        io_bind (ask (Win_GetFileAttributes absPath)) (\<lambda>a.
        if word_of_int (r_ret a) AND FILE_ATTRIBUTE_READONLY \<noteq> 0 then
          io_bind (ask (Win_CreateFileW readonly_txt AccessMode ShareMode CreationDisposition FlagsAndAttributes)) (\<lambda>h.
          if r_ret h = - 1
          then io_bind (ask Win_GetLastError) (\<lambda>g. io_ret (Inl (to_s32 (- r_ret g))))
          else io_bind (ask (Win_CloseHandle (r_ret h))) (\<lambda>_. io_ret (Inr (fdc\<lparr>read_only := 1\<rparr>))))
        else io_ret (Inr fdc)))
      else io_ret (Inr fdc))"

text \<open>\<open>OPEN_ALWAYS\<close> and \<open>OPEN_EXISTING\<close> on a regular file differ in what is returned.\<close>

definition open_existing :: "int \<Rightarrow> driver \<Rightarrow> wide \<Rightarrow> u32 \<Rightarrow> u32 \<Rightarrow> u32 \<Rightarrow> u32 \<Rightarrow> string \<Rightarrow> fd_context \<Rightarrow> dokan_info
    \<Rightarrow> (int \<times> dokan_info) io" where
  "open_existing res d FileName AccessMode ShareMode CreationDisposition FlagsAndAttributes file_name fdc info =
     io_bind (if wants_read AccessMode then may_walk d file_name MAY_READ else io_ret True) (\<lambda>ok.
     if \<not> ok then io_ret (- ERROR_ACCESS_DENIED, info)
     else
       io_bind (check_readonly d FileName AccessMode ShareMode CreationDisposition FlagsAndAttributes fdc) (\<lambda>x.
         case x of
           Inl err \<Rightarrow> io_ret (err, info)
         | Inr fdc \<Rightarrow> open_as res (if read_only fdc = 1 then O_RDONLY else O_RDWR) file_name fdc info))"

definition create_on_file :: "driver \<Rightarrow> wide \<Rightarrow> u32 \<Rightarrow> u32 \<Rightarrow> u32 \<Rightarrow> u32 \<Rightarrow> string \<Rightarrow> fd_context \<Rightarrow> dokan_info
    \<Rightarrow> (int \<times> dokan_info) io" where
  "create_on_file d FileName AccessMode ShareMode CreationDisposition FlagsAndAttributes file_name fdc info =
     (if CreationDisposition = CREATE_NEW then io_ret (- ERROR_FILE_EXISTS, info)
      else if CreationDisposition = TRUNCATE_EXISTING then
        io_bind (may_walk d file_name MAY_WRITE) (\<lambda>ok.
        if \<not> ok then io_ret (- ERROR_ACCESS_DENIED, info)
        else open_as 0 (O_CREAT + O_TRUNC + O_RDWR) file_name fdc info)
      else if CreationDisposition = OPEN_ALWAYS then
        open_existing ERROR_ALREADY_EXISTS d FileName AccessMode ShareMode CreationDisposition FlagsAndAttributes file_name fdc info
      else if CreationDisposition = OPEN_EXISTING then
        open_existing 0 d FileName AccessMode ShareMode CreationDisposition FlagsAndAttributes file_name fdc info
      else if CreationDisposition = CREATE_ALWAYS then
        io_bind (may_walk d file_name (MAY_READ OR MAY_WRITE)) (\<lambda>ok.
        if \<not> ok then io_ret (- ERROR_ACCESS_DENIED, info)
        else open_as ERROR_ALREADY_EXISTS (O_CREAT + O_TRUNC + O_RDWR) file_name fdc info)
      else io_ret (- 1, info))"

definition create_on_directory :: "u32 \<Rightarrow> dokan_info \<Rightarrow> (int \<times> dokan_info) io" where
  "create_on_directory CreationDisposition info =
     io_ret (if CreationDisposition = CREATE_NEW then - ERROR_FILE_EXISTS
             else if CreationDisposition = TRUNCATE_EXISTING \<or> CreationDisposition = OPEN_EXISTING then 0
             else if CreationDisposition = OPEN_ALWAYS \<or> CreationDisposition = CREATE_ALWAYS then ERROR_ALREADY_EXISTS
             else - 1, info)"

text \<open>
  The three ways to create a file: the flags differ, and \<open>OPEN_ALWAYS\<close> takes descriptor 0 for an error
  (\<open>least\<close> is the least descriptor accepted).
\<close>

definition create_new_file :: "int \<Rightarrow> int \<Rightarrow> driver \<Rightarrow> wide \<Rightarrow> string \<Rightarrow> fd_context \<Rightarrow> dokan_info \<Rightarrow> (int \<times> dokan_info) io" where
  "create_new_file least flags d FileName file_name fdc info =
     io_bind (may_walk_parent d file_name (MAY_WRITE OR MAY_EXEC)) (\<lambda>ok.
     if \<not> ok then io_ret (- ERROR_ACCESS_DENIED, info)
     else
       io_bind (abs_name d FileName) (\<lambda>strGbk.
       io_bind (FileCreate strGbk 0) (\<lambda>ok.
       if \<not> ok then io_ret (- ERROR_ACCESS_DENIED, info)
       else
         io_bind (ask (Ceph_open file_name flags 0x1ED)) (\<lambda>r.
         if r_ret r < least then io_ret (- 1, info)
         else
           io_bind (ask (Ceph_chown file_name (g_UID d) (g_GID d))) (\<lambda>_.
           io_bind (fuse_init_acl file_name 0x1FF) (\<lambda>_.
           io_ret (0, info\<lparr>Context := pack_context (fdc\<lparr>fd := word_of_int (r_ret r)\<rparr>)\<rparr>)))))))"

definition create_missing :: "driver \<Rightarrow> wide \<Rightarrow> u32 \<Rightarrow> string \<Rightarrow> fd_context \<Rightarrow> dokan_info \<Rightarrow> (int \<times> dokan_info) io" where
  "create_missing d FileName CreationDisposition file_name fdc info =
     (if CreationDisposition = CREATE_NEW then
        create_new_file 0 (O_CREAT + O_RDWR + O_EXCL) d FileName file_name fdc info
      else if CreationDisposition = CREATE_ALWAYS then
        create_new_file 0 (O_CREAT + O_TRUNC + O_RDWR) d FileName file_name fdc info
      else if CreationDisposition = OPEN_ALWAYS then
        create_new_file 1 (O_CREAT + O_RDWR) d FileName file_name fdc info
      else if CreationDisposition = OPEN_EXISTING then
        io_ret (if file_name \<noteq> [] \<and> hd file_name = CHR ''/'' then - ERROR_FILE_NOT_FOUND else 0, info)
      else if CreationDisposition = TRUNCATE_EXISTING then io_ret (- ERROR_FILE_NOT_FOUND, info)
      else io_ret (- 1, info))"

definition WinCephCreateFile :: "driver \<Rightarrow> wide \<Rightarrow> u32 \<Rightarrow> u32 \<Rightarrow> u32 \<Rightarrow> u32 \<Rightarrow> dokan_info \<Rightarrow> (int \<times> dokan_info) io" where
  "WinCephCreateFile d FileName AccessMode ShareMode CreationDisposition FlagsAndAttributes info =
     io_bind (GetFilePath FileName) (\<lambda>_.
     let ShareMode = (if ShareMode = 0 \<and> AccessMode AND FILE_WRITE_DATA \<noteq> 0 then FILE_SHARE_WRITE
                      else if ShareMode = 0 then FILE_SHARE_READ else ShareMode) in
     io_bind (linux_name d FileName) (\<lambda>file_name.
     let fdc = no_fd\<lparr>delete_on_close :=
           of_bool (FlagsAndAttributes AND FILE_ATTRIBUTE_TEMPORARY \<noteq> 0 \<or> FlagsAndAttributes AND FILE_FLAG_DELETE_ON_CLOSE \<noteq> 0)\<rparr> in
     if file_name = ''/'' then io_ret (0, info)
     else
       io_bind (ask (Ceph_stat file_name)) (\<lambda>r.
       if r_ret r = 0 then
         (if S_ISREG (st_mode (r_stat r)) then
            create_on_file d FileName AccessMode ShareMode CreationDisposition FlagsAndAttributes file_name fdc info
          else if S_ISDIR (st_mode (r_stat r)) then create_on_directory CreationDisposition info
          else io_ret (- 1, info))
       else create_missing d FileName CreationDisposition file_name fdc info)))"

section \<open>Directories\<close>

definition WinCephCreateDirectory :: "driver \<Rightarrow> wide \<Rightarrow> int io" where
  "WinCephCreateDirectory d FileName =
     io_bind (GetFilePath FileName) (\<lambda>_.
     io_bind (linux_name d FileName) (\<lambda>file_name.
     if file_name = ''/'' then io_ret 0
     else
       io_bind (abs_name d FileName) (\<lambda>strGbk.
       io_bind (FileCreate strGbk 1) (\<lambda>ok.
       if \<not> ok then io_ret (- ERROR_ACCESS_DENIED)
       else
         io_bind (ask (Ceph_stat file_name)) (\<lambda>r.
         if r_ret r = 0 \<and> S_ISDIR (st_mode (r_stat r)) then io_ret (- ERROR_ALREADY_EXISTS)
         else
           io_bind (ask (Ceph_mkdir file_name 0x1ED)) (\<lambda>m.
           if r_ret m = - 2 then io_ret (- ERROR_PATH_NOT_FOUND)
           else if r_ret m \<noteq> 0 then io_ret (- 5)
           else if g_UseACL d then
             io_bind (ask (Ceph_chown file_name (g_UID d) (g_GID d))) (\<lambda>_.
             io_bind (fuse_init_acl file_name 0x41FF) (\<lambda>_. io_ret 0))
           else io_ret 0))))))"

definition WinCephOpenDirectory :: "driver \<Rightarrow> wide \<Rightarrow> dokan_info \<Rightarrow> (int \<times> dokan_info) io" where
  "WinCephOpenDirectory d FileName info =
     io_bind (GetFilePath FileName) (\<lambda>filePath.
     io_bind (linux_name d filePath) (\<lambda>file_name.
     io_bind (ask (Ceph_stat file_name)) (\<lambda>r.
     if r_ret r \<noteq> 0 then io_ret (- 1, info)
     else
       io_bind (may_walk d file_name (MAY_READ OR MAY_EXEC)) (\<lambda>ok.
       if \<not> ok then io_ret (- ERROR_ACCESS_DENIED, info)
       else if S_ISDIR (st_mode (r_stat r)) then
         io_bind (ask (Ceph_open file_name O_RDONLY 0x1ED)) (\<lambda>opn.
         if r_ret opn \<le> 0 then io_ret (- 1, info)
         else io_ret (0, info\<lparr>Context := pack_context (no_fd\<lparr>fd := word_of_int (r_ret opn)\<rparr>)\<rparr>))
       else io_ret (- 1, info)))))"

section \<open>Closing\<close>

definition WinCephCloseFile :: "driver \<Rightarrow> wide \<Rightarrow> dokan_info \<Rightarrow> (int \<times> dokan_info) io" where
  "WinCephCloseFile d FileName info =
     io_bind (GetFilePath FileName) (\<lambda>_.
     if Context info \<noteq> 0 then
       io_bind (linux_name d FileName) (\<lambda>file_name.
       let fdc = unpack_context (Context info) in
       io_bind (ask (Ceph_close (sint (fd fdc)))) (\<lambda>_.
       io_bind (if delete_on_close fdc \<noteq> 0 \<and> IsDirectory info = 0
                then io_bind (ask (Ceph_unlink file_name)) (\<lambda>_. io_ret ()) else io_ret ()) (\<lambda>_.
       io_ret (0, info\<lparr>Context := 0\<rparr>))))
     else io_ret (0, info))"

definition WinCephCleanup :: "driver \<Rightarrow> wide \<Rightarrow> dokan_info \<Rightarrow> int io" where
  "WinCephCleanup d FileName info =
     io_bind (GetFilePath FileName) (\<lambda>_.
     io_bind (linux_name d FileName) (\<lambda>file_name.
     if Context info \<noteq> 0 then
       (if DeleteOnClose info \<noteq> 0 then
          io_bind (ask (if IsDirectory info \<noteq> 0 then Ceph_rmdir file_name else Ceph_unlink file_name)) (\<lambda>_. io_ret 0)
        else io_ret 0)
     else io_ret (- 1)))"

section \<open>Reading and writing\<close>

definition too_large :: "int \<Rightarrow> u32 \<Rightarrow> bool" where
  "too_large Offset n \<longleftrightarrow> Offset > 1024 * 1024 * 1024 * 1024 \<or> Offset < 0 \<or> n > 128 * 1024 * 1024"

text \<open>The result, the number stored in \<open>*ReadLength\<close> if any, and the bytes stored in the buffer.\<close>

definition WinCephReadFile :: "driver \<Rightarrow> wide \<Rightarrow> u32 \<Rightarrow> int \<Rightarrow> dokan_info \<Rightarrow> (int \<times> int option \<times> u8 list) io" where
  "WinCephReadFile d FileName BufferLength Offset info =
     (if too_large Offset BufferLength then io_ret (- 1, None, [])
      else if BufferLength = 0 then io_ret (0, Some 0, [])
      else
        io_bind (GetFilePath FileName) (\<lambda>_.
        io_bind (linux_name d FileName) (\<lambda>file_name.
        let fdc = unpack_context (Context info) in
        if fd fdc = 0 then
          io_bind (ask (Ceph_open file_name O_RDONLY 0)) (\<lambda>opn.
          if r_ret opn < 0 then io_ret (- 1, None, [])
          else
            io_bind (ask (Ceph_read (r_ret opn) (uint BufferLength) Offset)) (\<lambda>r.
            io_bind (ask (Ceph_close (r_ret opn))) (\<lambda>_.
            if r_ret r < 0 then io_ret (r_ret r, None, []) else io_ret (0, Some (r_ret r), r_data r))))
        else
          io_bind (ask (Ceph_read (sint (fd fdc)) (uint BufferLength) Offset)) (\<lambda>r.
          if r_ret r < 0 then io_ret (r_ret r, None, []) else io_ret (0, Some (r_ret r), r_data r)))))"

definition WinCephWriteFile :: "driver \<Rightarrow> wide \<Rightarrow> u8 list \<Rightarrow> u32 \<Rightarrow> int \<Rightarrow> dokan_info \<Rightarrow> (int \<times> int option) io" where
  "WinCephWriteFile d FileName Buffer NumberOfBytesToWrite Offset info =
     (if too_large Offset NumberOfBytesToWrite then io_ret (- 1, None)
      else if NumberOfBytesToWrite = 0 then io_ret (0, Some 0)
      else
        io_bind (linux_name d FileName) (\<lambda>file_name.
        let fdc = unpack_context (Context info); bytes = take (unat NumberOfBytesToWrite) Buffer in
        if read_only fdc = 1 then io_ret (- ERROR_ACCESS_DENIED, None)
        else if fd fdc = 0 then
          io_bind (ask (Ceph_open file_name O_RDONLY 0)) (\<lambda>opn.
          if r_ret opn < 0 then io_ret (- 1, None)
          else
            io_bind (ask (Ceph_write (r_ret opn) bytes Offset)) (\<lambda>w.
            io_bind (ask (Ceph_close (r_ret opn))) (\<lambda>_.
            if r_ret w < 0 then io_ret (r_ret w, None) else io_ret (0, Some (r_ret w)))))
        else
          io_bind (ask (Ceph_write (sint (fd fdc)) bytes Offset)) (\<lambda>w.
          if r_ret w < 0 then io_ret (r_ret w, None) else io_ret (0, Some (r_ret w)))))"

definition WinCephFlushFileBuffers :: "driver \<Rightarrow> wide \<Rightarrow> dokan_info \<Rightarrow> int io" where
  "WinCephFlushFileBuffers d FileName info =
     io_bind (GetFilePath FileName) (\<lambda>_.
     io_bind (linux_name d FileName) (\<lambda>_.
     let fdc = unpack_context (Context info) in
     if fd fdc = 0 then io_ret (- 1)
     else io_bind (ask (Ceph_fsync (sint (fd fdc)))) (\<lambda>r. io_ret (if r_ret r \<noteq> 0 then - 1 else 0))))"

definition WinCephSetEndOfFile :: "driver \<Rightarrow> wide \<Rightarrow> int \<Rightarrow> dokan_info \<Rightarrow> int io" where
  "WinCephSetEndOfFile d FileName ByteOffset info =
     io_bind (GetFilePath FileName) (\<lambda>_.
     io_bind (linux_name d FileName) (\<lambda>_.
     let fdc = unpack_context (Context info) in
     if fd fdc = 0 then io_ret (- 1)
     else io_bind (ask (Ceph_ftruncate (sint (fd fdc)) ByteOffset)) (\<lambda>r. io_ret (if r_ret r \<noteq> 0 then - 1 else 0))))"

definition WinCephSetAllocationSize :: "driver \<Rightarrow> wide \<Rightarrow> int \<Rightarrow> dokan_info \<Rightarrow> int io" where
  "WinCephSetAllocationSize d FileName AllocSize info =
     io_bind (GetFilePath FileName) (\<lambda>_.
     io_bind (linux_name d FileName) (\<lambda>_.
     let fdc = unpack_context (Context info) in
     if fd fdc = 0 then io_ret (- 1)
     else
       io_bind (ask (Ceph_fstat (sint (fd fdc)))) (\<lambda>s.
       if r_ret s \<noteq> 0 then io_ret (- 1)
       else if AllocSize < st_size (r_stat s)
       then io_bind (ask (Ceph_ftruncate (sint (fd fdc)) AllocSize)) (\<lambda>r. io_ret (if r_ret r \<noteq> 0 then - 1 else 0))
       else io_ret 0)))"

end
