(* ===== verification/Dokan_Dir.thy ===== *)
theory Dokan_Dir
imports Dokan_Driver
begin

text \<open>
  The remaining callbacks of \<open>dokan/ceph_dokan.c\<close>: file information, directory listings, deletion,
  renaming, volume information and the stubs; the conversion of times; and the command line.
\<close>

section \<open>Times and sizes\<close>

record filetime =
  dwLowDateTime :: u32
  dwHighDateTime :: u32

definition filetime_epoch :: int where
  "filetime_epoch = 116444736000000000"

text \<open>\<open>Int32x32To64\<close> takes its arguments as 32-bit integers.\<close>

definition UnixTimeToFileTime :: "int \<Rightarrow> filetime" where
  "UnixTimeToFileTime t =
     (let ll = word_of_int (to_s32 t * 10000000 + filetime_epoch) :: u64
      in \<lparr>dwLowDateTime = ucast ll, dwHighDateTime = ucast (signed_drop_bit 32 ll)\<rparr>)"

text \<open>The value of the first computation of the function is not used.\<close>

definition FileTimeToUnixTime :: "filetime \<Rightarrow> int" where
  "FileTimeToUnixTime ft =
     (let quad = push_bit 32 (ucast (dwHighDateTime ft)) OR ucast (dwLowDateTime ft) :: u64
      in c_div (sint (quad - word_of_int filetime_epoch)) 10000000)"

definition low_part :: "int \<Rightarrow> u32" where
  "low_part n = ucast (signed_drop_bit 32 (push_bit 32 (word_of_int n :: u64)))"

definition high_part :: "int \<Rightarrow> u32" where
  "high_part n = ucast (signed_drop_bit 32 (word_of_int n :: u64))"

section \<open>File information\<close>

record file_information =
  dwFileAttributes :: u32
  ftCreationTime :: filetime
  ftLastAccessTime :: filetime
  ftLastWriteTime :: filetime
  nFileSizeHigh :: u32
  nFileSizeLow :: u32
  nNumberOfLinks :: u32
  nFileIndexHigh :: u32
  nFileIndexLow :: u32

definition WinCephGetFileInformation :: "driver \<Rightarrow> wide \<Rightarrow> dokan_info \<Rightarrow> (int \<times> file_information option) io" where
  "WinCephGetFileInformation d FileName info =
     io_bind (GetFilePath FileName) (\<lambda>_.
     io_bind (linux_name d FileName) (\<lambda>file_name.
     let fdc = unpack_context (Context info) in
     io_bind (ask (if fd fdc = 0 then Ceph_stat file_name else Ceph_fstat (sint (fd fdc)))) (\<lambda>r.
     if r_ret r \<noteq> 0 then io_ret (- 1, None)
     else
       let st = r_stat r; t = UnixTimeToFileTime (st_mtime st) in
       io_bind
         (if S_ISDIR (st_mode st) then io_ret FILE_ATTRIBUTE_DIRECTORY
          else if S_ISREG (st_mode st) then
            io_bind (abs_name d FileName) (\<lambda>utf8path.
            io_bind (FileAuth utf8path) (\<lambda>nAuth.
            io_ret (if nAuth AND AUTH_READ \<noteq> 0 \<and> nAuth AND AUTH_WRITE = 0
                    then FILE_ATTRIBUTE_READONLY OR FILE_ATTRIBUTE_ARCHIVE else FILE_ATTRIBUTE_ARCHIVE)))
          else io_ret 0) (\<lambda>attrs.
       io_ret (0, Some
         \<lparr>dwFileAttributes = attrs, ftCreationTime = t, ftLastAccessTime = t, ftLastWriteTime = t,
          nFileSizeHigh = high_part (st_size st), nFileSizeLow = low_part (st_size st),
          nNumberOfLinks = ucast (st_nlink st),
          nFileIndexHigh = ucast (drop_bit 32 (st_ino st)),
          nFileIndexLow = ucast (drop_bit 32 (push_bit 32 (st_ino st)))\<rparr>)))))"

section \<open>Directory listings\<close>

record find_data =
  f_cFileName :: wide
  f_dwFileAttributes :: u32
  f_time :: filetime
  f_nFileSizeHigh :: u32
  f_nFileSizeLow :: u32

definition fill_find_data :: "wide \<Rightarrow> stat \<Rightarrow> u32 \<Rightarrow> find_data" where
  "fill_find_data name st reg_attr =
     \<lparr>f_cFileName = name,
      f_dwFileAttributes = (if S_ISDIR (st_mode st) then FILE_ATTRIBUTE_DIRECTORY
        else if S_ISREG (st_mode st) then reg_attr else 0),
      f_time = UnixTimeToFileTime (st_mtime st),
      f_nFileSizeHigh = high_part (st_size st), f_nFileSizeLow = low_part (st_size st)\<rparr>"

text \<open>The name goes into an array of \<open>MAX_PATH\<close> wide characters without a check that it fits.\<close>

definition find_name :: "driver \<Rightarrow> string \<Rightarrow> wide io" where
  "find_name d name = (if length (to_wide d name) < MAX_PATH then io_ret (to_wide d name) else io_fault)"

text \<open>The entries of the directory, as the client library lists them; the list is what \<open>FillFindData\<close> got.\<close>

primrec find_loop :: "nat \<Rightarrow> driver \<Rightarrow> int \<Rightarrow> find_data list io" where
  "find_loop 0 d dirp = (\<lambda>e h. NoFuel)"
| "find_loop (Suc k) d dirp =
     io_bind (ask (Ceph_readdirplus dirp)) (\<lambda>r.
     if r_ret r = 0 \<or> r_ret r < 0 then io_ret []
     else
       io_bind (find_name d (r_name r)) (\<lambda>name.
       io_bind (find_loop k d dirp) (\<lambda>rest.
       io_ret (fill_find_data name (r_stat r) FILE_ATTRIBUTE_NORMAL # rest))))"

text \<open>
  The members \<open>mode\<close> and \<open>name\<close> of the 302 bytes the server sends for a file; a name without a final
  zero is read past its end.
\<close>

definition info_mode :: "u8 list \<Rightarrow> u16" where
  "info_mode bs = le16_read (drop 40 bs)"

definition info_name :: "u8 list \<Rightarrow> string io" where
  "info_name bs = (let f = take MAX_PATH (drop 42 bs) in if 0 \<in> set f then io_ret (field_string f) else io_fault)"

definition strcat_path :: "string \<Rightarrow> string \<Rightarrow> string io" where
  "strcat_path path s = (if length path + length s < MAX_PATH_CEPH then io_ret (path @ s) else io_fault)"

text \<open>The entries of a shared directory, as the server lists them, without those the client library lacks.\<close>

primrec shared_loop :: "driver \<Rightarrow> wide \<Rightarrow> u8 list list \<Rightarrow> find_data list io" where
  "shared_loop d FileName [] = io_ret []"
| "shared_loop d FileName (bs # bss) =
     io_bind (info_name bs) (\<lambda>name.
     io_bind (strcat_path (case wchar_to_char d FileName MAX_PATH_CEPH of None \<Rightarrow> [] | Some s \<Rightarrow> ToLinuxFilePath s)
                (''/'' @ name)) (\<lambda>path.
     io_bind (find_name d name) (\<lambda>cFileName.
     io_bind (ask (Ceph_lstat path)) (\<lambda>r.
     io_bind (shared_loop d FileName bss) (\<lambda>rest.
     io_ret (if r_ret r \<noteq> 0 then rest
             else fill_find_data cFileName (r_stat r)
                    (if info_mode bs AND AUTH_READ \<noteq> 0 \<and> info_mode bs AND AUTH_WRITE = 0
                     then FILE_ATTRIBUTE_READONLY else FILE_ATTRIBUTE_NORMAL) # rest))))))"

text \<open>The elements of an array of \<open>count\<close> structures of \<open>sz\<close> bytes.\<close>

definition array_of :: "nat \<Rightarrow> nat \<Rightarrow> 'a list \<Rightarrow> 'a list list" where
  "array_of count sz bs = map (\<lambda>i. take sz (drop (i * sz) bs)) [0..<count]"

abbreviation (input) sizeof_fileInfo :: nat where "sizeof_fileInfo \<equiv> 302"

text \<open>The three answers of the server: the directory is not its own, it is shared, or it is refused.\<close>

definition find_ceph :: "nat \<Rightarrow> driver \<Rightarrow> wide \<Rightarrow> int \<Rightarrow> (int \<times> find_data list) io" where
  "find_ceph fuel d FileName h =
     io_bind (linux_name d FileName) (\<lambda>file_name.
     io_bind (ask (Ceph_opendir file_name)) (\<lambda>r.
     if r_ret r \<noteq> 0 then io_bind (ask (Win_CloseHandle h)) (\<lambda>_. io_ret (- 1, []))
     else
       io_bind (find_loop fuel d (r_out r)) (\<lambda>entries.
       io_bind (ask (Ceph_closedir (r_out r))) (\<lambda>_.
       io_bind (ask (Win_CloseHandle h)) (\<lambda>_. io_ret (0, entries))))))"

definition find_shared :: "driver \<Rightarrow> wide \<Rightarrow> int \<Rightarrow> u32 \<Rightarrow> (int \<times> find_data list) io" where
  "find_shared d FileName h ctxLength =
     (let count = unat ctxLength div sizeof_fileInfo in
      io_bind
        (if 0 < count then
           io_bind (ask (Malloc (sizeof_fileInfo * count))) (\<lambda>p.
           if r_ret p = 0 then io_fault
           else
             io_bind (ReadDataFromUI2 h (sizeof_fileInfo * count)) (\<lambda>(_, arr).
             shared_loop d FileName (array_of count sizeof_fileInfo arr)))
         else io_ret []) (\<lambda>entries.
      io_bind (ask (Win_CloseHandle h)) (\<lambda>_. io_ret (0, entries))))"

definition WinCephFindFiles :: "nat \<Rightarrow> driver \<Rightarrow> wide \<Rightarrow> (int \<times> find_data list) io" where
  "WinCephFindFiles fuel d FileName =
     io_bind (GetAbsPath d FileName) (\<lambda>absFilePath.
     let path = (case wchar_to_char d absFilePath MAX_PATH of None \<Rightarrow> [] | Some s \<Rightarrow> s) in
     io_bind (PipeConnect CEPH_CHANNEL_NAME) (\<lambda>h.
     io_bind (SendDataToUI2 h DDM_READDIR (ctx_common path 1)) (\<lambda>n.
     if n \<noteq> 264 then io_ret (- 1, [])
     else
       io_bind (ReadDataFromUI2 h 8) (\<lambda>(_, bs).
       if msg_result bs = RET_NOTFOUND then find_ceph fuel d FileName h
       else if msg_result bs = RET_ALLOW then find_shared d FileName h (msg_ctxLength bs)
       else io_bind (ask (Win_CloseHandle h)) (\<lambda>_. io_ret (0, []))))))"

section \<open>Deleting and moving\<close>

definition WinCephDeleteFile :: "driver \<Rightarrow> wide \<Rightarrow> int io" where
  "WinCephDeleteFile d FileName =
     io_bind (GetFilePath FileName) (\<lambda>_.
     io_bind (abs_name d FileName) (\<lambda>strGbk.
     io_bind (FileDelete strGbk 0) (\<lambda>ok. io_ret (if ok then 0 else - ERROR_ACCESS_DENIED))))"

text \<open>The answer of \<open>ceph_readdir\<close> is a null pointer at the end of the directory.\<close>

primrec empty_loop :: "nat \<Rightarrow> int \<Rightarrow> int io" where
  "empty_loop 0 dirp = (\<lambda>e h. NoFuel)"
| "empty_loop (Suc k) dirp =
     io_bind (ask (Ceph_readdir dirp)) (\<lambda>r.
     if r_ret r = 0 then io_bind (ask (Ceph_closedir dirp)) (\<lambda>_. io_ret 0)
     else if r_name r \<noteq> ''.'' \<and> r_name r \<noteq> ''..''
     then io_bind (ask (Ceph_closedir dirp)) (\<lambda>_. io_ret (- ERROR_DIR_NOT_EMPTY))
     else empty_loop k dirp)"

definition WinCephDeleteDirectory :: "nat \<Rightarrow> driver \<Rightarrow> wide \<Rightarrow> int io" where
  "WinCephDeleteDirectory fuel d FileName =
     io_bind (GetFilePath FileName) (\<lambda>_.
     io_bind (abs_name d FileName) (\<lambda>strGbk.
     io_bind (FileDelete strGbk 1) (\<lambda>ok.
     if \<not> ok then io_ret (- ERROR_ACCESS_DENIED)
     else
       io_bind (linux_name d FileName) (\<lambda>file_name.
       io_bind (ask (Ceph_opendir file_name)) (\<lambda>r.
       if r_ret r \<noteq> 0 then io_ret (- 1) else empty_loop fuel (r_out r))))))"

definition same_kind :: "dokan_info \<Rightarrow> u32 \<Rightarrow> bool" where
  "same_kind info mode \<longleftrightarrow> IsDirectory info \<noteq> 0 \<and> S_ISDIR mode \<or> IsDirectory info = 0 \<and> S_ISREG mode"

definition WinCephMoveFile :: "driver \<Rightarrow> wide \<Rightarrow> wide \<Rightarrow> bool \<Rightarrow> dokan_info \<Rightarrow> int io" where
  "WinCephMoveFile d FileName NewFileName ReplaceIfExisting info =
     io_bind (GetFilePath FileName) (\<lambda>_.
     io_bind (GetFilePath NewFileName) (\<lambda>_.
     io_bind (linux_name d FileName) (\<lambda>file_name.
     io_bind (linux_name d NewFileName) (\<lambda>newfile_name.
     io_bind (abs_name d FileName) (\<lambda>str_pathfrom.
     io_bind (abs_name d NewFileName) (\<lambda>str_pathto.
     io_bind
       (if \<not> ReplaceIfExisting then
          io_bind (ask (Ceph_stat newfile_name)) (\<lambda>r. io_ret (r_ret r = 0 \<and> same_kind info (st_mode (r_stat r))))
        else io_ret False) (\<lambda>exists.
     if exists then io_ret (- ERROR_ALREADY_EXISTS)
     else
       io_bind (FileMove str_pathfrom str_pathto (ucast (IsDirectory info))) (\<lambda>ok.
       if \<not> ok then io_ret (- ERROR_ACCESS_DENIED)
       else io_bind (ask (Ceph_rename file_name newfile_name)) (\<lambda>r. io_ret (r_ret r))))))))))"

section \<open>Callbacks that do nothing\<close>

definition WinCephLockFile :: "wide \<Rightarrow> int io" where
  "WinCephLockFile FileName = io_bind (GetFilePath FileName) (\<lambda>_. io_ret 0)"

definition WinCephUnlockFile :: "wide \<Rightarrow> int io" where
  "WinCephUnlockFile FileName = io_bind (GetFilePath FileName) (\<lambda>_. io_ret 0)"

definition WinCephSetFileAttributes :: "driver \<Rightarrow> wide \<Rightarrow> int io" where
  "WinCephSetFileAttributes d FileName =
     io_bind (GetFilePath FileName) (\<lambda>_. io_bind (linux_name d FileName) (\<lambda>_. io_ret 0))"

definition WinCephSetFileTime :: "wide \<Rightarrow> int io" where
  "WinCephSetFileTime FileName = io_bind (GetFilePath FileName) (\<lambda>_. io_ret 0)"

definition WinCephSetFileSecurity :: "wide \<Rightarrow> int io" where
  "WinCephSetFileSecurity FileName = io_bind (GetFilePath FileName) (\<lambda>_. io_ret 0)"

end
