(* ===== verification/Dokan_Main.thy ===== *)
theory Dokan_Main
imports Dokan_Dir
begin

text \<open>
  The callbacks of \<open>dokan/ceph_dokan.c\<close> about the volume and about security descriptors, and \<open>main\<close>: the
  command line, the mount, and the start of Dokan.
\<close>

section \<open>Security descriptors\<close>

abbreviation (input) GENERIC_EXECUTE :: u32 where "GENERIC_EXECUTE \<equiv> 0x20000000"
abbreviation (input) FILE_FLAG_BACKUP_SEMANTICS :: u32 where "FILE_FLAG_BACKUP_SEMANTICS \<equiv> 0x02000000"
abbreviation (input) OWNER_SECURITY_INFORMATION :: u32 where "OWNER_SECURITY_INFORMATION \<equiv> 1"
abbreviation (input) SACL_SECURITY_INFORMATION :: u32 where "SACL_SECURITY_INFORMATION \<equiv> 8"

text \<open>
  The test is \<open>*SecurityInformation & SACL_SECURITY_INFORMATION != 0\<close>, and \<open>!=\<close> binds more tightly than
  \<open>&\<close>: it looks at the lowest bit.
\<close>

definition drop_sacl :: "u32 \<Rightarrow> u32" where
  "drop_sacl si = (if si AND of_bool (SACL_SECURITY_INFORMATION \<noteq> 0) \<noteq> 0
                   then si AND NOT SACL_SECURITY_INFORMATION else si)"

text \<open>The result, the information finally asked for, and the reply with descriptor and length, if any.\<close>

definition user_object_security :: "int \<Rightarrow> u32 \<Rightarrow> u32 \<Rightarrow> (int \<times> u32 \<times> reply option) io" where
  "user_object_security hnd SecurityInformation BufferLength =
     (let si = drop_sacl SecurityInformation in
      io_bind (ask (Win_GetUserObjectSecurity hnd si BufferLength)) (\<lambda>r.
      if r_ret r = 0 then
        io_bind (ask Win_GetLastError) (\<lambda>g.
        io_bind (ask (Win_CloseHandle hnd)) (\<lambda>_. io_ret (to_s32 (to_s32 (r_ret g) * - 1), si, Some r)))
      else io_bind (ask (Win_CloseHandle hnd)) (\<lambda>_. io_ret (0, si, Some r))))"

definition WinCephGetFakeFileSecurity :: "driver \<Rightarrow> wide \<Rightarrow> u32 \<Rightarrow> u32 \<Rightarrow> (int \<times> u32 \<times> reply option) io" where
  "WinCephGetFakeFileSecurity d FileName SecurityInformation BufferLength =
     io_bind (GetFilePath FileName) (\<lambda>_.
     io_bind (linux_name d FileName) (\<lambda>file_name.
     io_bind (ask (Ceph_stat file_name)) (\<lambda>st.
     if r_ret st \<noteq> 0 then io_ret (0, SecurityInformation, None)
     else if S_ISREG (st_mode (r_stat st)) \<or> S_ISDIR (st_mode (r_stat st)) then
       io_bind (ask
         (if S_ISREG (st_mode (r_stat st))
          then Win_CreateFileW (Wceph_conf_file d) (GENERIC_READ OR GENERIC_WRITE OR GENERIC_EXECUTE)
                 (FILE_SHARE_READ OR FILE_SHARE_WRITE) OPEN_EXISTING 0
          else Win_CreateFileW (map of_char ''.'') (GENERIC_READ OR GENERIC_EXECUTE) FILE_SHARE_READ OPEN_EXISTING
                 FILE_FLAG_BACKUP_SEMANTICS)) (\<lambda>c.
       if r_ret c = - 1 then io_bind (ask Win_GetLastError) (\<lambda>_. io_ret (- 1, SecurityInformation, None))
       else user_object_security (r_ret c) SecurityInformation BufferLength)
     else io_ret (0, SecurityInformation, None))))"

definition WinCephGetFileSecurity :: "driver \<Rightarrow> wide \<Rightarrow> u32 \<Rightarrow> u32 \<Rightarrow> (int \<times> u32 \<times> reply option) io" where
  "WinCephGetFileSecurity d FileName SecurityInformation BufferLength =
     io_bind (GetFilePath FileName) (\<lambda>_. WinCephGetFakeFileSecurity d FileName SecurityInformation BufferLength)"

section \<open>The volume\<close>

record volume_information =
  VolumeName :: wide
  VolumeSerialNumber :: u32
  MaximumComponentLength :: u32
  FileSystemFlags :: u32
  FileSystemName :: wide

text \<open>
  The name of the volume is converted by \<open>acp\<close> (the conversion from the code page of the system) into
  both buffers; their sizes, which Dokan passes in characters, are not looked at.
\<close>

definition WinCephGetVolumeInformation :: "(string \<Rightarrow> wide) \<Rightarrow> string \<Rightarrow> u32 \<Rightarrow> u32 \<Rightarrow> (int \<times> volume_information) io" where
  "WinCephGetVolumeInformation acp LetterName VolumeNameSize FileSystemNameSize =
     (let name = acp LetterName in
      if length name < (length LetterName + 1) * 2 \<and> length name < unat VolumeNameSize \<and> length name < unat FileSystemNameSize
      then io_ret (0, \<lparr>VolumeName = name, VolumeSerialNumber = 0x19831116, MaximumComponentLength = 256,
             FileSystemFlags = 0x001 OR 0x002 OR 0x100 OR 0x004 OR 0x008, FileSystemName = name\<rparr>)
      else io_fault)"

definition le64_read :: "u8 list \<Rightarrow> u64" where
  "le64_read bs = ucast (le32_read bs) OR push_bit 32 (ucast (le32_read (drop 4 bs)))"

text \<open>
  The capacity is asked for once and kept in a static variable, which is passed in and out.  The path
  of the request has \<open>MAX_PATH\<close> bytes, the conversion is allowed \<open>MAX_PATH_CEPH\<close>.  The answer is read
  into 28 bytes; the total is behind the 8 bytes of the header.
\<close>

definition ask_capacity :: "driver \<Rightarrow> dokan_info \<Rightarrow> u64 option io" where
  "ask_capacity d info =
     io_bind (abs_name d []) (\<lambda>path.
     io_bind (strcpy_path path) (\<lambda>path.
     io_bind (PipeConnect CEPH_CHANNEL_NAME) (\<lambda>h.
     io_bind (SendDataToUI2 h DDM_CAPACITY (ctx_common path (ucast (IsDirectory info)))) (\<lambda>n.
     if n = 264 then
       io_bind (ReadDataFromUI2 h (12 + 16)) (\<lambda>(_, bs).
       if msg_ctxLength bs = 0 then io_ret None
       else io_bind (ask (Win_CloseHandle h)) (\<lambda>_. io_ret (Some (le64_read (drop 8 bs)))))
     else io_ret None))))"

record disk_space =
  FreeBytesAvailable :: u64
  TotalNumberOfBytes :: u64
  TotalNumberOfFreeBytes :: u64

definition free_space :: "u64 \<Rightarrow> u64 \<Rightarrow> disk_space" where
  "free_space max_size used =
     (let free = (if max_size - used < 0 then 0 else max_size - used)
      in \<lparr>FreeBytesAvailable = free, TotalNumberOfBytes = max_size, TotalNumberOfFreeBytes = free\<rparr>)"

definition WinCephGetDiskFreeSpace :: "driver \<Rightarrow> dokan_info \<Rightarrow> u64 \<Rightarrow> (int \<times> u64 \<times> disk_space option) io" where
  "WinCephGetDiskFreeSpace d info max_size =
     io_bind (ask (Ceph_lstat ''/'')) (\<lambda>r.
     if r_ret r \<noteq> 0 then io_ret (- 1, max_size, None)
     else
       let used = word_of_int (st_size (r_stat r)) in
       io_bind (if max_size = 0 then ask_capacity d info else io_ret (Some max_size)) (\<lambda>m.
       case m of
         None \<Rightarrow> io_ret (- 1, max_size, None)
       | Some max_size \<Rightarrow> io_ret (0, max_size, Some (free_space max_size used))))"

definition WinCephUnmount :: "int io" where
  "WinCephUnmount = io_bind (ask Ceph_unmount) (\<lambda>_. io_ret 0)"

section \<open>The command line\<close>

text \<open>The globals and the Dokan options that \<open>main\<close> sets.\<close>

record settings =
  s_conf :: string
  s_wconf :: wide
  s_mount :: wide
  s_mount_set :: bool
  s_threads :: u16
  s_debug :: bool
  s_stderr :: bool
  s_options :: u32
  s_uid :: int
  s_gid :: int
  s_acl :: bool
  s_sub :: string
  s_letter :: string

definition initial_settings :: settings where
  "initial_settings = \<lparr>s_conf = [], s_wconf = [], s_mount = map of_char ''M:'', s_mount_set = False, s_threads = 5,
     s_debug = False, s_stderr = False, s_options = 0, s_uid = 0, s_gid = 0, s_acl = False, s_sub = ''/'',
     s_letter = ''vvdisk''\<rparr>"

abbreviation (input) DOKAN_OPTION_DEBUG :: u32 where "DOKAN_OPTION_DEBUG \<equiv> 1"
abbreviation (input) DOKAN_OPTION_STDERR :: u32 where "DOKAN_OPTION_STDERR \<equiv> 2"
abbreviation (input) DOKAN_OPTION_KEEP_ALIVE :: u32 where "DOKAN_OPTION_KEEP_ALIVE \<equiv> 8"
abbreviation (input) DOKAN_OPTION_REMOVABLE :: u32 where "DOKAN_OPTION_REMOVABLE \<equiv> 32"

text \<open>\<open>towlower\<close> on the letters of the options.\<close>

definition towlower :: "u16 \<Rightarrow> u16" where
  "towlower c = (if 0x41 \<le> c \<and> c \<le> 0x5A then c + 0x20 else c)"

text \<open>
  An argument in both forms.  Every argument goes into one of 32 rows of 512 wide characters, whose
  character 1 selects the option; an argument of no characters leaves that one undefined.
\<close>

type_synonym argument = "string \<times> wide"

definition convert_args :: "(string \<Rightarrow> wide) \<Rightarrow> string list \<Rightarrow> argument list exec" where
  "convert_args wide_of argv =
     (if length argv \<le> 32 \<and> (\<forall>a \<in> set argv. length (wide_of a) < 512)
      then Ret (map (\<lambda>a. (a, wide_of a)) argv) else Fault)"

definition option_letter :: "argument \<Rightarrow> u16 exec" where
  "option_letter a = (case snd a of [] \<Rightarrow> Fault | [c] \<Rightarrow> Ret (towlower 0) | _ # c # _ \<Rightarrow> Ret (towlower c))"

text \<open>\<open>strcpy\<close> and \<open>wcscpy\<close> into an array of \<open>n\<close> characters.\<close>

definition copy_into :: "nat \<Rightarrow> 'a list \<Rightarrow> 'a list exec" where
  "copy_into n s = (if length s < n then Ret s else Fault)"

text \<open>An option with a value, which must follow: without it \<open>argv\<close> ends in a null pointer.\<close>

definition valued_option :: "(wide \<Rightarrow> int) \<Rightarrow> u16 \<Rightarrow> argument \<Rightarrow> settings \<Rightarrow> settings exec" where
  "valued_option wtoi c v s =
     (if c = of_char CHR ''c'' then
        exec_bind (copy_into MAX_PATH_CEPH (fst v)) (\<lambda>a. Ret (s\<lparr>s_conf := a, s_wconf := snd v\<rparr>))
      else if c = of_char CHR ''l'' then Ret (s\<lparr>s_mount := snd v, s_mount_set := True\<rparr>)
      else if c = of_char CHR ''t'' then Ret (s\<lparr>s_threads := word_of_int (wtoi (snd v))\<rparr>)
      else if c = of_char CHR ''u'' then Ret (s\<lparr>s_uid := uint (word_of_int (wtoi (snd v)) :: u16)\<rparr>)
      else if c = of_char CHR ''g'' then Ret (s\<lparr>s_gid := uint (word_of_int (wtoi (snd v)) :: u16)\<rparr>)
      else if c = of_char CHR ''x'' then exec_bind (copy_into 4096 (fst v)) (\<lambda>a. Ret (s\<lparr>s_sub := a\<rparr>))
      else exec_bind (copy_into MAX_PATH (fst v)) (\<lambda>a. Ret (s\<lparr>s_letter := a\<rparr>)))"

definition flag_option :: "u16 \<Rightarrow> settings \<Rightarrow> settings option" where
  "flag_option c s =
     (if c = of_char CHR ''d'' then Some (s\<lparr>s_debug := True\<rparr>)
      else if c = of_char CHR ''s'' then Some (s\<lparr>s_stderr := True\<rparr>)
      else if c = of_char CHR ''m'' then Some (s\<lparr>s_options := s_options s OR DOKAN_OPTION_REMOVABLE\<rparr>)
      else if c = of_char CHR ''a'' then Some (s\<lparr>s_acl := True\<rparr>)
      else None)"

text \<open>The loop over the arguments; \<open>None\<close> for an unknown option.\<close>

fun parse_args :: "(wide \<Rightarrow> int) \<Rightarrow> argument list \<Rightarrow> settings \<Rightarrow> settings option exec" where
  "parse_args wtoi [] s = Ret (Some s)"
| "parse_args wtoi (a # as) s =
     exec_bind (option_letter a) (\<lambda>c.
     if c \<in> of_char ` set ''cltugxn'' then
       (case as of
          [] \<Rightarrow> Fault
        | v # rest \<Rightarrow> exec_bind (valued_option wtoi c v s) (parse_args wtoi rest))
     else
       (case flag_option c s of None \<Rightarrow> Ret None | Some s' \<Rightarrow> parse_args wtoi as s'))"

definition finish_options :: "settings \<Rightarrow> settings" where
  "finish_options s =
     s\<lparr>s_options := s_options s OR (if s_debug s then DOKAN_OPTION_DEBUG else 0) OR
         (if s_stderr s then DOKAN_OPTION_STDERR else 0) OR DOKAN_OPTION_KEEP_ALIVE\<rparr>"

text \<open>The globals of the callbacks.\<close>

definition driver_of :: "(wide \<Rightarrow> string) \<Rightarrow> (string \<Rightarrow> wide) \<Rightarrow> settings \<Rightarrow> driver" where
  "driver_of utf8_of wide_of s =
     \<lparr>g_UID = s_uid s, g_GID = s_gid s, g_UseACL = s_acl s, MountPoint = s_mount s, Wceph_conf_file = s_wconf s,
      to_utf8 = utf8_of, to_wide = wide_of\<rparr>"

text \<open>
  Mounting and running; the callbacks are called by \<open>DokanMain\<close>.  The last call is that of
  \<open>unmount_atexit\<close>, which runs when \<open>main\<close> has returned.
\<close>

definition run_driver :: "settings \<Rightarrow> int io" where
  "run_driver s =
     io_bind (ask Win_WSAStartup) (\<lambda>w.
     if r_ret w \<noteq> 0 then io_ret (- 1)
     else
       io_bind (ask Ceph_create) (\<lambda>_.
       io_bind (ask (Ceph_conf_read_file (s_conf s))) (\<lambda>c.
       if r_ret c \<noteq> 0 then io_ret (r_ret c)
       else
         io_bind (ask (Ceph_mount (s_sub s))) (\<lambda>m.
         if r_ret m \<noteq> 0 then io_ret (r_ret m)
         else
           io_bind (PipeConnect CEPH_CHANNEL_NAME) (\<lambda>hServer.
           io_bind (ask (Win_CreateThread hServer)) (\<lambda>_.
           io_bind (ask (Dokan_main (s_threads s) (s_options s) (if s_mount_set s then Some (s_mount s) else None))) (\<lambda>_.
           io_bind (PipeClose hServer) (\<lambda>_.
           io_bind (ask Ceph_unmount) (\<lambda>_. io_ret 0)))))))))"

definition main :: "(string \<Rightarrow> wide) \<Rightarrow> (wide \<Rightarrow> int) \<Rightarrow> string list \<Rightarrow> int io" where
  "main wide_of wtoi argv =
     (if length argv = 2 \<and> (argv ! 1 = ''--version'' \<or> argv ! 1 = ''-v'') then io_ret 0
      else if length argv < 5 then io_ret (- 1)
      else
        io_bind (io_exec (convert_args wide_of argv)) (\<lambda>args.
        io_bind (io_exec (parse_args wtoi (tl args) initial_settings)) (\<lambda>s.
        case s of
          None \<Rightarrow> io_ret (- 1)
        | Some s \<Rightarrow> run_driver (finish_options s))))"

end
