(* ===== verification/Dokan_Handles.thy ===== *)
theory Dokan_Handles
imports Dokan_Main
begin

text \<open>
  The driver as a transition system: what its callbacks do to the descriptors of the client library, the
  step relation of Dokan's requests, and the invariant that handles own the open descriptors.
\<close>

section \<open>The context of a handle\<close>

lemma unpack_pack [simp]: "unpack_context (pack_context c) = c"
proof -
  have "ucast (pack_context c) = fd c"
    by (rule bit_word_eqI) (auto simp: pack_context_def bit_simps)
  moreover have "ucast (drop_bit 32 (pack_context c)) = delete_on_close c"
    by (rule bit_word_eqI) (auto simp: pack_context_def bit_simps dest: bit_imp_le_length)
  moreover have "ucast (drop_bit 48 (pack_context c)) = read_only c"
    by (rule bit_word_eqI) (auto simp: pack_context_def bit_simps dest: bit_imp_le_length)
  ultimately show ?thesis by (simp add: unpack_context_def)
qed

lemma pack_eq_0_iff: "pack_context c = 0 \<longleftrightarrow> c = no_fd"
proof
  assume "pack_context c = 0"
  then have "c = unpack_context 0" by (metis unpack_pack)
  then show "c = no_fd" by (simp add: unpack_context_def no_fd_def)
qed (simp add: pack_context_def no_fd_def)

lemma unpack_0 [simp]: "unpack_context 0 = no_fd"
  by (simp add: unpack_context_def no_fd_def)

lemma pack_fd_not_0: "fd c \<noteq> 0 \<Longrightarrow> pack_context c \<noteq> 0"
  by (auto simp: pack_eq_0_iff no_fd_def)

lemma sint_fd: "0 \<le> n \<Longrightarrow> n < 2 ^ 31 \<Longrightarrow> sint (word_of_int n :: u32) = n"
  using to_s32_id [of n] by (simp add: to_s32_def)

section \<open>Paths\<close>

lemma ToLinuxFilePath_no_backslash: "backslash \<notin> set (ToLinuxFilePath p)"
  by (auto simp: ToLinuxFilePath_def)

lemma ToLinuxFilePath_idem [simp]: "ToLinuxFilePath (ToLinuxFilePath p) = ToLinuxFilePath p"
  by (simp add: ToLinuxFilePath_def)

text \<open>A path that every buffer of the driver has room for.\<close>

definition path_fits :: "driver \<Rightarrow> wide \<Rightarrow> bool" where
  "path_fits d f \<longleftrightarrow> length (MountPoint d @ f) < MAX_PATH_CEPH \<and> length (to_utf8 d f) < MAX_PATH_CEPH \<and>
     length (to_utf8 d (MountPoint d @ f)) < MAX_PATH"

definition name_of :: "driver \<Rightarrow> wide \<Rightarrow> string" where
  "name_of d f = ToLinuxFilePath (to_utf8 d f)"

lemma path_fits_runs:
  assumes "path_fits d f"
  shows "GetFilePath f e h = Ret (f, [])" "GetAbsPath d f e h = Ret (MountPoint d @ f, [])"
    "linux_name d f e h = Ret (name_of d f, [])" "abs_name d f e h = Ret (to_utf8 d (MountPoint d @ f), [])"
  using assms
  by (simp_all add: path_fits_def GetFilePath_def GetAbsPath_def linux_name_def abs_name_def wchar_to_char_def
    name_of_def io_run_simps Let_def)

section \<open>Access checks of WinCephCreateFile\<close>

definition caller_uid :: "driver \<Rightarrow> u64" where "caller_uid d = word_of_int (g_UID d)"
definition caller_gid :: "driver \<Rightarrow> u64" where "caller_gid d = word_of_int (g_GID d)"

lemma may_walk_calls [calls_intro]:
  "io_calls reads_only (may_walk d p w)" "io_calls no_fd_call (may_walk d p w)"
  "io_calls reads_only (may_walk_parent d p w)" "io_calls no_fd_call (may_walk_parent d p w)"
  unfolding may_walk_def may_walk_parent_def by (intro calls_intro)+

text \<open>The check that guards a disposition that creates or truncates.\<close>

definition guard_run :: "driver \<Rightarrow> wide \<Rightarrow> u32 \<Rightarrow> env \<Rightarrow> call list \<Rightarrow> (int \<times> call list) exec" where
  "guard_run d f disp e h =
     (let r = e h (Ceph_stat (name_of d f)); h' = h @ [Ceph_stat (name_of d f)] in
      if r_ret r = 0
      then permission_walk (name_of d f) (caller_uid d) (caller_gid d)
             (if disp = TRUNCATE_EXISTING then MAY_WRITE else MAY_READ OR MAY_WRITE) e h'
      else permission_walk_parent (name_of d f) (caller_uid d) (caller_gid d) (MAY_WRITE OR MAY_EXEC) e h')"

section \<open>Descriptors\<close>

text \<open>The descriptors open after calls, starting from the set \<open>S\<close> open after the calls \<open>h\<close>.  \<open>Client::unmount\<close> closes
  every file that is still open.\<close>

fun fd_step :: "env \<Rightarrow> call list \<Rightarrow> int set \<Rightarrow> call \<Rightarrow> int set" where
  "fd_step e h S (Ceph_open p f m) = (let n = r_ret (e h (Ceph_open p f m)) in if n < 0 then S else insert n S)"
| "fd_step e h S (Ceph_close n) = S - {n}"
| "fd_step e h S Ceph_unmount = {}"
| "fd_step e h S _ = S"

fun fds_after :: "env \<Rightarrow> call list \<Rightarrow> int set \<Rightarrow> call list \<Rightarrow> int set" where
  "fds_after e h S [] = S"
| "fds_after e h S (c # cs) = fds_after e (h @ [c]) (fd_step e h S c) cs"

definition open_fds :: "env \<Rightarrow> call list \<Rightarrow> int set" where
  "open_fds e h = fds_after e [] {} h"

lemma fds_after_append: "fds_after e h S (cs @ cs') = fds_after e (h @ cs) (fds_after e h S cs) cs'"
  by (induction cs arbitrary: h S) simp_all

lemma open_fds_append: "open_fds e (h @ cs) = fds_after e h (open_fds e h) cs"
  by (simp add: open_fds_def fds_after_append)

lemma fd_step_neutral: "no_fd_call c \<Longrightarrow> fd_step e h S c = S"
  by (cases c) simp_all

lemma fds_after_neutral: "\<forall>c \<in> set cs. no_fd_call c \<Longrightarrow> fds_after e h S cs = S"
  by (induction cs arbitrary: h S) (simp_all add: fd_step_neutral)

text \<open>
  What the driver relies on of \<open>ceph_open\<close>: a descriptor that is returned is not that of an open file, it
  is positive, and none is returned after \<open>ceph_unmount\<close>.  The header documents a descriptor that is not
  negative; those of \<open>Client\<close> start at 10, and the driver takes 0 for a failure in some places.  The
  environment \<open>client_env\<close> made of the client's own code satisfies it.
\<close>

definition fresh_fds :: "env \<Rightarrow> bool" where
  "fresh_fds e \<longleftrightarrow> (\<forall>h p f m. let n = r_ret (e h (Ceph_open p f m)) in
     n < 0 \<or> 0 < n \<and> n < 2 ^ 31 \<and> n \<notin> open_fds e h \<and> Ceph_unmount \<notin> set h)"

lemma fresh_fdsD:
  assumes "fresh_fds e" "\<not> r_ret (e h (Ceph_open p f m)) < 0"
  shows "0 < r_ret (e h (Ceph_open p f m))" "r_ret (e h (Ceph_open p f m)) < 2 ^ 31"
    "r_ret (e h (Ceph_open p f m)) \<notin> open_fds e h" "Ceph_unmount \<notin> set h"
  using assms unfolding fresh_fds_def Let_def by blast+

text \<open>
  What a callback that opens a file does to the descriptors: either the handle has no context and
  nothing is left open, or its context has a new descriptor, the only new one that is open, and the
  file system is still mounted.
\<close>

definition opens :: "env \<Rightarrow> call list \<Rightarrow> u64 \<Rightarrow> call list \<Rightarrow> bool" where
  "opens e h ctx cs \<longleftrightarrow> Ceph_unmount \<notin> set cs \<and>
     (if ctx = 0 then open_fds e (h @ cs) = open_fds e h
      else let n = sint (fd (unpack_context ctx)) in
        Ceph_unmount \<notin> set h \<and> n \<notin> open_fds e h \<and> open_fds e (h @ cs) = insert n (open_fds e h))"

lemma opens_none: "\<forall>c \<in> set cs. no_fd_call c \<Longrightarrow> opens e h 0 cs"
  by (simp add: opens_def open_fds_append fds_after_neutral no_fd_no_unmount)

lemma opens_new:
  assumes "fresh_fds e" "\<forall>c \<in> set pre. no_fd_call c" "\<forall>c \<in> set post. no_fd_call c"
    and "\<not> r_ret (e (h @ pre) (Ceph_open p f m)) < 0"
  shows "opens e h (pack_context (fdc\<lparr>fd := word_of_int (r_ret (e (h @ pre) (Ceph_open p f m)))\<rparr>)) (pre @ Ceph_open p f m # post)"
proof -
  note n = fresh_fdsD [OF assms(1,4)]
  have "open_fds e (h @ pre) = open_fds e h" using assms(2) by (simp add: open_fds_append fds_after_neutral)
  moreover have "(word_of_int (r_ret (e (h @ pre) (Ceph_open p f m))) :: u32) \<noteq> 0"
    using sint_fd [OF _ n(2)] n(1) by (metis less_imp_le less_irrefl sint_0)
  ultimately show ?thesis
    using n assms(2-4) sint_fd [OF _ n(2)]
    by (simp add: opens_def pack_fd_not_0 Let_def open_fds_append fds_after_append fds_after_neutral no_fd_no_unmount)
qed

lemma opens_failed:
  assumes "\<forall>c \<in> set pre. no_fd_call c" "r_ret (e (h @ pre) (Ceph_open p f m)) < 0"
  shows "opens e h 0 (pre @ [Ceph_open p f m])"
  using assms by (simp add: opens_def open_fds_append fds_after_append fds_after_neutral no_fd_no_unmount)

lemma open_as_opens:
  assumes "fresh_fds e" "Context info = 0" "\<forall>c \<in> set pre. no_fd_call c"
  shows "io_wlp (open_as res flags p fdc info) e (h @ pre) (\<lambda>x cs. opens e h (Context (snd x)) (pre @ cs))"
  using opens_new [OF assms(1,3), of "[]" h p flags "0x1ED" fdc] opens_failed [OF assms(3), of e h p flags "0x1ED"] assms(2)
  by (simp add: open_as_def not_less)

lemma path_calls [calls_intro]:
  "io_calls P (GetFilePath f)" "io_calls P (GetAbsPath d f)" "io_calls P (linux_name d f)" "io_calls P (abs_name d f)"
  unfolding GetFilePath_def GetAbsPath_def linux_name_def abs_name_def by (intro calls_intro)+

lemma check_readonly_no_fd [calls_intro]: "io_calls no_fd_call (check_readonly d f a s c fa fdc)"
  unfolding check_readonly_def GetAbsPath_def by (intro calls_intro) auto

text \<open>A neutral computation in front of one that opens.\<close>

lemma opens_after:
  assumes "io_calls no_fd_call m" "\<forall>c \<in> set pre. no_fd_call c"
    and "\<And>x pre. \<forall>c \<in> set pre. no_fd_call c \<Longrightarrow>
      io_wlp (f x) e (h @ pre) (\<lambda>x cs. opens e h (Context (snd x)) (pre @ cs))"
  shows "io_wlp (io_bind m f) e (h @ pre) (\<lambda>x cs. opens e h (Context (snd x)) (pre @ cs))"
proof -
  have "io_wlp (f x) e (h @ pre @ cs) (\<lambda>x cs'. opens e h (Context (snd x)) (pre @ cs @ cs'))"
    if "\<forall>c \<in> set cs. no_fd_call c" for x cs
    using assms(3) [of "pre @ cs" x] assms(2) that by auto
  then show ?thesis by (auto intro!: io_wlp_neutral [OF assms(1)])
qed

lemma opens_return:
  assumes "\<forall>c \<in> set pre. no_fd_call c" "Context info = 0"
  shows "io_wlp (io_ret (r, info)) e (h @ pre) (\<lambda>x cs. opens e h (Context (snd x)) (pre @ cs))"
  using opens_none [OF assms(1)] assms(2) by simp

lemma ask_no_fd: "no_fd_call c \<Longrightarrow> io_calls no_fd_call (ask c)"
  by (rule io_calls_ask)

lemma open_existing_opens:
  assumes "fresh_fds e" "Context info = 0" "\<forall>c \<in> set pre. no_fd_call c"
  shows "io_wlp (open_existing res d f a s c fa p fdc info) e (h @ pre) (\<lambda>x cs. opens e h (Context (snd x)) (pre @ cs))"
  unfolding open_existing_def
proof (rule opens_after [OF _ assms(3)])
  show "io_calls no_fd_call (if wants_read a then may_walk d p MAY_READ else io_ret True)" by (intro calls_intro)
  fix ok pre
  assume pre: "\<forall>c \<in> set pre. no_fd_call c"
  show "io_wlp (if \<not> ok then io_ret (- ERROR_ACCESS_DENIED, info)
     else io_bind (check_readonly d f a s c fa fdc) (\<lambda>x. case x of Inl err \<Rightarrow> io_ret (err, info)
         | Inr fdc \<Rightarrow> open_as res (if read_only fdc = 1 then O_RDONLY else O_RDWR) p fdc info)) e (h @ pre)
     (\<lambda>x cs. opens e h (Context (snd x)) (pre @ cs))"
    using pre by (auto simp del: io_wlp_ret io_wlp_bind intro!: opens_after [OF check_readonly_no_fd pre] opens_return open_as_opens assms(1,2)
      split: sum.split)
qed

lemma create_on_file_opens:
  assumes "fresh_fds e" "Context info = 0" "\<forall>c \<in> set pre. no_fd_call c"
  shows "io_wlp (create_on_file d f a s c fa p fdc info) e (h @ pre) (\<lambda>x cs. opens e h (Context (snd x)) (pre @ cs))"
  unfolding create_on_file_def
  using assms
  by (auto simp del: io_wlp_ret io_wlp_bind intro!: opens_after [OF may_walk_calls(2)] opens_return open_as_opens open_existing_opens)

lemma create_new_file_opens:
  assumes "fresh_fds e" "Context info = 0" "\<forall>c \<in> set pre. no_fd_call c" "least = 0 \<or> least = 1"
  shows "io_wlp (create_new_file least flags d f p fdc info) e (h @ pre) (\<lambda>x cs. opens e h (Context (snd x)) (pre @ cs))"
proof -
  have last: "io_wlp (io_bind (ask (Ceph_open p flags 0x1ED)) (\<lambda>r. if r_ret r < least then io_ret (- 1, info)
         else io_bind (ask (Ceph_chown p (g_UID d) (g_GID d))) (\<lambda>_. io_bind (fuse_init_acl p 0x1FF) (\<lambda>_.
           io_ret (0, info\<lparr>Context := pack_context (fdc\<lparr>fd := word_of_int (r_ret r)\<rparr>)\<rparr>))))) e (h @ pre)
      (\<lambda>x cs. opens e h (Context (snd x)) (pre @ cs))" if pre: "\<forall>c \<in> set pre. no_fd_call c" for pre
  proof (cases "r_ret (e (h @ pre) (Ceph_open p flags 0x1ED)) < 0")
    case True
    then show ?thesis using opens_failed [of pre e h, OF pre True] assms(2,4) by auto
  next
    case False
    have "opens e h (pack_context (fdc\<lparr>fd := word_of_int (r_ret (e (h @ pre) (Ceph_open p flags 0x1ED)))\<rparr>))
        (pre @ Ceph_open p flags 0x1ED # Ceph_chown p (g_UID d) (g_GID d) # cs)" if "\<forall>c \<in> set cs. no_fd_call c" for cs
      using opens_new [of e pre _ h, OF assms(1) pre _ False] that by simp
    then show ?thesis using False fresh_fdsD(1) [OF assms(1) False] assms(4)
      by (auto intro!: io_wlp_neutral [OF fuse_init_acl_no_fd])
  qed
  show ?thesis unfolding create_new_file_def
    using assms(2,3)
    by (auto simp del: io_wlp_ret io_wlp_bind intro!: opens_after [OF may_walk_calls(4)] opens_after [OF path_calls(4)]
      opens_after [OF policy_calls(2)] opens_return last)
qed

lemma create_missing_opens:
  assumes "fresh_fds e" "Context info = 0" "\<forall>c \<in> set pre. no_fd_call c"
  shows "io_wlp (create_missing d f c p fdc info) e (h @ pre) (\<lambda>x cs. opens e h (Context (snd x)) (pre @ cs))"
  unfolding create_missing_def
  using assms by (auto simp del: io_wlp_ret io_wlp_bind intro!: opens_return create_new_file_opens)

lemma WinCephCreateFile_opens:
  assumes "fresh_fds e" "Context info = 0"
  shows "io_wlp (WinCephCreateFile d f a s c fa info) e h (\<lambda>x cs. opens e h (Context (snd x)) cs)"
proof -
  have dir: "io_wlp (create_on_directory c info) e (h @ pre) (\<lambda>x cs. opens e h (Context (snd x)) (pre @ cs))"
    if "\<forall>c \<in> set pre. no_fd_call c" for pre
    unfolding create_on_directory_def by (rule opens_return [OF that assms(2)])
  have "io_wlp (WinCephCreateFile d f a s c fa info) e (h @ []) (\<lambda>x cs. opens e h (Context (snd x)) ([] @ cs))"
    unfolding WinCephCreateFile_def Let_def
    using assms
    by (auto simp del: io_wlp_ret io_wlp_bind append_Nil append_Nil2 intro!: opens_after [OF path_calls(1)] opens_after [OF path_calls(3)]
      opens_after [OF ask_no_fd] opens_return create_on_file_opens create_missing_opens dir)
  then show ?thesis by simp
qed

lemma WinCephOpenDirectory_opens:
  assumes "fresh_fds e" "Context info = 0"
  shows "io_wlp (WinCephOpenDirectory d f info) e h (\<lambda>x cs. opens e h (Context (snd x)) cs)"
proof -
  have last: "io_wlp (io_bind (ask (Ceph_open p O_RDONLY 0x1ED)) (\<lambda>opn. if r_ret opn \<le> 0 then io_ret (- 1, info)
         else io_ret (0, info\<lparr>Context := pack_context (no_fd\<lparr>fd := word_of_int (r_ret opn)\<rparr>)\<rparr>))) e (h @ pre)
      (\<lambda>x cs. opens e h (Context (snd x)) (pre @ cs))" if pre: "\<forall>c \<in> set pre. no_fd_call c" for pre p
  proof (cases "r_ret (e (h @ pre) (Ceph_open p O_RDONLY 0x1ED)) < 0")
    case True
    then show ?thesis using opens_failed [of pre e h, OF pre True] assms(2) by auto
  next
    case False
    then show ?thesis using opens_new [of e pre "[]" h, OF assms(1) pre _ False, of no_fd] fresh_fdsD(1) [OF assms(1) False] by simp
  qed
  have "io_wlp (WinCephOpenDirectory d f info) e (h @ []) (\<lambda>x cs. opens e h (Context (snd x)) ([] @ cs))"
    unfolding WinCephOpenDirectory_def
    using assms
    by (auto simp del: io_wlp_ret io_wlp_bind append_Nil append_Nil2 intro!: opens_after [OF path_calls(1)] opens_after [OF path_calls(3)]
      opens_after [OF ask_no_fd] opens_after [OF may_walk_calls(2)] opens_return last)
  then show ?thesis by simp
qed

section \<open>Callbacks that leave the descriptors alone\<close>

definition keeps_fds :: "env \<Rightarrow> call list \<Rightarrow> 'a io \<Rightarrow> bool" where
  "keeps_fds e h m \<longleftrightarrow> io_wlp m e h (\<lambda>x cs. Ceph_unmount \<notin> set cs \<and> open_fds e (h @ cs) = open_fds e h)"

lemma keeps_fdsI: "io_calls no_fd_call m \<Longrightarrow> keeps_fds e h m"
  unfolding keeps_fds_def by (rule io_wlp_neutral) (simp_all add: open_fds_append fds_after_neutral no_fd_no_unmount)

lemma keeps_fdsD:
  "keeps_fds e h m \<Longrightarrow> m e h = Ret (x, cs) \<Longrightarrow> Ceph_unmount \<notin> set cs \<and> open_fds e (h @ cs) = open_fds e h"
  unfolding keeps_fds_def by (blast dest: io_wlpD)

lemma pipe_no_fd [calls_intro]:
  "io_calls no_fd_call (PipeConnect p)" "io_calls no_fd_call (PipeClose n)"
  "io_calls no_fd_call (SendDataToUI2 n a ctx)" "io_calls no_fd_call (ReadDataFromUI2 n k)"
  "io_calls P (strcpy_path s)"
  unfolding PipeConnect_def PipeClose_def SendDataToUI2_def ReadDataFromUI2_def PipeSend_def PipeReceive_def strcpy_path_def
  by (intro calls_intro; simp)+

lemma find_calls [calls_intro]:
  "io_calls P (find_name d s)" "io_calls P (info_name bs)" "io_calls P (strcat_path p s)"
  unfolding find_name_def info_name_def strcat_path_def Let_def by (intro calls_intro)+

lemma find_loop_no_fd [calls_intro]: "io_calls no_fd_call (find_loop k d dirp)"
  by (induction k) (simp_all only: find_loop.simps, (intro calls_intro; simp)+)

lemma shared_loop_no_fd [calls_intro]: "io_calls no_fd_call (shared_loop d f bss)"
  by (induction bss) (simp_all only: shared_loop.simps, (intro calls_intro; simp)+)

lemma empty_loop_no_fd [calls_intro]: "io_calls no_fd_call (empty_loop k dirp)"
  by (induction k) (simp_all only: empty_loop.simps, (intro calls_intro; simp)+)

lemma file_callbacks_no_fd:
  "io_calls no_fd_call (WinCephCreateDirectory d f)"
  "io_calls no_fd_call (WinCephCleanup d f info)"
  "io_calls no_fd_call (WinCephFlushFileBuffers d f info)"
  "io_calls no_fd_call (WinCephSetEndOfFile d f n info)"
  "io_calls no_fd_call (WinCephSetAllocationSize d f n info)"
  unfolding WinCephCreateDirectory_def WinCephCleanup_def WinCephFlushFileBuffers_def WinCephSetEndOfFile_def
    WinCephSetAllocationSize_def Let_def
  by (intro calls_intro policy_calls fuse_init_acl_no_fd; simp)+

lemma dir_callbacks_no_fd:
  "io_calls no_fd_call (WinCephGetFileInformation d f info)"
  "io_calls no_fd_call (WinCephFindFiles fuel d f)"
  "io_calls no_fd_call (WinCephDeleteFile d f)"
  "io_calls no_fd_call (WinCephDeleteDirectory fuel d f)"
  "io_calls no_fd_call (WinCephMoveFile d f g r info)"
  unfolding WinCephGetFileInformation_def WinCephFindFiles_def find_ceph_def find_shared_def WinCephDeleteFile_def
    WinCephDeleteDirectory_def WinCephMoveFile_def Let_def
  by (intro calls_intro policy_calls; simp)+

lemma stub_callbacks_no_fd:
  "io_calls no_fd_call (WinCephLockFile f)" "io_calls no_fd_call (WinCephUnlockFile f)"
  "io_calls no_fd_call (WinCephSetFileAttributes d f)" "io_calls no_fd_call (WinCephSetFileTime f)"
  "io_calls no_fd_call (WinCephSetFileSecurity f)"
  unfolding WinCephLockFile_def WinCephUnlockFile_def WinCephSetFileAttributes_def WinCephSetFileTime_def
    WinCephSetFileSecurity_def
  by (intro calls_intro)+

lemma volume_callbacks_no_fd:
  "io_calls no_fd_call (WinCephGetFileSecurity d f si n)"
  "io_calls no_fd_call (WinCephGetDiskFreeSpace d info m)"
  unfolding WinCephGetFileSecurity_def WinCephGetFakeFileSecurity_def user_object_security_def WinCephGetDiskFreeSpace_def
    ask_capacity_def Let_def
  by (intro calls_intro; simp)+

lemma WinCephUnmount_closes:
  "WinCephUnmount e h = Ret (x, cs) \<Longrightarrow> Ceph_unmount \<in> set cs \<and> open_fds e (h @ cs) = {}"
  by (auto simp: WinCephUnmount_def io_run_simps open_fds_append)

text \<open>Reading and writing without a descriptor open one and close it again.\<close>

lemma reopen_keeps:
  assumes "fresh_fds e" "\<not> r_ret (e h (Ceph_open p f m)) < 0" "no_fd_call c"
  shows "open_fds e (h @ [Ceph_open p f m, c, Ceph_close (r_ret (e h (Ceph_open p f m)))]) = open_fds e h"
  using fresh_fdsD(3) [OF assms(1,2)] assms(2,3)
  by (simp add: open_fds_append Let_def fd_step_neutral)

lemma WinCephReadFile_keeps: "fresh_fds e \<Longrightarrow> keeps_fds e h (WinCephReadFile d f n off info)"
  unfolding WinCephReadFile_def keeps_fds_def Let_def
  by (auto simp: GetFilePath_def linux_name_def reopen_keeps split: option.split) (simp_all add: open_fds_append)

lemma WinCephWriteFile_keeps: "fresh_fds e \<Longrightarrow> keeps_fds e h (WinCephWriteFile d f buf n off info)"
  unfolding WinCephWriteFile_def keeps_fds_def Let_def
  by (auto simp: linux_name_def reopen_keeps split: option.split) (simp_all add: open_fds_append)

section \<open>Closing\<close>

lemma WinCephCloseFile_closes:
  "io_wlp (WinCephCloseFile d f info) e h (\<lambda>x cs. Context (snd x) = 0 \<and> Ceph_unmount \<notin> set cs \<and>
     open_fds e (h @ cs) = (if Context info = 0 then open_fds e h else open_fds e h - {sint (fd (unpack_context (Context info)))}))"
  unfolding WinCephCloseFile_def Let_def
  by (auto simp: GetFilePath_def linux_name_def open_fds_append split: option.split)

section \<open>Requests\<close>

text \<open>What Dokan asks of an open handle, apart from closing it, and what it asks without a handle.\<close>

datatype request =
    Read u32 int
  | Write "u8 list" u32 int
  | Flush
  | Cleanup
  | Set_end int
  | Set_allocation int
  | Get_information
  | Find_files nat
  | Delete_file
  | Delete_directory nat
  | Move wide bool
  | Lock
  | Unlock
  | Set_attributes
  | Set_time
  | Get_security u32 u32
  | Set_security
  | Create_directory
  | Get_disk_space u64
  | Unmount

text \<open>The table of callbacks that \<open>main\<close> gives to Dokan; only the calls made are of interest here.\<close>

fun serve :: "driver \<Rightarrow> request \<Rightarrow> wide \<Rightarrow> dokan_info \<Rightarrow> unit io" where
  "serve d (Read n off) f info = io_bind (WinCephReadFile d f n off info) (\<lambda>_. io_ret ())"
| "serve d (Write buf n off) f info = io_bind (WinCephWriteFile d f buf n off info) (\<lambda>_. io_ret ())"
| "serve d Flush f info = io_bind (WinCephFlushFileBuffers d f info) (\<lambda>_. io_ret ())"
| "serve d Cleanup f info = io_bind (WinCephCleanup d f info) (\<lambda>_. io_ret ())"
| "serve d (Set_end n) f info = io_bind (WinCephSetEndOfFile d f n info) (\<lambda>_. io_ret ())"
| "serve d (Set_allocation n) f info = io_bind (WinCephSetAllocationSize d f n info) (\<lambda>_. io_ret ())"
| "serve d Get_information f info = io_bind (WinCephGetFileInformation d f info) (\<lambda>_. io_ret ())"
| "serve d (Find_files fuel) f info = io_bind (WinCephFindFiles fuel d f) (\<lambda>_. io_ret ())"
| "serve d Delete_file f info = io_bind (WinCephDeleteFile d f) (\<lambda>_. io_ret ())"
| "serve d (Delete_directory fuel) f info = io_bind (WinCephDeleteDirectory fuel d f) (\<lambda>_. io_ret ())"
| "serve d (Move g r) f info = io_bind (WinCephMoveFile d f g r info) (\<lambda>_. io_ret ())"
| "serve d Lock f info = io_bind (WinCephLockFile f) (\<lambda>_. io_ret ())"
| "serve d Unlock f info = io_bind (WinCephUnlockFile f) (\<lambda>_. io_ret ())"
| "serve d Set_attributes f info = io_bind (WinCephSetFileAttributes d f) (\<lambda>_. io_ret ())"
| "serve d Set_time f info = io_bind (WinCephSetFileTime f) (\<lambda>_. io_ret ())"
| "serve d (Get_security si n) f info = io_bind (WinCephGetFileSecurity d f si n) (\<lambda>_. io_ret ())"
| "serve d Set_security f info = io_bind (WinCephSetFileSecurity f) (\<lambda>_. io_ret ())"
| "serve d Create_directory f info = io_bind (WinCephCreateDirectory d f) (\<lambda>_. io_ret ())"
| "serve d (Get_disk_space m) f info = io_bind (WinCephGetDiskFreeSpace d info m) (\<lambda>_. io_ret ())"
| "serve d Unmount f info = io_bind WinCephUnmount (\<lambda>_. io_ret ())"

lemma keeps_fds_discard: "keeps_fds e h m \<Longrightarrow> keeps_fds e h (io_bind m (\<lambda>_. io_ret ()))"
  by (simp add: keeps_fds_def)

lemma serve_keeps: "fresh_fds e \<Longrightarrow> req \<noteq> Unmount \<Longrightarrow> keeps_fds e h (serve d req f info)"
  by (cases req) (simp_all only: serve.simps simp_thms,
    (intro keeps_fds_discard WinCephReadFile_keeps WinCephWriteFile_keeps keeps_fdsI file_callbacks_no_fd dir_callbacks_no_fd
      stub_callbacks_no_fd volume_callbacks_no_fd; assumption)+)

section \<open>The driver as a transition system\<close>

text \<open>The handles of Dokan, with path and \<open>DOKAN_FILE_INFO\<close>, and the calls made so far.\<close>

record sys =
  handles :: "nat \<rightharpoonup> wide \<times> dokan_info"
  hist :: "call list"

definition start :: sys where
  "start = \<lparr>handles = Map.empty, hist = []\<rparr>"

text \<open>Dokan passes a fresh \<open>DOKAN_FILE_INFO\<close> to an open, and keeps the handle unless the open fails.\<close>

definition fresh_info :: "u8 \<Rightarrow> dokan_info" where
  "fresh_info dir = \<lparr>Context = 0, IsDirectory = dir, DeleteOnClose = 0\<rparr>"

definition opened :: "nat \<Rightarrow> wide \<Rightarrow> int \<Rightarrow> dokan_info \<Rightarrow> call list \<Rightarrow> sys \<Rightarrow> sys" where
  "opened n f res info cs s =
     \<lparr>handles = (if res < 0 then handles s else (handles s)(n \<mapsto> (f, info))), hist = hist s @ cs\<rparr>"

inductive dokan_step :: "driver \<Rightarrow> env \<Rightarrow> sys \<Rightarrow> sys \<Rightarrow> bool" for d e where
  step_create: "handles s n = None \<Longrightarrow>
     WinCephCreateFile d f acc share disp attrs (fresh_info dir) e (hist s) = Ret ((res, info), cs) \<Longrightarrow>
     dokan_step d e s (opened n f res info cs s)"
| step_opendir: "handles s n = None \<Longrightarrow>
     WinCephOpenDirectory d f (fresh_info dir) e (hist s) = Ret ((res, info), cs) \<Longrightarrow>
     dokan_step d e s (opened n f res info cs s)"
| step_serve: "handles s n = Some (f, info) \<Longrightarrow> serve d req f info e (hist s) = Ret ((), cs) \<Longrightarrow>
     dokan_step d e s (s\<lparr>hist := hist s @ cs\<rparr>)"
| step_other: "serve d req f (fresh_info dir) e (hist s) = Ret ((), cs) \<Longrightarrow>
     dokan_step d e s (s\<lparr>hist := hist s @ cs\<rparr>)"
| step_mark: "handles s n = Some (f, info) \<Longrightarrow>
     dokan_step d e s (s\<lparr>handles := (handles s)(n \<mapsto> (f, info\<lparr>DeleteOnClose := b\<rparr>))\<rparr>)"
| step_close: "handles s n = Some (f, info) \<Longrightarrow>
     WinCephCloseFile d f info e (hist s) = Ret ((res, info'), cs) \<Longrightarrow>
     dokan_step d e s \<lparr>handles = (handles s)(n := None), hist = hist s @ cs\<rparr>"

inductive_cases dokan_stepE: "dokan_step d e s s'"

abbreviation (input) reachable :: "driver \<Rightarrow> env \<Rightarrow> sys \<Rightarrow> bool" where
  "reachable d e s \<equiv> (dokan_step d e)\<^sup>*\<^sup>* start s"

text \<open>The descriptor a handle owns, if it has a context.\<close>

definition owned_fd :: "sys \<Rightarrow> nat \<Rightarrow> int option" where
  "owned_fd s n =
     (case handles s n of
        None \<Rightarrow> None
      | Some (f, info) \<Rightarrow> if Context info = 0 then None else Some (sint (fd (unpack_context (Context info)))))"

text \<open>The open descriptors are exactly those owned by handles, each by one; after unmounting none is open.\<close>

definition handles_ok :: "env \<Rightarrow> sys \<Rightarrow> bool" where
  "handles_ok e s \<longleftrightarrow> open_fds e (hist s) = (if Ceph_unmount \<in> set (hist s) then {} else ran (owned_fd s)) \<and> inj_on (owned_fd s) (dom (owned_fd s))"

lemma handles_ok_start: "handles_ok e start"
  by (simp add: handles_ok_def start_def owned_fd_def open_fds_def ran_def dom_def inj_on_def)

text \<open>The three things a step does to ownership: nothing, a new owner, an owner gone.\<close>

lemma handles_ok_same:
  "handles_ok e s \<Longrightarrow> owned_fd s' = owned_fd s \<Longrightarrow> open_fds e (hist s') = open_fds e (hist s) \<Longrightarrow>
   Ceph_unmount \<in> set (hist s') \<longleftrightarrow> Ceph_unmount \<in> set (hist s) \<Longrightarrow> handles_ok e s'"
  by (simp add: handles_ok_def)

lemma handles_ok_new:
  assumes "handles_ok e s" "owned_fd s n = None" "owned_fd s' = (owned_fd s)(n \<mapsto> v)"
    and "v \<notin> open_fds e (hist s)" "open_fds e (hist s') = insert v (open_fds e (hist s))"
    and "Ceph_unmount \<notin> set (hist s)" "Ceph_unmount \<notin> set (hist s')"
  shows "handles_ok e s'"
proof -
  have "v \<notin> ran (owned_fd s)" using assms(1,4,6) by (simp add: handles_ok_def)
  moreover have "owned_fd s m \<noteq> Some v" if "v \<notin> ran (owned_fd s)" for m using that by (auto simp: ran_def)
  ultimately show ?thesis using assms
    by (auto simp: handles_ok_def ran_map_upd inj_on_def dom_def split: if_splits)
qed

lemma handles_ok_gone:
  assumes "handles_ok e s" "owned_fd s n = Some v" "owned_fd s' = (owned_fd s)(n := None)"
    and "open_fds e (hist s') = open_fds e (hist s) - {v}"
      "Ceph_unmount \<in> set (hist s') \<longleftrightarrow> Ceph_unmount \<in> set (hist s)"
  shows "handles_ok e s'"
proof -
  have inj: "inj_on (owned_fd s) (dom (owned_fd s))" and all: "open_fds e (hist s) = (if Ceph_unmount \<in> set (hist s) then {} else ran (owned_fd s))"
    using assms(1) by (simp_all add: handles_ok_def)
  have "ran ((owned_fd s)(n := None)) = ran (owned_fd s) - {v}"
  proof (intro set_eqI iffI)
    fix x assume "x \<in> ran ((owned_fd s)(n := None))"
    then obtain m where m: "m \<noteq> n" "owned_fd s m = Some x" by (auto simp: ran_def split: if_splits)
    then have "x \<noteq> v" using inj assms(2) by (metis domI inj_onD)
    then show "x \<in> ran (owned_fd s) - {v}" using m by (auto simp: ran_def)
  next
    fix x assume "x \<in> ran (owned_fd s) - {v}"
    then obtain m where "owned_fd s m = Some x" "x \<noteq> v" by (auto simp: ran_def)
    then have "((owned_fd s)(n := None)) m = Some x" using assms(2) by auto
    then show "x \<in> ran ((owned_fd s)(n := None))" by (rule ranI)
  qed
  moreover have "inj_on ((owned_fd s)(n := None)) (dom ((owned_fd s)(n := None)))"
    using inj by (auto simp: inj_on_def dom_def)
  ultimately show ?thesis using assms(3-5) all by (simp add: handles_ok_def)
qed

lemma owned_fd_simps:
  "owned_fd (s\<lparr>hist := c\<rparr>) = owned_fd s"
  "owned_fd \<lparr>handles = (handles s)(n \<mapsto> (f, info)), hist = c\<rparr> =
     (owned_fd s)(n := (if Context info = 0 then None else Some (sint (fd (unpack_context (Context info))))))"
  "owned_fd \<lparr>handles = (handles s)(n := None), hist = c\<rparr> = (owned_fd s)(n := None)"
  "owned_fd \<lparr>handles = handles s, hist = c\<rparr> = owned_fd s"
  "handles s n = None \<Longrightarrow> owned_fd s n = None"
  by (auto simp: owned_fd_def)

section \<open>A failed open leaves no context\<close>

lemmas io_wlp_front =
  io_wlp_any [where m = "may_walk d p w" for d p w] io_wlp_any [where m = "may_walk_parent d p w" for d p w]
  io_wlp_any [where m = "check_readonly d f a s c fa fdc" for d f a s c fa fdc]
  io_wlp_any [where m = "FileCreate s b" for s b] io_wlp_any [where m = "fuse_init_acl p m" for p m]
  io_wlp_any [where m = "linux_name d f" for d f] io_wlp_any [where m = "abs_name d f" for d f]
  io_wlp_any [where m = "GetFilePath f" for f]

lemma open_as_error:
  "0 \<le> res \<Longrightarrow> io_wlp (open_as res flags p fdc info) e h (\<lambda>x cs. fst x < 0 \<longrightarrow> Context (snd x) = Context info)"
  by (simp add: open_as_def)

lemma open_existing_error:
  "0 \<le> res \<Longrightarrow> io_wlp (open_existing res d f a s c fa p fdc info) e h (\<lambda>x cs. fst x < 0 \<longrightarrow> Context (snd x) = Context info)"
  by (auto simp: open_existing_def intro!: io_wlp_front open_as_error split: sum.split)

lemma create_on_file_error:
  "io_wlp (create_on_file d f a s c fa p fdc info) e h (\<lambda>x cs. fst x < 0 \<longrightarrow> Context (snd x) = Context info)"
  by (auto simp: create_on_file_def intro!: io_wlp_front open_as_error open_existing_error)

lemma create_missing_error:
  "io_wlp (create_missing d f c p fdc info) e h (\<lambda>x cs. fst x < 0 \<longrightarrow> Context (snd x) = Context info)"
  by (auto simp: create_missing_def create_new_file_def intro!: io_wlp_front)

lemma WinCephCreateFile_error:
  "io_wlp (WinCephCreateFile d f a s c fa info) e h (\<lambda>x cs. fst x < 0 \<longrightarrow> Context (snd x) = Context info)"
  by (auto simp: WinCephCreateFile_def Let_def create_on_directory_def
    intro!: io_wlp_front create_on_file_error create_missing_error)

lemma WinCephOpenDirectory_error:
  "io_wlp (WinCephOpenDirectory d f info) e h (\<lambda>x cs. fst x < 0 \<longrightarrow> Context (snd x) = Context info)"
  by (auto simp: WinCephOpenDirectory_def intro!: io_wlp_front)

section \<open>The invariant\<close>

lemma handles_ok_opened:
  assumes "handles_ok e s" "handles s n = None" "opens e (hist s) (Context info) cs" "res < 0 \<longrightarrow> Context info = 0"
  shows "handles_ok e (opened n f res info cs s)"
proof (cases "Context info = 0")
  case True
  have "owned_fd (opened n f res info cs s) = owned_fd s"
    using True owned_fd_simps(5) [OF assms(2)] by (simp add: opened_def owned_fd_simps fun_upd_idem)
  then show ?thesis using True assms(3) handles_ok_same [OF assms(1), of "opened n f res info cs s"]
    by (simp add: opens_def opened_def)
next
  case False
  then show ?thesis
    using assms(3,4) handles_ok_new [OF assms(1) owned_fd_simps(5) [OF assms(2)], of "opened n f res info cs s"]
    by (simp add: opened_def owned_fd_simps opens_def Let_def)
qed

lemma handles_ok_served:
  assumes "fresh_fds e" "handles_ok e s" "serve d req f info e (hist s) = Ret ((), cs)"
  shows "handles_ok e (s\<lparr>hist := hist s @ cs\<rparr>)"
proof (cases "req = Unmount")
  case True
  then have "WinCephUnmount e (hist s) = Ret (0, cs)"
    using assms(3) by (simp add: WinCephUnmount_def io_run_simps)
  then show ?thesis
    using assms(2) WinCephUnmount_closes by (simp add: handles_ok_def owned_fd_simps)
next
  case False
  then show ?thesis
    using handles_ok_same [OF assms(2), of "s\<lparr>hist := hist s @ cs\<rparr>"] keeps_fdsD [OF serve_keeps [OF assms(1) False] assms(3)]
    by (simp add: owned_fd_simps)
qed

lemma dokan_step_ok:
  assumes "dokan_step d e s s'" "fresh_fds e" "handles_ok e s"
  shows "handles_ok e s'"
  using assms(1)
proof cases
  case (step_create n f acc share disp attrs dir res info cs)
  then show ?thesis
    using io_wlpD [OF WinCephCreateFile_opens [OF assms(2), of "fresh_info dir"] step_create(3)]
      io_wlpD [OF WinCephCreateFile_error step_create(3)] handles_ok_opened [OF assms(3) step_create(2)]
    by (simp add: fresh_info_def)
next
  case (step_opendir n f dir res info cs)
  then show ?thesis
    using io_wlpD [OF WinCephOpenDirectory_opens [OF assms(2), of "fresh_info dir"] step_opendir(3)]
      io_wlpD [OF WinCephOpenDirectory_error step_opendir(3)] handles_ok_opened [OF assms(3) step_opendir(2)]
    by (simp add: fresh_info_def)
next
  case (step_serve n f info req cs)
  then show ?thesis using handles_ok_served [OF assms(2,3)] by blast
next
  case (step_other req f dir cs)
  then show ?thesis using handles_ok_served [OF assms(2,3)] by blast
next
  case (step_mark n f info b)
  then have "owned_fd s' = owned_fd s" by (auto simp: owned_fd_def fun_eq_iff)
  then show ?thesis using step_mark handles_ok_same [OF assms(3), of s'] by simp
next
  case (step_close n f info res info' cs)
  note fds = io_wlpD [OF WinCephCloseFile_closes step_close(3)]
  show ?thesis
  proof (cases "Context info = 0")
    case True
    then have "owned_fd s n = None" using step_close(2) by (simp add: owned_fd_def)
    then have "owned_fd s' = owned_fd s" using step_close(1) by (simp add: owned_fd_simps fun_upd_idem)
    then show ?thesis using step_close(1) fds True handles_ok_same [OF assms(3), of s'] by simp
  next
    case False
    then have own: "owned_fd s n = Some (sint (fd (unpack_context (Context info))))"
      using step_close(2) by (simp add: owned_fd_def)
    show ?thesis using step_close(1) fds False handles_ok_gone [OF assms(3) own, of s'] by (simp add: owned_fd_simps)
  qed
qed

lemma reachable_ok:
  assumes "(dokan_step d e)\<^sup>*\<^sup>* start s" "fresh_fds e"
  shows "handles_ok e s"
  using assms(1) by (induction rule: rtranclp_induct) (auto intro: handles_ok_start dokan_step_ok [OF _ assms(2)])

end
