(* ===== verification/Dokan_Props.thy ===== *)
theory Dokan_Props
imports Dokan_Handles
begin

text \<open>
  Properties of the driver: times and sizes, listings, deletion and renaming, access checks, bounds of
  reads and writes, the life of handles, and the command line.
\<close>

section \<open>Times, sizes and flags\<close>

lemma halves_of_word:
  fixes w :: u64
  shows "push_bit 32 (ucast (ucast (signed_drop_bit 32 w) :: u32)) OR ucast (ucast w :: u32) = w"
proof (rule bit_word_eqI)
  fix n assume "n < LENGTH(64)"
  then show "bit (push_bit 32 (ucast (ucast (signed_drop_bit 32 w) :: u32)) OR ucast (ucast w :: u32) :: u64) n = bit w n"
    by (cases "n < 32") (auto simp: bit_simps bit_signed_drop_bit_iff)
qed

lemma low_part_ucast: "low_part n = ucast (word_of_int n :: u64)"
proof (rule bit_word_eqI)
  fix m assume "m < LENGTH(32)"
  then show "bit (low_part n) m = bit (ucast (word_of_int n :: u64) :: u32) m"
    by (simp add: low_part_def bit_simps bit_signed_drop_bit_iff)
qed

lemma and_not_same: "w = w AND NOT m \<longleftrightarrow> w AND m = (0 :: 'a::len word)"
  by (auto simp: bit_eq_iff bit_and_iff bit_not_iff)

text \<open>The request for the system ACL is not removed from the security information unless the owner is
  asked for as well.\<close>
theorem drop_sacl_looks_at_owner:
   "drop_sacl SACL_SECURITY_INFORMATION = SACL_SECURITY_INFORMATION \<and>
   drop_sacl (SACL_SECURITY_INFORMATION OR OWNER_SECURITY_INFORMATION) = OWNER_SECURITY_INFORMATION \<and>
   (drop_sacl si = si AND NOT SACL_SECURITY_INFORMATION \<longleftrightarrow>
      si AND OWNER_SECURITY_INFORMATION \<noteq> 0 \<or> si AND SACL_SECURITY_INFORMATION = 0)"
  using and_not_same [of si 8] by (simp add: drop_sacl_def)

text \<open>On a volume that holds more than its quota the free space that is reported is not 0: the
  difference wraps around, to more than the whole volume when less than \<open>2 ^ 63\<close> bytes are used.\<close>
theorem free_space_wraps:
  assumes "max_size < used" "used < 2 ^ 63"
  shows "uint (FreeBytesAvailable (free_space max_size used)) = 2 ^ 64 - (uint used - uint max_size) \<and>
    TotalNumberOfBytes (free_space max_size used) < FreeBytesAvailable (free_space max_size used)"
proof -
  have lt: "uint max_size < uint used" "uint used < 2 ^ 63" "0 \<le> uint max_size"
    using assms by (simp_all add: word_less_def)
  have a: "- (2 ^ 63) \<le> uint max_size - uint used" using lt by linarith
  have "uint (max_size - used) = (uint max_size - uint used) mod 2 ^ 64" by (simp add: uint_word_ariths)
  also have "\<dots> = (uint max_size - uint used + 2 ^ 64) mod 2 ^ 64" by simp
  also have "\<dots> = 2 ^ 64 - (uint used - uint max_size)" using a lt by (subst mod_pos_pos_trivial) simp_all
  finally have "uint (max_size - used) = 2 ^ 64 - (uint used - uint max_size)" .
  then show ?thesis using lt a by (simp add: free_space_def Let_def word_less_def)
qed

theorem free_space_wraps_witness:
  "uint (FreeBytesAvailable (free_space 1000 1500)) = 2 ^ 64 - 500 \<and> TotalNumberOfBytes (free_space 1000 1500) = 1000"
  using free_space_wraps [of 1000 1500] by (simp add: free_space_def)

lemma filetime_back: "FileTimeToUnixTime (UnixTimeToFileTime t) = to_s32 t"
proof -
  define s where "s = to_s32 t"
  have s: "- (2 ^ 31) \<le> s" "s < 2 ^ 31" unfolding s_def by (rule to_s32_range)+
  have w: "sint (word_of_int (s * 10000000) :: u64) = s * 10000000" using s by (simp only: int_word_sint) simp
  have "word_of_int (s * 10000000 + filetime_epoch) - word_of_int filetime_epoch = (word_of_int (s * 10000000) :: u64)"
    by (simp only: wi_hom_sub) simp
  then show ?thesis
    using c_div_mult [of 10000000 s] w
    by (simp add: FileTimeToUnixTime_def UnixTimeToFileTime_def Let_def halves_of_word s_def [symmetric]
      del: of_int_add of_int_mult)
qed

text \<open>A time that goes to a Windows file time and back comes out as a 32-bit time: unchanged from 1901
  to January 2038, and reduced modulo \<open>2 ^ 32\<close> seconds outside.\<close>
theorem filetime_roundtrip: "FileTimeToUnixTime (UnixTimeToFileTime t) = to_s32 t"
  by (rule filetime_back)

lemma parts_of_size: "push_bit 32 (ucast (high_part n)) OR ucast (low_part n) = (word_of_int n :: u64)"
  using halves_of_word [of "word_of_int n"] by (simp add: high_part_def low_part_ucast)

lemma index_low: "ucast (drop_bit 32 (push_bit 32 (w :: u64))) = (ucast w :: u32)"
  by (rule bit_word_eqI) (simp add: bit_simps)

lemma index_halves:
  "push_bit 32 (ucast (ucast (drop_bit 32 w) :: u32)) OR ucast (ucast w :: u32) = (w :: u64)"
proof (rule bit_word_eqI)
  fix n assume "n < LENGTH(64)"
  then show "bit (push_bit 32 (ucast (ucast (drop_bit 32 w) :: u32)) OR ucast (ucast w :: u32) :: u64) n = bit w n"
    by (cases "n < 32") (auto simp: bit_simps)
qed

text \<open>What a file information says about the size and the inode of the file.\<close>

definition info_size :: "file_information \<Rightarrow> u64" where
  "info_size i = push_bit 32 (ucast (nFileSizeHigh i)) OR ucast (nFileSizeLow i)"

definition info_index :: "file_information \<Rightarrow> u64" where
  "info_index i = push_bit 32 (ucast (nFileIndexHigh i)) OR ucast (nFileIndexLow i)"

definition info_query :: "driver \<Rightarrow> wide \<Rightarrow> dokan_info \<Rightarrow> call" where
  "info_query d f info =
     (let n = fd (unpack_context (Context info)) in if n = 0 then Ceph_stat (name_of d f) else Ceph_fstat (sint n))"

text \<open>C37: When the file information is returned, it is that of the status the client library gave: by
  descriptor if the handle has one and by name otherwise; size and inode number are exact, the times
  are right up to their reduction to 32 bits, and the directory bit is set for directories only.\<close>
theorem WinCephGetFileInformation_exact:
  assumes "path_fits d f" "WinCephGetFileInformation d f info e h = Ret ((res, Some i), cs)"
  shows "res = 0 \<and> (let r = e h (info_query d f info); st = r_stat r in
    r_ret r = 0 \<and> info_size i = word_of_int (st_size st) \<and> info_index i = st_ino st \<and>
    FileTimeToUnixTime (ftLastWriteTime i) = to_s32 (st_mtime st) \<and>
    (dwFileAttributes i AND FILE_ATTRIBUTE_DIRECTORY \<noteq> 0 \<longleftrightarrow> S_ISDIR (st_mode st)))"
proof -
  let ?r = "e h (info_query d f info)"
  have "io_wlp (WinCephGetFileInformation d f info) e h (\<lambda>x cs. \<forall>i. snd x = Some i \<longrightarrow> fst x = 0 \<and> r_ret ?r = 0 \<and>
      info_size i = word_of_int (st_size (r_stat ?r)) \<and> info_index i = st_ino (r_stat ?r) \<and>
      ftLastWriteTime i = UnixTimeToFileTime (st_mtime (r_stat ?r)) \<and>
      (dwFileAttributes i AND FILE_ATTRIBUTE_DIRECTORY \<noteq> 0 \<longleftrightarrow> S_ISDIR (st_mode (r_stat ?r))))"
    unfolding WinCephGetFileInformation_def Let_def
    by (simp add: path_fits_runs [OF assms(1)] io_wlp_run info_query_def Let_def info_size_def info_index_def parts_of_size
      index_halves index_low io_wlp_any [where m = "FileAuth s" for s] dir_is_not_reg)
  from io_wlpD [OF this assms(2)] show ?thesis by (simp add: Let_def filetime_back)
qed

section \<open>Directories\<close>

text \<open>The answers to the same call made again and again.\<close>

primrec answers :: "env \<Rightarrow> call list \<Rightarrow> call \<Rightarrow> reply list \<Rightarrow> bool" where
  "answers e h c [] \<longleftrightarrow> True"
| "answers e h c (r # rs) \<longleftrightarrow> e h c = r \<and> answers e (h @ [c]) c rs"

definition listed :: "driver \<Rightarrow> reply \<Rightarrow> find_data" where
  "listed d r = fill_find_data (to_wide d (r_name r)) (r_stat r) FILE_ATTRIBUTE_NORMAL"

lemma find_loop_complete:
  assumes "answers e h (Ceph_readdirplus dirp) (es @ [l])" "r_ret l \<le> 0" "length es < fuel"
    and "\<forall>r \<in> set es. 0 < r_ret r \<and> length (to_wide d (r_name r)) < MAX_PATH"
  shows "find_loop fuel d dirp e h = Ret (map (listed d) es, replicate (Suc (length es)) (Ceph_readdirplus dirp))"
  using assms
proof (induction es arbitrary: h fuel)
  case Nil
  then show ?case by (cases fuel) (auto simp: io_run_simps)
next
  case (Cons r es)
  obtain k where k: "fuel = Suc k" using Cons.prems(3) by (cases fuel) auto
  have "find_loop k d dirp e (h @ [Ceph_readdirplus dirp]) =
      Ret (map (listed d) es, replicate (Suc (length es)) (Ceph_readdirplus dirp))"
    using Cons.prems k by (intro Cons.IH) auto
  then show ?case using Cons.prems k by (simp add: io_run_simps find_name_def listed_def)
qed

text \<open>C25: A directory the policy server does not know is listed from the client library: if the server
  says so, the directory can be opened and its entries have names that fit, then the listing returns for
  every bound above the number of entries, with every entry exactly once and in order, and the directory
  and the pipe are closed.\<close>
theorem WinCephFindFiles_lists:
  assumes "path_fits d f" and con: "hnd = r_ret (e h (Win_CreateFileA CEPH_CHANNEL_NAME))"
    and send: "SendDataToUI2 hnd DDM_READDIR (ctx_common (to_utf8 d (MountPoint d @ f)) 1) e
      (h @ [Win_CreateFileA CEPH_CHANNEL_NAME]) = Ret (264, c1)"
    and recv: "ReadDataFromUI2 hnd 8 e (h @ [Win_CreateFileA CEPH_CHANNEL_NAME] @ c1) = Ret ((k, bs), c2)"
      "msg_result bs = RET_NOTFOUND"
    and opn: "h' = h @ [Win_CreateFileA CEPH_CHANNEL_NAME] @ c1 @ c2" "r = e h' (Ceph_opendir (name_of d f))" "r_ret r = 0"
    and list: "answers e (h' @ [Ceph_opendir (name_of d f)]) (Ceph_readdirplus (r_out r)) (es @ [l])" "r_ret l \<le> 0"
      "\<forall>r \<in> set es. 0 < r_ret r \<and> length (to_wide d (r_name r)) < MAX_PATH"
    and "length es < fuel"
  shows "\<exists>cs. WinCephFindFiles fuel d f e h = Ret ((0, map (listed d) es), cs @ [Ceph_closedir (r_out r), Win_CloseHandle hnd])"
proof -
  have "wchar_to_char d (MountPoint d @ f) MAX_PATH = Some (to_utf8 d (MountPoint d @ f))"
    using assms(1) by (simp add: wchar_to_char_def path_fits_def Let_def)
  then show ?thesis
    using con send recv opn find_loop_complete [OF list(1,2) assms(12) list(3)]
    by (simp add: WinCephFindFiles_def find_ceph_def io_run_simps path_fits_runs [OF assms(1)] PipeConnect_def)
qed

lemma empty_loop_decides:
  assumes "answers e h (Ceph_readdir dirp) (es @ [l])" "r_ret l = 0" "\<forall>r \<in> set es. r_ret r \<noteq> 0" "length es < fuel"
  shows "\<exists>n. empty_loop fuel dirp e h =
    Ret (if \<forall>r \<in> set es. r_name r \<in> {''.'', ''..''} then 0 else - ERROR_DIR_NOT_EMPTY,
         replicate n (Ceph_readdir dirp) @ [Ceph_closedir dirp])"
  using assms
proof (induction es arbitrary: h fuel)
  case Nil
  then show ?case by (cases fuel) (auto simp: io_run_simps intro!: exI [of _ "Suc 0"])
next
  case (Cons r es)
  obtain k where k: "fuel = Suc k" using Cons.prems(4) by (cases fuel) auto
  show ?case
  proof (cases "r_name r \<in> {''.'', ''..''}")
    case True
    obtain n where "empty_loop k dirp e (h @ [Ceph_readdir dirp]) =
        Ret (if \<forall>r \<in> set es. r_name r \<in> {''.'', ''..''} then 0 else - ERROR_DIR_NOT_EMPTY,
          replicate n (Ceph_readdir dirp) @ [Ceph_closedir dirp])"
      using Cons.IH [of "h @ [Ceph_readdir dirp]" k] Cons.prems k by auto
    then show ?thesis using Cons.prems k True by (auto simp: io_run_simps intro!: exI [of _ "Suc n"])
  next
    case False
    then show ?thesis using Cons.prems k by (auto simp: io_run_simps intro!: exI [of _ "Suc 0"])
  qed
qed

text \<open>A request to delete a directory that the policy allows succeeds exactly if the directory has no
  entries but \<open>.\<close> and \<open>..\<close>, and fails with the error for a directory that is not empty otherwise; the
  directory is closed again, and nothing has been deleted yet.\<close>
theorem WinCephDeleteDirectory_empty:
  assumes "path_fits d f" "FileDelete (to_utf8 d (MountPoint d @ f)) 1 e h = Ret (True, c1)"
    and "r = e (h @ c1) (Ceph_opendir (name_of d f))" "r_ret r = 0"
    and "answers e (h @ c1 @ [Ceph_opendir (name_of d f)]) (Ceph_readdir (r_out r)) (es @ [l])"
    and "r_ret l = 0" "\<forall>r \<in> set es. r_ret r \<noteq> 0" "length es < fuel"
  shows "\<exists>n. WinCephDeleteDirectory fuel d f e h =
    Ret (if \<forall>r \<in> set es. r_name r \<in> {''.'', ''..''} then 0 else - ERROR_DIR_NOT_EMPTY,
         c1 @ [Ceph_opendir (name_of d f)] @ replicate n (Ceph_readdir (r_out r)) @ [Ceph_closedir (r_out r)])"
proof -
  obtain n where n: "empty_loop fuel (r_out r) e (h @ c1 @ [Ceph_opendir (name_of d f)]) =
      Ret (if \<forall>r \<in> set es. r_name r \<in> {''.'', ''..''} then 0 else - ERROR_DIR_NOT_EMPTY,
        replicate n (Ceph_readdir (r_out r)) @ [Ceph_closedir (r_out r)])"
    using empty_loop_decides [OF assms(5-8)] by blast
  show ?thesis
    using n assms(2-4) by (intro exI [of _ n]) (simp add: WinCephDeleteDirectory_def io_run_simps path_fits_runs [OF assms(1)])
qed

section \<open>Moving\<close>

lemma no_rename [calls_intro]: "io_calls (\<lambda>c. \<forall>p q. c \<noteq> Ceph_rename p q) (FileMove a b n)"
  unfolding FileMove_def GetUI2ActionResult_def PipeConnect_def SendDataToUI2_def ReadDataFromUI2_def PipeSend_def
    PipeReceive_def strcpy_path_def Let_def
  by (intro calls_intro; simp)

text \<open>What lets a move pass: the name of a temporary file of Office, or any answer but \<open>RET_FORBID\<close>.\<close>

lemma FileMove_passes:
  assumes "FileMove p q n e h = Ret (True, c)"
  shows "IsOfficeTempFile p \<or> IsOfficeTempFile q \<or>
    answer e h (if is_rename p q then DDM_RENAME else DDM_MOVE) (ctx_rename (take MAX_PATH p) (take MAX_PATH q) n) \<noteq> RET_FORBID"
  using assms by (auto simp: FileMove_def strcpy_path_def io_run_simps GetUI2ActionResult_run split: if_splits)

text \<open>C32: A rename reaches the client library only with the two names of the request, and as the last call, only
  after \<open>FileMove\<close> let it pass.  That means that one of the names is that of a temporary file of Office,
  which is not asked about, or that the policy server's answer was not \<open>RET_FORBID\<close>; a server that gives no
  answer counts as \<open>RET_FAILED\<close>, which passes.  When existing files are not to be replaced, the rename is
  made only if there was no file (for a file) or directory (for a directory) of the new name.\<close>
theorem WinCephMoveFile_guarded:
  assumes "path_fits d f" "path_fits d g" "WinCephMoveFile d f g repl info e h = Ret (res, cs)" "Ceph_rename p q \<in> set cs"
  shows "p = name_of d f \<and> q = name_of d g \<and>
    (let p' = to_utf8 d (MountPoint d @ f); q' = to_utf8 d (MountPoint d @ g); dir = ucast (IsDirectory info)
     in \<exists>c1 c2. cs = c1 @ c2 @ [Ceph_rename p q] \<and> FileMove p' q' dir e (h @ c1) = Ret (True, c2) \<and>
       (IsOfficeTempFile p' \<or> IsOfficeTempFile q' \<or>
        answer e (h @ c1) (if is_rename p' q' then DDM_RENAME else DDM_MOVE)
          (ctx_rename (take MAX_PATH p') (take MAX_PATH q') dir) \<noteq> RET_FORBID)) \<and>
    (repl \<or> \<not> (let r = e h (Ceph_stat q) in r_ret r = 0 \<and> same_kind info (st_mode (r_stat r))))"
proof -
  let ?move = "FileMove (to_utf8 d (MountPoint d @ f)) (to_utf8 d (MountPoint d @ g)) (ucast (IsDirectory info))"
  let ?ren = "Ceph_rename (name_of d f) (name_of d g)"
  define pre where "pre = (if repl then [] else [Ceph_stat (name_of d g)])"
  define there where "there \<longleftrightarrow> \<not> repl \<and>
    (let r = e h (Ceph_stat (name_of d g)) in r_ret r = 0 \<and> same_kind info (st_mode (r_stat r)))"
  note defs = WinCephMoveFile_def io_run_simps path_fits_runs [OF assms(1)] path_fits_runs [OF assms(2)] pre_def there_def Let_def
  have there: "WinCephMoveFile d f g repl info e h = Ret (- ERROR_ALREADY_EXISTS, pre)" if "there"
    using that by (simp add: defs)
  have "\<not> there" using there assms(3,4) by (auto simp: pre_def split: if_splits)
  have stop: "?move e (h @ pre) = Fault \<Longrightarrow> WinCephMoveFile d f g repl info e h = Fault"
    "?move e (h @ pre) = NoFuel \<Longrightarrow> WinCephMoveFile d f g repl info e h = NoFuel"
    using \<open>\<not> there\<close> by (cases repl; simp add: defs)+
  show ?thesis
  proof (cases "?move e (h @ pre)")
    case (Ret x)
    obtain ok c2 where x: "x = (ok, c2)" by (cases x)
    have c2: "Ceph_rename p q \<notin> set c2" using io_callsD [OF no_rename Ret [unfolded x]] by blast
    have run: "WinCephMoveFile d f g repl info e h =
        (if ok then Ret (r_ret (e (h @ pre @ c2) ?ren), pre @ c2 @ [?ren]) else Ret (- ERROR_ACCESS_DENIED, pre @ c2))"
      using \<open>\<not> there\<close> Ret x by (cases repl; cases ok; simp add: defs)
    then have "ok" using assms(3,4) c2 by (auto simp: pre_def split: if_splits)
    then have cs: "cs = pre @ c2 @ [?ren]" using assms(3) run by simp
    then have "p = name_of d f" "q = name_of d g" using assms(4) c2 by (auto simp: pre_def split: if_splits)
    moreover have "?move e (h @ pre) = Ret (True, c2)" using Ret x \<open>ok\<close> by simp
    ultimately show ?thesis using cs \<open>\<not> there\<close> FileMove_passes [of _ _ _ e "h @ pre" c2] unfolding there_def Let_def by blast
  qed (use assms(3) stop in simp_all)
qed

section \<open>A sample driver and sample answers\<close>

definition sample_driver :: driver where
  "sample_driver = \<lparr>g_UID = 1000, g_GID = 1, g_UseACL = True, MountPoint = [0x4D, 0x3A], Wceph_conf_file = [],
     to_utf8 = map (\<lambda>w. char_of (unat w)), to_wide = map of_char\<rparr>"

definition sample_path :: wide where
  "sample_path = [0x5C, 0x66]"

lemma sample_fits: "path_fits sample_driver sample_path" "name_of sample_driver sample_path = ''/f''"
  "to_utf8 sample_driver (MountPoint sample_driver @ sample_path) = ''M:'' @ [backslash] @ ''f''"
  by (simp_all add: path_fits_def name_of_def ToLinuxFilePath_def sample_driver_def sample_path_def char_of_def bit_Suc_0_iff)

lemma sample_stat_answers:
  "r_stat (acl_env [] sample_stat h c) = sample_stat" "r_ret (acl_env [] sample_stat h (Ceph_stat p)) = 0"
  "r_ret (acl_env [] sample_stat h (acl_query p n)) = 0"
  by (simp_all add: acl_env_def)

lemma sample_denies:
  "permission_walk ''/f'' 1000 1 MAY_WRITE (acl_env [] sample_stat) h =
     Ret (- EACCES, [acl_query ''/f'' POSIX_ACL_XATTR_ACCESS, Ceph_stat ''/f''])"
proof -
  have "\<not> ugo_grants sample_stat 1000 1 MAY_WRITE"
    by (simp add: ugo_grants_def sample_stat_def numeral_3_eq_3 less_Suc_eq all_conj_distrib bit_simps)
  then show ?thesis
    by (simp add: permission_walk_def io_run_simps getxattr_none permission_walk_ugo_run sample_stat_answers)
qed

text \<open>C23: With ACL checking on, a request that would truncate an existing file or create a new one and
  whose permission check fails is answered with access denied; nothing has been opened, created or
  changed, and the handle has no context.\<close>
theorem WinCephCreateFile_denied:
  assumes "g_UseACL d" "path_fits d f" "name_of d f \<noteq> ''/''"
    and stat: "r = e h (Ceph_stat (name_of d f))" "r_ret r = 0 \<Longrightarrow> S_ISREG (st_mode (r_stat r))"
    and disp: "if r_ret r = 0 then disp = TRUNCATE_EXISTING \<or> disp = CREATE_ALWAYS
      else disp = CREATE_NEW \<or> disp = CREATE_ALWAYS \<or> disp = OPEN_ALWAYS"
    and denied: "guard_run d f disp e h = Ret (st, ws)" "st \<noteq> 0"
  shows "WinCephCreateFile d f acc share disp attrs info e h =
      Ret ((- ERROR_ACCESS_DENIED, info), Ceph_stat (name_of d f) # ws) \<and>
    (\<forall>c \<in> set (Ceph_stat (name_of d f) # ws). \<not> changes c \<and> no_fd_call c)"
proof
  have walk: "may_walk d p w e h' = exec_bind (permission_walk p (caller_uid d) (caller_gid d) w e h')
      (\<lambda>(st, ws). Ret (st = 0, ws))"
    "may_walk_parent d p w e h' = exec_bind (permission_walk_parent p (caller_uid d) (caller_gid d) w e h')
      (\<lambda>(st, ws). Ret (st = 0, ws))" for p w h'
    using assms(1) by (simp_all add: may_walk_def may_walk_parent_def io_run_simps caller_uid_def caller_gid_def split_def)
  show "WinCephCreateFile d f acc share disp attrs info e h =
      Ret ((- ERROR_ACCESS_DENIED, info), Ceph_stat (name_of d f) # ws)"
  proof (cases "r_ret r = 0")
    case True
    then have "disp = TRUNCATE_EXISTING \<or> disp = CREATE_ALWAYS" using disp by simp
    then show ?thesis using denied stat True assms(2,3)
      by (elim disjE) (simp_all add: WinCephCreateFile_def io_run_simps path_fits_runs Let_def guard_run_def create_on_file_def walk)
  next
    case False
    then have "disp = CREATE_NEW \<or> disp = CREATE_ALWAYS \<or> disp = OPEN_ALWAYS" using disp by simp
    then show ?thesis using denied stat False assms(2,3)
      by (elim disjE) (simp_all add: WinCephCreateFile_def io_run_simps path_fits_runs Let_def guard_run_def create_missing_def
        create_new_file_def walk)
  qed
  have "reads_only c \<and> no_fd_call c" if "c \<in> set ws" for c
    using that denied(1) io_callsD [OF permission_walk_reads] io_callsD [OF permission_walk_no_fd]
      io_callsD [OF permission_walk_parent_calls(1)] io_callsD [OF permission_walk_parent_calls(2)]
    by (auto simp: guard_run_def Let_def split: if_splits)
  then show "\<forall>c \<in> set (Ceph_stat (name_of d f) # ws). \<not> changes c \<and> no_fd_call c"
    by (auto simp: reads_only_def)
qed

theorem WinCephCreateFile_denied_witness:
  "WinCephCreateFile sample_driver sample_path GENERIC_WRITE 0 TRUNCATE_EXISTING 0 (fresh_info 0) (acl_env [] sample_stat) [] =
     Ret ((- ERROR_ACCESS_DENIED, fresh_info 0),
       [Ceph_stat ''/f'', acl_query ''/f'' POSIX_ACL_XATTR_ACCESS, Ceph_stat ''/f''])"
proof -
  have "guard_run sample_driver sample_path TRUNCATE_EXISTING (acl_env [] sample_stat) [] =
      Ret (- EACCES, [acl_query ''/f'' POSIX_ACL_XATTR_ACCESS, Ceph_stat ''/f''])"
    by (simp add: guard_run_def sample_fits sample_stat_answers caller_uid_def caller_gid_def sample_denies)
      (simp add: sample_driver_def sample_denies)
  from WinCephCreateFile_denied [OF _ sample_fits(1) _ refl _ _ this, of GENERIC_WRITE 0 0 "fresh_info 0"]
  show ?thesis
    by (simp add: sample_fits sample_stat_answers) (simp add: sample_driver_def sample_stat_def S_ISREG_def)
qed

section \<open>Opening an existing file for writing\<close>

lemma open_existing_run:
  assumes "path_fits d f" "name_of d f \<noteq> ''/''"
    and "r = e h (Ceph_stat (name_of d f))" "r_ret r = 0" "S_ISREG (st_mode (r_stat r))"
    and "word_of_int (r_ret (e (h @ [Ceph_stat (name_of d f)]) (Win_GetFileAttributes (MountPoint d @ f)))) AND FILE_ATTRIBUTE_READONLY = (0 :: u32)"
    and "n = r_ret (e (h @ [Ceph_stat (name_of d f), Win_GetFileAttributes (MountPoint d @ f)]) (Ceph_open (name_of d f) O_RDWR 0x1ED))"
      "0 \<le> n"
  shows "WinCephCreateFile d f GENERIC_WRITE share OPEN_EXISTING 0 info e h =
    Ret ((0, info\<lparr>Context := pack_context (no_fd\<lparr>fd := word_of_int n\<rparr>)\<rparr>),
         [Ceph_stat (name_of d f), Win_GetFileAttributes (MountPoint d @ f), Ceph_open (name_of d f) O_RDWR 0x1ED])"
proof -
  have "no_fd\<lparr>delete_on_close := 0\<rparr> = no_fd" "read_only no_fd = 0" by (simp_all add: no_fd_def)
  then show ?thesis using assms(2-8)
    by (simp add: WinCephCreateFile_def io_run_simps path_fits_runs [OF assms(1)] create_on_file_def open_existing_def
      wants_read_def wants_write_def check_readonly_def open_as_def Let_def not_less)
qed

text \<open>The permission to write is not checked when an existing file is opened: with ACL checking on, a
  file the caller asks to open for writing only (and that Windows does not see as read-only) is opened
  for reading and writing without a single look at its owner, mode or ACL.\<close>
theorem open_existing_write_unchecked:
  assumes "path_fits d f" "name_of d f \<noteq> ''/''"
    and "r = e h (Ceph_stat (name_of d f))" "r_ret r = 0" "S_ISREG (st_mode (r_stat r))"
    and "word_of_int (r_ret (e (h @ [Ceph_stat (name_of d f)]) (Win_GetFileAttributes (MountPoint d @ f)))) AND FILE_ATTRIBUTE_READONLY = (0 :: u32)"
    and "n = r_ret (e (h @ [Ceph_stat (name_of d f), Win_GetFileAttributes (MountPoint d @ f)]) (Ceph_open (name_of d f) O_RDWR 0x1ED))"
      "0 \<le> n"
  shows "WinCephCreateFile d f GENERIC_WRITE share OPEN_EXISTING 0 info e h =
    Ret ((0, info\<lparr>Context := pack_context (no_fd\<lparr>fd := word_of_int n\<rparr>)\<rparr>),
         [Ceph_stat (name_of d f), Win_GetFileAttributes (MountPoint d @ f), Ceph_open (name_of d f) O_RDWR 0x1ED])"
  by (rule open_existing_run [OF assms])

text \<open>The caller of the witness is not allowed to write: the same call is refused with \<open>TRUNCATE_EXISTING\<close>.\<close>

theorem open_existing_write_unchecked_witness:
  "permission_walk ''/f'' (caller_uid sample_driver) (caller_gid sample_driver) MAY_WRITE (acl_env [] sample_stat) [] =
     Ret (- EACCES, [acl_query ''/f'' POSIX_ACL_XATTR_ACCESS, Ceph_stat ''/f'']) \<and>
   (\<exists>info cs. WinCephCreateFile sample_driver sample_path GENERIC_WRITE 0 OPEN_EXISTING 0 (fresh_info 0) (acl_env [] sample_stat) [] =
     Ret ((0, info), cs) \<and> Ceph_open ''/f'' O_RDWR 0x1ED \<in> set cs)"
proof -
  have "caller_uid sample_driver = 1000" "caller_gid sample_driver = 1"
    by (simp_all add: caller_uid_def caller_gid_def sample_driver_def)
  then show ?thesis
    using open_existing_write_unchecked [OF sample_fits(1) _ refl, of "acl_env [] sample_stat" "[]" _ 0 "fresh_info 0"]
    by (simp add: sample_fits sample_stat_answers sample_denies)
      (simp add: acl_env_def sample_stat_def S_ISREG_def)
qed

section \<open>Reading and writing\<close>

text \<open>The calls that read or write file data stay within these bounds.\<close>

fun data_bounds :: "call \<Rightarrow> bool" where
  "data_bounds (Ceph_read n len off) \<longleftrightarrow> 0 < len \<and> len \<le> 2 ^ 27 \<and> 0 \<le> off \<and> off \<le> 2 ^ 40"
| "data_bounds (Ceph_write n bs off) \<longleftrightarrow> length bs \<le> 2 ^ 27 \<and> 0 \<le> off \<and> off \<le> 2 ^ 40"
| "data_bounds _ \<longleftrightarrow> True"

lemma not_too_large: "\<not> too_large off n \<Longrightarrow> uint n \<le> 2 ^ 27 \<and> 0 \<le> off \<and> off \<le> 2 ^ 40"
  by (simp add: too_large_def word_less_def not_less)

text \<open>C34: Whatever the request, no more than 128 MiB are read or written at once, and only at offsets from 0 to
  1 TiB; and nothing at all is written through a handle that was opened read-only.\<close>
theorem data_calls_bounded:
  "io_calls data_bounds (WinCephReadFile d f n off info) \<and> io_calls data_bounds (WinCephWriteFile d f buf n off info) \<and>
   (read_only (unpack_context (Context info)) = 1 \<longrightarrow> io_calls (\<lambda>c. \<not> changes c) (WinCephWriteFile d f buf n off info))"
proof (intro conjI impI)
  have n: "0 < uint n" if "n \<noteq> 0" using that word_gt_0 [of n] by (simp add: word_less_def)
  have rd: "data_bounds (Ceph_read k (uint n) off)" if "\<not> too_large off n" "n \<noteq> 0" for k
    using not_too_large [OF that(1)] n [OF that(2)] by simp
  have "int (length (take (unat n) buf)) \<le> uint n" using of_nat_mono [of "min (length buf) (unat n)" "unat n", where ?'a = int] by simp
  then have wr: "data_bounds (Ceph_write k (take (unat n) buf) off)" if "\<not> too_large off n" for k
    using not_too_large [OF that] by (simp del: length_take)
  show "io_calls data_bounds (WinCephReadFile d f n off info)"
    unfolding WinCephReadFile_def Let_def by (intro calls_intro; (rule rd; assumption | simp))
  show "io_calls data_bounds (WinCephWriteFile d f buf n off info)"
    unfolding WinCephWriteFile_def Let_def by (intro calls_intro; (rule wr; assumption | simp))
  assume "read_only (unpack_context (Context info)) = 1"
  then show "io_calls (\<lambda>c. \<not> changes c) (WinCephWriteFile d f buf n off info)"
    unfolding WinCephWriteFile_def Let_def by (intro calls_intro; simp)
qed

theorem data_calls_bounded_witness:
  "io_calls (\<lambda>c. \<not> changes c) (WinCephWriteFile sample_driver sample_path [1, 2] 2 0
     \<lparr>Context = pack_context \<lparr>fd = 11, delete_on_close = 0, read_only = 1\<rparr>, IsDirectory = 0, DeleteOnClose = 0\<rparr>)"
  using data_calls_bounded [of sample_driver sample_path 2 0
      "\<lparr>Context = pack_context \<lparr>fd = 11, delete_on_close = 0, read_only = 1\<rparr>, IsDirectory = 0, DeleteOnClose = 0\<rparr>" "[1, 2]"]
  by simp

section \<open>Every handle can be closed\<close>

definition name_fits :: "driver \<Rightarrow> wide \<Rightarrow> bool" where
  "name_fits d f \<longleftrightarrow> length f < MAX_PATH_CEPH \<and> length (to_utf8 d f) < MAX_PATH_CEPH"

lemma WinCephCreateFile_fits: "io_wlp (WinCephCreateFile d f a s c fa info) e h (\<lambda>x cs. name_fits d f)"
  by (auto simp: WinCephCreateFile_def GetFilePath_def linux_name_def wchar_to_char_def name_fits_def Let_def io_wlp_any
    split: option.split)

lemma WinCephOpenDirectory_fits: "io_wlp (WinCephOpenDirectory d f info) e h (\<lambda>x cs. name_fits d f)"
  by (auto simp: WinCephOpenDirectory_def GetFilePath_def linux_name_def wchar_to_char_def name_fits_def Let_def io_wlp_any
    split: option.split)

text \<open>Closing returns, and is never refused.\<close>

lemma WinCephCloseFile_runs:
  assumes "name_fits d f"
  shows "\<exists>cs. WinCephCloseFile d f info e h = Ret ((0, info\<lparr>Context := 0\<rparr>), cs)"
proof -
  have runs: "GetFilePath f e h = Ret (f, [])" "linux_name d f e h = Ret (name_of d f, [])" for h
    using assms by (simp_all add: name_fits_def GetFilePath_def linux_name_def wchar_to_char_def name_of_def io_run_simps Let_def)
  show ?thesis
  proof (cases "Context info = 0")
    case True
    then have "info = info\<lparr>Context := 0\<rparr>" by (cases info) simp
    then show ?thesis using True by (simp add: WinCephCloseFile_def io_run_simps runs)
  next
    case False
    then show ?thesis
      by (cases "delete_on_close (unpack_context (Context info)) \<noteq> 0 \<and> IsDirectory info = 0")
        (simp_all add: WinCephCloseFile_def io_run_simps runs Let_def)
  qed
qed

definition closable :: "driver \<Rightarrow> sys \<Rightarrow> bool" where
  "closable d s \<longleftrightarrow> finite (dom (handles s)) \<and> (\<forall>n f info. handles s n = Some (f, info) \<longrightarrow> name_fits d f)"

lemma closable_opened: "closable d s \<Longrightarrow> name_fits d f \<Longrightarrow> closable d (opened n f res info cs s)"
  by (auto simp: closable_def opened_def split: if_splits)

lemma dokan_step_closable: "dokan_step d e s s' \<Longrightarrow> closable d s \<Longrightarrow> closable d s'"
proof (induction rule: dokan_step.induct)
  case (step_create s n f acc share disp attrs dir res info cs)
  then show ?case using io_wlpD [OF WinCephCreateFile_fits step_create.hyps(2)] by (intro closable_opened)
next
  case (step_opendir s n f dir res info cs)
  then show ?case using io_wlpD [OF WinCephOpenDirectory_fits step_opendir.hyps(2)] by (intro closable_opened)
next
  case (step_mark s n f info b)
  then show ?case by (auto simp: closable_def split: if_splits)
next
  case (step_close s n f info res info' cs)
  then show ?case by (auto simp: closable_def split: if_splits)
qed (simp_all add: closable_def)

lemma closable_start: "closable d start"
  by (simp add: start_def closable_def)

lemma reachable_closable: "(dokan_step d e)\<^sup>*\<^sup>* start s \<Longrightarrow> closable d s"
  by (induction rule: rtranclp_induct) (auto intro: dokan_step_closable closable_start)

lemma close_all:
  assumes "closable d s"
  shows "\<exists>s'. (dokan_step d e)\<^sup>*\<^sup>* s s' \<and> handles s' = Map.empty"
  using assms
proof (induction "card (dom (handles s))" arbitrary: s)
  case 0
  then have "handles s = Map.empty" by (simp add: closable_def)
  then show ?case by blast
next
  case (Suc k)
  then obtain n f info where n: "handles s n = Some (f, info)"
    by (metis card.empty dom_eq_empty_conv not_None_eq old.nat.distinct(2) old.prod.exhaust)
  then have "name_fits d f" using Suc.prems by (auto simp: closable_def)
  then obtain cs where "WinCephCloseFile d f info e (hist s) = Ret ((0, info\<lparr>Context := 0\<rparr>), cs)"
    using WinCephCloseFile_runs by blast
  then have step: "dokan_step d e s \<lparr>handles = (handles s)(n := None), hist = hist s @ cs\<rparr>" by (rule step_close [OF n])
  have "card (dom ((handles s)(n := None))) = k" using Suc.hyps(2) n by (simp add: domI)
  then obtain s' where "(dokan_step d e)\<^sup>*\<^sup>* \<lparr>handles = (handles s)(n := None), hist = hist s @ cs\<rparr> s'" "handles s' = Map.empty"
    using Suc.hyps(1) [of "\<lparr>handles = (handles s)(n := None), hist = hist s @ cs\<rparr>"] dokan_step_closable [OF step Suc.prems]
    by auto
  then show ?case using step by (blast intro: converse_rtranclp_into_rtranclp)
qed

text \<open>C6: In every state the driver can reach, until Dokan asks it to unmount, the descriptors that are open at
  the client library are exactly those in the contexts of Dokan's handles: no callback leaks a descriptor
  or leaves a handle with one that is closed, on any path through it and whatever the answers.  After the
  unmounting none is open.  No two handles ever share one.  Assumed of \<open>ceph_open\<close> is that it returns
  positive descriptors that are not in use, and an error after \<open>ceph_unmount\<close>, as the client library does.\<close>
theorem no_descriptor_leak:
  assumes "(dokan_step d e)\<^sup>*\<^sup>* start s" "fresh_fds e"
  shows "open_fds e (hist s) = (if Ceph_unmount \<in> set (hist s) then {} else ran (owned_fd s))
    \<and> inj_on (owned_fd s) (dom (owned_fd s))"
  using reachable_ok [OF assms] by (simp add: handles_ok_def)

text \<open>C16: From every state the driver can reach Dokan can close all handles, no close failing, and then no
  descriptor is left open.\<close>
theorem all_handles_close:
  assumes "(dokan_step d e)\<^sup>*\<^sup>* start s" "fresh_fds e"
  shows "\<exists>s'. (dokan_step d e)\<^sup>*\<^sup>* s s' \<and> handles s' = Map.empty \<and> open_fds e (hist s') = {}"
proof -
  obtain s' where s': "(dokan_step d e)\<^sup>*\<^sup>* s s'" "handles s' = Map.empty"
    using close_all [OF reachable_closable [OF assms(1)]] by blast
  then have "handles_ok e s'" using assms by (intro reachable_ok) (auto intro: rtranclp_trans)
  moreover have "ran (owned_fd s') = {}" using s'(2) by (simp add: owned_fd_def ran_def)
  ultimately have "open_fds e (hist s') = {}" by (simp add: handles_ok_def)
  then show ?thesis using s' by blast
qed

subsection \<open>A run\<close>

text \<open>An environment whose descriptors count the calls.\<close>

definition fd_env :: env where
  "fd_env = (\<lambda>h c. \<lparr>r_ret = (case c of Ceph_open p f m \<Rightarrow> if length h < 1000 \<and> Ceph_unmount \<notin> set h then 10 + int (length h) else - 24 | _ \<Rightarrow> 0),
     r_stat = sample_stat, r_data = [], r_name = [], r_out = 0\<rparr>)"

lemma fd_env_fresh: "fresh_fds fd_env"
proof -
  have "n < 10 + int (length h)" if "n \<in> open_fds fd_env h" for n h
    using that
  proof (induction h rule: rev_induct)
    case (snoc c h)
    then show ?case by (cases c) (auto simp: open_fds_append fd_env_def Let_def split: if_splits)
  qed (simp add: open_fds_def)
  then show ?thesis by (force simp: fresh_fds_def fd_env_def)
qed

definition sample_open :: dokan_info where
  "sample_open = (fresh_info 0)\<lparr>Context := pack_context (no_fd\<lparr>fd := 12\<rparr>)\<rparr>"

definition sample_calls :: "call list" where
  "sample_calls = [Ceph_stat ''/f'', Win_GetFileAttributes [0x4D, 0x3A, 0x5C, 0x66], Ceph_open ''/f'' O_RDWR 0x1ED]"

lemma sample_reachable: "(dokan_step sample_driver fd_env)\<^sup>*\<^sup>* start (opened 0 sample_path 0 sample_open sample_calls start)"
proof -
  have "WinCephCreateFile sample_driver sample_path GENERIC_WRITE 0 OPEN_EXISTING 0 (fresh_info 0) fd_env [] =
      Ret ((0, sample_open), sample_calls)"
    using open_existing_run [OF sample_fits(1) _ refl, of fd_env "[]" _ 0 "fresh_info 0"]
    by (simp add: sample_fits sample_open_def sample_calls_def)
      (simp add: fd_env_def sample_stat_def S_ISREG_def sample_driver_def sample_path_def)
  then show ?thesis
    using step_create [of start 0 sample_driver sample_path GENERIC_WRITE 0 OPEN_EXISTING 0 0 fd_env 0 sample_open sample_calls]
    by (simp add: start_def)
qed

lemma sample_owned: "owned_fd (opened 0 sample_path 0 sample_open sample_calls start) = [0 \<mapsto> 12]"
  by (auto simp: fun_eq_iff owned_fd_def opened_def start_def sample_open_def pack_eq_0_iff no_fd_def)

theorem no_descriptor_leak_witness:
  "open_fds fd_env (hist (opened 0 sample_path 0 sample_open sample_calls start)) = {12}"
  using no_descriptor_leak [OF sample_reachable fd_env_fresh]
  by (simp add: sample_owned) (simp add: opened_def start_def sample_calls_def)

theorem all_handles_close_witness:
  "\<exists>s'. (dokan_step sample_driver fd_env)\<^sup>*\<^sup>* (opened 0 sample_path 0 sample_open sample_calls start) s' \<and>
     handles s' = Map.empty \<and> open_fds fd_env (hist s') = {}"
  by (rule all_handles_close [OF sample_reachable fd_env_fresh])

section \<open>The command line\<close>

text \<open>The settings fit the variables they are kept in.\<close>

definition settings_ok :: "settings \<Rightarrow> bool" where
  "settings_ok s \<longleftrightarrow> 0 \<le> s_uid s \<and> s_uid s < 2 ^ 16 \<and> 0 \<le> s_gid s \<and> s_gid s < 2 ^ 16 \<and>
     length (s_conf s) < MAX_PATH_CEPH \<and> length (s_wconf s) < MAX_PATH_CEPH \<and> length (s_mount s) < MAX_PATH_CEPH \<and>
     length (s_sub s) < 4096 \<and> length (s_letter s) < MAX_PATH"

lemma settings_ok_initial: "settings_ok initial_settings"
  by (simp add: settings_ok_def initial_settings_def)

text \<open>
  An option on the command line: its letter, and its value if it takes one; what it needs room for; and what
  it sets.
\<close>

type_synonym cmd_option = "char \<times> string option"

definition cmd_args :: "cmd_option \<Rightarrow> string list" where
  "cmd_args opt = [CHR ''-'', fst opt] # (case snd opt of None \<Rightarrow> [] | Some v \<Rightarrow> [v])"

definition cmd_known :: "cmd_option \<Rightarrow> bool" where
  "cmd_known opt \<longleftrightarrow> fst opt \<in> set (if snd opt = None then ''dsma'' else ''cltugxn'')"

definition cmd_room :: "char \<Rightarrow> nat option" where
  "cmd_room = [CHR ''c'' \<mapsto> MAX_PATH_CEPH, CHR ''x'' \<mapsto> 4096, CHR ''n'' \<mapsto> MAX_PATH]"

definition cmd_fits :: "cmd_option \<Rightarrow> bool" where
  "cmd_fits opt \<longleftrightarrow> (case (snd opt, cmd_room (fst opt)) of (Some v, Some n) \<Rightarrow> length v < n | _ \<Rightarrow> True)"

definition set_value :: "(string \<Rightarrow> wide) \<Rightarrow> (wide \<Rightarrow> int) \<Rightarrow> char \<Rightarrow> string \<Rightarrow> settings \<Rightarrow> settings" where
  "set_value wide_of wtoi c v s =
     (if c = CHR ''c'' then s\<lparr>s_conf := v, s_wconf := wide_of v\<rparr>
      else if c = CHR ''l'' then s\<lparr>s_mount := wide_of v, s_mount_set := True\<rparr>
      else if c = CHR ''t'' then s\<lparr>s_threads := word_of_int (wtoi (wide_of v))\<rparr>
      else if c = CHR ''u'' then s\<lparr>s_uid := wtoi (wide_of v) mod 2 ^ 16\<rparr>
      else if c = CHR ''g'' then s\<lparr>s_gid := wtoi (wide_of v) mod 2 ^ 16\<rparr>
      else if c = CHR ''x'' then s\<lparr>s_sub := v\<rparr>
      else s\<lparr>s_letter := v\<rparr>)"

definition set_flag :: "char \<Rightarrow> settings \<Rightarrow> settings" where
  "set_flag c s =
     (if c = CHR ''d'' then s\<lparr>s_debug := True\<rparr>
      else if c = CHR ''s'' then s\<lparr>s_stderr := True\<rparr>
      else if c = CHR ''m'' then s\<lparr>s_options := s_options s OR DOKAN_OPTION_REMOVABLE\<rparr>
      else s\<lparr>s_acl := True\<rparr>)"

definition cmd_effect :: "(string \<Rightarrow> wide) \<Rightarrow> (wide \<Rightarrow> int) \<Rightarrow> cmd_option \<Rightarrow> settings \<Rightarrow> settings" where
  "cmd_effect wide_of wtoi opt = (case snd opt of None \<Rightarrow> set_flag (fst opt) | Some v \<Rightarrow> set_value wide_of wtoi (fst opt) v)"

text \<open>The wide form of an option is its two characters.\<close>

definition ascii_options :: "(string \<Rightarrow> wide) \<Rightarrow> bool" where
  "ascii_options wide_of \<longleftrightarrow> (\<forall>c \<in> set ''cltugxndsma''. wide_of [CHR ''-'', c] = [of_char CHR ''-'', of_char c])"

lemma parse_option:
  assumes "ascii_options wide_of" "cmd_known opt"
  shows "parse_args wtoi (map (\<lambda>a. (a, wide_of a)) (cmd_args opt) @ rest) s =
    (if cmd_fits opt then parse_args wtoi rest (cmd_effect wide_of wtoi opt s) else Fault)"
proof (cases "snd opt")
  case None
  then have "fst opt \<in> set ''dsma''" using assms(2) by (simp add: cmd_known_def)
  then show ?thesis using None assms(1)
    by (auto simp: cmd_args_def cmd_fits_def cmd_effect_def set_flag_def flag_option_def option_letter_def towlower_def
      ascii_options_def)
next
  case (Some v)
  then have "fst opt \<in> set ''cltugxn''" using assms(2) by (simp add: cmd_known_def)
  then show ?thesis using Some assms(1)
    by (auto simp: cmd_args_def cmd_fits_def cmd_room_def cmd_effect_def set_value_def valued_option_def copy_into_def
      option_letter_def towlower_def ascii_options_def uint_word_of_int)
qed

lemma parse_options:
  assumes "ascii_options wide_of"
  shows "list_all cmd_known opts \<Longrightarrow> parse_args wtoi (map (\<lambda>a. (a, wide_of a)) (concat (map cmd_args opts))) s =
    (if list_all cmd_fits opts then Ret (Some (fold (cmd_effect wide_of wtoi) opts s)) else Fault)"
  by (induction opts arbitrary: s) (simp_all add: parse_option [OF assms])

lemma cmd_effect_ok:
  assumes "settings_ok s" "cmd_fits opt" "cmd_known opt" "\<And>a. a \<in> set (cmd_args opt) \<Longrightarrow> length (wide_of a) < 512"
  shows "settings_ok (cmd_effect wide_of wtoi opt s)"
proof (cases "snd opt")
  case None
  then show ?thesis using assms(1) by (simp add: cmd_effect_def set_flag_def settings_ok_def)
next
  case (Some v)
  then have "fst opt \<in> set ''cltugxn''" "length (wide_of v) < 512" using assms(3,4) by (simp_all add: cmd_known_def cmd_args_def)
  then show ?thesis using assms(1,2) Some
    by (auto simp: cmd_effect_def set_value_def settings_ok_def cmd_fits_def cmd_room_def)
qed

lemma cmd_effects_ok:
  "settings_ok s \<Longrightarrow> list_all cmd_fits opts \<Longrightarrow> list_all cmd_known opts \<Longrightarrow>
   (\<And>a. a \<in> set (concat (map cmd_args opts)) \<Longrightarrow> length (wide_of a) < 512) \<Longrightarrow>
   settings_ok (fold (cmd_effect wide_of wtoi) opts s)"
  by (induction opts arbitrary: s) (simp_all add: cmd_effect_ok)


definition sample_argv :: "string list" where
  "sample_argv = [''ceph-dokan'', ''-c'', ''ceph.conf'', ''-a'', ''-u'', ''65536'']"

definition sample_settings :: settings where
  "sample_settings = initial_settings\<lparr>s_conf := ''ceph.conf'', s_wconf := map of_char ''ceph.conf'', s_acl := True, s_uid := 0\<rparr>"

lemma sample_options:
  "ascii_options (map of_char)"
  "concat (map cmd_args [(CHR ''c'', Some ''ceph.conf''), (CHR ''a'', None), (CHR ''u'', Some ''65536'')]) = tl sample_argv"
  by (simp_all add: ascii_options_def cmd_args_def sample_argv_def)


text \<open>The user number is cut to 16 bits: a user whose number is a multiple of 65536 becomes user 0, and
  then every permission check is passed without a look at the file.\<close>
theorem uid_wraps_to_root:
  assumes "65536 dvd wtoi (snd v)" "valued_option wtoi (of_char CHR ''u'') v s = Ret s'"
  shows "may_walk (driver_of utf8_of wide_of s') p w e h = Ret (True, [])"
proof -
  have "(word_of_int (wtoi (snd v)) :: u16) = 0" using assms(1) by (simp add: word_of_int_eq_0_iff)
  then have "s_uid s' = 0" using assms(2) by (auto simp: valued_option_def)
  then show ?thesis by (simp add: may_walk_def driver_of_def permission_walk_def io_run_simps)
qed

theorem uid_wraps_to_root_witness:
  "may_walk (driver_of (map (\<lambda>w. char_of (unat w))) (map of_char) (sample_settings\<lparr>s_uid := 0\<rparr>)) ''/f'' MAY_WRITE
     (acl_env [] sample_stat) [] = Ret (True, [])"
  by (rule uid_wraps_to_root [of "\<lambda>v. 65536" "(''65536'', map of_char ''65536'')" sample_settings]) (simp_all add: valued_option_def)

text \<open>An option that needs a value and is the last argument makes \<open>main\<close> read behind the arguments.\<close>
theorem last_option_without_value:
  assumes "snd a = x # c # rest" "towlower c \<in> of_char ` set ''cltugxn''"
  shows "parse_args wtoi [a] s = Fault"
  using assms by (simp add: option_letter_def del: image_insert)

theorem last_option_without_value_witness: "parse_args (\<lambda>v. 0) [(''-x'', map of_char ''-x'')] initial_settings = Fault"
  by (rule last_option_without_value [of _ "of_char CHR ''-''" "of_char CHR ''x''" "[]"]) (simp_all add: towlower_def)

section \<open>Sample directories\<close>

text \<open>A server that gives the answer \<open>res\<close>, and a directory with the given names.\<close>

definition dir_env :: "u32 \<Rightarrow> string list \<Rightarrow> env" where
  "dir_env res names = (\<lambda>h c. \<lparr>r_ret = (case c of Win_CreateFileA _ \<Rightarrow> 77 | Win_WriteFile _ m \<Rightarrow> int (length m)
       | Ceph_readdirplus _ \<Rightarrow> of_bool (count_list h c < length names)
       | Ceph_readdir _ \<Rightarrow> of_bool (count_list h c < length names) | _ \<Rightarrow> 0),
     r_stat = sample_stat, r_data = le32_bytes res @ le32_bytes 0,
     r_name = (if count_list h c < length names then names ! count_list h c else []), r_out = 5\<rparr>)"

lemma dir_env_answer: "length req \<le> 1000 \<Longrightarrow> answer (dir_env res names) h action req = res"
  by (simp add: answer_def sent_def dir_env_def ddm_message_def to_s32_id zero_padded_def msg_result_def)

lemma not_temp: "\<not> IsOfficeTempFile (''M:'' @ [backslash] @ ''f'')"
  by code_simp

definition sample_entry :: "string \<Rightarrow> reply" where
  "sample_entry name = \<lparr>r_ret = 1, r_stat = sample_stat, r_data = le32_bytes RET_NOTFOUND @ le32_bytes 0, r_name = name, r_out = 5\<rparr>"

definition sample_last :: reply where
  "sample_last = \<lparr>r_ret = 0, r_stat = sample_stat, r_data = le32_bytes RET_NOTFOUND @ le32_bytes 0, r_name = [], r_out = 5\<rparr>"

lemma sample_answers:
  assumes "count_list h (Ceph_readdirplus 5) = 0" "count_list h (Ceph_readdir 5) = 0"
  shows "answers (dir_env RET_NOTFOUND [''.'', ''a'']) h (Ceph_readdirplus 5) ([sample_entry ''.'', sample_entry ''a''] @ [sample_last])"
    "answers (dir_env RET_NOTFOUND [''.'', ''a'']) h (Ceph_readdir 5) ([sample_entry ''.'', sample_entry ''a''] @ [sample_last])"
  using assms by (simp_all add: dir_env_def sample_entry_def sample_last_def)

theorem WinCephFindFiles_lists_witness:
  "\<exists>cs. WinCephFindFiles 3 sample_driver sample_path (dir_env RET_NOTFOUND [''.'', ''a'']) [] =
     Ret ((0, map (listed sample_driver) [sample_entry ''.'', sample_entry ''a'']), cs @ [Ceph_closedir 5, Win_CloseHandle 77])"
proof -
  let ?e = "dir_env RET_NOTFOUND [''.'', ''a'']" and ?con = "Win_CreateFileA CEPH_CHANNEL_NAME"
  let ?req = "ctx_common (to_utf8 sample_driver (MountPoint sample_driver @ sample_path)) 1"
  let ?c1 = "[Win_WriteFile 77 (ddm_message DDM_READDIR ?req), Win_GetLastError]"
  let ?c2 = "[Win_ReadFile 77 8, Win_GetLastError]"
  have ret: "r_ret (?e h ?con) = 77" "r_ret (?e h Win_GetLastError) = 0" "r_ret (?e h (Win_WriteFile k m)) = int (length m)"
    "r_data (?e h c) = le32_bytes RET_NOTFOUND @ le32_bytes 0" "r_out (?e h c) = 5" "r_ret (?e h (Ceph_opendir p)) = 0" for h k m c p
    by (simp_all add: dir_env_def)
  have send: "SendDataToUI2 77 DDM_READDIR ?req ?e ([] @ [?con]) = Ret (264, ?c1)"
    by (simp add: SendDataToUI2_def PipeSend_def io_run_simps ret ddm_message_def to_s32_id)
  have recv: "ReadDataFromUI2 77 8 ?e ([] @ [?con] @ ?c1) = Ret ((8, zero_padded 8 (le32_bytes RET_NOTFOUND @ le32_bytes 0)), ?c2)"
    by (simp add: ReadDataFromUI2_def PipeReceive_def io_run_simps ret)
  have res: "msg_result (zero_padded 8 (le32_bytes RET_NOTFOUND @ le32_bytes 0)) = RET_NOTFOUND"
    by (simp add: zero_padded_def msg_result_def)
  have fit: "\<forall>r \<in> set [sample_entry ''.'', sample_entry ''a'']. 0 < r_ret r \<and> length (to_wide sample_driver (r_name r)) < MAX_PATH"
    by (simp add: sample_entry_def sample_driver_def)
  have ans: "answers ?e ([] @ [?con] @ ?c1 @ ?c2 @ [Ceph_opendir p]) (Ceph_readdirplus 5) ([sample_entry ''.'', sample_entry ''a''] @ [sample_last])" for p
    by (rule sample_answers(1)) simp_all
  show ?thesis
    using WinCephFindFiles_lists [OF sample_fits(1) ret(1) [symmetric, of "[]"] send recv res refl refl, unfolded ret,
        of "[sample_entry ''.'', sample_entry ''a'']" sample_last 3, OF refl _ _ fit] ans
    by (simp add: sample_last_def del: answers.simps)
qed

theorem WinCephDeleteDirectory_empty_witness:
  "\<exists>cs. WinCephDeleteDirectory 3 sample_driver sample_path (dir_env RET_NOTFOUND [''.'', ''a'']) [] =
     Ret (- ERROR_DIR_NOT_EMPTY, cs @ [Ceph_closedir 5])"
proof -
  let ?e = "dir_env RET_NOTFOUND [''.'', ''a'']"
  let ?c1 = "question ?e [] DDM_DELETE (ctx_common (''M:'' @ [backslash] @ ''f'') 1)"
  have del: "FileDelete (to_utf8 sample_driver (MountPoint sample_driver @ sample_path)) 1 ?e [] = Ret (True, ?c1)"
    using not_temp unfolding sample_fits by (subst FileDelete_run) (simp_all add: dir_env_answer)
  have "count_list (?c1 @ [Ceph_opendir p]) (Ceph_readdirplus 5) = 0" "count_list (?c1 @ [Ceph_opendir p]) (Ceph_readdir 5) = 0" for p
    by (simp_all add: question_def Let_def)
  then show ?thesis
    using WinCephDeleteDirectory_empty [OF sample_fits(1) del refl, of "[sample_entry ''.'', sample_entry ''a'']" sample_last 3]
      sample_answers(2) [of "?c1 @ [Ceph_opendir (name_of sample_driver sample_path)]"]
    by (auto simp: dir_env_def sample_entry_def sample_last_def)
qed

definition sample_target :: wide where
  "sample_target = [0x5C, 0x67]"

lemma target_fits: "path_fits sample_driver sample_target" "name_of sample_driver sample_target = ''/g''"
  "to_utf8 sample_driver (MountPoint sample_driver @ sample_target) = ''M:'' @ [backslash] @ ''g''"
  by (simp_all add: path_fits_def name_of_def ToLinuxFilePath_def sample_driver_def sample_target_def char_of_def bit_Suc_0_iff)

lemma not_temp_target: "\<not> IsOfficeTempFile (''M:'' @ [backslash] @ ''g'')"
  by code_simp

theorem WinCephMoveFile_guarded_witness:
  "\<exists>res cs. WinCephMoveFile sample_driver sample_path sample_target True (fresh_info 0) (dir_env RET_ALLOW []) [] = Ret (res, cs) \<and>
     Ceph_rename ''/f'' ''/g'' \<in> set cs \<and>
     (\<exists>c1 c2. cs = c1 @ c2 @ [Ceph_rename ''/f'' ''/g''] \<and>
       FileMove (''M:'' @ [backslash] @ ''f'') (''M:'' @ [backslash] @ ''g'') 0 (dir_env RET_ALLOW []) c1 = Ret (True, c2) \<and>
       answer (dir_env RET_ALLOW []) c1 (if is_rename (''M:'' @ [backslash] @ ''f'') (''M:'' @ [backslash] @ ''g'') then DDM_RENAME else DDM_MOVE)
         (ctx_rename (take MAX_PATH (''M:'' @ [backslash] @ ''f'')) (take MAX_PATH (''M:'' @ [backslash] @ ''g'')) 0) \<noteq> RET_FORBID)"
proof -
  let ?e = "dir_env RET_ALLOW []"
  define c2 where "c2 = snd (case FileMove (''M:'' @ [backslash] @ ''f'') (''M:'' @ [backslash] @ ''g'') 0 ?e [] of Ret x \<Rightarrow> x)"
  have mv: "FileMove (''M:'' @ [backslash] @ ''f'') (''M:'' @ [backslash] @ ''g'') 0 ?e [] = Ret (True, c2)"
    unfolding c2_def using not_temp not_temp_target
    by (subst (1 2) FileMove_run) (simp_all add: dir_env_answer Let_def)
  have run: "WinCephMoveFile sample_driver sample_path sample_target True (fresh_info 0) ?e [] =
      Ret (0, c2 @ [Ceph_rename ''/f'' ''/g''])"
    using mv by (simp add: WinCephMoveFile_def io_run_simps path_fits_runs [OF sample_fits(1)] path_fits_runs [OF target_fits(1)]
      sample_fits target_fits fresh_info_def) (simp add: dir_env_def)
  show ?thesis
    using WinCephMoveFile_guarded [OF sample_fits(1) target_fits(1) run, of "''/f''" "''/g''"] run not_temp not_temp_target
    by (simp add: sample_fits target_fits fresh_info_def Let_def)
qed

definition stat_env :: env where
  "stat_env = (\<lambda>h c. (fd_env h c)\<lparr>r_stat := sample_stat\<lparr>st_mode := 0x41ED, st_size := 2 ^ 33 + 5\<rparr>\<rparr>)"

theorem WinCephGetFileInformation_exact_witness:
  "\<exists>i cs. WinCephGetFileInformation sample_driver sample_path sample_open stat_env [] = Ret ((0, Some i), cs) \<and>
     info_size i = 2 ^ 33 + 5 \<and> dwFileAttributes i AND FILE_ATTRIBUTE_DIRECTORY \<noteq> 0"
proof -
  have st: "r_stat (stat_env h c) = sample_stat\<lparr>st_mode := 0x41ED, st_size := 2 ^ 33 + 5\<rparr>"
    "r_ret (stat_env h (Ceph_fstat n)) = 0" for h c n
    by (simp_all add: stat_env_def fd_env_def)
  have q: "fd (unpack_context (Context sample_open)) = 12" by (simp add: sample_open_def)
  have dir: "S_ISDIR 0x41ED" by (simp add: S_ISDIR_def)
  obtain i cs where run: "WinCephGetFileInformation sample_driver sample_path sample_open stat_env [] = Ret ((0, Some i), cs)"
    by (simp add: WinCephGetFileInformation_def io_run_simps path_fits_runs [OF sample_fits(1)] q st dir Let_def)
  show ?thesis
    using WinCephGetFileInformation_exact [OF sample_fits(1) run] run
    by (simp add: info_query_def q st dir Let_def)
qed

end
