(* ===== verification/Dokan_Client.thy ===== *)
theory Dokan_Client
imports Client_Fd Dokan_Props
begin

text \<open>
  The driver on top of the client library's descriptors: an environment in which \<open>ceph_open\<close>, \<open>ceph_close\<close>
  and \<open>ceph_unmount\<close> answer as \<open>libcephfs.cc\<close> and \<open>Client\<close> allocate and release descriptors, and all other
  answers are arbitrary.
\<close>

text \<open>
  Whether an open succeeds is up to \<open>base\<close>; the file handle is named by the number of calls before.  An
  open for which no descriptor is left aborts the process; it is answered with an error here.  The file
  system is mounted before Dokan's requests are served, and is not mounted again.
\<close>

definition client_step :: "env \<Rightarrow> call list \<Rightarrow> mount_info \<Rightarrow> call \<Rightarrow> mount_info" where
  "client_step base h mi k =
     (case k of
        Ceph_open p f m \<Rightarrow>
          if r_ret (base h k) < 0 then mi else (case ceph_open_fd mi (length h) of Ret (n, mi') \<Rightarrow> mi' | _ \<Rightarrow> mi)
      | Ceph_close n \<Rightarrow> snd (ceph_close_fd (\<lambda>_. 0) mi n)
      | Ceph_unmount \<Rightarrow> snd (ceph_unmount mi)
      | _ \<Rightarrow> mi)"

fun client_after :: "env \<Rightarrow> call list \<Rightarrow> mount_info \<Rightarrow> call list \<Rightarrow> mount_info" where
  "client_after base h mi [] = mi"
| "client_after base h mi (k # ks) = client_after base (h @ [k]) (client_step base h mi k) ks"

definition client_state :: "env \<Rightarrow> call list \<Rightarrow> mount_info" where
  "client_state base h = client_after base [] \<lparr>mounted = True, client = client_start\<rparr> h"

definition client_env :: "env \<Rightarrow> env" where
  "client_env base = (\<lambda>h k. (base h k)\<lparr>r_ret :=
     (case k of
        Ceph_open p f m \<Rightarrow>
          if r_ret (base h k) < 0 then r_ret (base h k)
          else (case ceph_open_fd (client_state base h) (length h) of Ret (n, mi') \<Rightarrow> n | _ \<Rightarrow> - 24)
      | Ceph_close n \<Rightarrow> fst (ceph_close_fd (\<lambda>_. r_ret (base h k)) (client_state base h) n)
      | Ceph_unmount \<Rightarrow> fst (ceph_unmount (client_state base h))
      | _ \<Rightarrow> r_ret (base h k))\<rparr>)"

lemma client_after_append: "client_after base h mi (ks @ ks') = client_after base (h @ ks) (client_after base h mi ks) ks'"
  by (induction ks arbitrary: h mi) simp_all

lemma client_state_snoc: "client_state base (h @ [k]) = client_step base h (client_state base h) k"
  by (simp add: client_state_def client_after_append)

lemma client_step_ok: "mount_ok mi \<Longrightarrow> mount_ok (client_step base h mi k)"
  by (cases k; rule ceph_open_fd_cases [of mi "length h"]) (auto simp: client_step_def ceph_close_fd_ok ceph_unmount_ok)

lemma client_state_ok: "mount_ok (client_state base h)"
proof (induction h rule: rev_induct)
  case Nil
  then show ?case by (simp add: client_state_def mount_ok_def client_start_ok)
qed (simp add: client_state_snoc client_step_ok)

lemma client_mounted: "mounted (client_state base h) \<longleftrightarrow> Ceph_unmount \<notin> set h"
proof (induction h rule: rev_induct)
  case (snoc k h)
  then show ?case
    by (cases k; cases rule: ceph_open_fd_cases [OF client_state_ok [of base h], of "length h"])
      (auto simp: client_state_snoc client_step_def ceph_close_fd_ok ceph_unmount_ok)
qed (simp add: client_state_def)

text \<open>What the driver has open is what the client has in its map.\<close>

lemma client_open_fds: "open_fds (client_env base) h = dom (fd_map (client (client_state base h)))"
proof (induction h rule: rev_induct)
  case Nil
  then show ?case by (simp add: open_fds_def client_state_def client_start_def)
next
  case (snoc k h)
  note ok = client_state_ok [of base h]
  show ?case
  proof (cases k)
    case (Ceph_open p f m)
    then show ?thesis
      using snoc
      by (cases rule: ceph_open_fd_cases [OF ok, of "length h"])
        (auto simp: open_fds_append client_state_snoc client_step_def client_env_def)
  next
    case (Ceph_close n)
    then show ?thesis using snoc
      by (simp add: open_fds_append client_state_snoc client_step_def ceph_close_fd_ok(3) [OF ok])
  next
    case Ceph_unmount
    have "fd_map (client (snd (ceph_unmount (client_state base h)))) = Map.empty"
      using ceph_unmount_ok [of "client_state base h"] ok by (simp add: mount_ok_def)
    then show ?thesis using Ceph_unmount by (simp add: open_fds_append client_state_snoc client_step_def)
  qed (use snoc in \<open>simp_all add: open_fds_append client_state_snoc client_step_def\<close>)
qed

lemma client_env_fresh: "fresh_fds (client_env base)"
proof -
  have "n < 0 \<or> 0 < n \<and> n < 2 ^ 31 \<and> n \<notin> open_fds (client_env base) h \<and> Ceph_unmount \<notin> set h"
    if "n = r_ret (client_env base h (Ceph_open p f m))" for n h p f m
  proof -
    have ret: "n = (if r_ret (base h (Ceph_open p f m)) < 0 then r_ret (base h (Ceph_open p f m))
        else (case ceph_open_fd (client_state base h) (length h) of Ret (n, mi') \<Rightarrow> n | _ \<Rightarrow> - 24))"
      using that by (simp add: client_env_def)
    show ?thesis
      using ret client_mounted [of base h]
      by (cases rule: ceph_open_fd_cases [OF client_state_ok [of base h], of "length h"]) (auto simp: client_open_fds)
  qed
  then show ?thesis by (simp add: fresh_fds_def Let_def)
qed

text \<open>C5: The driver and the client library agree on what is open: whatever Dokan asks, and whatever else the
  library answers, as long as the Unmount request has not been served the descriptors in the library's map
  of open files are exactly those in the contexts of Dokan's handles, and no two handles share one.  After
  Unmount, which takes every file out of the map, none is open and none is opened any more, although
  handles may still have the descriptors in their contexts.\<close>
theorem driver_and_client_agree:
  assumes "(dokan_step d (client_env base))\<^sup>*\<^sup>* start s"
  shows "dom (fd_map (client (client_state base (hist s)))) =
      (if Ceph_unmount \<in> set (hist s) then {} else ran (owned_fd s))
    \<and> inj_on (owned_fd s) (dom (owned_fd s))"
  using reachable_ok [OF assms client_env_fresh] by (simp add: handles_ok_def client_open_fds)

definition first_open :: dokan_info where
  "first_open = (fresh_info 0)\<lparr>Context := pack_context (no_fd\<lparr>fd := 10\<rparr>)\<rparr>"

lemma client_reachable:
  "(dokan_step sample_driver (client_env fd_env))\<^sup>*\<^sup>* start (opened 0 sample_path 0 first_open sample_calls start)"
proof -
  let ?e = "client_env fd_env" and ?q = "[Ceph_stat ''/f'', Win_GetFileAttributes (MountPoint sample_driver @ sample_path)]"
  have "client_state fd_env ?q = \<lparr>mounted = True, client = client_start\<rparr>" by (simp add: client_state_def client_step_def)
  then have fd: "r_ret (?e ?q (Ceph_open ''/f'' O_RDWR 0x1ED)) = 10"
    by (simp add: client_env_def ceph_open_fd_def open_fd_start) (simp add: fd_env_def)
  have st: "r_ret (?e [] (Ceph_stat ''/f'')) = 0" "S_ISREG (st_mode (r_stat (?e [] (Ceph_stat ''/f''))))"
    "r_ret (?e [Ceph_stat ''/f''] (Win_GetFileAttributes w)) = 0" for w
    by (simp_all add: client_env_def fd_env_def sample_stat_def S_ISREG_def)
  have "WinCephCreateFile sample_driver sample_path GENERIC_WRITE 0 OPEN_EXISTING 0 (fresh_info 0) ?e [] = Ret ((0, first_open), sample_calls)"
    using open_existing_run [OF sample_fits(1) _ refl, of ?e "[]" _ 0 "fresh_info 0"] fd st
    by (simp add: sample_fits first_open_def sample_calls_def) (simp add: sample_driver_def sample_path_def)
  then show ?thesis
    using step_create [of start 0 sample_driver sample_path GENERIC_WRITE 0 OPEN_EXISTING 0 0 ?e 0 first_open sample_calls]
    by (simp add: start_def)
qed

theorem driver_and_client_agree_witness:
  "dom (fd_map (client (client_state fd_env (hist (opened 0 sample_path 0 first_open sample_calls start))))) = {10}"
proof -
  have "owned_fd (opened 0 sample_path 0 first_open sample_calls start) = [0 \<mapsto> 10]"
    by (auto simp: fun_eq_iff owned_fd_def opened_def start_def first_open_def pack_eq_0_iff no_fd_def)
  moreover have "Ceph_unmount \<notin> set (hist (opened 0 sample_path 0 first_open sample_calls start))"
    by (simp add: opened_def start_def sample_calls_def)
  ultimately show ?thesis using driver_and_client_agree [OF client_reachable] by simp
qed

end
