(* ===== verification/Crush_Hash.thy ===== *)
theory Crush_Hash
  imports Ceph_Prelude
begin

text \<open>
  The 32-bit mixing hash of CRUSH (\<open>crush/hash.c\<close>).  Every placement decision draws its
  pseudo-random number here, on one to five 32-bit arguments; all arithmetic wraps at 32 bits.
\<close>

unbundle bit_operations_syntax

type_synonym mix_state = "u32 \<times> u32 \<times> u32"

text \<open>One line of the macro \<open>crush_hashmix\<close>: subtract the other two, then exclusive-or a shift.\<close>

definition mix_right :: "nat \<Rightarrow> u32 \<Rightarrow> u32 \<Rightarrow> u32 \<Rightarrow> u32" where
  "mix_right n a b c = (a - b - c) XOR drop_bit n c"

definition mix_left :: "nat \<Rightarrow> u32 \<Rightarrow> u32 \<Rightarrow> u32 \<Rightarrow> u32" where
  "mix_left n b c a = (b - c - a) XOR push_bit n a"

definition crush_hashmix :: "mix_state \<Rightarrow> mix_state" where
  "crush_hashmix = (\<lambda>(a, b, c).
     let a = mix_right 13 a b c; b = mix_left 8 b c a; c = mix_right 13 c a b;
         a = mix_right 12 a b c; b = mix_left 16 b c a; c = mix_right 5 c a b;
         a = mix_right 3 a b c; b = mix_left 10 b c a; c = mix_right 15 c a b
     in (a, b, c))"

abbreviation (input) crush_hash_seed :: u32 where "crush_hash_seed \<equiv> 1315423911"

definition crush_hash32_rjenkins1 :: "u32 \<Rightarrow> u32" where
  "crush_hash32_rjenkins1 a =
     (let hash = crush_hash_seed XOR a; b = a; x = 231232; y = 1232;
          (b, x, hash) = crush_hashmix (b, x, hash);
          (y, a, hash) = crush_hashmix (y, a, hash)
      in hash)"

definition crush_hash32_rjenkins1_2 :: "u32 \<Rightarrow> u32 \<Rightarrow> u32" where
  "crush_hash32_rjenkins1_2 a b =
     (let hash = crush_hash_seed XOR a XOR b; x = 231232; y = 1232;
          (a, b, hash) = crush_hashmix (a, b, hash);
          (x, a, hash) = crush_hashmix (x, a, hash);
          (b, y, hash) = crush_hashmix (b, y, hash)
      in hash)"

definition crush_hash32_rjenkins1_3 :: "u32 \<Rightarrow> u32 \<Rightarrow> u32 \<Rightarrow> u32" where
  "crush_hash32_rjenkins1_3 a b c =
     (let hash = crush_hash_seed XOR a XOR b XOR c; x = 231232; y = 1232;
          (a, b, hash) = crush_hashmix (a, b, hash);
          (c, x, hash) = crush_hashmix (c, x, hash);
          (y, a, hash) = crush_hashmix (y, a, hash);
          (b, x, hash) = crush_hashmix (b, x, hash);
          (y, c, hash) = crush_hashmix (y, c, hash)
      in hash)"

definition crush_hash32_rjenkins1_4 :: "u32 \<Rightarrow> u32 \<Rightarrow> u32 \<Rightarrow> u32 \<Rightarrow> u32" where
  "crush_hash32_rjenkins1_4 a b c d =
     (let hash = crush_hash_seed XOR a XOR b XOR c XOR d; x = 231232; y = 1232;
          (a, b, hash) = crush_hashmix (a, b, hash);
          (c, d, hash) = crush_hashmix (c, d, hash);
          (a, x, hash) = crush_hashmix (a, x, hash);
          (y, b, hash) = crush_hashmix (y, b, hash);
          (c, x, hash) = crush_hashmix (c, x, hash);
          (y, d, hash) = crush_hashmix (y, d, hash)
      in hash)"

definition crush_hash32_rjenkins1_5 :: "u32 \<Rightarrow> u32 \<Rightarrow> u32 \<Rightarrow> u32 \<Rightarrow> u32 \<Rightarrow> u32" where
  "crush_hash32_rjenkins1_5 a b c d e =
     (let hash = crush_hash_seed XOR a XOR b XOR c XOR d XOR e; x = 231232; y = 1232;
          (a, b, hash) = crush_hashmix (a, b, hash);
          (c, d, hash) = crush_hashmix (c, d, hash);
          (e, x, hash) = crush_hashmix (e, x, hash);
          (y, a, hash) = crush_hashmix (y, a, hash);
          (b, x, hash) = crush_hashmix (b, x, hash);
          (y, c, hash) = crush_hashmix (y, c, hash);
          (d, x, hash) = crush_hashmix (d, x, hash);
          (y, e, hash) = crush_hashmix (y, e, hash)
      in hash)"

abbreviation (input) CRUSH_HASH_RJENKINS1 :: int where "CRUSH_HASH_RJENKINS1 \<equiv> 0"

definition crush_hash32 :: "int \<Rightarrow> u32 \<Rightarrow> u32" where
  "crush_hash32 t a = (if t = CRUSH_HASH_RJENKINS1 then crush_hash32_rjenkins1 a else 0)"

definition crush_hash32_2 :: "int \<Rightarrow> u32 \<Rightarrow> u32 \<Rightarrow> u32" where
  "crush_hash32_2 t a b = (if t = CRUSH_HASH_RJENKINS1 then crush_hash32_rjenkins1_2 a b else 0)"

definition crush_hash32_3 :: "int \<Rightarrow> u32 \<Rightarrow> u32 \<Rightarrow> u32 \<Rightarrow> u32" where
  "crush_hash32_3 t a b c =
     (if t = CRUSH_HASH_RJENKINS1 then crush_hash32_rjenkins1_3 a b c else 0)"

definition crush_hash32_4 :: "int \<Rightarrow> u32 \<Rightarrow> u32 \<Rightarrow> u32 \<Rightarrow> u32 \<Rightarrow> u32" where
  "crush_hash32_4 t a b c d =
     (if t = CRUSH_HASH_RJENKINS1 then crush_hash32_rjenkins1_4 a b c d else 0)"

definition crush_hash32_5 :: "int \<Rightarrow> u32 \<Rightarrow> u32 \<Rightarrow> u32 \<Rightarrow> u32 \<Rightarrow> u32 \<Rightarrow> u32" where
  "crush_hash32_5 t a b c d e =
     (if t = CRUSH_HASH_RJENKINS1 then crush_hash32_rjenkins1_5 a b c d e else 0)"

definition crush_hash_name :: "int \<Rightarrow> string" where
  "crush_hash_name t = (if t = CRUSH_HASH_RJENKINS1 then ''rjenkins1'' else ''unknown'')"

section \<open>The mixing step loses no information\<close>

text \<open>Undoing the nine lines in reverse order.\<close>

definition unmix_right :: "nat \<Rightarrow> u32 \<Rightarrow> u32 \<Rightarrow> u32 \<Rightarrow> u32" where
  "unmix_right n a b c = (a XOR drop_bit n c) + c + b"

definition unmix_left :: "nat \<Rightarrow> u32 \<Rightarrow> u32 \<Rightarrow> u32 \<Rightarrow> u32" where
  "unmix_left n b c a = (b XOR push_bit n a) + a + c"

definition hash_unmix :: "mix_state \<Rightarrow> mix_state" where
  "hash_unmix = (\<lambda>(a, b, c).
     let c = unmix_right 15 c a b; b = unmix_left 10 b c a; a = unmix_right 3 a b c;
         c = unmix_right 5 c a b; b = unmix_left 16 b c a; a = unmix_right 12 a b c;
         c = unmix_right 13 c a b; b = unmix_left 8 b c a; a = unmix_right 13 a b c
     in (a, b, c))"

lemma unmix_mix [ceph_simps]:
  "unmix_right n (mix_right n a b c) b c = a"
  "unmix_left n (mix_left n b c a) c a = b"
  "mix_right n (unmix_right n a b c) b c = a"
  "mix_left n (unmix_left n b c a) c a = b"
  by (simp_all add: unmix_right_def mix_right_def unmix_left_def mix_left_def xor.assoc)

lemma hash_unmix_mix: "hash_unmix (crush_hashmix s) = s"
  by (cases s) (simp add: hash_unmix_def crush_hashmix_def Let_def unmix_mix)

lemma hash_mix_unmix: "crush_hashmix (hash_unmix s) = s"
  by (cases s) (simp add: hash_unmix_def crush_hashmix_def Let_def unmix_mix)

text \<open>The mixing macro is a bijection of the 96-bit state, so no round of any of the five
  hashes throws input entropy away.\<close>
theorem crush_hashmix_bij: "bij crush_hashmix"
  by (rule o_bij [of hash_unmix]) (simp_all add: fun_eq_iff hash_unmix_mix hash_mix_unmix)

end
