(* ===== verification/Crush_Types.thy ===== *)
theory Crush_Types
  imports Crush_Hash
begin

text \<open>
  The data of CRUSH (\<open>crush/crush.h\<close>, \<open>crush/crush.c\<close>): buckets of five algorithms, rules and
  the map that holds them, with the helpers every other CRUSH component uses.

  An array and the count the code believes it to have are separate here, as they are in C: an
  operation that reads past the array is a \<open>Fault\<close>.  Item identifiers are signed 32-bit values kept
  as integers; weights are 16.16 fixed-point numbers of 32 bits.
\<close>

unbundle bit_operations_syntax

section \<open>Buckets\<close>

text \<open>The part of a bucket that depends on its algorithm.\<close>

datatype bucket_alg =
    Uniform (item_weight: u32)
  | ListAlg (item_weights: "u32 list") (sum_weights: "u32 list")
  | TreeAlg (num_nodes: u8) (node_weights: "u32 list")
  | Straw (item_weights: "u32 list") (straws: "u32 list")
  | Straw2 (item_weights: "u32 list")
  | OtherAlg u8

record crush_bucket =
  b_id :: int
  b_type :: u16
  b_hash :: u8
  b_weight :: u32
  b_size :: nat
  b_items :: "int list"
  b_perm_x :: u32
  b_perm_n :: nat
  b_perm :: "nat list"
  b_alg :: bucket_alg

section \<open>Rules and maps\<close>

record crush_rule_step =
  op :: u32
  arg1 :: int
  arg2 :: int

record crush_rule_mask =
  ruleset :: u8
  mask_type :: u8
  min_size :: u8
  max_size :: u8

record crush_rule =
  rule_len :: nat
  rule_mask :: crush_rule_mask
  steps :: "crush_rule_step list"

abbreviation (input) CRUSH_RULE_NOOP :: u32 where "CRUSH_RULE_NOOP \<equiv> 0"
abbreviation (input) CRUSH_RULE_TAKE :: u32 where "CRUSH_RULE_TAKE \<equiv> 1"
abbreviation (input) CRUSH_RULE_CHOOSE_FIRSTN :: u32 where "CRUSH_RULE_CHOOSE_FIRSTN \<equiv> 2"
abbreviation (input) CRUSH_RULE_CHOOSE_INDEP :: u32 where "CRUSH_RULE_CHOOSE_INDEP \<equiv> 3"
abbreviation (input) CRUSH_RULE_EMIT :: u32 where "CRUSH_RULE_EMIT \<equiv> 4"
abbreviation (input) CRUSH_RULE_CHOOSELEAF_FIRSTN :: u32 where "CRUSH_RULE_CHOOSELEAF_FIRSTN \<equiv> 6"
abbreviation (input) CRUSH_RULE_CHOOSELEAF_INDEP :: u32 where "CRUSH_RULE_CHOOSELEAF_INDEP \<equiv> 7"
abbreviation (input) CRUSH_RULE_SET_CHOOSE_TRIES :: u32 where "CRUSH_RULE_SET_CHOOSE_TRIES \<equiv> 8"
abbreviation (input) CRUSH_RULE_SET_CHOOSELEAF_TRIES :: u32 where "CRUSH_RULE_SET_CHOOSELEAF_TRIES \<equiv> 9"
abbreviation (input) CRUSH_RULE_SET_CHOOSE_LOCAL_TRIES :: u32 where
  "CRUSH_RULE_SET_CHOOSE_LOCAL_TRIES \<equiv> 10"
abbreviation (input) CRUSH_RULE_SET_CHOOSE_LOCAL_FALLBACK_TRIES :: u32 where
  "CRUSH_RULE_SET_CHOOSE_LOCAL_FALLBACK_TRIES \<equiv> 11"
abbreviation (input) CRUSH_RULE_SET_CHOOSELEAF_VARY_R :: u32 where
  "CRUSH_RULE_SET_CHOOSELEAF_VARY_R \<equiv> 12"

abbreviation (input) CRUSH_MAX_RULES :: nat where "CRUSH_MAX_RULES \<equiv> 256"
abbreviation (input) CRUSH_ITEM_UNDEF :: int where "CRUSH_ITEM_UNDEF \<equiv> 0x7ffffffe"
abbreviation (input) CRUSH_ITEM_NONE :: int where "CRUSH_ITEM_NONE \<equiv> 0x7fffffff"

record crush_map =
  buckets :: "crush_bucket option list"
  rules :: "crush_rule option list"
  max_buckets :: int
  max_rules :: nat
  max_devices :: int
  choose_local_tries :: nat
  choose_local_fallback_tries :: nat
  choose_total_tries :: nat
  chooseleaf_descend_once :: nat
  chooseleaf_vary_r :: nat
  straw_calc_version :: nat
  allowed_bucket_algs :: u32
  choose_tries :: "u32 list option"

text \<open>\<open>map->buckets[-1-id]\<close>, dereferenced: a fault outside the array and on an empty slot.\<close>

definition get_bucket :: "crush_map \<Rightarrow> int \<Rightarrow> crush_bucket exec" where
  "get_bucket m i = exec_bind (arr_get (buckets m) (- 1 - i))
     (\<lambda>b. case b of None \<Rightarrow> Fault | Some b \<Rightarrow> Ret b)"

definition put_bucket :: "crush_map \<Rightarrow> int \<Rightarrow> crush_bucket \<Rightarrow> crush_map" where
  "put_bucket m i b = m\<lparr>buckets := (buckets m)[nat (- 1 - i) := Some b]\<rparr>"

section \<open>Helpers of crush.c\<close>

definition alg_code :: "bucket_alg \<Rightarrow> int" where
  "alg_code a = (case a of Uniform _ \<Rightarrow> 1 | ListAlg _ _ \<Rightarrow> 2 | TreeAlg _ _ \<Rightarrow> 3 | Straw _ _ \<Rightarrow> 4
     | Straw2 _ \<Rightarrow> 5 | OtherAlg n \<Rightarrow> uint n)"

definition crush_bucket_alg_name :: "int \<Rightarrow> string" where
  "crush_bucket_alg_name alg =
     (if alg = 1 then ''uniform'' else if alg = 2 then ''list'' else if alg = 3 then ''tree''
      else if alg = 4 then ''straw'' else if alg = 5 then ''straw2'' else ''unknown'')"

definition crush_calc_tree_node :: "nat \<Rightarrow> nat" where
  "crush_calc_tree_node i = ((i + 1) * 2) - 1"

definition crush_get_bucket_item_weight :: "crush_bucket \<Rightarrow> int \<Rightarrow> int exec" where
  "crush_get_bucket_item_weight b p =
     (let i = uint (word_of_int p :: u32);
          ret = (\<lambda>w. Ret (to_s32 (uint (w :: u32)))) in
      if i \<ge> int (b_size b) then Ret 0
      else case b_alg b of
        Uniform w \<Rightarrow> ret w
      | ListAlg ws _ \<Rightarrow> exec_bind (arr_get ws i) ret
      | TreeAlg _ ws \<Rightarrow> exec_bind (arr_get ws (int (crush_calc_tree_node (nat i)))) ret
      | Straw ws _ \<Rightarrow> exec_bind (arr_get ws i) ret
      | Straw2 ws \<Rightarrow> exec_bind (arr_get ws i) ret
      | OtherAlg _ \<Rightarrow> Ret 0)"

definition crush_addition_is_unsafe :: "u32 \<Rightarrow> u32 \<Rightarrow> bool" where
  "crush_addition_is_unsafe a b \<longleftrightarrow> - 1 - b < a"

definition crush_multiplication_is_unsafe :: "u32 \<Rightarrow> u32 \<Rightarrow> bool" where
  "crush_multiplication_is_unsafe a b \<longleftrightarrow> b = 0 \<or> (- 1) div b < a"

section \<open>The overflow checks are exact\<close>

lemma uint_minus_one_minus: "uint (- 1 - b :: u32) = 2 ^ 32 - 1 - uint b"
proof -
  have "uint b \<le> 2 ^ 32 - 1" "0 \<le> uint b" using uint_range_size [of b] by (simp_all add: word_size)
  then have "(2 ^ 32 - 1 - uint b) mod 2 ^ 32 = 2 ^ 32 - 1 - uint b"
    by (intro mod_pos_pos_trivial) linarith+
  then show ?thesis by (simp add: uint_word_ariths)
qed

lemma addition_unsafe_iff: "crush_addition_is_unsafe a b \<longleftrightarrow> 2 ^ 32 \<le> uint a + uint b"
  by (auto simp: crush_addition_is_unsafe_def word_less_def uint_minus_one_minus)

lemma addition_safe_uint: "\<not> crush_addition_is_unsafe a b \<Longrightarrow> uint (a + b) = uint a + uint b"
  by (simp add: addition_unsafe_iff uint_word_ariths)

lemma multiplication_unsafe_iff:
  "crush_multiplication_is_unsafe a b \<longleftrightarrow> b = 0 \<or> 2 ^ 32 \<le> uint a * uint b"
proof (cases "b = 0")
  case False
  then have "0 < uint b" by (metis uint_0_iff uint_ge_0 order_le_less)
  moreover have "uint (- 1 div b :: u32) = (2 ^ 32 - 1) div uint b"
    by (simp add: uint_div unsigned_minus_1_eq_mask mask_eq_exp_minus_1)
  ultimately show ?thesis
    using False by (simp add: crush_multiplication_is_unsafe_def word_less_def div_less_iff_mult) linarith
qed (simp add: crush_multiplication_is_unsafe_def)

end
