(* ===== verification/Crush_Ln.thy ===== *)
theory Crush_Ln
  imports Ceph_Prelude
begin

text \<open>
  The fixed-point logarithm of straw2 buckets: the tables of \<open>crush/crush_ln_table.h\<close> and
  \<open>crush_ln\<close> of \<open>crush/mapper.c\<close>.
\<close>

unbundle bit_operations_syntax

section \<open>Tables\<close>

definition RH_LH_tbl :: "int list" where
  "RH_LH_tbl =
   [0x1000000000000, 0x0, 0xfe03f80fe040, 0x2dfca16dde1, 0xfc0fc0fc0fc1,
     0x5b9e5a170b4, 0xfa232cf25214, 0x88e68ea899a, 0xf83e0f83e0f9, 0xb5d69bac77e,
     0xf6603d980f67, 0xe26fd5c8555, 0xf4898d5f85bc, 0x10eb389fa29f, 0xf2b9d6480f2c,
     0x13aa2fdd27f1, 0xf0f0f0f0f0f1, 0x1663f6fac913, 0xef2eb71fc435, 0x1918a16e4633,
     0xed7303b5cc0f, 0x1bc84240adab, 0xebbdb2a5c162, 0x1e72ec117fa5, 0xea0ea0ea0ea1,
     0x2118b119b4f3, 0xe865ac7b7604, 0x23b9a32eaa56, 0xe6c2b4481cd9, 0x2655d3c4f15c,
     0xe525982af70d, 0x28ed53f307ee, 0xe38e38e38e39, 0x2b803473f7ad, 0xe1fc780e1fc8,
     0x2e0e85a9de04, 0xe070381c0e08, 0x309857a05e07, 0xdee95c4ca038, 0x331dba0efce1,
     0xdd67c8a60dd7, 0x359ebc5b69d9, 0xdbeb61eed19d, 0x381b6d9bb29b, 0xda740da740db,
     0x3a93dc9864b2, 0xd901b2036407, 0x3d0817ce9cd4, 0xd79435e50d7a, 0x3f782d7204d0,
     0xd62b80d62b81, 0x41e42b6ec0c0, 0xd4c77b03531e, 0x444c1f6b4c2d, 0xd3680d3680d4,
     0x46b016ca47c1, 0xd20d20d20d21, 0x49101eac381c, 0xd0b69fcbd259, 0x4b6c43f1366a,
     0xcf6474a8819f, 0x4dc4933a9337, 0xce168a772509, 0x501918ec6c11, 0xcccccccccccd,
     0x5269e12f346e, 0xcb8727c065c4, 0x54b6f7f1325a, 0xca4587e6b750, 0x570068e7ef5a,
     0xc907da4e8712, 0x59463f919dee, 0xc7ce0c7ce0c8, 0x5b8887367433, 0xc6980c6980c7,
     0x5dc74ae9fbec, 0xc565c87b5f9e, 0x6002958c5871, 0xc4372f855d83, 0x623a71cb82c8,
     0xc30c30c30c31, 0x646eea247c5c, 0xc1e4bbd595f7, 0x66a008e4788c, 0xc0c0c0c0c0c1,
     0x68cdd829fd81, 0xbfa02fe80bfb, 0x6af861e5fc7d, 0xbe82fa0be830, 0x6d1fafdce20a,
     0xbd6910470767, 0x6f43cba79e40, 0xbc52640bc527, 0x7164beb4a56d, 0xbb3ee721a54e,
     0x73829248e961, 0xba2e8ba2e8bb, 0x759d4f80cba8, 0xb92143fa36f6, 0x77b4ff5108d9,
     0xb81702e05c0c, 0x79c9aa879d53, 0xb70fbb5a19bf, 0x7bdb59cca388, 0xb60b60b60b61,
     0x7dea15a32c1b, 0xb509e68a9b95, 0x7ff5e66a0ffe, 0xb40b40b40b41, 0x81fed45cbccb,
     0xb30f63528918, 0x8404e793fb81, 0xb21642c8590c, 0x86082806b1d5, 0xb11fd3b80b12,
     0x88089d8a9e47, 0xb02c0b02c0b1, 0x8a064fd50f2a, 0xaf3addc680b0, 0x8c01467b94bb,
     0xae4c415c9883, 0x8df988f4ae80, 0xad602b580ad7, 0x8fef1e987409, 0xac7691840ac8,
     0x91e20ea1393e, 0xab8f69e2835a, 0x93d2602c2e5f, 0xaaaaaaaaaaab, 0x95c01a39fbd6,
     0xa9c84a47a080, 0x97ab43af59f9, 0xa8e83f5717c1, 0x9993e355a4e5, 0xa80a80a80a81,
     0x9b79ffdb6c8b, 0xa72f0539782a, 0x9d5d9fd5010b, 0xa655c4392d7c, 0x9f3ec9bcfb80,
     0xa57eb50295fb, 0xa11d83f4c355, 0xa4a9cf1d9684, 0xa2f9d4c51039, 0xa3d70a3d70a4,
     0xa4d3c25e68dc, 0xa3065e3fae7d, 0xa6ab52d99e76, 0xa237c32b16d0, 0xa8808c384547,
     0xa16b312ea8fd, 0xaa5374652a1c, 0xa0a0a0a0a0a1, 0xac241134c4e9, 0x9fd809fd80a0,
     0xadf26865a8a1, 0x9f1165e72549, 0xafbe7fa0f04d, 0x9e4cad23dd60, 0xb1885c7aa982,
     0x9d89d89d89d9, 0xb35004723c46, 0x9cc8e160c3fc, 0xb5157cf2d078, 0x9c09c09c09c1,
     0xb6d8cb53b0ca, 0x9b4c6f9ef03b, 0xb899f4d8ab63, 0x9a90e7d95bc7, 0xba58feb2703a,
     0x99d722dabde6, 0xbc15edfeed32, 0x991f1a515886, 0xbdd0c7c9a817, 0x9868c809868d,
     0xbf89910c1678, 0x97b425ed097c, 0xc1404eadf383, 0x97012e025c05, 0xc2f5058593d9,
     0x964fda6c0965, 0xc4a7ba58377c, 0x95a02568095b, 0xc65871da59dd, 0x94f2094f2095,
     0xc80730b00016, 0x944580944581, 0xc9b3fb6d0559, 0x939a85c4093a, 0xcb5ed69565af,
     0x92f113840498, 0xcd07c69d8702, 0x924924924925, 0xceaecfea8085, 0x91a2b3c4d5e7,
     0xd053f6d26089, 0x90fdbc090fdc, 0xd1f73f9c70c0, 0x905a38633e07, 0xd398ae817906,
     0x8fb823ee08fc, 0xd53847ac00a6, 0x8f1779d9fdc4, 0xd6d60f388e41, 0x8e78356d1409,
     0xd8720935e643, 0x8dda5202376a, 0xda0c39a54804, 0x8d3dcb08d3dd, 0xdba4a47aa996,
     0x8ca29c046515, 0xdd3b4d9cf24b, 0x8c08c08c08c1, 0xded038e633f3, 0x8b70344a139c,
     0xe0636a23e2ee, 0x8ad8f2fba939, 0xe1f4e5170d02, 0x8a42f870566a, 0xe384ad748f0e,
     0x89ae4089ae41, 0xe512c6e54998, 0x891ac73ae982, 0xe69f35065448, 0x888888888889,
     0xe829fb693044, 0x87f78087f781, 0xe9b31d93f98e, 0x8767ab5f34e5, 0xeb3a9f019750,
     0x86d905447a35, 0xecc08321eb30, 0x864b8a7de6d2, 0xee44cd59ffab, 0x85bf37612cef,
     0xefc781043579, 0x853408534086, 0xf148a170700a, 0x84a9f9c8084b, 0xf2c831e44116,
     0x842108421085, 0xf446359b1353, 0x839930523fbf, 0xf5c2afc65447, 0x83126e978d50,
     0xf73da38d9d4a, 0x828cbfbeb9a1, 0xf8b7140edbb1, 0x820820820821, 0xfa2f045e7832,
     0x81848da8faf1, 0xfba577877d7d, 0x810204081021, 0xfd1a708bbe11, 0x808080808081,
     0xfe8df263f957, 0x800000000000, 0xffff00000000]"

definition LL_tbl :: "int list" where
  "LL_tbl =
   [0x0, 0x2e2a60a00, 0x70cb64ec5, 0x9ef50ce67, 0xcd1e588fd,
     0xfb4747e9c, 0x1296fdaf5e, 0x1579811b58, 0x185bfec2a1, 0x1b3e76a552,
     0x1e20e8c380, 0x2103551d43, 0x23e5bbb2b2, 0x26c81c83e4, 0x29aa7790f0,
     0x2c8cccd9ed, 0x2f6f1c5ef2, 0x3251662017, 0x3533aa1d71, 0x3815e8571a,
     0x3af820cd26, 0x3dda537fae, 0x40bc806ec8, 0x439ea79a8c, 0x4680c90310,
     0x4962e4a86c, 0x4c44fa8ab6, 0x4f270aaa06, 0x5209150672, 0x54eb19a013,
     0x57cd1876fd, 0x5aaf118b4a, 0x5d9104dd0f, 0x6072f26c64, 0x6354da3960,
     0x6636bc441a, 0x6918988ca8, 0x6bfa6f1322, 0x6edc3fd79f, 0x71be0ada35,
     0x749fd01afd, 0x77818f9a0c, 0x7a6349577a, 0x7d44fd535e, 0x8026ab8dce,
     0x83085406e3, 0x85e9f6beb2, 0x88cb93b552, 0x8bad2aeadc, 0x8e8ebc5f65,
     0x9170481305, 0x9451ce05d3, 0x97334e37e5, 0x9a14c8a953, 0x9cf63d5a33,
     0x9fd7ac4a9d, 0xa2b07f3458, 0xa59a78ea6a, 0xa87bd699fb, 0xab5d2e8970,
     0xae3e80b8e3, 0xb11fcd2869, 0xb40113d818, 0xb6e254c80a, 0xb9c38ff853,
     0xbca4c5690c, 0xbf85f51a4a, 0xc2671f0c26, 0xc548433eb6, 0xc82961b211,
     0xcb0a7a664d, 0xcdeb8d5b82, 0xd0cc9a91c8, 0xd3ada20933, 0xd68ea3c1dd,
     0xd96f9fbbdb, 0xdc5095f744, 0xdf31867430, 0xe2127132b5, 0xe4f35632ea,
     0xe7d43574e6, 0xeab50ef8c1, 0xed95e2be90, 0xf076b0c66c, 0xf35779106a,
     0xf6383b9ca2, 0xf918f86b2a, 0xfbf9af7c1a, 0xfeda60cf88, 0x101bb0c658c,
     0x1049bb23e3c, 0x1077c5259af, 0x10a5cecb7fc, 0x10d3d81593a, 0x1101e103d7f,
     0x112fe9964e4, 0x115df1ccf7e, 0x118bf9a7d64, 0x11ba0126ead, 0x11e8084a371,
     0x12160f11bc6, 0x1244157d7c3, 0x12721b8d77f, 0x12a02141b10, 0x12ce269a28e,
     0x12fc2b96e0f, 0x132a3037daa, 0x1358347d177, 0x1386386698c, 0x13b43bf45ff,
     0x13e23f266e9, 0x141041fcc5e, 0x143e4477678, 0x146c469654b, 0x149a48598f0,
     0x14c849c117c, 0x14f64accf08, 0x15244b7d1a9, 0x15524bd1976, 0x15804bca687,
     0x15ae4b678f2, 0x15dc4aa90ce, 0x160a498ee31, 0x16384819134, 0x166646479ec,
     0x1694441a870, 0x16c24191cd7, 0x16df6ca19bd, 0x171e3b6d7aa, 0x174c37d1e44,
     0x177a33dab1c, 0x17a82f87e49, 0x17d62ad97e2, 0x180425cf7fe, 0x182b07f3458,
     0x18601aa8c19, 0x188e148c046, 0x18bc0e13b52, 0x18ea073fd52, 0x1918001065d,
     0x1945f88568b, 0x1973f09edf2, 0x19a1e85ccaa, 0x19cfdfbf2c8, 0x19fdd6c6063,
     0x1a2bcd71593, 0x1a59c3c126e, 0x1a87b9b570b, 0x1ab5af4e380, 0x1ae3a48b7e5,
     0x1b11996d450, 0x1b3f8df38d9, 0x1b6d821e595, 0x1b9b75eda9b, 0x1bc96961803,
     0x1bf75c79de3, 0x1c254f36c51, 0x1c534198365, 0x1c81339e336, 0x1caf2548bd9,
     0x1cdd1697d67, 0x1d0b078b7f5, 0x1d38f823b9a, 0x1d66e86086d, 0x1d94d841e86,
     0x1dc2c7c7df9, 0x1df0b6f26df, 0x1e1ea5c194e, 0x1e4c943555d, 0x1e7a824db23,
     0x1ea8700aab5, 0x1ed65d6c42b, 0x1f044a7279d, 0x1f32371d51f, 0x1f60236ccca,
     0x1f8e0f60eb3, 0x1fbbfaf9af3, 0x1fe9e63719e, 0x2017d1192cc, 0x2045bb9fe94,
     0x2073a5cb50d, 0x209c06e6212, 0x20cf791026a, 0x20fd622997c, 0x212b07f3458,
     0x2159334a8d8, 0x21871b52150, 0x21b502fe517, 0x21d6a73a78f, 0x2210d144eee,
     0x223eb7df52c, 0x226c9e1e713, 0x229a84024bb, 0x22c23679b4e, 0x22f64eb83a8,
     0x2324338a51b, 0x235218012a9, 0x237ffc1cc69, 0x23a2c3b0ea4, 0x23d13ee805b,
     0x24035e9221f, 0x243788faf25, 0x24656b4e735, 0x247ed646bfe, 0x24c12ee3d98,
     0x24ef1025c1a, 0x251cf10c799, 0x25492644d65, 0x2578b1c85ee, 0x25a6919d8f0,
     0x25d13ee805b, 0x26025036716, 0x26296453882, 0x265e0d62b53, 0x268beb701f3,
     0x26b9c92265e, 0x26d32f798a9, 0x271583758eb, 0x2743601673b, 0x27713c5c3b0,
     0x279f1846e5f, 0x27ccf3d6761, 0x27e6580aecb, 0x2828a9e44b3, 0x28568462932,
     0x287bdbf5255, 0x28b2384de4a, 0x28d13ee805b, 0x29035e9221f, 0x29296453882,
     0x29699bdfb61, 0x29902a37aab, 0x29c54b864c9, 0x29deabd1083, 0x2a20f9c0bb5,
     0x2a4c7605d61, 0x2a7bdbf5255, 0x2a96056dafc, 0x2ac3daf14ef, 0x2af1b019eca,
     0x2b296453882, 0x2b5d022d80f, 0x2b8fa471cb3, 0x2ba9012e713, 0x2bd6d4901cc,
     0x2c04a796cf6, 0x2c327a428a6, 0x2c61a5e8f4c, 0x2c8e1e891f6, 0x2cbbf023fc2,
     0x2ce9c163e6e, 0x2d179248e13, 0x2d4562d2ec6, 0x2d73330209d, 0x2da102d63b0,
     0x2dced24f814]"

section \<open>The logarithm\<close>

text \<open>
  The normalising loop shifts until bit 15 or 16 is set.  On a 32-bit value it either finds such a
  bit within 32 rounds or shifts zeros for ever, so 32 rounds of fuel lose nothing.
\<close>

fun ln_normalize :: "nat \<Rightarrow> u32 \<Rightarrow> int \<Rightarrow> (u32 \<times> int) exec" where
  "ln_normalize 0 x e = NoFuel"
| "ln_normalize (Suc n) x e =
     (if x AND 0x18000 = 0 then ln_normalize n (push_bit 1 x) (e - 1) else Ret (x, e))"

definition crush_ln :: "u32 \<Rightarrow> u64 exec" where
  "crush_ln xin =
     exec_bind (ln_normalize 32 (xin + 1) 15) (\<lambda>(x, iexpon).
       let index1 = int (unat (drop_bit 8 x)) * 2 in
       exec_bind (arr_get RH_LH_tbl (index1 - 256)) (\<lambda>RH.
       exec_bind (arr_get RH_LH_tbl (index1 + 1 - 256)) (\<lambda>LH.
         let xl64 = drop_bit 48 (ucast x * word_of_int RH);
             index2 = unat (xl64 AND 0xff :: u64) in
         exec_bind (arr_get LL_tbl (int index2)) (\<lambda>LL.
           Ret (push_bit 44 (word_of_int iexpon) + drop_bit 4 (word_of_int LH + word_of_int LL))))))"

lemma length_tbl: "length RH_LH_tbl = 258" "length LL_tbl = 256"
  by (simp_all add: RH_LH_tbl_def LL_tbl_def)

fun LL_bounded :: "int \<Rightarrow> int list \<Rightarrow> bool" where
  "LL_bounded b [] = True"
| "LL_bounded b (x # xs) = (0 \<le> x \<and> x \<le> b \<and> LL_bounded (b + 12345000000) xs)"

lemma LL_tbl_bounded: "LL_bounded 8600000000 LL_tbl"
  by (simp add: LL_tbl_def)

lemma LL_bounded_nth:
  "LL_bounded b xs \<Longrightarrow> j < length xs \<Longrightarrow> 0 \<le> xs ! j \<and> xs ! j \<le> b + 12345000000 * int j"
proof (induction xs arbitrary: b j)
  case (Cons x xs)
  then show ?case
    by (cases j) (use Cons.IH [of "b + 12345000000" "j - 1"] in \<open>auto simp: algebra_simps\<close>)
qed simp

fun rows_ok :: "int \<Rightarrow> int list \<Rightarrow> bool" where
  "rows_ok k (RH # LH # rest) =
     (let hi = (256 * k + 255) * RH div 2 ^ 48 in
      2 ^ 63 \<le> 256 * k * RH \<and> hi < 2 ^ 15 + 2 ^ 8 \<and> 0 \<le> LH
       \<and> LH + 12345000000 * (hi - 2 ^ 15) + 8600000000 < 2 ^ 48 \<and> rows_ok (k + 1) rest)"
| "rows_ok k _ = True"

lemma rows_tbl: "rows_ok 128 (take 256 RH_LH_tbl)"
  by (simp add: RH_LH_tbl_def)

lemma rows_ok_nth:
  "rows_ok k xs \<Longrightarrow> 2 * i + 1 < length xs \<Longrightarrow>
   let RH = xs ! (2 * i); LH = xs ! (2 * i + 1); k = k + int i;
       hi = (256 * k + 255) * RH div 2 ^ 48 in
     2 ^ 63 \<le> 256 * k * RH \<and> hi < 2 ^ 15 + 2 ^ 8 \<and> 0 \<le> LH
       \<and> LH + 12345000000 * (hi - 2 ^ 15) + 8600000000 < 2 ^ 48"
proof (induction k xs arbitrary: i rule: rows_ok.induct)
  case (1 k RH LH rest)
  show ?case
  proof (cases i)
    case 0
    then show ?thesis using "1.prems" by (simp add: Let_def)
  next
    case (Suc j)
    have "rows_ok (k + 1) rest" using "1.prems" by (simp add: Let_def)
    from "1.IH" [OF refl this, of j] show ?thesis
      using "1.prems" Suc by (simp add: Let_def add.assoc)
  qed
qed auto

lemma and_0x18000: "(a :: int) AND 0x18000 = 0x8000 * (a div 0x8000 mod 4)"
proof -
  have "a AND 0x18000 = a AND push_bit 15 (mask 2)" by (simp add: push_bit_eq_mult mask_eq_exp_minus_1)
  also have "\<dots> = push_bit 15 (take_bit 2 (drop_bit 15 a))"
    by (rule bit_eqI) (auto simp: bit_simps)
  finally show ?thesis by (simp add: push_bit_eq_mult take_bit_eq_mod drop_bit_eq_div)
qed

lemma normal_bits:
  fixes x :: u32
  assumes "uint x \<le> 2 ^ 16"
  shows "x AND 0x18000 = 0 \<longleftrightarrow> uint x < 2 ^ 15"
proof -
  have "x AND 0x18000 = 0 \<longleftrightarrow> uint x AND 0x18000 = 0"
    by (simp add: uint_and flip: uint_0_iff)
  also have "\<dots> \<longleftrightarrow> uint x div 0x8000 mod 4 = 0" by (simp add: and_0x18000)
  also have "\<dots> \<longleftrightarrow> uint x div 0x8000 = 0"
    using assms by (subst mod_pos_pos_trivial) (simp_all add: div_less_iff_mult pos_imp_zdiv_nonneg_iff)
  also have "\<dots> \<longleftrightarrow> uint x < 2 ^ 15" using uint_ge_0 [of x] by (auto simp: zdiv_eq_0_iff)
  finally show ?thesis .
qed

lemma ln_normalize_ends:
  "uint x \<le> 2 ^ 16 \<Longrightarrow> 2 ^ 15 \<le> uint x * 2 ^ m \<Longrightarrow> m < n \<Longrightarrow>
   \<exists>x' k. ln_normalize n x e = Ret (x', e - int k) \<and> k \<le> m \<and> 2 ^ 15 \<le> uint x' \<and> uint x' \<le> 2 ^ 16"
proof (induction m arbitrary: x e n)
  case 0
  then show ?case using normal_bits [of x] by (cases n) auto
next
  case (Suc m)
  then obtain n' where n': "n = Suc n'" "m < n'" by (cases n) auto
  show ?case
  proof (cases "uint x < 2 ^ 15")
    case True
    have p: "uint (x * 2) = 2 * uint x"
      using True by (simp add: uint_word_ariths)
    have "\<exists>x' k. ln_normalize n' (push_bit 1 x) (e - 1) = Ret (x', e - 1 - int k) \<and> k \<le> m \<and>
        2 ^ 15 \<le> uint x' \<and> uint x' \<le> 2 ^ 16"
      using Suc.prems True n'(2) by (intro Suc.IH) (simp_all add: p algebra_simps)
    then obtain x' k where "ln_normalize n' (push_bit 1 x) (e - 1) = Ret (x', e - 1 - int k)"
      "k \<le> m" "2 ^ 15 \<le> uint x'" "uint x' \<le> 2 ^ 16" by blast
    then show ?thesis using True Suc.prems(1) normal_bits [of x] n'(1)
      by (intro exI [of _ x'] exI [of _ "Suc k"]) simp
  next
    case False
    then show ?thesis using Suc.prems(1) normal_bits [of x] n'(1) by auto
  qed
qed

lemma ln_row:
  fixes x :: u32
  assumes "2 ^ 15 \<le> uint x" "uint x < 2 ^ 16"
  defines "i \<equiv> nat (uint x div 256 - 128)"
  defines "RH \<equiv> RH_LH_tbl ! (2 * i)" and "LH \<equiv> RH_LH_tbl ! (2 * i + 1)"
  defines "q \<equiv> uint x * RH div 2 ^ 48"
  shows "i < 128" "unat (drop_bit 8 x) = i + 128" "2 ^ 15 \<le> q" "q < 2 ^ 15 + 2 ^ 8"
    "0 \<le> LH" "LH + 12345000000 * (q - 2 ^ 15) + 8600000000 < 2 ^ 48" "0 \<le> RH" "uint x * RH < 2 ^ 64"
proof -
  define k where "k = 128 + int i"
  have k: "k = uint x div 256" using assms(1) unfolding k_def i_def by simp
  show i: "i < 128" using assms(1,2) unfolding i_def by simp
  show "unat (drop_bit 8 x) = i + 128"
  proof -
    have "int (unat (drop_bit 8 x)) = uint x div 2 ^ 8"
      by (simp only: uint_nat [symmetric] uint_drop_bit)
    then have "int (unat (drop_bit 8 x)) = int (i + 128)" using k by (simp add: k_def)
    then show ?thesis by linarith
  qed
  have nth: "take 256 RH_LH_tbl ! (2 * i) = RH" "take 256 RH_LH_tbl ! (2 * i + 1) = LH"
    using i by (simp_all add: RH_def LH_def)
  have len: "2 * i + 1 < length (take 256 RH_LH_tbl)" using i by (simp add: length_tbl)
  have row: "2 ^ 63 \<le> 256 * k * RH" "(256 * k + 255) * RH div 2 ^ 48 < 2 ^ 15 + 2 ^ 8" "0 \<le> LH"
    "LH + 12345000000 * ((256 * k + 255) * RH div 2 ^ 48 - 2 ^ 15) + 8600000000 < 2 ^ 48"
    using rows_ok_nth [OF rows_tbl len] unfolding Let_def nth k_def [symmetric] by blast+
  have kpos: "128 \<le> k" by (simp add: k_def)
  show RH: "0 \<le> RH"
  proof (rule ccontr)
    assume "\<not> 0 \<le> RH"
    then have "256 * k * RH \<le> 0" using kpos by (intro mult_nonneg_nonpos) auto
    then show False using row(1) by simp
  qed
  have x: "256 * k \<le> uint x" "uint x \<le> 256 * k + 255" unfolding k by auto
  have lo: "256 * k * RH \<le> uint x * RH" and hi: "uint x * RH \<le> (256 * k + 255) * RH"
    using x RH by (auto intro!: mult_right_mono)
  have qhi: "q \<le> (256 * k + 255) * RH div 2 ^ 48" unfolding q_def by (rule zdiv_mono1 [OF hi]) simp
  have "2 ^ 63 div 2 ^ 48 \<le> q" unfolding q_def by (rule zdiv_mono1 [OF order_trans [OF row(1) lo]]) simp
  then show "2 ^ 15 \<le> q" by simp
  show "q < 2 ^ 15 + 2 ^ 8" using qhi row(2) by simp
  then have "uint x * RH < (2 ^ 15 + 2 ^ 8) * 2 ^ 48" unfolding q_def
    by (subst (asm) div_less_iff_mult) simp_all
  then show "uint x * RH < 2 ^ 64" by simp
  show "0 \<le> LH" by (rule row(3))
  show "LH + 12345000000 * (q - 2 ^ 15) + 8600000000 < 2 ^ 48" 
    by (rule le_less_trans [OF _ row(4)]) (use qhi in simp)
qed

lemma ln_value:
  fixes x :: u32 and RH LH LL :: int
  assumes RH: "0 \<le> RH" "uint x * RH < 2 ^ 64" and q: "uint x * RH div 2 ^ 48 = 2 ^ 15 + int j" "j < 256"
    and LH: "0 \<le> LH" "0 \<le> LL" "LH + LL < 2 ^ 48" and e: "e \<le> 15"
  shows "unat (drop_bit 48 (ucast x * word_of_int RH) AND 0xff :: u64) = j"
    "uint (push_bit 44 (word_of_int (int e)) + drop_bit 4 (word_of_int LH + word_of_int LL) :: u64)
       = int e * 2 ^ 44 + (LH + LL) div 2 ^ 4"
proof -
  have x1: "1 \<le> uint x" 
  proof (cases "uint x = 0")
    case False
    then show ?thesis using uint_ge_0 [of x] by linarith
  qed (use q in simp)
  have RHlt: "RH < 2 ^ 64"
    using RH x1 mult_right_mono [of 1 "uint x" RH] by linarith
  have uq: "uint (drop_bit 48 (ucast x * word_of_int RH :: u64)) = 2 ^ 15 + int j"
    using RH RHlt q by (simp only: uint_drop_bit) (simp add: uint_word_ariths uint_word_of_int
        )
  have "uint (drop_bit 48 (ucast x * word_of_int RH) AND 0xff :: u64) = (2 ^ 15 + int j) AND 0xff"
    by (simp add: uint_and uq)
  also have "\<dots> = (2 ^ 15 + int j) mod 2 ^ 8"
    using int_and_low_mask [of _ 8] by simp
  also have "\<dots> = (int j + 128 * 2 ^ 8) mod 2 ^ 8" by (simp add: add.commute)
  also have "\<dots> = int j" using q(2) by (simp only: mod_mult_self1) simp
  finally show "unat (drop_bit 48 (ucast x * word_of_int RH) AND 0xff :: u64) = j"
    by (simp only: unat_eq_nat_uint nat_int)
  show "uint (push_bit 44 (word_of_int (int e)) + drop_bit 4 (word_of_int LH + word_of_int LL) :: u64)
       = int e * 2 ^ 44 + (LH + LL) div 2 ^ 4"
  proof -
    have d: "uint (drop_bit 4 (word_of_int LH + word_of_int LL) :: u64) = (LH + LL) div 2 ^ 4"
      using LH by (simp only: uint_drop_bit) (simp add: uint_word_ariths uint_word_of_int)
    have p: "uint (push_bit 44 (word_of_int (int e)) :: u64) = int e * 2 ^ 44"
    proof -
      have "uint (word_of_int (int e) :: u64) = int e" using e by (simp only: uint_word_of_int) simp
      then show ?thesis unfolding push_bit_eq_mult uint_word_ariths(3) using e by simp
    qed
    have b: "(LH + LL) div 2 ^ 4 < 2 ^ 44" "0 \<le> (LH + LL) div 2 ^ 4" "int e * 2 ^ 44 \<le> 15 * 2 ^ 44" "0 \<le> int e * 2 ^ 44"
      using LH e by (simp_all add: div_less_iff_mult)
    have "int e * 2 ^ 44 + (LH + LL) div 2 ^ 4 < 15 * 2 ^ 44 + 2 ^ 44"
      by (rule add_le_less_mono [OF b(3) b(1)])
    also have "\<dots> \<le> 2 ^ LENGTH(64)" by simp
    finally show ?thesis
      unfolding uint_word_ariths(1) d p
      by (rule mod_pos_pos_trivial [OF add_nonneg_nonneg [OF b(4) b(2)]])
  qed
qed

lemma ln_below:
  fixes w :: u64
  assumes "uint w = int e * 2 ^ 44 + s div 2 ^ 4" "e \<le> 15" "s < 2 ^ 48"
  shows "w < 2 ^ 48"
proof -
  have "s div 2 ^ 4 < 2 ^ 44" using assms(3) by (simp add: div_less_iff_mult)
  moreover have "int e * 2 ^ 44 \<le> 15 * 2 ^ 44" using assms(2) by simp
  ultimately have "uint w < 2 ^ 48" using assms(1) by simp
  then show ?thesis by (simp add: word_less_def)
qed

lemma ln_top:
  assumes n: "ln_normalize 32 (u + 1) 15 = Ret (x, int e)" and k: "e \<le> 15" and True: "uint x = 2 ^ 16"
  shows "\<exists>v. crush_ln u = Ret v \<and> v < 2 ^ 48"
proof -
  have "int (unat (drop_bit 8 x)) = 256"
    by (simp only: uint_nat [symmetric] uint_drop_bit True) simp
  then have idx: "int (unat (drop_bit 8 x)) * 2 - 256 = int 256"
    "int (unat (drop_bit 8 x)) * 2 + 1 - 256 = int 257" by simp_all
  have row: "RH_LH_tbl ! 256 = 2 ^ 47" "RH_LH_tbl ! 257 = 0xffff00000000" "LL_tbl ! 0 = 0"
    by (simp_all add: RH_LH_tbl_def LL_tbl_def)
  have j: "uint x * 2 ^ 47 div 2 ^ 48 = 2 ^ 15 + int 0" "0 < (256 :: nat)" by (simp_all add: True)
  note val = ln_value [where RH = "2 ^ 47" and LH = "0xffff00000000" and LL = 0, OF _ _ j _ _ _ k]
  have "crush_ln u = Ret (push_bit 44 (word_of_int (int (e))) +
      drop_bit 4 (word_of_int 0xffff00000000 + word_of_int 0))"
    unfolding crush_ln_def n exec_bind.simps prod.case Let_def idx
    using val(1) by (simp only: arr_get_in length_tbl exec_bind.simps row) (simp add: True row arr_get_def length_tbl)
  then show ?thesis using ln_below [OF val(2) k] by (simp add: True)
qed

lemma ln_inner:
  assumes n: "ln_normalize 32 (u + 1) 15 = Ret (x, int e)" and k: "e \<le> 15"
    and lo: "2 ^ 15 \<le> uint x" and lt: "uint x < 2 ^ 16"
  shows "\<exists>v. crush_ln u = Ret v \<and> v < 2 ^ 48"
proof -
  define i where "i = nat (uint x div 256 - 128)"
  define RH LH where "RH = RH_LH_tbl ! (2 * i)" and "LH = RH_LH_tbl ! (2 * i + 1)"
  define j where "j = nat (uint x * RH div 2 ^ 48 - 2 ^ 15)"
  note row = ln_row [OF lo lt, folded i_def, folded RH_def LH_def]
  have j: "uint x * RH div 2 ^ 48 = 2 ^ 15 + int j" "j < 256" using row(3,4) by (simp_all add: j_def)
  have LL: "0 \<le> LL_tbl ! j" "LL_tbl ! j \<le> 8600000000 + 12345000000 * int j"
    using LL_bounded_nth [OF LL_tbl_bounded] j(2) by (simp_all add: length_tbl)
  have sum: "LH + LL_tbl ! j < 2 ^ 48" using row(6) LL(2) j(1) by simp
  note val = ln_value [OF row(7,8) j row(5) LL(1) sum k]
  have idx: "int (unat (drop_bit 8 x)) * 2 - 256 = int (2 * i)"
    "int (unat (drop_bit 8 x)) * 2 + 1 - 256 = int (2 * i + 1)" using row(2) by simp_all
  have "crush_ln u = Ret (push_bit 44 (word_of_int (int (e))) +
      drop_bit 4 (word_of_int LH + word_of_int (LL_tbl ! j)))"
    unfolding crush_ln_def n exec_bind.simps prod.case Let_def idx
    using row(1) j(2) by (simp only: arr_get_in length_tbl exec_bind.simps RH_def [symmetric] LH_def [symmetric] val(1))
  moreover have "push_bit 44 (word_of_int (int (e))) +
      drop_bit 4 (word_of_int LH + word_of_int (LL_tbl ! j)) < (2 ^ 48 :: u64)"
    by (rule ln_below [OF val(2) k sum])
  ultimately show ?thesis by blast
qed

lemma crush_ln_bounded:
  assumes "u \<le> 0xffff"
  shows "\<exists>v. crush_ln u = Ret v \<and> v < 2 ^ 48"
proof -
  have u: "uint u \<le> 0xffff" using assms by (simp add: word_le_def)
  then have u1: "uint (u + 1) = uint u + 1" by (simp add: uint_word_ariths)
  have *: "uint (u + 1) \<le> 2 ^ 16" "2 ^ 15 \<le> uint (u + 1) * 2 ^ 15" using u u1 by simp_all
  obtain x k where n: "ln_normalize 32 (u + 1) 15 = Ret (x, 15 - int k)" "k \<le> 15"
    "2 ^ 15 \<le> uint x" "uint x \<le> 2 ^ 16"
    using ln_normalize_ends [OF *, of 32 15] by auto
  then have e: "ln_normalize 32 (u + 1) 15 = Ret (x, int (15 - k))" "15 - k \<le> 15" by auto
  show ?thesis
  proof (cases "uint x = 2 ^ 16")
    case True
    then show ?thesis by (rule ln_top [OF e])
  next
    case False
    then show ?thesis using n(4) by (intro ln_inner [OF e n(3)]) simp
  qed
qed

text \<open>On every 16-bit draw the logarithm is defined: the normalising loop ends, all three table
  accesses are in range, and the result is below \<open>2 ^ 48\<close>, so that subtracting \<open>2 ^ 48\<close> from it, as
  straw2 does, always gives a negative number.\<close>
theorem crush_ln_range:
  assumes "u \<le> 0xffff"
  shows "\<exists>v. crush_ln u = Ret v \<and> v < 2 ^ 48"
  by (rule crush_ln_bounded [OF assms])

theorem crush_ln_range_witness: "\<exists>v. crush_ln 0xabc = Ret v \<and> v < 2 ^ 48"
  by (rule crush_ln_range) simp

lemma crush_ln_top_entry: "crush_ln 0xfffe = Ret 0xfffffd61ad10" "crush_ln 0xffff = Ret 0xfffff0000000"
  by code_simp+

end
