(* ===== verification/Crush_Choose.thy ===== *)
theory Crush_Choose
  imports Crush_Types Crush_Ln "HOL-Library.Multiset"
begin

text \<open>
  The choose methods of \<open>crush/mapper.c\<close>: for an input \<open>x\<close> and a replica number \<open>r\<close> each bucket
  algorithm picks one item of the bucket.  A call may update the cached permutation of the bucket,
  so the bucket after the call is part of the result.
\<close>

unbundle bit_operations_syntax

section \<open>Rule lookup\<close>

fun find_rule_from :: "crush_map \<Rightarrow> int \<Rightarrow> int \<Rightarrow> int \<Rightarrow> nat \<Rightarrow> nat \<Rightarrow> int exec" where
  "find_rule_from m rset t sz i 0 = Ret (- 1)"
| "find_rule_from m rset t sz i (Suc k) =
     exec_bind (arr_get (rules m) (int i)) (\<lambda>r.
       case r of
         Some rl \<Rightarrow>
           if uint (ruleset (rule_mask rl)) = rset \<and> uint (mask_type (rule_mask rl)) = t
              \<and> uint (min_size (rule_mask rl)) \<le> sz \<and> uint (max_size (rule_mask rl)) \<ge> sz
           then Ret (int i) else find_rule_from m rset t sz (Suc i) k
       | None \<Rightarrow> find_rule_from m rset t sz (Suc i) k)"

definition crush_find_rule :: "crush_map \<Rightarrow> int \<Rightarrow> int \<Rightarrow> int \<Rightarrow> int exec" where
  "crush_find_rule m rset t sz = find_rule_from m rset t sz 0 (max_rules m)"

section \<open>Random permutation\<close>

text \<open>The draw of step \<open>p\<close> of the permutation.\<close>

definition perm_hash :: "crush_bucket \<Rightarrow> int \<Rightarrow> nat \<Rightarrow> nat" where
  "perm_hash b x p = unat (crush_hash32_3 (uint (b_hash b)) (word_of_int x) (word_of_int (b_id b))
     (word_of_nat p))"

text \<open>One round of the while loop: swap position \<open>p\<close> with a later one.\<close>

definition perm_swap :: "crush_bucket \<Rightarrow> int \<Rightarrow> nat \<Rightarrow> nat list \<Rightarrow> nat list" where
  "perm_swap b x p perm =
     (if p < b_size b - 1 then
        let i = perm_hash b x p mod (b_size b - p) in
        if i \<noteq> 0 then perm[p + i := perm ! p, p := perm ! (p + i)] else perm
      else perm)"

function perm_loop :: "crush_bucket \<Rightarrow> int \<Rightarrow> nat \<Rightarrow> nat \<Rightarrow> nat list \<Rightarrow> nat list" where
  "perm_loop b x n pr perm =
     (if n \<le> pr then perm_loop b x (Suc n) pr (perm_swap b x n perm) else perm)"
  by pat_completeness auto
termination by (relation "measure (\<lambda>(b, x, n, pr, perm). Suc pr - n)") auto

declare perm_loop.simps [simp del]

text \<open>
  Every index the code uses is below \<open>size\<close>; a bucket whose \<open>items\<close> or \<open>perm\<close> array is shorter
  than its size is a fault at once.  An empty bucket divides by zero.
\<close>

definition bucket_perm_choose :: "crush_bucket \<Rightarrow> int \<Rightarrow> int \<Rightarrow> (int \<times> crush_bucket) exec" where
  "bucket_perm_choose b x r =
     (if b_size b = 0 \<or> length (b_perm b) < b_size b \<or> length (b_items b) < b_size b then Fault
      else
        let sz = b_size b;
            pr = unat (word_of_int r :: u32) mod sz;
            finish = (\<lambda>b. let perm = perm_loop b x (b_perm_n b) pr (b_perm b) in
              Ret (b_items b ! (perm ! pr), b\<lparr>b_perm := perm, b_perm_n := max (b_perm_n b) (Suc pr)\<rparr>))
        in
        if b_perm_x b \<noteq> word_of_int x \<or> b_perm_n b = 0 then
          (if pr = 0 then
             let s = perm_hash b x 0 mod sz in
             Ret (b_items b ! s, b\<lparr>b_perm_x := word_of_int x, b_perm := (b_perm b)[0 := s], b_perm_n := 0xffff\<rparr>)
           else finish (b\<lparr>b_perm_x := word_of_int x, b_perm := [0..<sz] @ drop sz (b_perm b), b_perm_n := 0\<rparr>))
        else if b_perm_n b = 0xffff then
          (let perm = b_perm b ! 0 # [1..<sz] @ drop sz (b_perm b)
           in finish (b\<lparr>b_perm := perm[perm ! 0 := 0], b_perm_n := 1\<rparr>))
        else finish b)"

definition bucket_uniform_choose :: "crush_bucket \<Rightarrow> int \<Rightarrow> int \<Rightarrow> (int \<times> crush_bucket) exec" where
  "bucket_uniform_choose b x r = bucket_perm_choose b x r"

section \<open>List buckets\<close>

text \<open>The scaled draw fits 48 bits, so the 64-bit product does not wrap.\<close>

definition list_draw :: "crush_bucket \<Rightarrow> u32 list \<Rightarrow> int \<Rightarrow> int \<Rightarrow> nat \<Rightarrow> int" where
  "list_draw b sums x r i =
     uint (crush_hash32_4 (uint (b_hash b)) (word_of_int x) (word_of_int (b_items b ! i))
       (word_of_int r) (word_of_int (b_id b))) mod 2 ^ 16 * uint (sums ! i) div 2 ^ 16"

fun list_choose_loop :: "crush_bucket \<Rightarrow> u32 list \<Rightarrow> u32 list \<Rightarrow> int \<Rightarrow> int \<Rightarrow> nat \<Rightarrow> int" where
  "list_choose_loop b ws sums x r 0 = b_items b ! 0"
| "list_choose_loop b ws sums x r (Suc i) =
     (if list_draw b sums x r i < uint (ws ! i) then b_items b ! i
      else list_choose_loop b ws sums x r i)"

definition bucket_list_choose :: "crush_bucket \<Rightarrow> u32 list \<Rightarrow> u32 list \<Rightarrow> int \<Rightarrow> int \<Rightarrow> int exec" where
  "bucket_list_choose b ws sums x r =
     (if b_items b = [] \<or> length (b_items b) < b_size b \<or> length ws < b_size b
         \<or> length sums < b_size b then Fault
      else Ret (list_choose_loop b ws sums x r (nat (to_s32 (int (b_size b) - 1) + 1))))"

section \<open>Tree buckets\<close>

text \<open>\<open>height\<close> counts trailing zero bits; on 0 its loop never ends.\<close>

fun tree_height :: "nat \<Rightarrow> nat" where
  "tree_height n = (if n = 0 \<or> odd n then 0 else Suc (tree_height (n div 2)))"

declare tree_height.simps [simp del]

definition height :: "nat \<Rightarrow> nat exec" where
  "height n = (if n = 0 then NoFuel else Ret (tree_height n))"

definition left :: "nat \<Rightarrow> nat exec" where
  "left n = exec_bind (height n) (\<lambda>h. Ret (n - 2 ^ (h - 1)))"

definition right :: "nat \<Rightarrow> nat exec" where
  "right n = exec_bind (height n) (\<lambda>h. Ret (n + 2 ^ (h - 1)))"

definition terminal :: "nat \<Rightarrow> bool" where
  "terminal n = odd n"

text \<open>The point in \<open>[0, w)\<close>, the high half of a 64-bit product.\<close>

definition tree_point :: "crush_bucket \<Rightarrow> int \<Rightarrow> int \<Rightarrow> nat \<Rightarrow> u32 \<Rightarrow> int" where
  "tree_point b x r n w =
     uint (crush_hash32_4 (uint (b_hash b)) (word_of_int x) (word_of_nat n) (word_of_int r)
       (word_of_int (b_id b))) * uint w div 2 ^ 32"

fun tree_descend :: "nat \<Rightarrow> crush_bucket \<Rightarrow> u32 list \<Rightarrow> int \<Rightarrow> int \<Rightarrow> nat \<Rightarrow> nat exec" where
  "tree_descend 0 b nw x r n = NoFuel"
| "tree_descend (Suc k) b nw x r n =
     (if terminal n then Ret n
      else
        exec_bind (arr_get nw (int n)) (\<lambda>w.
        exec_bind (left n) (\<lambda>l.
        exec_bind (arr_get nw (int l)) (\<lambda>wl.
          if tree_point b x r n w < uint wl then tree_descend k b nw x r l
          else exec_bind (right n) (\<lambda>n'. tree_descend k b nw x r n')))))"

text \<open>Eight bits of \<open>num_nodes\<close> give a tree of at most eight levels.\<close>

definition bucket_tree_choose :: "crush_bucket \<Rightarrow> u8 \<Rightarrow> u32 list \<Rightarrow> int \<Rightarrow> int \<Rightarrow> int exec" where
  "bucket_tree_choose b nn nw x r =
     exec_bind (tree_descend 9 b nw x r (unat (drop_bit 1 nn))) (\<lambda>n. arr_get (b_items b) (int (n div 2)))"

section \<open>Straw buckets\<close>

definition straw_draw :: "crush_bucket \<Rightarrow> u32 list \<Rightarrow> int \<Rightarrow> int \<Rightarrow> nat \<Rightarrow> int" where
  "straw_draw b strs x r i =
     uint (crush_hash32_3 (uint (b_hash b)) (word_of_int x) (word_of_int (b_items b ! i))
       (word_of_int r)) mod 2 ^ 16 * uint (strs ! i)"

text \<open>The loop both straw methods have: keep the first of the largest draws of \<open>i, \<dots>, i + k - 1\<close>.\<close>

fun high_loop :: "(nat \<Rightarrow> int exec) \<Rightarrow> nat \<Rightarrow> nat \<Rightarrow> nat \<Rightarrow> int \<Rightarrow> nat exec" where
  "high_loop draw i 0 high high_draw = Ret high"
| "high_loop draw i (Suc k) high high_draw =
     exec_bind (draw i) (\<lambda>d.
       if i = 0 \<or> d > high_draw then high_loop draw (Suc i) k i d
       else high_loop draw (Suc i) k high high_draw)"

definition bucket_straw_choose :: "crush_bucket \<Rightarrow> u32 list \<Rightarrow> int \<Rightarrow> int \<Rightarrow> int exec" where
  "bucket_straw_choose b strs x r =
     (if length (b_items b) < b_size b \<or> length strs < b_size b then Fault
      else exec_bind (high_loop (\<lambda>i. Ret (straw_draw b strs x r i)) 0 (b_size b) 0 0)
        (\<lambda>high. arr_get (b_items b) (int high)))"

definition straw2_draw :: "crush_bucket \<Rightarrow> u32 list \<Rightarrow> int \<Rightarrow> int \<Rightarrow> nat \<Rightarrow> int exec" where
  "straw2_draw b ws x r i =
     (let w = ws ! i in
      if w \<noteq> 0 then
        let u = crush_hash32_3 (uint (b_hash b)) (word_of_int x) (word_of_int (b_items b ! i))
                  (word_of_int r) AND 0xffff in
        exec_bind (crush_ln u) (\<lambda>v. Ret (c_div (sint (v - 0x1000000000000)) (uint w)))
      else Ret (- (2 ^ 63)))"

definition bucket_straw2_choose :: "crush_bucket \<Rightarrow> u32 list \<Rightarrow> int \<Rightarrow> int \<Rightarrow> int exec" where
  "bucket_straw2_choose b ws x r =
     (if length (b_items b) < b_size b \<or> length ws < b_size b then Fault
      else exec_bind (high_loop (straw2_draw b ws x r) 0 (b_size b) 0 0)
        (\<lambda>high. arr_get (b_items b) (int high)))"

section \<open>Dispatch\<close>

definition crush_bucket_choose :: "crush_bucket \<Rightarrow> int \<Rightarrow> int \<Rightarrow> (int \<times> crush_bucket) exec" where
  "crush_bucket_choose b x r =
     (if b_size b = 0 then Fault
      else
        let keep = (\<lambda>m. exec_bind m (\<lambda>item. Ret (item, b))) in
        case b_alg b of
          Uniform _ \<Rightarrow> bucket_uniform_choose b x r
        | ListAlg ws sums \<Rightarrow> keep (bucket_list_choose b ws sums x r)
        | TreeAlg nn nw \<Rightarrow> keep (bucket_tree_choose b nn nw x r)
        | Straw _ strs \<Rightarrow> keep (bucket_straw_choose b strs x r)
        | Straw2 ws \<Rightarrow> keep (bucket_straw2_choose b ws x r)
        | OtherAlg _ \<Rightarrow> keep (arr_get (b_items b) 0))"

section \<open>Devices that are out\<close>

definition is_out :: "u32 list \<Rightarrow> int \<Rightarrow> int \<Rightarrow> int \<Rightarrow> bool exec" where
  "is_out weight weight_max item x =
     (if item \<ge> weight_max then Ret True
      else exec_bind (arr_get weight item) (\<lambda>w.
        if w \<ge> 0x10000 then Ret False
        else if w = 0 then Ret True
        else Ret (\<not> (crush_hash32_2 CRUSH_HASH_RJENKINS1 (word_of_int x) (word_of_int item) AND 0xffff < w))))"

section \<open>The permutation a bucket caches\<close>

primrec perm_upto :: "crush_bucket \<Rightarrow> int \<Rightarrow> nat \<Rightarrow> nat list" where
  "perm_upto b x 0 = [0..<b_size b]"
| "perm_upto b x (Suc n) = perm_swap b x n (perm_upto b x n)"

lemma length_perm_swap [simp]: "length (perm_swap b x p xs) = length xs"
  by (simp add: perm_swap_def Let_def)

lemma length_perm_upto [simp]: "length (perm_upto b x n) = b_size b"
  by (induction n) simp_all

lemma perm_pos_less: "p < sz - 1 \<Longrightarrow> p + h mod (sz - p) < (sz :: nat)"
  using mod_less_divisor [of "sz - p" h] by linarith

lemma perm_swap_append:
  "length xs = b_size b \<Longrightarrow> perm_swap b x p (xs @ t) = perm_swap b x p xs @ t"
  using perm_pos_less [of p "b_size b" "perm_hash b x p"]
  by (auto simp: perm_swap_def Let_def nth_append list_update_append)

lemma perm_swap_cache [simp]:
  "perm_swap (b\<lparr>b_perm := ps\<rparr>) = perm_swap b" "perm_swap (b\<lparr>b_perm_n := n\<rparr>) = perm_swap b"
  "perm_swap (b\<lparr>b_perm_x := w\<rparr>) = perm_swap b"
  by (simp_all add: perm_swap_def perm_hash_def fun_eq_iff)

lemma perm_upto_cache [simp]:
  "perm_upto (b\<lparr>b_perm := ps\<rparr>) x n = perm_upto b x n"
  "perm_upto (b\<lparr>b_perm_n := m\<rparr>) x n = perm_upto b x n"
  "perm_upto (b\<lparr>b_perm_x := w\<rparr>) x n = perm_upto b x n"
  by (induction n) simp_all

lemma perm_loop_cache [simp]:
  "perm_loop (b\<lparr>b_perm := ps\<rparr>) x n pr xs = perm_loop b x n pr xs"
  "perm_loop (b\<lparr>b_perm_n := m\<rparr>) x n pr xs = perm_loop b x n pr xs"
  "perm_loop (b\<lparr>b_perm_x := w\<rparr>) x n pr xs = perm_loop b x n pr xs"
  by (induction b x n pr xs rule: perm_loop.induct; simp add: perm_loop.simps)+

lemma perm_swap_word: "(word_of_int x :: u32) = word_of_int y \<Longrightarrow> perm_swap b x = perm_swap b y"
  by (simp add: perm_swap_def perm_hash_def fun_eq_iff)

lemma perm_upto_word: "(word_of_int x :: u32) = word_of_int y \<Longrightarrow> perm_upto b x n = perm_upto b y n"
  by (induction n) (simp_all add: perm_swap_word [of x y])

lemma perm_loop_upto:
  "perm_loop b x n pr (perm_upto b x n @ t) = perm_upto b x (max n (Suc pr)) @ t"
proof (induction "Suc pr - n" arbitrary: n)
  case 0
  then show ?case by (subst perm_loop.simps) (simp add: max_def)
next
  case (Suc k)
  then have "perm_loop b x (Suc n) pr (perm_upto b x (Suc n) @ t) = perm_upto b x (max (Suc n) (Suc pr)) @ t"
    by (intro Suc.hyps) simp
  moreover have "max (Suc n) (Suc pr) = max n (Suc pr)" "n \<le> pr" using Suc.hyps(2) by auto
  ultimately show ?case by (subst perm_loop.simps) (simp add: perm_swap_append)
qed

lemma mset_perm_swap: "length xs = b_size b \<Longrightarrow> mset (perm_swap b x p xs) = mset xs"
  using perm_pos_less [of p "b_size b" "perm_hash b x p"]
  by (auto simp: perm_swap_def Let_def mset_swap)

lemma mset_perm_upto: "mset (perm_upto b x n) = mset [0..<b_size b]"
  by (induction n) (simp_all add: mset_perm_swap)

lemma perm_swap_before: "i < p \<Longrightarrow> perm_swap b x p xs ! i = xs ! i"
  by (simp add: perm_swap_def Let_def)

lemma perm_upto_stable: "i < n \<Longrightarrow> perm_upto b x n ! i = perm_upto b x (Suc i) ! i"
proof (induction n)
  case (Suc n)
  then show ?case by (cases "i = n") (simp_all add: perm_swap_before)
qed simp

text \<open>The item the permutation for \<open>x\<close> has in position \<open>pr\<close>.\<close>

definition perm_at :: "crush_bucket \<Rightarrow> int \<Rightarrow> nat \<Rightarrow> nat" where
  "perm_at b x pr = perm_upto b x (b_size b) ! pr"

lemma perm_at_upto: "pr < b_size b \<Longrightarrow> pr < n \<Longrightarrow> perm_upto b x n ! pr = perm_at b x pr"
  by (simp add: perm_at_def perm_upto_stable [of pr n] perm_upto_stable [of pr "b_size b"])

lemma perm_at_set: "set (map (perm_at b x) [0..<b_size b]) = {0..<b_size b}"
proof -
  have "map (perm_at b x) [0..<b_size b] = perm_upto b x (b_size b)"
    by (rule nth_equalityI) (simp_all add: perm_at_def)
  then show ?thesis using mset_eq_setD [OF mset_perm_upto [of b x "b_size b"]] by simp
qed

lemma perm_at_less: "pr < b_size b \<Longrightarrow> perm_at b x pr < b_size b"
  using perm_at_set [of b x] by auto

lemma perm_at_inj: "inj_on (perm_at b x) {0..<b_size b}"
  using perm_at_set [of b x] by (intro eq_card_imp_inj_on) simp_all

text \<open>The first draw, which the code computes alone for \<open>r = 0\<close>, is that of the full permutation.\<close>

lemma perm_upto_1:
  fixes b :: crush_bucket and x :: int
  assumes "0 < b_size b"
  defines "s \<equiv> perm_hash b x 0 mod b_size b"
  shows "perm_upto b x (Suc 0) = (s # [1..<b_size b])[s := 0]" "perm_at b x 0 = s"
proof -
  have s: "s < b_size b" using assms by simp
  have up: "[0..<b_size b] = 0 # [1..<b_size b]" using assms(1) by (simp add: upt_conv_Cons)
  show up1: "perm_upto b x (Suc 0) = (s # [1..<b_size b])[s := 0]"
  proof (cases "b_size b = 1")
    case True
    then show ?thesis using s by (simp add: perm_swap_def)
  next
    case False
    then have "0 < b_size b - 1" using assms(1) by simp
    then have *: "perm_upto b x (Suc 0) = (if s \<noteq> 0 then [0..<b_size b][s := 0, 0 := [0..<b_size b] ! s] else [0..<b_size b])"
      using assms(1) by (simp add: perm_swap_def Let_def s_def)
    show ?thesis
    proof (cases s)
      case 0
      then show ?thesis using * up by simp
    next
      case (Suc k)
      then have "[0..<b_size b] ! s = s" using s by simp
      then show ?thesis using * up Suc by simp
    qed
  qed
  have "perm_at b x 0 = perm_upto b x (Suc 0) ! 0" using assms(1) by (rule perm_at_upto [symmetric]) simp
  also have "\<dots> = s" unfolding up1 by (cases s) simp_all
  finally show "perm_at b x 0 = s" .
qed

text \<open>What the cache of a bucket may hold between two calls.\<close>

definition cache_ok :: "crush_bucket \<Rightarrow> bool" where
  "cache_ok b \<longleftrightarrow> b_size b < 0xffff \<and> b_size b \<le> length (b_items b) \<and> b_size b \<le> length (b_perm b) \<and>
     (b_perm_n b = 0
      \<or> b_perm_n b = 0xffff \<and> b_perm b ! 0 = perm_at b (uint (b_perm_x b)) 0
      \<or> b_perm_n b \<le> b_size b \<and> take (b_size b) (b_perm b) = perm_upto b (uint (b_perm_x b)) (b_perm_n b))"

text \<open>The fields of a bucket that the choose methods never touch.\<close>

definition static :: "crush_bucket \<Rightarrow> crush_bucket" where
  "static b = b\<lparr>b_perm_x := 0, b_perm_n := 0, b_perm := []\<rparr>"

lemma static_fields:
  assumes "static b = static b'"
  shows "b_id b = b_id b'" "b_type b = b_type b'" "b_hash b = b_hash b'" "b_weight b = b_weight b'"
    "b_size b = b_size b'" "b_items b = b_items b'" "b_alg b = b_alg b'"
  using assms by (auto simp: static_def dest: arg_cong [where f = b_id] arg_cong [where f = b_type]
    arg_cong [where f = b_hash] arg_cong [where f = b_weight] arg_cong [where f = b_size]
    arg_cong [where f = b_items] arg_cong [where f = b_alg])

lemma static_update [simp]:
  "static (b\<lparr>b_perm_x := w\<rparr>) = static b" "static (b\<lparr>b_perm_n := n\<rparr>) = static b"
  "static (b\<lparr>b_perm := ps\<rparr>) = static b"
  by (simp_all add: static_def)

lemma perm_at_cache [simp]:
  "perm_at (b\<lparr>b_perm := ps\<rparr>) x n = perm_at b x n"
  "perm_at (b\<lparr>b_perm_n := m\<rparr>) x n = perm_at b x n"
  "perm_at (b\<lparr>b_perm_x := w\<rparr>) x n = perm_at b x n"
  by (simp_all add: perm_at_def)

lemma perm_at_word: "(word_of_int x :: u32) = word_of_int y \<Longrightarrow> perm_at b x n = perm_at b y n"
  by (simp add: perm_at_def perm_upto_word [of x y])

text \<open>The common tail of \<open>bucket_perm_choose\<close>, on a cache that holds a genuine prefix.\<close>

lemma perm_finish:
  fixes b :: crush_bucket and x :: int
  assumes sz: "pr < b_size b" and arr: "b_size b \<le> length (b_items b)" "b_size b < 0xffff"
    and perm: "b_perm b = perm_upto b x (b_perm_n b) @ t" and n: "b_perm_n b \<le> b_size b"
    and x: "b_perm_x b = word_of_int x"
  defines "perm' \<equiv> perm_loop b x (b_perm_n b) pr (b_perm b)"
  shows "perm' ! pr = perm_at b x pr"
    "cache_ok (b\<lparr>b_perm := perm', b_perm_n := max (b_perm_n b) (Suc pr)\<rparr>)"
proof -
  have p': "perm' = perm_upto b x (max (b_perm_n b) (Suc pr)) @ t"
    unfolding perm'_def perm by (rule perm_loop_upto)
  show "perm' ! pr = perm_at b x pr"
    using sz by (simp add: p' nth_append perm_at_upto)
  have "perm_upto b (uint (b_perm_x b)) = perm_upto b x"
    by (rule ext) (rule perm_upto_word, simp add: x)
  then show "cache_ok (b\<lparr>b_perm := perm', b_perm_n := max (b_perm_n b) (Suc pr)\<rparr>)"
    using sz arr n by (simp add: cache_ok_def p')
qed

lemma perm_choose_ref:
  fixes b :: crush_bucket and x r :: int
  assumes "cache_ok b" "0 < b_size b"
  defines "pr \<equiv> unat (word_of_int r :: u32) mod b_size b"
  shows "\<exists>b'. bucket_perm_choose b x r = Ret (b_items b ! perm_at b x pr, b') \<and> cache_ok b' \<and> static b' = static b"
proof -
  have arr: "b_size b \<le> length (b_items b)" "b_size b < 0xffff" "b_size b \<le> length (b_perm b)"
    using assms(1) by (simp_all add: cache_ok_def)
  have pr: "pr < b_size b" using assms(2) by (simp add: pr_def)
  let ?fin = "\<lambda>b. let perm = perm_loop b x (b_perm_n b) pr (b_perm b) in
     Ret (b_items b ! (perm ! pr), b\<lparr>b_perm := perm, b_perm_n := max (b_perm_n b) (Suc pr)\<rparr>)"
  have fin: "\<exists>b'. ?fin c = Ret (b_items b ! perm_at b x pr, b') \<and> cache_ok b' \<and> static b' = static b"
    if "static c = static b" "b_perm c = perm_upto b x (b_perm_n c) @ t" "b_perm_n c \<le> b_size b"
       "b_perm_x c = word_of_int x" "perm_at c x pr = perm_at b x pr" "perm_upto c x = perm_upto b x" for c t
    using perm_finish [of pr c x t] that pr arr static_fields [OF that(1)] by (simp add: Let_def)
  have ok: "\<not> (b_size b = 0 \<or> length (b_perm b) < b_size b \<or> length (b_items b) < b_size b)"
    using arr assms(2) by simp
  have px: "perm_at b (uint (b_perm_x b)) = perm_at b x" "perm_upto b (uint (b_perm_x b)) = perm_upto b x"
    if "b_perm_x b = word_of_int x"
    using that by (auto intro!: ext perm_at_word perm_upto_word)
  note def = bucket_perm_choose_def [of b x r, unfolded if_not_P [OF ok] Let_def, folded pr_def]
  consider (start) "b_perm_x b \<noteq> word_of_int x \<or> b_perm_n b = 0" "pr = 0"
    | (fill) "b_perm_x b \<noteq> word_of_int x \<or> b_perm_n b = 0" "pr \<noteq> 0"
    | (clean) "b_perm_x b = word_of_int x" "b_perm_n b \<noteq> 0" "b_perm_n b = 0xffff"
    | (ready) "b_perm_x b = word_of_int x" "b_perm_n b \<noteq> 0" "b_perm_n b \<noteq> 0xffff" by blast
  then show ?thesis
  proof cases
    case start
    have "perm_at b (uint (word_of_int x :: u32)) 0 = perm_at b x 0" by (rule perm_at_word) simp
    moreover have "(b_perm b)[0 := v] ! 0 = v" for v using arr(3) assms(2) by (cases "b_perm b") auto
    ultimately show ?thesis
      using start arr assms(2) perm_upto_1(2) [OF assms(2), of x]
      by (auto simp: def cache_ok_def nth_list_update)
  next
    case fill
    show ?thesis
      using fin [of "b\<lparr>b_perm_x := word_of_int x, b_perm := [0..<b_size b] @ drop (b_size b) (b_perm b), b_perm_n := 0\<rparr>" "drop (b_size b) (b_perm b)"] fill
      by (simp add: def Let_def fun_eq_iff)
  next
    case clean
    then have s: "b_perm b ! 0 = perm_at b x 0" using assms(1) px by (auto simp: cache_ok_def)
    define s where "s = perm_at b x 0"
    have "s < b_size b" using assms(2) by (simp add: s_def perm_at_less)
    then have "(s # [1..<b_size b] @ t)[s := 0] = perm_upto b x (Suc 0) @ t" for t
      using perm_upto_1 [OF assms(2), of x] by (simp add: s_def list_update_append flip: append_Cons)
    then show ?thesis
      using fin [of "b\<lparr>b_perm := (s # [1..<b_size b] @ drop (b_size b) (b_perm b))[s := 0], b_perm_n := 1\<rparr>"
          "drop (b_size b) (b_perm b)"] clean assms(2)
      by (simp add: def Let_def fun_eq_iff s flip: s_def)
  next
    case ready
    then have "b_perm_n b \<le> b_size b" "take (b_size b) (b_perm b) = perm_upto b x (b_perm_n b)"
      using assms(1) px by (auto simp: cache_ok_def)
    then show ?thesis
      using fin [of b "drop (b_size b) (b_perm b)"] ready
      by (simp add: def Let_def) (metis append_take_drop_id)
  qed
qed

lemma perm_upto_static:
  assumes "static c = static b"
  shows "perm_upto c x n = perm_upto b x n"
proof -
  have "perm_swap c = perm_swap b"
    using static_fields [OF assms] by (simp add: perm_swap_def perm_hash_def fun_eq_iff)
  then show ?thesis using static_fields [OF assms] by (induction n) simp_all
qed

lemma perm_at_static: "static c = static b \<Longrightarrow> perm_at c x n = perm_at b x n"
  using perm_upto_static [of c b] static_fields(5) [of c b] by (simp add: perm_at_def)

text \<open>C22: Whatever earlier calls left in the cache, the draws of \<open>bucket_perm_choose\<close> for one
  input \<open>x\<close> read one fixed permutation of the bucket's positions, the replica number taken modulo
  the size: consecutive replica numbers never repeat a position before all were used.  The call
  leaves a valid cache and changes nothing else of the bucket.\<close>
theorem bucket_perm_choose_permutes:
  assumes "0 < b_size b"
  shows "\<exists>p. inj_on p {0..<b_size b} \<and> p ` {0..<b_size b} = {0..<b_size b} \<and>
    (\<forall>c r. cache_ok c \<and> static c = static b \<longrightarrow>
      (\<exists>c'. bucket_perm_choose c x r =
               Ret (b_items b ! p (unat (word_of_int r :: u32) mod b_size b), c')
          \<and> cache_ok c' \<and> static c' = static b))"
proof (intro exI [of _ "perm_at b x"] conjI allI impI)
  show "inj_on (perm_at b x) {0..<b_size b}" by (rule perm_at_inj)
  show "perm_at b x ` {0..<b_size b} = {0..<b_size b}" using perm_at_set [of b x] by simp
  fix c r
  assume c: "cache_ok c \<and> static c = static b"
  then show "\<exists>c'. bucket_perm_choose c x r =
               Ret (b_items b ! perm_at b x (unat (word_of_int r :: u32) mod b_size b), c')
          \<and> cache_ok c' \<and> static c' = static b"
    using perm_choose_ref [of c x r] assms static_fields [of c b] perm_at_static [of c b] by simp
qed

section \<open>Draws of the straw methods\<close>

lemma high_loop_max:
  assumes "\<And>j. j < n \<Longrightarrow> draw j = Ret (d j)"
    and "i \<le> n" "0 < i \<Longrightarrow> high < i \<and> high_draw = d high \<and> (\<forall>j<i. d j \<le> d high) \<and> (\<forall>j<high. d j < d high)"
    and "0 < n"
  shows "\<exists>h. high_loop draw i (n - i) high high_draw = Ret h \<and> h < n \<and> (\<forall>j<n. d j \<le> d h) \<and> (\<forall>j<h. d j < d h)"
  using assms(2,3)
proof (induction "n - i" arbitrary: i high high_draw)
  case 0
  then show ?case using assms(4) by auto
next
  case (Suc k)
  then have k: "k = n - Suc i" "n - i = Suc (n - Suc i)" "i < n" by auto
  show ?case
  proof (cases "i = 0 \<or> d i > high_draw")
    case True
    have lt: "d j < d i" if "j < i" for j
    proof -
      have "d j \<le> high_draw" "high_draw < d i" using that True Suc.prems(2) by auto
      then show ?thesis by simp
    qed
    then have "\<forall>j<Suc i. d j \<le> d i" by (simp add: less_Suc_eq) (meson less_imp_le order_refl)
    then have "\<exists>h. high_loop draw (Suc i) (n - Suc i) i (d i) = Ret h \<and> h < n \<and> (\<forall>j<n. d j \<le> d h) \<and> (\<forall>j<h. d j < d h)"
      using k lt by (intro Suc.hyps(1)) simp_all
    then show ?thesis using True k assms(1) [of i] by simp
  next
    case False
    then have prev: "high < i" "high_draw = d high" "\<forall>j<i. d j \<le> d high" "\<forall>j<high. d j < d high" "d i \<le> d high"
      using Suc.prems(2) by auto
    then have "\<forall>j<Suc i. d j \<le> d high" by (auto simp: less_Suc_eq)
    then have "\<exists>h. high_loop draw (Suc i) (n - Suc i) high high_draw = Ret h \<and> h < n \<and> (\<forall>j<n. d j \<le> d h) \<and> (\<forall>j<h. d j < d h)"
      using k prev by (intro Suc.hyps(1)) simp_all
    then show ?thesis using False k assms(1) [of i] by simp
  qed
qed

lemma high_loop_argmax:
  assumes "\<And>j. j < n \<Longrightarrow> draw j = Ret (d j)" "0 < n"
  shows "\<exists>h. high_loop draw 0 n 0 0 = Ret h \<and> h < n \<and> (\<forall>j<n. d j \<le> d h) \<and> (\<forall>j<h. d j < d h)"
proof -
  have "\<exists>h. high_loop draw 0 (n - 0) 0 0 = Ret h \<and> h < n \<and> (\<forall>j<n. d j \<le> d h) \<and> (\<forall>j<h. d j < d h)"
    by (rule high_loop_max [OF assms(1) _ _ assms(2)]) simp_all
  then show ?thesis by (simp only: diff_zero)
qed

lemma and_0xffff_le: "(w :: u32) AND 0xffff \<le> 0xffff"
  by (simp add: word_and_le1)

text \<open>Dividing a number above \<open>- 2 ^ 48\<close> by a positive one keeps it above \<open>INT64_MIN\<close>.\<close>

lemma c_div_neg_ge: "- a \<le> y \<Longrightarrow> y \<le> 0 \<Longrightarrow> 0 < w \<Longrightarrow> - a \<le> c_div y w \<and> c_div y w \<le> 0"
proof -
  assume y: "- a \<le> y" "y \<le> 0" "0 < w"
  have "\<bar>y\<bar> div \<bar>w\<bar> \<le> \<bar>y\<bar>" using y div_le_dividend [of "nat \<bar>y\<bar>" "nat \<bar>w\<bar>"]
    by (simp add: nat_div_distrib [symmetric])
  moreover have "0 \<le> \<bar>y\<bar> div \<bar>w\<bar>" using y by (simp add: pos_imp_zdiv_nonneg_iff)
  ultimately show ?thesis using y by (cases "y = 0") (simp_all add: c_div_def)
qed

lemma sint_minus_2p48:
  assumes "(v :: u64) < 2 ^ 48"
  shows "sint (v - 0x1000000000000) = uint v - 2 ^ 48"
proof -
  have v: "0 \<le> uint v" "uint v < 2 ^ 48" using assms by (simp_all add: word_less_def)
  have "v - 0x1000000000000 = word_of_int (uint v - 2 ^ 48)" by simp
  then show ?thesis using v by (simp only: int_word_sint) simp
qed

lemma straw2_draw_value:
  assumes "ws ! i \<noteq> 0"
  shows "\<exists>d. straw2_draw b ws x r i = Ret d \<and> - (2 ^ 48) \<le> d \<and> d \<le> 0"
proof -
  obtain v where v: "crush_ln (crush_hash32_3 (uint (b_hash b)) (word_of_int x) (word_of_int (b_items b ! i))
       (word_of_int r) AND 0xffff) = Ret v" "v < 2 ^ 48"
    using crush_ln_bounded [OF and_0xffff_le] by blast
  have "0 < uint (ws ! i)" using assms by (metis uint_0_iff uint_ge_0 order_le_less)
  moreover have "- (2 ^ 48) \<le> sint (v - 0x1000000000000)" "sint (v - 0x1000000000000) \<le> 0"
    using v(2) uint_ge_0 [of v] unfolding sint_minus_2p48 [OF v(2)] by (simp_all add: word_less_def)
  ultimately show ?thesis using c_div_neg_ge assms v(1) by (simp add: straw2_draw_def Let_def)
qed

lemma straw2_draw_zero: "ws ! i = 0 \<Longrightarrow> straw2_draw b ws x r i = Ret (- (2 ^ 63))"
  by (simp add: straw2_draw_def)

lemma straw2_choose_argmax:
  assumes "0 < b_size b" "b_size b \<le> length (b_items b)" "b_size b \<le> length ws"
  shows "\<exists>h<b_size b. bucket_straw2_choose b ws x r = Ret (b_items b ! h) \<and>
     ((\<exists>j<b_size b. ws ! j \<noteq> 0) \<longrightarrow> ws ! h \<noteq> 0) \<and>
     (\<forall>j<b_size b. \<exists>d e. straw2_draw b ws x r j = Ret d \<and> straw2_draw b ws x r h = Ret e \<and> d \<le> e)"
proof -
  define d where "d j = (case straw2_draw b ws x r j of Ret y \<Rightarrow> y | _ \<Rightarrow> 0)" for j
  have d: "straw2_draw b ws x r j = Ret (d j)" for j
    using straw2_draw_value [of ws j b x r] straw2_draw_zero [of ws j b x r]
    by (cases "ws ! j = 0") (auto simp: d_def)
  obtain h where h: "high_loop (straw2_draw b ws x r) 0 (b_size b) 0 0 = Ret h" "h < b_size b"
      "\<forall>j<b_size b. d j \<le> d h"
    using high_loop_argmax [of "b_size b" "straw2_draw b ws x r" d] d assms(1) by blast
  have "ws ! h \<noteq> 0" if "j < b_size b" "ws ! j \<noteq> 0" for j
  proof
    assume "ws ! h = 0"
    then have "d h = - (2 ^ 63)" using straw2_draw_zero [of ws h b x r] d [of h] by simp
    moreover have "- (2 ^ 48) \<le> d j" using straw2_draw_value [OF that(2), of b x r] d [of j] by auto
    moreover have "d j \<le> d h" using h(3) that(1) by blast
    ultimately show False by simp
  qed
  moreover have "bucket_straw2_choose b ws x r = Ret (b_items b ! h)"
    using h(1,2) assms by (simp add: bucket_straw2_choose_def)
  ultimately show ?thesis using h(2,3) d by blast
qed

lemma straw_choose_argmax:
  assumes "0 < b_size b" "b_size b \<le> length (b_items b)" "b_size b \<le> length strs"
  shows "\<exists>h<b_size b. bucket_straw_choose b strs x r = Ret (b_items b ! h) \<and>
     (\<forall>j<b_size b. straw_draw b strs x r j \<le> straw_draw b strs x r h) \<and>
     (\<forall>j<h. straw_draw b strs x r j < straw_draw b strs x r h)"
proof -
  obtain h where "high_loop (\<lambda>i. Ret (straw_draw b strs x r i)) 0 (b_size b) 0 0 = Ret h" "h < b_size b"
      "\<forall>j<b_size b. straw_draw b strs x r j \<le> straw_draw b strs x r h"
      "\<forall>j<h. straw_draw b strs x r j < straw_draw b strs x r h"
    using high_loop_argmax [of "b_size b" "\<lambda>i. Ret (straw_draw b strs x r i)" "straw_draw b strs x r"] assms(1) by auto
  then show ?thesis using assms by (intro exI [of _ h]) (auto simp: bucket_straw_choose_def)
qed

lemma list_choose_in:
  "k \<le> n \<Longrightarrow> 0 < n \<Longrightarrow> \<exists>h<n. list_choose_loop b ws sums x r k = b_items b ! h"
proof (induction k)
  case (Suc k)
  then have "k < n" "\<exists>h<n. list_choose_loop b ws sums x r k = b_items b ! h" by simp_all
  then show ?case by (cases "list_draw b sums x r k < uint (ws ! k)") (simp_all, blast)
qed auto

section \<open>Tree buckets\<close>

lemma tree_height_form: "0 < n \<Longrightarrow> \<exists>m. odd m \<and> n = 2 ^ tree_height n * m"
proof (induction n rule: tree_height.induct)
  case (1 n)
  show ?case
  proof (cases "odd n")
    case True
    then show ?thesis by (subst tree_height.simps) simp
  next
    case False
    then have "0 < n div 2" using "1.prems" by auto
    then obtain m where "odd m" "n div 2 = 2 ^ tree_height (n div 2) * m"
      using "1.IH" "1.prems" False by auto
    then have "n = 2 * (2 ^ tree_height (n div 2) * m)" using False by (metis dvd_mult_div_cancel)
    then show ?thesis using \<open>odd m\<close> False "1.prems" by (subst tree_height.simps) auto
  qed
qed

lemma tree_height_pow: "odd m \<Longrightarrow> tree_height (2 ^ h * m) = h"
proof (induction h)
  case 0
  then show ?case by (subst tree_height.simps) simp
next
  case (Suc h)
  then have "0 < m" by (cases m) auto
  then show ?case using Suc by (subst tree_height.simps) simp
qed

text \<open>The children of an inner node: one level lower, and inside the tree.\<close>

lemma tree_children:
  assumes "0 < n" "even n" "n < 2 ^ d"
  defines "h \<equiv> tree_height n"
  shows "0 < h" "0 < n - 2 ^ (h - 1)" "tree_height (n - 2 ^ (h - 1)) = h - 1"
    "tree_height (n + 2 ^ (h - 1)) = h - 1" "n + 2 ^ (h - 1) < 2 ^ d" "h < d" "2 ^ (h - 1) < n"
proof -
  obtain m where m: "odd m" "n = 2 ^ h * m" using tree_height_form [OF assms(1)] unfolding h_def by blast
  show h: "0 < h" using m assms(2) by (cases h) auto
  then obtain k where k: "h = Suc k" by (cases h) auto
  have mp: "0 < m" using m(1) by (cases m) auto
  have l: "n - 2 ^ k = 2 ^ k * (2 * m - 1)" "n + 2 ^ k = 2 ^ k * (2 * m + 1)"
    using m(2) k by (simp_all add: algebra_simps diff_mult_distrib2)
  show "tree_height (n - 2 ^ (h - 1)) = h - 1" "tree_height (n + 2 ^ (h - 1)) = h - 1"
    using tree_height_pow [of "2 * m - 1" k] tree_height_pow [of "2 * m + 1" k] mp k
    by (simp_all only: l diff_Suc_1) simp_all
  show "2 ^ (h - 1) < n" using m(2) k mp by simp
  then show "0 < n - 2 ^ (h - 1)" by simp
  show hd: "h < d"
  proof (rule ccontr)
    assume "\<not> h < d"
    then have "(2 :: nat) ^ d \<le> 2 ^ h" by simp
    then show False using assms(3) m(2) mp by (metis le_trans linorder_not_less mult_le_mono2 mult_1_right Suc_leI One_nat_def)
  qed
  have "2 ^ h * m < 2 ^ h * 2 ^ (d - h)" using assms(3) m(2) hd by (simp flip: power_add)
  then have "m + 1 \<le> 2 ^ (d - h)" by simp
  then have "2 ^ h * (m + 1) \<le> 2 ^ h * 2 ^ (d - h)" by (rule mult_le_mono2)
  then have "n + 2 ^ h \<le> 2 ^ d" using m(2) hd by (simp add: algebra_simps flip: power_add)
  moreover have "(2 :: nat) ^ (h - 1) < 2 ^ h" using h by simp
  ultimately show "n + 2 ^ (h - 1) < 2 ^ d" by linarith
qed

text \<open>
  A consistent tree: a power of two of nodes, every inner node weighing what its children weigh, and
  no weight on leaves beyond the items.
\<close>

definition tree_sums :: "nat \<Rightarrow> u32 list \<Rightarrow> bool" where
  "tree_sums nn nw \<longleftrightarrow> (\<forall>n. 0 < n \<and> n < nn \<and> even n \<longrightarrow>
     uint (nw ! n) = uint (nw ! (n - 2 ^ (tree_height n - 1))) + uint (nw ! (n + 2 ^ (tree_height n - 1))))"

definition tree_ok :: "nat \<Rightarrow> u8 \<Rightarrow> u32 list \<Rightarrow> bool" where
  "tree_ok sz nn nw \<longleftrightarrow>
     (\<exists>d. 0 < d \<and> unat nn = 2 ^ d) \<and> unat nn \<le> length nw \<and> tree_sums (unat nn) nw \<and>
     (\<forall>i. sz \<le> i \<and> 2 * i + 1 < unat nn \<longrightarrow> nw ! (2 * i + 1) = 0)"

lemma tree_point_less: "w \<noteq> 0 \<Longrightarrow> tree_point b x r n w < uint w"
proof -
  assume "w \<noteq> 0"
  then have w: "0 < uint w" by (metis uint_0_iff uint_ge_0 order_le_less)
  have "uint v * uint w < 2 ^ 32 * uint w" for v :: u32
    using w unsigned_less [of v] by (intro mult_strict_right_mono) simp_all
  then show ?thesis unfolding tree_point_def
    by (subst div_less_iff_mult) (simp, metis mult.commute)
qed

lemma tree_descend_leaf:
  assumes "tree_sums (2 ^ d) nw" "2 ^ d \<le> length nw"
  shows "0 < n \<Longrightarrow> n < 2 ^ d \<Longrightarrow> nw ! n \<noteq> 0 \<Longrightarrow> tree_height n < k \<Longrightarrow>
    \<exists>l. tree_descend k b nw x r n = Ret l \<and> odd l \<and> l < 2 ^ d \<and> nw ! l \<noteq> 0"
proof (induction k arbitrary: n)
  case (Suc k)
  show ?case
  proof (cases "odd n")
    case True
    then show ?thesis using Suc.prems by (simp add: terminal_def)
  next
    case False
    define l where "l = n - 2 ^ (tree_height n - 1)"
    define rt where "rt = n + 2 ^ (tree_height n - 1)"
    note ch = tree_children [of n d, folded l_def rt_def]
    have b: "0 < l" "l < 2 ^ d" "0 < rt" "rt < 2 ^ d" "tree_height l < k" "tree_height rt < k"
      using ch Suc.prems False by (auto simp: l_def rt_def)
    have sum: "uint (nw ! n) = uint (nw ! l) + uint (nw ! rt)"
      using assms(1) Suc.prems(1,2) False unfolding tree_sums_def l_def rt_def by blast
    have step: "tree_descend (Suc k) b nw x r n =
       (if tree_point b x r n (nw ! n) < uint (nw ! l) then tree_descend k b nw x r l else tree_descend k b nw x r rt)"
      using False Suc.prems(1,2) b(2) assms(2)
      by (simp add: terminal_def left_def right_def height_def l_def rt_def)
    show ?thesis
    proof (cases "tree_point b x r n (nw ! n) < uint (nw ! l)")
      case True
      moreover have "0 \<le> tree_point b x r n (nw ! n)" 
        by (simp add: tree_point_def pos_imp_zdiv_nonneg_iff)
      ultimately have "nw ! l \<noteq> 0" by auto
      then show ?thesis using Suc.IH [OF b(1,2) _ b(5)] True step by simp
    next
      case left: False
      then have "nw ! rt \<noteq> 0" using tree_point_less [OF Suc.prems(3), of b x r n] sum by auto
      then show ?thesis using Suc.IH [OF b(3,4) _ b(6)] left step by simp
    qed
  qed
qed simp

lemma tree_choose_weighted:
  assumes ok: "tree_ok (b_size b) nn nw" and items: "b_size b \<le> length (b_items b)"
    and root: "nw ! (unat nn div 2) \<noteq> 0"
  shows "\<exists>i<b_size b. bucket_tree_choose b nn nw x r = Ret (b_items b ! i) \<and> nw ! (2 * i + 1) \<noteq> 0"
proof -
  obtain d where d: "0 < d" "unat nn = 2 ^ d" using ok by (auto simp: tree_ok_def)
  have "unat nn < 2 ^ 8" using unsigned_less [of nn] by simp
  then have d8: "d < 8" unfolding d(2) by (rule power_less_imp_less_exp [rotated]) simp
  have rt: "unat nn div 2 = 2 ^ (d - 1)" using d by (cases d) simp_all
  have h: "tree_height (2 ^ (d - 1)) = d - 1" using tree_height_pow [of 1 "d - 1"] by simp
  obtain l where l: "tree_descend 9 b nw x r (unat nn div 2) = Ret l" "odd l" "l < 2 ^ d" "nw ! l \<noteq> 0"
    using tree_descend_leaf [of d nw "2 ^ (d - 1)" 9 b x r] ok d d8 root h
    unfolding rt by (fastforce simp: tree_ok_def)
  have lf: "2 * (l div 2) + 1 = l" using l(2) by simp
  then have "l div 2 < b_size b" using ok l(3,4) d(2) unfolding tree_ok_def by (metis not_le_imp_less)
  then show ?thesis using l lf items
    by (intro exI [of _ "l div 2"]) (simp add: bucket_tree_choose_def unat_drop_bit)
qed

section \<open>Buckets the choose methods may be called on\<close>

definition bucket_ok :: "crush_bucket \<Rightarrow> bool" where
  "bucket_ok b \<longleftrightarrow> cache_ok b \<and>
     (case b_alg b of
        Uniform _ \<Rightarrow> True
      | ListAlg ws sums \<Rightarrow> b_size b \<le> length ws \<and> b_size b \<le> length sums
      | TreeAlg nn nw \<Rightarrow> 0 < b_size b \<longrightarrow> tree_ok (b_size b) nn nw \<and> nw ! (unat nn div 2) \<noteq> 0
      | Straw ws strs \<Rightarrow> b_size b \<le> length ws \<and> b_size b \<le> length strs
      | Straw2 ws \<Rightarrow> b_size b \<le> length ws
      | OtherAlg _ \<Rightarrow> True)"

text \<open>
  The contract both ways of picking an item promise their caller: on a good non-empty bucket the
  call returns, with one of the bucket's items, and leaves a good bucket with the same contents.
\<close>

locale item_chooser =
  fixes pick :: "crush_bucket \<Rightarrow> int \<Rightarrow> int \<Rightarrow> (int \<times> crush_bucket) exec"
  assumes pick_item: "bucket_ok b \<Longrightarrow> 0 < b_size b \<Longrightarrow>
    \<exists>i b'. i < b_size b \<and> pick b x r = Ret (b_items b ! i, b') \<and> bucket_ok b' \<and> static b' = static b"
begin

lemma pick_cases:
  assumes "bucket_ok b" "0 < b_size b"
  obtains i b' where "pick b x r = Ret (b_items b ! i, b')" "i < b_size b" "bucket_ok b'"
    "static b' = static b"
  using pick_item [OF assms, of x r] by blast

lemma pick_no_fault:
  assumes "bucket_ok b" "0 < b_size b"
  shows "pick b x r \<noteq> Fault" "pick b x r \<noteq> NoFuel"
  using pick_item [OF assms, of x r] by auto

end

lemma bucket_ok_static:
  assumes "bucket_ok b" "static b' = static b" "cache_ok b'"
  shows "bucket_ok b'"
  using assms(1,3) static_fields [OF assms(2)] by (cases "b_alg b") (simp_all add: bucket_ok_def)

lemma perm_choose_item:
  assumes "bucket_ok b" "0 < b_size b"
  shows "\<exists>i b'. i < b_size b \<and> bucket_perm_choose b x r = Ret (b_items b ! i, b') \<and> bucket_ok b' \<and> static b' = static b"
proof -
  have "cache_ok b" using assms(1) by (simp add: bucket_ok_def)
  from perm_choose_ref [OF this assms(2), of x r] obtain b' where
    b': "bucket_perm_choose b x r = Ret (b_items b ! perm_at b x (unat (word_of_int r :: u32) mod b_size b), b')"
      "cache_ok b'" "static b' = static b" by blast
  have "perm_at b x (unat (word_of_int r :: u32) mod b_size b) < b_size b"
    using assms(2) by (simp add: perm_at_less)
  then show ?thesis using b' bucket_ok_static [OF assms(1) b'(3,2)] by blast
qed

lemma bucket_choose_item:
  assumes "bucket_ok b" "0 < b_size b"
  shows "\<exists>i b'. i < b_size b \<and> crush_bucket_choose b x r = Ret (b_items b ! i, b') \<and> bucket_ok b' \<and> static b' = static b"
proof -
  have len: "b_size b \<le> length (b_items b)" "b_size b < 0xffff"
    using assms(1) by (auto simp: bucket_ok_def cache_ok_def)
  show ?thesis
  proof (cases "b_alg b")
    case (Uniform w)
    then show ?thesis using perm_choose_item [OF assms, of x r] assms(2)
      by (simp add: crush_bucket_choose_def bucket_uniform_choose_def)
  next
    case (ListAlg ws sums)
    then have ws: "b_size b \<le> length ws" "b_size b \<le> length sums" using assms(1) by (simp_all add: bucket_ok_def)
    have "nat (to_s32 (int (b_size b) - 1) + 1) = b_size b" using len(2) by (simp add: to_s32_id)
    moreover have "b_items b \<noteq> []" using assms(2) len(1) by auto
    ultimately obtain h where "h < b_size b" "bucket_list_choose b ws sums x r = Ret (b_items b ! h)"
      using list_choose_in [of "b_size b" "b_size b" b ws sums x r] assms(2) ws len
      by (auto simp: bucket_list_choose_def)
    then show ?thesis using ListAlg assms by (intro exI [of _ h] exI [of _ b]) (simp add: crush_bucket_choose_def)
  next
    case (TreeAlg nn nw)
    then have "tree_ok (b_size b) nn nw" "nw ! (unat nn div 2) \<noteq> 0"
      using assms by (simp_all add: bucket_ok_def)
    from tree_choose_weighted [OF this(1) len(1) this(2), of x r] obtain h where
      "h < b_size b" "bucket_tree_choose b nn nw x r = Ret (b_items b ! h)" by blast
    then show ?thesis using TreeAlg assms by (intro exI [of _ h] exI [of _ b]) (simp add: crush_bucket_choose_def)
  next
    case (Straw ws strs)
    then have "b_size b \<le> length strs" using assms(1) by (simp add: bucket_ok_def)
    from straw_choose_argmax [OF assms(2) len(1) this, of x r] obtain h where
      "h < b_size b" "bucket_straw_choose b strs x r = Ret (b_items b ! h)" by blast
    then show ?thesis using Straw assms by (intro exI [of _ h] exI [of _ b]) (simp add: crush_bucket_choose_def)
  next
    case (Straw2 ws)
    then have "b_size b \<le> length ws" using assms(1) by (simp add: bucket_ok_def)
    from straw2_choose_argmax [OF assms(2) len(1) this, of x r] obtain h where
      "h < b_size b" "bucket_straw2_choose b ws x r = Ret (b_items b ! h)" by blast
    then show ?thesis using Straw2 assms by (intro exI [of _ h] exI [of _ b]) (simp add: crush_bucket_choose_def)
  next
    case (OtherAlg n)
    have "arr_get (b_items b) (int 0) = Ret (b_items b ! 0)"
      by (rule arr_get_in [OF less_le_trans [OF assms(2) len(1)]])
    then have "crush_bucket_choose b x r = Ret (b_items b ! 0, b)"
      using OtherAlg assms(2) by (simp add: crush_bucket_choose_def)
    then show ?thesis using assms by blast
  qed
qed

interpretation perm: item_chooser bucket_perm_choose
  by unfold_locales (rule perm_choose_item)

interpretation choose: item_chooser crush_bucket_choose
  by unfold_locales (rule bucket_choose_item)

section \<open>What the methods guarantee\<close>

definition sample_bucket :: "bucket_alg \<Rightarrow> crush_bucket" where
  "sample_bucket a = \<lparr>b_id = - 1, b_type = 1, b_hash = 0, b_weight = 0x30000, b_size = 3, b_items = [0, 1, 2],
     b_perm_x = 0, b_perm_n = 0, b_perm = [0, 0, 0], b_alg = a\<rparr>"

theorem bucket_perm_choose_permutes_witness:
  "\<exists>p :: nat \<Rightarrow> nat. inj_on p {0..<3} \<and> p ` {0..<3} = {0..<3} \<and>
    (\<exists>c'. bucket_perm_choose (sample_bucket (Uniform 0x10000)) 7 4 =
       Ret (b_items (sample_bucket (Uniform 0x10000)) ! p 1, c'))"
proof -
  let ?b = "sample_bucket (Uniform 0x10000)"
  have b: "0 < b_size ?b" "cache_ok ?b" "b_size ?b = 3"
    by (simp_all add: sample_bucket_def cache_ok_def)
  obtain p where p: "inj_on p {0..<3}" "p ` {0..<3} = {0..<3}"
    "\<forall>c r. cache_ok c \<and> static c = static ?b \<longrightarrow>
      (\<exists>c'. bucket_perm_choose c 7 r = Ret (b_items ?b ! p (unat (word_of_int r :: u32) mod 3), c')
          \<and> cache_ok c' \<and> static c' = static ?b)"
    using bucket_perm_choose_permutes [OF b(1), of 7] unfolding b(3) by blast
  have "unat (word_of_int 4 :: u32) mod 3 = 1" by simp
  then have "\<exists>c'. bucket_perm_choose ?b 7 4 = Ret (b_items ?b ! p 1, c')"
    using p(3) b(2) by metis
  then show ?thesis using p(1,2) by blast
qed

text \<open>C24: On every well-formed non-empty bucket, of any algorithm, \<open>crush_bucket_choose\<close> returns: it
  neither crashes nor loops, the answer is one of the bucket's items, and the bucket stays
  well-formed with the same contents.\<close>
theorem crush_bucket_choose_in_bucket:
  assumes "bucket_ok b" "0 < b_size b"
  shows "\<exists>item b'. crush_bucket_choose b x r = Ret (item, b') \<and> item \<in> set (take (b_size b) (b_items b))
    \<and> bucket_ok b' \<and> static b' = static b"
proof -
  have "b_size b \<le> length (b_items b)" using assms(1) by (simp add: bucket_ok_def cache_ok_def)
  then show ?thesis using choose.pick_item [OF assms, of x r] by (force simp: in_set_conv_nth)
qed

theorem crush_bucket_choose_in_bucket_witness:
  "\<exists>item b'. crush_bucket_choose (sample_bucket (Straw2 [1, 2, 3])) 5 0 = Ret (item, b') \<and> item \<in> {0, 1, 2}"
proof -
  have "bucket_ok (sample_bucket (Straw2 [1, 2, 3]))" "0 < b_size (sample_bucket (Straw2 [1, 2, 3]))"
    by (simp_all add: sample_bucket_def bucket_ok_def cache_ok_def)
  from crush_bucket_choose_in_bucket [OF this, of 5 0] obtain item b' where
    "crush_bucket_choose (sample_bucket (Straw2 [1, 2, 3])) 5 0 = Ret (item, b')"
    "item \<in> set (take 3 [0, 1, 2])" by (auto simp: sample_bucket_def simp del: take_Suc_Cons)
  then show ?thesis by simp
qed

text \<open>C26: A straw2 bucket answers with an item of maximal draw, and never with an item of weight
  zero as long as one item has weight: the draw of a weightless item is the least 64-bit number,
  and no other draw can fall that low.\<close>
theorem straw2_never_weightless:
  assumes "0 < b_size b" "b_size b \<le> length (b_items b)" "b_size b \<le> length ws"
  shows "\<exists>h<b_size b. bucket_straw2_choose b ws x r = Ret (b_items b ! h) \<and>
     ((\<exists>j<b_size b. ws ! j \<noteq> 0) \<longrightarrow> ws ! h \<noteq> 0) \<and>
     (\<forall>j<b_size b. \<exists>d e. straw2_draw b ws x r j = Ret d \<and> straw2_draw b ws x r h = Ret e \<and> d \<le> e)"
  using assms by (rule straw2_choose_argmax)

theorem straw2_never_weightless_witness:
  "\<exists>h<3. bucket_straw2_choose (sample_bucket (Straw2 [0, 5, 0])) [0, 5, 0] 3 1 =
     Ret (b_items (sample_bucket (Straw2 [0, 5, 0])) ! h) \<and> [0, 5, 0 :: u32] ! h \<noteq> 0"
proof -
  have "\<exists>j<b_size (sample_bucket (Straw2 [0, 5, 0])). [0, 5, 0 :: u32] ! j \<noteq> 0"
    by (rule exI [of _ 1]) (simp add: sample_bucket_def)
  moreover have "b_size (sample_bucket (Straw2 [0, 5, 0])) = 3" by (simp add: sample_bucket_def)
  ultimately show ?thesis
    using straw2_never_weightless [of "sample_bucket (Straw2 [0, 5, 0])" "[0, 5, 0]" 3 1]
    by (simp add: sample_bucket_def) blast
qed

text \<open>On a consistent tree bucket with weight at the root, the descent ends at a leaf that holds
  an item of non-zero weight.\<close>
theorem tree_choose_weighted_item:
  assumes "tree_ok (b_size b) nn nw" "b_size b \<le> length (b_items b)" "nw ! (unat nn div 2) \<noteq> 0"
  shows "\<exists>i<b_size b. bucket_tree_choose b nn nw x r = Ret (b_items b ! i) \<and> nw ! (2 * i + 1) \<noteq> 0"
  using assms by (rule tree_choose_weighted)

lemma tree_ok_code:
  "tree_sums nn nw \<longleftrightarrow> (\<forall>n\<in>set [0..<nn]. 0 < n \<and> even n \<longrightarrow>
     uint (nw ! n) = uint (nw ! (n - 2 ^ (tree_height n - 1))) + uint (nw ! (n + 2 ^ (tree_height n - 1))))"
  by (auto simp: tree_sums_def)

theorem tree_choose_weighted_item_witness:
  "\<exists>i<3. bucket_tree_choose (sample_bucket (TreeAlg 8 [0, 1, 3, 2, 6, 3, 3, 0])) 8 [0, 1, 3, 2, 6, 3, 3, 0] 9 0 =
     Ret (b_items (sample_bucket (TreeAlg 8 [0, 1, 3, 2, 6, 3, 3, 0])) ! i)"
proof -
  have "tree_sums 8 [0, 1, 3, 2, 6, 3, 3, 0]"
    unfolding tree_ok_code by code_simp
  moreover have "[0, 1, 3, 2, 6, 3, 3, 0 :: u32] ! (2 * i + 1) = 0" if "3 \<le> i" "2 * i + 1 < 8" for i
  proof -
    have "i = 3" using that by simp
    then show ?thesis by simp
  qed
  ultimately have "tree_ok 3 8 [0, 1, 3, 2, 6, 3, 3, 0]"
    by (auto simp: tree_ok_def intro: exI [of _ 3])
  then show ?thesis
    using tree_choose_weighted_item [of "sample_bucket (TreeAlg 8 [0, 1, 3, 2, 6, 3, 3, 0])" 8
        "[0, 1, 3, 2, 6, 3, 3, 0]" 9 0]
    by (simp add: sample_bucket_def) blast
qed

text \<open>With no weight anywhere the descent always turns right and ends at the last leaf.\<close>

lemma tree_descend_weightless:
  assumes "\<forall>n<length nw. nw ! n = 0" "2 ^ d \<le> length nw"
  shows "h < d \<Longrightarrow> h < k \<Longrightarrow> tree_descend k b nw x r (2 ^ d - 2 ^ h) = Ret (2 ^ d - 1)"
proof (induction h arbitrary: k)
  case 0
  then obtain k' where "k = Suc k'" by (cases k) auto
  moreover have "odd ((2 :: nat) ^ d - 1)" using 0 by simp
  ultimately show ?case by (simp add: terminal_def)
next
  case (Suc h)
  then obtain k' where k: "k = Suc k'" "h < k'" by (cases k) auto
  define n where "n = (2 :: nat) ^ d - 2 ^ Suc h"
  have n: "n = 2 ^ Suc h * (2 ^ (d - Suc h) - 1)"
    using Suc.prems(1) by (simp add: n_def diff_mult_distrib2 flip: power_add power_Suc)
  have "odd ((2 :: nat) ^ (d - Suc h) - 1)" using Suc.prems(1) by simp
  then have ht: "tree_height n = Suc h" unfolding n by (rule tree_height_pow)
  have lt: "(2 :: nat) ^ Suc h < 2 ^ d" using Suc.prems(1) by (rule power_strict_increasing) simp
  have pos: "0 < n" "n < 2 ^ d" "even n" using lt Suc.prems(1) unfolding n_def by auto
  have rt: "n + 2 ^ h = 2 ^ d - 2 ^ h" using lt unfolding n_def by simp
  have "n - 2 ^ h < length nw" "n < length nw" using pos assms(2) by simp_all
  then have "tree_descend k b nw x r n = tree_descend k' b nw x r (n + 2 ^ h)"
    using k pos assms(1) by (simp add: terminal_def left_def right_def height_def ht tree_point_def)
  then show ?case using Suc.IH [of k'] Suc.prems(1) k(2) rt by (simp add: n_def)
qed

text \<open>When no item of a tree bucket has weight and the tree has more leaves than the bucket has
  items, the descent picks a leaf without an item and \<open>bucket_tree_choose\<close> reads past the end of
  the items array.\<close>
theorem tree_choose_weightless_faults:
  assumes "\<forall>n<length nw. nw ! n = 0" "unat nn = 2 ^ d" "0 < d" "2 ^ d \<le> length nw"
    "length (b_items b) < 2 ^ (d - 1)"
  shows "bucket_tree_choose b nn nw x r = Fault"
proof -
  have "unat nn < 2 ^ 8" using unsigned_less [of nn] by simp
  then have d8: "d < 8" unfolding assms(2) by (rule power_less_imp_less_exp [rotated]) simp
  have root: "unat (drop_bit 1 nn) = 2 ^ d - 2 ^ (d - 1)"
    using assms(2,3) by (cases d) (simp_all add: unat_drop_bit)
  have "tree_descend 9 b nw x r (2 ^ d - 2 ^ (d - 1)) = Ret (2 ^ d - 1)"
    using assms(3) d8 by (intro tree_descend_weightless [OF assms(1,4)]) simp_all
  moreover have "(2 ^ d - 1) div 2 = (2 :: nat) ^ (d - 1) - 1" using assms(3) by (cases d) simp_all
  moreover have "length (b_items b) \<le> 2 ^ (d - 1) - 1" using assms(5) by simp
  ultimately show ?thesis unfolding bucket_tree_choose_def root
    by (simp only: exec_bind.simps arr_get_def of_nat_less_iff) simp
qed

theorem tree_choose_weightless_faults_witness:
  "bucket_tree_choose (sample_bucket (TreeAlg 8 (replicate 8 0))) 8 (replicate 8 0) 1 0 = Fault"
  by (rule tree_choose_weightless_faults [where d = 3]) (simp_all add: sample_bucket_def nth_replicate)

end
