(* ===== verification/Crush_Mapper.thy ===== *)
theory Crush_Mapper
  imports Crush_Choose
begin

text \<open>
  The placement algorithm of \<open>crush/mapper.c\<close>: \<open>crush_choose_firstn\<close>, \<open>crush_choose_indep\<close> and
  the rule interpreter \<open>crush_do_rule\<close>.

  A bucket pointer is the identifier under which the map holds the bucket, so that the permutation
  caches the choose methods write are seen by later calls, as they are through the pointers of the
  code.  An array argument \<open>p + k\<close> is the list from position \<open>k\<close> on.  The \<open>do \<dots> while\<close> loops take
  fuel, each loop its own; the theorems say how much is enough.
\<close>

unbundle bit_operations_syntax

section \<open>Arguments shared by the choose functions\<close>

record choose_args =
  ca_weight :: "u32 list"
  ca_weight_max :: int
  ca_x :: int
  ca_type :: int
  ca_tries :: nat
  ca_recurse_tries :: nat
  ca_local_retries :: nat
  ca_local_fallback_retries :: nat
  ca_recurse_to_leaf :: bool
  ca_vary_r :: nat
  ca_parent_r :: int

text \<open>\<open>unsigned\<close> increments and sums.\<close>

definition u32_add :: "nat \<Rightarrow> nat \<Rightarrow> nat" where
  "u32_add a b = (a + b) mod 2 ^ 32"

text \<open>\<open>itemtype\<close>: the type of the bucket an identifier stands for, 0 for a device.\<close>

definition item_type :: "crush_map \<Rightarrow> int \<Rightarrow> int exec" where
  "item_type m item =
     (if item < 0 then exec_bind (get_bucket m item) (\<lambda>b. Ret (uint (b_type b))) else Ret 0)"

text \<open>The histogram \<open>choose_tries\<close> of the map.\<close>

definition note_tries :: "crush_map \<Rightarrow> nat \<Rightarrow> crush_map exec" where
  "note_tries m ftotal =
     (case choose_tries m of
        None \<Rightarrow> Ret m
      | Some h \<Rightarrow>
          if ftotal \<le> choose_total_tries m
          then exec_bind (arr_get h (int ftotal)) (\<lambda>v. exec_bind (arr_set h (int ftotal) (v + 1))
                 (\<lambda>h. Ret (m\<lparr>choose_tries := Some h\<rparr>)))
          else Ret m)"

section \<open>Depth first: crush\_choose\_firstn\<close>

text \<open>How the inner loop ends: an item was accepted, the replica is given up, or the descent starts
  again at the top.  The number is \<open>ftotal\<close>.\<close>

datatype descent = Got int nat | Skip | Again nat

text \<open>
  The recursive call for a leaf, seen from the loop: bucket, output position, output vector, room
  and \<open>sub_r\<close> give the new output position and vector.
\<close>

type_synonym leaf_choice =
  "crush_map \<Rightarrow> int \<Rightarrow> nat \<Rightarrow> int list \<Rightarrow> int \<Rightarrow> int \<Rightarrow> (nat \<times> crush_map \<times> int list) exec"

text \<open>The leaf under an accepted item: whether to reject it, the map and \<open>out2\<close>.\<close>

definition firstn_leaf :: "choose_args \<Rightarrow> leaf_choice \<Rightarrow> nat \<Rightarrow> int \<Rightarrow> crush_map \<Rightarrow> int list \<Rightarrow> int \<Rightarrow> int
    \<Rightarrow> (bool \<times> crush_map \<times> int list) exec" where
  "firstn_leaf a leaf outpos cnt m out2 item r =
     (if item < 0 then
        (if ca_vary_r a > 32 then Fault
         else
           let sub_r = (if ca_vary_r a > 0 then r div 2 ^ (ca_vary_r a - 1) else 0) in
           exec_bind (leaf m item outpos out2 cnt sub_r) (\<lambda>(n, m, out2).
             Ret (n \<le> outpos, m, out2)))
      else exec_bind (arr_set out2 (int outpos) item) (\<lambda>out2. Ret (False, m, out2)))"

text \<open>
  One round of the inner \<open>do \<dots> while (retry_bucket)\<close> up to label \<open>reject\<close>, on bucket \<open>inb\<close> with
  contents \<open>b\<close>: the item is unusable (\<open>break\<close>), it is a bucket to go on with (\<open>continue\<close>), it is
  rejected, with the flag \<open>collide\<close>, or it is accepted.
\<close>

datatype judged = BadItem | Descend int | Rejected bool | Accept int

definition firstn_try :: "choose_args \<Rightarrow> leaf_choice \<Rightarrow> int \<Rightarrow> nat \<Rightarrow> int \<Rightarrow> int list
    \<Rightarrow> crush_map \<Rightarrow> int list \<Rightarrow> int \<Rightarrow> crush_bucket \<Rightarrow> nat \<Rightarrow> nat \<Rightarrow> (judged \<times> crush_map \<times> int list) exec" where
  "firstn_try a leaf rep outpos cnt out m out2 inb b flocal ftotal =
     (let r = to_s32 (rep + ca_parent_r a + int ftotal) in
      if b_size b = 0 then Ret (Rejected False, m, out2)
      else
        exec_bind
          (if ca_local_fallback_retries a > 0 \<and> flocal \<ge> b_size b div 2
              \<and> flocal > ca_local_fallback_retries a
           then bucket_perm_choose b (ca_x a) r
           else crush_bucket_choose b (ca_x a) r) (\<lambda>(item, b').
        let m = put_bucket m inb b' in
        if item \<ge> max_devices m then Ret (BadItem, m, out2)
        else
          exec_bind (item_type m item) (\<lambda>itemtype.
          if itemtype \<noteq> ca_type a then
            (if item \<ge> 0 \<or> - 1 - item \<ge> max_buckets m then Ret (BadItem, m, out2)
             else Ret (Descend item, m, out2))
          else
            let collide = item \<in> set (take outpos out) in
            exec_bind
              (if \<not> collide \<and> ca_recurse_to_leaf a
               then firstn_leaf a leaf outpos cnt m out2 item r
               else Ret (False, m, out2)) (\<lambda>(reject, m, out2).
            exec_bind
              (if \<not> reject \<and> itemtype = 0 then is_out (ca_weight a) (ca_weight_max a) item (ca_x a)
               else Ret reject) (\<lambda>reject.
            if reject \<or> collide then Ret (Rejected collide, m, out2)
            else Ret (Accept item, m, out2))))))"

text \<open>What follows a rejection, with the counters already incremented.\<close>

datatype verdict = RetryBucket | RetryDescent | GiveUp

definition firstn_verdict :: "choose_args \<Rightarrow> bool \<Rightarrow> nat \<Rightarrow> nat \<Rightarrow> nat \<Rightarrow> verdict" where
  "firstn_verdict a collide sz flocal ftotal =
     (if collide \<and> flocal \<le> ca_local_retries a then RetryBucket
      else if ca_local_fallback_retries a > 0 \<and> flocal \<le> u32_add sz (ca_local_fallback_retries a)
      then RetryBucket
      else if ftotal < ca_tries a then RetryDescent
      else GiveUp)"

primrec firstn_bucket :: "nat \<Rightarrow> choose_args \<Rightarrow> leaf_choice \<Rightarrow> int \<Rightarrow> nat \<Rightarrow> int \<Rightarrow> int list
    \<Rightarrow> crush_map \<Rightarrow> int list \<Rightarrow> int \<Rightarrow> nat \<Rightarrow> nat \<Rightarrow> (descent \<times> crush_map \<times> int list) exec" where
  "firstn_bucket 0 a leaf rep outpos cnt out m out2 inb flocal ftotal = NoFuel"
| "firstn_bucket (Suc k) a leaf rep outpos cnt out m out2 inb flocal ftotal =
     exec_bind (get_bucket m inb) (\<lambda>b.
     exec_bind (firstn_try a leaf rep outpos cnt out m out2 inb b flocal ftotal) (\<lambda>(j, m, out2).
       case j of
         BadItem \<Rightarrow> Ret (Skip, m, out2)
       | Descend item \<Rightarrow> firstn_bucket k a leaf rep outpos cnt out m out2 item flocal ftotal
       | Accept item \<Rightarrow> Ret (Got item ftotal, m, out2)
       | Rejected collide \<Rightarrow>
           (let ftotal = u32_add ftotal 1; flocal = u32_add flocal 1 in
            case firstn_verdict a collide (b_size b) flocal ftotal of
              RetryBucket \<Rightarrow> firstn_bucket k a leaf rep outpos cnt out m out2 inb flocal ftotal
            | RetryDescent \<Rightarrow> Ret (Again ftotal, m, out2)
            | GiveUp \<Rightarrow> Ret (Skip, m, out2))))"

text \<open>The outer \<open>do \<dots> while (retry_descent)\<close>.\<close>

primrec firstn_descent :: "nat \<Rightarrow> nat \<Rightarrow> choose_args \<Rightarrow> leaf_choice \<Rightarrow> int \<Rightarrow> nat \<Rightarrow> int \<Rightarrow> int list
    \<Rightarrow> crush_map \<Rightarrow> int list \<Rightarrow> int \<Rightarrow> nat \<Rightarrow> ((int \<times> nat) option \<times> crush_map \<times> int list) exec" where
  "firstn_descent 0 fuel a leaf rep outpos cnt out m out2 bucket ftotal = NoFuel"
| "firstn_descent (Suc k) fuel a leaf rep outpos cnt out m out2 bucket ftotal =
     exec_bind (firstn_bucket fuel a leaf rep outpos cnt out m out2 bucket 0 ftotal) (\<lambda>(d, m, out2).
       case d of
         Got item ft \<Rightarrow> Ret (Some (item, ft), m, out2)
       | Skip \<Rightarrow> Ret (None, m, out2)
       | Again ft \<Rightarrow> firstn_descent k fuel a leaf rep outpos cnt out m out2 bucket ft)"

text \<open>The \<open>for\<close> loop over the replicas, \<open>n\<close> of them left.\<close>

primrec firstn_reps :: "nat \<Rightarrow> nat \<Rightarrow> choose_args \<Rightarrow> leaf_choice \<Rightarrow> int \<Rightarrow> nat \<Rightarrow> int \<Rightarrow> int list
    \<Rightarrow> crush_map \<Rightarrow> int list \<Rightarrow> int \<Rightarrow> (nat \<times> crush_map \<times> int list \<times> int list) exec" where
  "firstn_reps 0 fuel a leaf rep outpos cnt out m out2 bucket = Ret (outpos, m, out, out2)"
| "firstn_reps (Suc n) fuel a leaf rep outpos cnt out m out2 bucket =
     (if cnt > 0 then
        exec_bind (firstn_descent fuel fuel a leaf rep outpos cnt out m out2 bucket 0) (\<lambda>(d, m, out2).
          case d of
            None \<Rightarrow> firstn_reps n fuel a leaf (rep + 1) outpos cnt out m out2 bucket
          | Some (item, ftotal) \<Rightarrow>
              exec_bind (arr_set out (int outpos) item) (\<lambda>out.
              exec_bind (note_tries m ftotal) (\<lambda>m.
                firstn_reps n fuel a leaf (rep + 1) (Suc outpos) (cnt - 1) out m out2 bucket)))
      else Ret (outpos, m, out, out2))"

text \<open>
  The function itself.  Its first argument bounds the recursion; the code recurses once, with
  \<open>recurse_to_leaf\<close> off.  The result is the number of items, the map, \<open>out\<close> and \<open>out2\<close>.
\<close>

primrec crush_choose_firstn :: "nat \<Rightarrow> nat \<Rightarrow> choose_args \<Rightarrow> crush_map \<Rightarrow> int \<Rightarrow> int \<Rightarrow> int list \<Rightarrow> nat \<Rightarrow> int
    \<Rightarrow> int list \<Rightarrow> (nat \<times> crush_map \<times> int list \<times> int list) exec" where
  "crush_choose_firstn 0 fuel a m bucket numrep out outpos out_size out2 = NoFuel"
| "crush_choose_firstn (Suc d) fuel a m bucket numrep out outpos out_size out2 =
     firstn_reps (nat (numrep - int outpos)) fuel a
       (\<lambda>m item outpos out2 cnt sub_r.
          exec_bind (crush_choose_firstn d fuel
              (a\<lparr>ca_type := 0, ca_tries := ca_recurse_tries a, ca_recurse_tries := 0,
                 ca_recurse_to_leaf := False, ca_parent_r := sub_r\<rparr>)
              m item (int outpos + 1) out2 outpos cnt [])
            (\<lambda>(n, m, out2, _). Ret (n, m, out2)))
       (int outpos) outpos out_size out m out2 bucket"

section \<open>Breadth first: crush\_choose\_indep\<close>

text \<open>Writing \<open>out2\<close>, which is NULL (\<open>None\<close>) in the recursive call.\<close>

definition set_out2 :: "int list option \<Rightarrow> int \<Rightarrow> int \<Rightarrow> int list option exec" where
  "set_out2 out2 i v =
     (case out2 of None \<Rightarrow> Ret None | Some xs \<Rightarrow> exec_bind (arr_set xs i v) (\<lambda>xs. Ret (Some xs)))"

text \<open>
  The recursive call for one leaf at position \<open>rep\<close> of \<open>out2\<close>.
\<close>

type_synonym leaf_indep =
  "crush_map \<Rightarrow> int \<Rightarrow> nat \<Rightarrow> int list \<Rightarrow> int \<Rightarrow> (crush_map \<times> int list) exec"

text \<open>The leaf under an item: whether there is one, the map and \<open>out2\<close>.\<close>

definition indep_leaf :: "leaf_indep \<Rightarrow> nat \<Rightarrow> crush_map \<Rightarrow> int list option \<Rightarrow> int \<Rightarrow> int
    \<Rightarrow> (bool \<times> crush_map \<times> int list option) exec" where
  "indep_leaf leaf rep m out2 item r =
     (case out2 of
        None \<Rightarrow> Fault
      | Some xs \<Rightarrow>
          if item < 0 then
            exec_bind (leaf m item rep xs r) (\<lambda>(m, xs).
            exec_bind (arr_get xs (int rep)) (\<lambda>v. Ret (v \<noteq> CRUSH_ITEM_NONE, m, Some xs)))
          else exec_bind (arr_set xs (int rep) item) (\<lambda>xs. Ret (True, m, Some xs)))"

text \<open>
  One round of the \<open>for (;;)\<close> loop of a position, on bucket \<open>inb\<close> with contents \<open>b\<close>: either the
  loop goes on with a bucket, or it ends, with a flag whether \<open>left\<close> is decremented.
\<close>

datatype indep_end = IDescend int | IBreak bool

text \<open>A position that cannot be filled: \<open>out\<close> and \<open>out2\<close> get \<open>CRUSH_ITEM_NONE\<close> and \<open>left\<close> drops.\<close>

definition indep_none :: "crush_map \<Rightarrow> int list \<Rightarrow> int list option \<Rightarrow> nat
    \<Rightarrow> (indep_end \<times> crush_map \<times> int list \<times> int list option) exec" where
  "indep_none m out out2 rep =
     exec_bind (arr_set out (int rep) CRUSH_ITEM_NONE) (\<lambda>out.
     exec_bind (set_out2 out2 (int rep) CRUSH_ITEM_NONE) (\<lambda>out2. Ret (IBreak True, m, out, out2)))"

definition indep_try :: "choose_args \<Rightarrow> leaf_indep \<Rightarrow> int \<Rightarrow> nat \<Rightarrow> nat \<Rightarrow> nat \<Rightarrow> nat
    \<Rightarrow> crush_map \<Rightarrow> int list \<Rightarrow> int list option \<Rightarrow> int \<Rightarrow> crush_bucket
    \<Rightarrow> (indep_end \<times> crush_map \<times> int list \<times> int list option) exec" where
  "indep_try a leaf numrep ftotal outpos endpos rep m out out2 inb b =
     (if alg_code (b_alg b) = 1 \<and> numrep = 0 then Fault
      else
      let r = to_s32 (int rep + ca_parent_r a +
                (if alg_code (b_alg b) = 1 \<and> int (b_size b) mod numrep = 0
                 then (numrep + 1) * int ftotal else numrep * int ftotal))
      in
      if b_size b = 0 then Ret (IBreak False, m, out, out2)
      else
        exec_bind (crush_bucket_choose b (ca_x a) r) (\<lambda>(item, b').
        let m = put_bucket m inb b' in
        if item \<ge> max_devices m then indep_none m out out2 rep
        else
          exec_bind (item_type m item) (\<lambda>itemtype.
          if itemtype \<noteq> ca_type a then
            (if item \<ge> 0 \<or> - 1 - item \<ge> max_buckets m then indep_none m out out2 rep
             else Ret (IDescend item, m, out, out2))
          else if item \<in> set (drop outpos (take endpos out)) then Ret (IBreak False, m, out, out2)
          else
            exec_bind (if ca_recurse_to_leaf a then indep_leaf leaf rep m out2 item r
                       else Ret (True, m, out2)) (\<lambda>(found, m, out2).
            if \<not> found then Ret (IBreak False, m, out, out2)
            else
              exec_bind (if itemtype = 0 then is_out (ca_weight a) (ca_weight_max a) item (ca_x a)
                         else Ret False) (\<lambda>gone.
              if gone then Ret (IBreak False, m, out, out2)
              else exec_bind (arr_set out (int rep) item) (\<lambda>out. Ret (IBreak True, m, out, out2)))))))"

primrec indep_bucket :: "nat \<Rightarrow> choose_args \<Rightarrow> leaf_indep \<Rightarrow> int \<Rightarrow> nat \<Rightarrow> nat \<Rightarrow> nat \<Rightarrow> nat
    \<Rightarrow> crush_map \<Rightarrow> int list \<Rightarrow> int list option \<Rightarrow> int
    \<Rightarrow> (bool \<times> crush_map \<times> int list \<times> int list option) exec" where
  "indep_bucket 0 a leaf numrep ftotal outpos endpos rep m out out2 inb = NoFuel"
| "indep_bucket (Suc k) a leaf numrep ftotal outpos endpos rep m out out2 inb =
     exec_bind (get_bucket m inb) (\<lambda>b.
     exec_bind (indep_try a leaf numrep ftotal outpos endpos rep m out out2 inb b) (\<lambda>(e, m, out, out2).
       case e of
         IDescend item \<Rightarrow> indep_bucket k a leaf numrep ftotal outpos endpos rep m out out2 item
       | IBreak filled \<Rightarrow> Ret (filled, m, out, out2)))"

text \<open>One pass over the positions \<open>rep, \<dots>, endpos - 1\<close>, \<open>n\<close> of them.\<close>

primrec indep_reps :: "nat \<Rightarrow> nat \<Rightarrow> choose_args \<Rightarrow> leaf_indep \<Rightarrow> int \<Rightarrow> nat \<Rightarrow> nat \<Rightarrow> nat \<Rightarrow> nat \<Rightarrow> int
    \<Rightarrow> crush_map \<Rightarrow> int list \<Rightarrow> int list option \<Rightarrow> int
    \<Rightarrow> (int \<times> crush_map \<times> int list \<times> int list option) exec" where
  "indep_reps 0 fuel a leaf numrep ftotal outpos endpos rep lft m out out2 bucket =
     Ret (lft, m, out, out2)"
| "indep_reps (Suc n) fuel a leaf numrep ftotal outpos endpos rep lft m out out2 bucket =
     exec_bind (arr_get out (int rep)) (\<lambda>v.
       if v \<noteq> CRUSH_ITEM_UNDEF
       then indep_reps n fuel a leaf numrep ftotal outpos endpos (Suc rep) lft m out out2 bucket
       else
         exec_bind (indep_bucket fuel a leaf numrep ftotal outpos endpos rep m out out2 bucket)
           (\<lambda>(filled, m, out, out2).
             indep_reps n fuel a leaf numrep ftotal outpos endpos (Suc rep)
               (if filled then lft - 1 else lft) m out out2 bucket))"

text \<open>The passes; \<open>n\<close> is \<open>tries - ftotal\<close>.  The final \<open>ftotal\<close> is part of the result.\<close>

primrec indep_tries :: "nat \<Rightarrow> nat \<Rightarrow> choose_args \<Rightarrow> leaf_indep \<Rightarrow> int \<Rightarrow> nat \<Rightarrow> nat \<Rightarrow> nat \<Rightarrow> int
    \<Rightarrow> crush_map \<Rightarrow> int list \<Rightarrow> int list option \<Rightarrow> int
    \<Rightarrow> (nat \<times> crush_map \<times> int list \<times> int list option) exec" where
  "indep_tries 0 fuel a leaf numrep ftotal outpos endpos lft m out out2 bucket =
     Ret (ftotal, m, out, out2)"
| "indep_tries (Suc n) fuel a leaf numrep ftotal outpos endpos lft m out out2 bucket =
     (if lft > 0 then
        exec_bind (indep_reps (endpos - outpos) fuel a leaf numrep ftotal outpos endpos outpos lft m out
            out2 bucket)
          (\<lambda>(lft, m, out, out2).
             indep_tries n fuel a leaf numrep (Suc ftotal) outpos endpos lft m out out2 bucket)
      else Ret (ftotal, m, out, out2))"

text \<open>Positions \<open>lo, \<dots>, hi - 1\<close> of a vector, rewritten; a fault when they are not all there.\<close>

definition map_range :: "nat \<Rightarrow> nat \<Rightarrow> (int \<Rightarrow> int) \<Rightarrow> int list \<Rightarrow> int list exec" where
  "map_range lo hi f xs =
     (if hi \<le> length xs \<or> hi \<le> lo
      then Ret (take lo xs @ map f (drop lo (take hi xs)) @ drop (max lo hi) xs) else Fault)"

definition map_range2 :: "nat \<Rightarrow> nat \<Rightarrow> (int \<Rightarrow> int) \<Rightarrow> int list option \<Rightarrow> int list option exec" where
  "map_range2 lo hi f out2 =
     (case out2 of None \<Rightarrow> Ret None | Some xs \<Rightarrow> exec_bind (map_range lo hi f xs) (\<lambda>xs. Ret (Some xs)))"

primrec crush_choose_indep :: "nat \<Rightarrow> nat \<Rightarrow> choose_args \<Rightarrow> crush_map \<Rightarrow> int \<Rightarrow> nat \<Rightarrow> int \<Rightarrow> int list \<Rightarrow> nat
    \<Rightarrow> int list option \<Rightarrow> (crush_map \<times> int list \<times> int list option) exec" where
  "crush_choose_indep 0 fuel a m bucket lft numrep out outpos out2 = NoFuel"
| "crush_choose_indep (Suc d) fuel a m bucket lft numrep out outpos out2 =
     (let endpos = outpos + lft;
          undef = (\<lambda>_. CRUSH_ITEM_UNDEF);
          none = (\<lambda>v. if v = CRUSH_ITEM_UNDEF then CRUSH_ITEM_NONE else v);
          leaf = (\<lambda>m item rep xs r.
            exec_bind (crush_choose_indep d fuel
                (a\<lparr>ca_type := 0, ca_tries := ca_recurse_tries a, ca_recurse_tries := 0,
                   ca_recurse_to_leaf := False, ca_parent_r := r\<rparr>)
                m item 1 numrep xs rep None)
              (\<lambda>(m, xs, _). Ret (m, xs)))
      in
      exec_bind (map_range outpos endpos undef out) (\<lambda>out.
      exec_bind (map_range2 outpos endpos undef out2) (\<lambda>out2.
      exec_bind (indep_tries (ca_tries a) fuel a leaf numrep 0 outpos endpos (int lft) m out out2 bucket)
        (\<lambda>(ftotal, m, out, out2).
      exec_bind (map_range outpos endpos none out) (\<lambda>out.
      exec_bind (map_range2 outpos endpos none out2) (\<lambda>out2.
      exec_bind (note_tries m ftotal) (\<lambda>m. Ret (m, out, out2))))))))"

section \<open>The rule interpreter\<close>

text \<open>
  The local variables of \<open>crush_do_rule\<close>: \<open>w\<close>, \<open>o\<close> and \<open>c\<close> are the three vectors of \<open>result_max\<close>
  entries in the scratch area, \<open>dr_result\<close> the results so far.
\<close>

record do_state =
  dr_w :: "int list"
  dr_o :: "int list"
  dr_c :: "int list"
  dr_wsize :: nat
  dr_result :: "int list"
  dr_choose_tries :: int
  dr_choose_leaf_tries :: int
  dr_choose_local_retries :: int
  dr_choose_local_fallback_retries :: int
  dr_vary_r :: int
  dr_map :: crush_map

definition to_u32 :: "int \<Rightarrow> nat" where
  "to_u32 i = unat (word_of_int i :: u32)"

text \<open>The arguments of the choose calls of one step.\<close>

definition step_args :: "u32 list \<Rightarrow> int \<Rightarrow> int \<Rightarrow> do_state \<Rightarrow> crush_rule_step \<Rightarrow> bool \<Rightarrow> choose_args" where
  "step_args weight weight_max x s st firstn =
     \<lparr>ca_weight = weight, ca_weight_max = weight_max, ca_x = x, ca_type = arg2 st,
      ca_tries = to_u32 (dr_choose_tries s),
      ca_recurse_tries = to_u32
        (if firstn then
           (if dr_choose_leaf_tries s \<noteq> 0 then dr_choose_leaf_tries s
            else if chooseleaf_descend_once (dr_map s) \<noteq> 0 then 1 else dr_choose_tries s)
         else (if dr_choose_leaf_tries s \<noteq> 0 then dr_choose_leaf_tries s else 1)),
      ca_local_retries = to_u32 (dr_choose_local_retries s),
      ca_local_fallback_retries = to_u32 (dr_choose_local_fallback_retries s),
      ca_recurse_to_leaf =
        (op st = CRUSH_RULE_CHOOSELEAF_FIRSTN \<or> op st = CRUSH_RULE_CHOOSELEAF_INDEP),
      ca_vary_r = to_u32 (dr_vary_r s), ca_parent_r = 0\<rparr>"

text \<open>
  The loop over \<open>w[0], \<dots>, w[wsize - 1]\<close> of a choose step, reading \<open>map->buckets[-1-w[i]]\<close> for the
  call.  The result is \<open>osize\<close> and the state with
  \<open>o\<close>, \<open>c\<close> and the map updated.
\<close>

fun choose_loop :: "nat \<Rightarrow> u32 list \<Rightarrow> int \<Rightarrow> int \<Rightarrow> int \<Rightarrow> crush_rule_step \<Rightarrow> bool \<Rightarrow> int list \<Rightarrow> nat \<Rightarrow> do_state
    \<Rightarrow> (nat \<times> do_state) exec" where
  "choose_loop fuel weight weight_max x result_max st firstn [] osize s = Ret (osize, s)"
| "choose_loop fuel weight weight_max x result_max st firstn (wi # ws) osize s =
     (let numrep = (if arg1 st \<le> 0 then arg1 st + result_max else arg1 st);
          a = step_args weight weight_max x s st firstn
      in
      if numrep \<le> 0 then choose_loop fuel weight weight_max x result_max st firstn ws osize s
      else
      exec_bind (arr_get (buckets (dr_map s)) (- 1 - wi)) (\<lambda>_.
      if firstn then
        exec_bind (crush_choose_firstn 2 fuel a (dr_map s) wi numrep (drop osize (dr_o s)) 0
            (result_max - int osize) (drop osize (dr_c s)))
          (\<lambda>(n, m, out, out2).
            choose_loop fuel weight weight_max x result_max st firstn ws (osize + n)
              (s\<lparr>dr_map := m, dr_o := take osize (dr_o s) @ out, dr_c := take osize (dr_c s) @ out2\<rparr>))
      else
        let out_size = nat (min numrep (result_max - int osize)) in
        exec_bind (crush_choose_indep 2 fuel a (dr_map s) wi out_size numrep (drop osize (dr_o s)) 0
            (Some (drop osize (dr_c s))))
          (\<lambda>(m, out, out2).
            choose_loop fuel weight weight_max x result_max st firstn ws (osize + out_size)
              (s\<lparr>dr_map := m, dr_o := take osize (dr_o s) @ out,
                 dr_c := take osize (dr_c s) @ the out2\<rparr>))))"

text \<open>One rule step.\<close>

definition do_step :: "nat \<Rightarrow> u32 list \<Rightarrow> int \<Rightarrow> int \<Rightarrow> int \<Rightarrow> crush_rule_step \<Rightarrow> do_state \<Rightarrow> do_state exec" where
  "do_step fuel weight weight_max x result_max st s =
     (if op st = CRUSH_RULE_TAKE then
        exec_bind (arr_set (dr_w s) 0 (arg1 st)) (\<lambda>w. Ret (s\<lparr>dr_w := w, dr_wsize := 1\<rparr>))
      else if op st = CRUSH_RULE_SET_CHOOSE_TRIES then
        Ret (if arg1 st > 0 then s\<lparr>dr_choose_tries := arg1 st\<rparr> else s)
      else if op st = CRUSH_RULE_SET_CHOOSELEAF_TRIES then
        Ret (if arg1 st > 0 then s\<lparr>dr_choose_leaf_tries := arg1 st\<rparr> else s)
      else if op st = CRUSH_RULE_SET_CHOOSE_LOCAL_TRIES then
        Ret (if arg1 st \<ge> 0 then s\<lparr>dr_choose_local_retries := arg1 st\<rparr> else s)
      else if op st = CRUSH_RULE_SET_CHOOSE_LOCAL_FALLBACK_TRIES then
        Ret (if arg1 st \<ge> 0 then s\<lparr>dr_choose_local_fallback_retries := arg1 st\<rparr> else s)
      else if op st = CRUSH_RULE_SET_CHOOSELEAF_VARY_R then
        Ret (if arg1 st \<ge> 0 then s\<lparr>dr_vary_r := arg1 st\<rparr> else s)
      else if op st \<in> {CRUSH_RULE_CHOOSELEAF_FIRSTN, CRUSH_RULE_CHOOSE_FIRSTN,
          CRUSH_RULE_CHOOSELEAF_INDEP, CRUSH_RULE_CHOOSE_INDEP} then
        (if dr_wsize s = 0 then Ret s
         else
           let firstn = (op st = CRUSH_RULE_CHOOSELEAF_FIRSTN \<or> op st = CRUSH_RULE_CHOOSE_FIRSTN);
               leaf = (op st = CRUSH_RULE_CHOOSELEAF_FIRSTN \<or> op st = CRUSH_RULE_CHOOSELEAF_INDEP)
           in
           exec_bind (choose_loop fuel weight weight_max x result_max st firstn
               (take (dr_wsize s) (dr_w s)) 0 s)
             (\<lambda>(osize, s).
               let ov = (if leaf then take osize (dr_c s) @ drop osize (dr_o s) else dr_o s)
               in Ret (s\<lparr>dr_o := dr_w s, dr_w := ov, dr_wsize := osize\<rparr>)))
      else if op st = CRUSH_RULE_EMIT then
        Ret (s\<lparr>dr_result := dr_result s @
                  take (nat (result_max - int (length (dr_result s)))) (take (dr_wsize s) (dr_w s)),
               dr_wsize := 0\<rparr>)
      else Ret s)"

fun do_steps :: "nat \<Rightarrow> u32 list \<Rightarrow> int \<Rightarrow> int \<Rightarrow> int \<Rightarrow> crush_rule_step list \<Rightarrow> do_state \<Rightarrow> do_state exec" where
  "do_steps fuel weight weight_max x result_max [] s = Ret s"
| "do_steps fuel weight weight_max x result_max (st # sts) s =
     exec_bind (do_step fuel weight weight_max x result_max st s) (\<lambda>s.
       do_steps fuel weight weight_max x result_max sts s)"

text \<open>
  \<open>scratch\<close> is the caller's scratch area, of three times \<open>result_max\<close> entries.  The result is the
  vector of results, its length being the number returned, and the map.
\<close>

definition crush_do_rule :: "nat \<Rightarrow> crush_map \<Rightarrow> int \<Rightarrow> int \<Rightarrow> nat \<Rightarrow> u32 list \<Rightarrow> int \<Rightarrow> int list
    \<Rightarrow> (int list \<times> crush_map) exec" where
  "crush_do_rule fuel m ruleno x result_max weight weight_max scratch =
     (if to_u32 ruleno \<ge> max_rules m then Ret ([], m)
      else
        exec_bind (arr_get (rules m) (int (to_u32 ruleno))) (\<lambda>rl.
          case rl of
            None \<Rightarrow> Fault
          | Some rule \<Rightarrow>
              if length (steps rule) < rule_len rule \<or> length scratch < 3 * result_max then Fault
              else
                exec_bind (do_steps fuel weight weight_max x (int result_max)
                    (take (rule_len rule) (steps rule))
                    \<lparr>dr_w = take result_max scratch, dr_o = take result_max (drop result_max scratch),
                     dr_c = take result_max (drop (2 * result_max) scratch), dr_wsize = 0, dr_result = [],
                     dr_choose_tries = to_s32 (int (choose_total_tries m) + 1), dr_choose_leaf_tries = 0,
                     dr_choose_local_retries = to_s32 (int (choose_local_tries m)),
                     dr_choose_local_fallback_retries = to_s32 (int (choose_local_fallback_tries m)),
                     dr_vary_r = int (chooseleaf_vary_r m), dr_map = m\<rparr>)
                  (\<lambda>s. Ret (dr_result s, dr_map s))))"

end
