(* ===== verification/Crush_Placement.thy ===== *)
theory Crush_Placement
  imports Crush_Mapper
begin

text \<open>
  What placement promises (\<open>crush/mapper.c\<close>): the well-formedness of a map (\<open>map_ok\<close>, with a rank that
  makes the hierarchy acyclic), the contract of one descent, of one replica and of the whole
  \<open>crush_choose_firstn\<close>, and the placement by a take, chooseleaf, emit rule.  Every statement is
  total: with the stated fuel the loops return and no array access is out of range.
\<close>

unbundle bit_operations_syntax

section \<open>Well-formed maps\<close>

text \<open>
  Every reference of a bucket is to a bucket that is there, the ranks \<open>rk\<close> strictly decrease from a
  bucket to the buckets it contains, so that there is no cycle, and the histogram, if any, has an
  entry for every count it records.
\<close>

definition map_ok :: "(int \<Rightarrow> nat) \<Rightarrow> crush_map \<Rightarrow> bool" where
  "map_ok rk m \<longleftrightarrow> int (length (buckets m)) = max_buckets m \<and>
     (\<forall>i b. get_bucket m i = Ret b \<longrightarrow> bucket_ok b \<and> b_type b \<noteq> 0 \<and>
        (\<forall>item \<in> set (take (b_size b) (b_items b)). item < 0 \<longrightarrow>
           (\<exists>c. get_bucket m item = Ret c) \<and> rk item < rk i)) \<and>
     (case choose_tries m of None \<Rightarrow> True | Some h \<Rightarrow> choose_total_tries m < length h)"

text \<open>What of a map stays when only caches and the histogram change.\<close>

definition map_static :: "crush_map \<Rightarrow> crush_map" where
  "map_static m = m\<lparr>buckets := map (map_option static) (buckets m), choose_tries := None\<rparr>"

definition cached :: "(int \<Rightarrow> nat) \<Rightarrow> crush_map \<Rightarrow> crush_map \<Rightarrow> bool" where
  "cached rk m m' \<longleftrightarrow> map_ok rk m' \<and> map_static m' = map_static m"

lemma cached_refl: "map_ok rk m \<Longrightarrow> cached rk m m"
  by (simp add: cached_def)

lemma cached_trans: "cached rk m m' \<Longrightarrow> cached rk m' m'' \<Longrightarrow> cached rk m m''"
  by (simp add: cached_def)

lemma cached_ok: "cached rk m m' \<Longrightarrow> map_ok rk m'"
  by (simp add: cached_def)

lemma map_static_fields:
  assumes "map_static m = map_static m'"
  shows "map (map_option static) (buckets m) = map (map_option static) (buckets m')"
    "max_devices m = max_devices m'" "max_buckets m = max_buckets m'"
    "choose_total_tries m = choose_total_tries m'" "chooseleaf_descend_once m = chooseleaf_descend_once m'"
proof -
  have "f (map_static m) = f (map_static m')" for f :: "crush_map \<Rightarrow> 'x" using assms by simp
  from this [of buckets] this [of max_devices] this [of max_buckets] this [of choose_total_tries]
    this [of chooseleaf_descend_once]
  show "map (map_option static) (buckets m) = map (map_option static) (buckets m')"
    "max_devices m = max_devices m'" "max_buckets m = max_buckets m'"
    "choose_total_tries m = choose_total_tries m'" "chooseleaf_descend_once m = chooseleaf_descend_once m'"
    by (simp_all add: map_static_def)
qed

lemma get_bucket_iff:
  "get_bucket m i = Ret b \<longleftrightarrow>
     0 \<le> - 1 - i \<and> - 1 - i < int (length (buckets m)) \<and> buckets m ! nat (- 1 - i) = Some b"
  by (auto simp: get_bucket_def arr_get_def split: option.splits)

lemma get_bucket_static:
  assumes "map_static m' = map_static m" "get_bucket m i = Ret b"
  shows "\<exists>b'. get_bucket m' i = Ret b' \<and> static b' = static b"
proof -
  note eq = map_static_fields(1) [OF assms(1)]
  have len: "length (buckets m') = length (buckets m)" using arg_cong [OF eq, of length] by simp
  have i: "0 \<le> - 1 - i" "- 1 - i < int (length (buckets m))" "buckets m ! nat (- 1 - i) = Some b"
    using assms(2) by (simp_all add: get_bucket_iff)
  then have "nat (- 1 - i) < length (buckets m)" by simp
  then have "map_option static (buckets m' ! nat (- 1 - i)) = Some (static b)"
    using arg_cong [OF eq, of "\<lambda>xs. xs ! nat (- 1 - i)"] len i(3) by simp
  then show ?thesis using i len by (auto simp: get_bucket_iff)
qed

lemma get_put_bucket:
  assumes "get_bucket m i = Ret b"
  shows "get_bucket (put_bucket m i b') j = (if j = i then Ret b' else get_bucket m j)"
proof -
  have i: "0 \<le> - 1 - i" "- 1 - i < int (length (buckets m))" using assms by (simp_all add: get_bucket_iff)
  show ?thesis
  proof (cases "j = i")
    case True
    then show ?thesis using i by (simp add: get_bucket_def put_bucket_def arr_get_def)
  next
    case False
    then have "0 \<le> - 1 - j \<Longrightarrow> nat (- 1 - j) \<noteq> nat (- 1 - i)" using i by simp
    then have "0 \<le> - 1 - j \<Longrightarrow> (buckets m)[nat (- 1 - i) := Some b'] ! nat (- 1 - j) = buckets m ! nat (- 1 - j)"
      by simp
    then show ?thesis using False by (auto simp: get_bucket_def put_bucket_def arr_get_def)
  qed
qed

lemma map_static_put:
  assumes "get_bucket m i = Ret b" "static b' = static b"
  shows "map_static (put_bucket m i b') = map_static m"
proof -
  have i: "nat (- 1 - i) < length (buckets m)" "buckets m ! nat (- 1 - i) = Some b"
    using assms(1) by (auto simp: get_bucket_iff)
  have "(map (map_option static) (buckets m))[nat (- 1 - i) := Some (static b')] = map (map_option static) (buckets m)"
    using i assms(2) by (intro nth_equalityI) (auto simp: nth_list_update)
  then show ?thesis by (simp add: map_static_def put_bucket_def map_update)
qed

lemma cached_put:
  assumes "map_ok rk m" "get_bucket m i = Ret b" "bucket_ok b'" "static b' = static b"
  shows "cached rk m (put_bucket m i b')"
proof -
  note f = static_fields [OF assms(4)]
  have "\<exists>c. get_bucket (put_bucket m i b') j = Ret c" if "\<exists>c. get_bucket m j = Ret c" for j
    using that by (simp add: get_put_bucket [OF assms(2)])
  moreover have "length (buckets (put_bucket m i b')) = length (buckets m)"
    "max_buckets (put_bucket m i b') = max_buckets m" "choose_tries (put_bucket m i b') = choose_tries m"
    "choose_total_tries (put_bucket m i b') = choose_total_tries m"
    by (simp_all add: put_bucket_def)
  moreover have "bucket_ok c \<and> b_type c \<noteq> 0 \<and> (\<forall>item \<in> set (take (b_size c) (b_items c)). item < 0 \<longrightarrow>
      (\<exists>c. get_bucket m item = Ret c) \<and> rk item < rk j)"
    if "get_bucket (put_bucket m i b') j = Ret c" for j c
    using that assms(1,2,3) f unfolding get_put_bucket [OF assms(2)] map_ok_def
    by (cases "j = i") auto
  ultimately have "map_ok rk (put_bucket m i b')"
    using assms(1) unfolding map_ok_def by (simp split: option.splits)
  then show ?thesis using map_static_put [OF assms(2,4)] by (simp add: cached_def)
qed

text \<open>Item types, and which items a bucket holds at any depth.\<close>

lemma item_type_static:
  assumes "map_static m' = map_static m" "item_type m item = Ret t"
  shows "item_type m' item = Ret t"
proof (cases "item < 0")
  case True
  then obtain b where b: "get_bucket m item = Ret b" "t = uint (b_type b)"
    using assms(2) by (auto simp: item_type_def)
  from get_bucket_static [OF assms(1) b(1)] obtain b' where
    "get_bucket m' item = Ret b'" "static b' = static b" by blast
  then show ?thesis using True b(2) static_fields(2) [of b' b] by (simp add: item_type_def)
qed (use assms(2) in \<open>simp add: item_type_def\<close>)

definition holds :: "crush_map \<Rightarrow> int \<Rightarrow> int \<Rightarrow> bool" where
  "holds m i item \<longleftrightarrow> (\<exists>b. get_bucket m i = Ret b \<and> item \<in> set (take (b_size b) (b_items b)))"

abbreviation under :: "crush_map \<Rightarrow> int \<Rightarrow> int \<Rightarrow> bool" where
  "under m \<equiv> (holds m)\<^sup>+\<^sup>+"

lemma holds_static: "map_static m' = map_static m \<Longrightarrow> holds m' = holds m"
proof -
  have "holds n i item" if s: "map_static n = map_static n'" and h: "holds n' i item" for n n' i item
  proof -
    obtain b where b: "get_bucket n' i = Ret b" "item \<in> set (take (b_size b) (b_items b))"
      using h by (auto simp: holds_def)
    from get_bucket_static [OF s b(1)] obtain b' where
      "get_bucket n i = Ret b'" "static b' = static b" by blast
    then show ?thesis using b(2) static_fields [of b' b] by (auto simp: holds_def)
  qed
  then show "map_static m' = map_static m \<Longrightarrow> holds m' = holds m" by (intro ext iffI) metis+
qed

lemma cached_view:
  assumes "cached rk m m'"
  shows "holds m' = holds m" "item_type m item = Ret t \<Longrightarrow> item_type m' item = Ret t"
    "item_type m' item = Ret t \<Longrightarrow> item_type m item = Ret t"
    "get_bucket m i = Ret b \<Longrightarrow> \<exists>b'. get_bucket m' i = Ret b'"
    "max_devices m' = max_devices m" "max_buckets m' = max_buckets m"
proof -
  have s: "map_static m' = map_static m" using assms by (simp add: cached_def)
  show "holds m' = holds m" by (rule holds_static [OF s])
  show "item_type m item = Ret t \<Longrightarrow> item_type m' item = Ret t" by (rule item_type_static [OF s])
  show "item_type m' item = Ret t \<Longrightarrow> item_type m item = Ret t" by (rule item_type_static [OF s [symmetric]])
  show "get_bucket m i = Ret b \<Longrightarrow> \<exists>b'. get_bucket m' i = Ret b'" using get_bucket_static [OF s] by blast
  show "max_devices m' = max_devices m" "max_buckets m' = max_buckets m" using map_static_fields [OF s] by simp_all
qed

lemma note_tries_cached:
  assumes "map_ok rk m"
  shows "exec_post (note_tries m f) (cached rk m)"
proof (cases "choose_tries m")
  case None
  then show ?thesis using assms by (simp add: note_tries_def cached_refl)
next
  case (Some h)
  then have h: "choose_total_tries m < length h" using assms by (simp add: map_ok_def)
  have "get_bucket (m\<lparr>choose_tries := c\<rparr>) i = get_bucket m i" for c i by (simp add: get_bucket_def)
  then have "map_ok rk (m\<lparr>choose_tries := Some g\<rparr>)" if "length g = length h" for g
    using assms Some h that by (simp add: map_ok_def)
  then show ?thesis using Some h assms
    by (simp add: note_tries_def cached_def map_static_def)
qed

section \<open>One round of crush\_choose\_firstn\<close>

definition args_ok :: "choose_args \<Rightarrow> bool" where
  "args_ok a \<longleftrightarrow> ca_weight_max a \<le> int (length (ca_weight a)) \<and> ca_vary_r a \<le> 32"

text \<open>The device is in: its weight lets it be used for this input.\<close>

definition in_place :: "choose_args \<Rightarrow> int \<Rightarrow> bool" where
  "in_place a item \<longleftrightarrow> is_out (ca_weight a) (ca_weight_max a) item (ca_x a) = Ret False"

lemma is_out_total:
  assumes "args_ok a" "0 \<le> item"
  shows "is_out (ca_weight a) (ca_weight_max a) item (ca_x a) = Ret (\<not> in_place a item)"
proof (cases "item \<ge> ca_weight_max a")
  case True
  then show ?thesis by (simp add: in_place_def is_out_def)
next
  case False
  then have "arr_get (ca_weight a) item = Ret (ca_weight a ! nat item)"
    using assms by (simp add: arr_get_def args_ok_def)
  then show ?thesis using False by (simp add: in_place_def is_out_def)
qed

text \<open>The device chosen for an accepted item, in position \<open>outpos\<close> of \<open>out2\<close>.\<close>

definition leaf_ok :: "choose_args \<Rightarrow> crush_map \<Rightarrow> nat \<Rightarrow> int list \<Rightarrow> int \<Rightarrow> bool" where
  "leaf_ok a m outpos out2 item \<longleftrightarrow>
     (if item < 0
      then 0 \<le> out2 ! outpos \<and> in_place a (out2 ! outpos) \<and> out2 ! outpos \<notin> set (take outpos out2)
        \<and> under m item (out2 ! outpos)
      else out2 ! outpos = item)"

definition item_ok :: "choose_args \<Rightarrow> crush_map \<Rightarrow> nat \<Rightarrow> int list \<Rightarrow> int list \<Rightarrow> int \<Rightarrow> bool" where
  "item_ok a m outpos out out2 item \<longleftrightarrow> item \<notin> set (take outpos out) \<and>
     item_type m item = Ret (ca_type a) \<and> (ca_type a = 0 \<longrightarrow> 0 \<le> item \<and> in_place a item) \<and>
     (ca_recurse_to_leaf a \<longrightarrow> leaf_ok a m outpos out2 item)"

text \<open>What the loop relies on of the recursive call.\<close>

definition leaf_spec :: "(int \<Rightarrow> nat) \<Rightarrow> choose_args \<Rightarrow> leaf_choice \<Rightarrow> bool" where
  "leaf_spec rk a leaf \<longleftrightarrow> (\<forall>m item b outpos out2 cnt r.
     map_ok rk m \<and> get_bucket m item = Ret b \<and> int outpos + cnt \<le> int (length out2) \<and> 0 < cnt \<longrightarrow>
     exec_post (leaf m item outpos out2 cnt r) (\<lambda>(n, m', out2').
       cached rk m m' \<and> length out2' = length out2 \<and> take outpos out2' = take outpos out2 \<and>
       (outpos < n \<longrightarrow> 0 \<le> out2' ! outpos \<and> in_place a (out2' ! outpos) \<and>
          out2' ! outpos \<notin> set (take outpos out2) \<and> under m item (out2' ! outpos))))"

lemma map_ok_bucket:
  assumes "map_ok rk m" "get_bucket m i = Ret b"
  shows "bucket_ok b" "b_type b \<noteq> 0"
    "\<And>item. item \<in> set (take (b_size b) (b_items b)) \<Longrightarrow> item < 0 \<Longrightarrow> \<exists>c. get_bucket m item = Ret c"
    "\<And>item. item \<in> set (take (b_size b) (b_items b)) \<Longrightarrow> item < 0 \<Longrightarrow> rk item < rk i"
  using assms unfolding map_ok_def by blast+

lemma item_type_total:
  assumes "map_ok rk m" "item < 0 \<longrightarrow> (\<exists>c. get_bucket m item = Ret c)"
  shows "\<exists>t. item_type m item = Ret t \<and> (t = 0 \<longleftrightarrow> 0 \<le> item)"
proof (cases "item < 0")
  case True
  then obtain c where c: "get_bucket m item = Ret c" using assms(2) by blast
  have "uint (b_type c) \<noteq> 0" using map_ok_bucket(2) [OF assms(1) c] by (simp add: uint_0_iff)
  then show ?thesis using True c by (simp add: item_type_def)
qed (simp add: item_type_def)

lemma firstn_leaf_spec:
  assumes "map_ok rk m" "args_ok a" "leaf_spec rk a leaf" "int outpos + cnt \<le> int (length out2)" "0 < cnt"
    and "item < 0 \<longrightarrow> (\<exists>c. get_bucket m item = Ret c)"
  shows "exec_post (firstn_leaf a leaf outpos cnt m out2 item r) (\<lambda>(reject, m', out2').
    cached rk m m' \<and> length out2' = length out2 \<and> take outpos out2' = take outpos out2 \<and>
    (\<not> reject \<longrightarrow> leaf_ok a m outpos out2' item))"
proof (cases "item < 0")
  case True
  then obtain c where c: "get_bucket m item = Ret c" using assms(6) by blast
  define sub_r where "sub_r = (if ca_vary_r a > 0 then r div 2 ^ (ca_vary_r a - 1) else 0)"
  have "exec_post (leaf m item outpos out2 cnt sub_r) (\<lambda>(n, m', out2').
       cached rk m m' \<and> length out2' = length out2 \<and> take outpos out2' = take outpos out2 \<and>
       (outpos < n \<longrightarrow> 0 \<le> out2' ! outpos \<and> in_place a (out2' ! outpos) \<and>
          out2' ! outpos \<notin> set (take outpos out2) \<and> under m item (out2' ! outpos)))"
    using assms(1,3,4,5) c unfolding leaf_spec_def by blast
  then show ?thesis
    using True assms(2) unfolding firstn_leaf_def Let_def sub_r_def [symmetric]
    by (auto simp: args_ok_def leaf_ok_def elim!: exec_post_mono)
next
  case False
  moreover have "outpos < length out2" using assms(4,5) by simp
  ultimately show ?thesis using assms(1)
    by (simp add: firstn_leaf_def leaf_ok_def cached_refl)
qed

lemma pick_spec:
  assumes "map_ok rk m" "get_bucket m inb = Ret b" "0 < b_size b"
  shows "exec_post (if p then bucket_perm_choose b x r else crush_bucket_choose b x r) (\<lambda>(item, b').
    cached rk m (put_bucket m inb b') \<and> holds m inb item \<and>
    (item < 0 \<longrightarrow> (\<exists>c. get_bucket (put_bucket m inb b') item = Ret c) \<and> rk item < rk inb))"
proof -
  note ok = map_ok_bucket [OF assms(1,2)]
  have len: "b_size b \<le> length (b_items b)" using ok(1) by (simp add: bucket_ok_def cache_ok_def)
  have "\<exists>i b'. i < b_size b \<and> (if p then bucket_perm_choose b x r else crush_bucket_choose b x r) =
      Ret (b_items b ! i, b') \<and> bucket_ok b' \<and> static b' = static b"
    using perm.pick_item [OF ok(1) assms(3), of x r] choose.pick_item [OF ok(1) assms(3), of x r] by auto
  then obtain i b' where b': "i < b_size b" "(if p then bucket_perm_choose b x r else crush_bucket_choose b x r) =
      Ret (b_items b ! i, b')" "bucket_ok b'" "static b' = static b" by blast
  have mem: "b_items b ! i \<in> set (take (b_size b) (b_items b))"
    using b'(1) len by (auto simp: in_set_conv_nth intro!: exI [of _ i])
  have c: "cached rk m (put_bucket m inb b')" using assms(1,2) b'(3,4) by (rule cached_put)
  show ?thesis unfolding b'(2)
    using c mem assms(2) ok(3,4) [OF mem] cached_view(4) [OF c] by (auto simp: holds_def)
qed

lemma firstn_try_spec:
  assumes m: "map_ok rk m" "get_bucket m inb = Ret b" and a: "args_ok a"
    and leaf: "ca_recurse_to_leaf a \<longrightarrow> leaf_spec rk a leaf \<and> int outpos + cnt \<le> int (length out2) \<and> 0 < cnt"
  shows "exec_post (firstn_try a leaf rep outpos cnt out m out2 inb b flocal ftotal) (\<lambda>(j, m', out2').
    cached rk m m' \<and> length out2' = length out2 \<and> take outpos out2' = take outpos out2 \<and>
    (case j of
       Descend i \<Rightarrow> holds m inb i \<and> (\<exists>c. get_bucket m' i = Ret c) \<and> rk i < rk inb
     | Accept item \<Rightarrow> holds m inb item \<and> item_ok a m outpos out out2' item
     | _ \<Rightarrow> True))"
proof (cases "b_size b = 0")
  case True
  then show ?thesis using m(1) by (simp add: firstn_try_def cached_refl)
next
  case False
  define r where "r = to_s32 (rep + ca_parent_r a + int ftotal)"
  from exec_postD [OF pick_spec [OF m, of "ca_local_fallback_retries a > 0 \<and> flocal \<ge> b_size b div 2
      \<and> flocal > ca_local_fallback_retries a" "ca_x a" r]] False
  obtain item b' where pick: "(if ca_local_fallback_retries a > 0 \<and> flocal \<ge> b_size b div 2
      \<and> flocal > ca_local_fallback_retries a then bucket_perm_choose b (ca_x a) r
      else crush_bucket_choose b (ca_x a) r) = Ret (item, b')"
    and c: "cached rk m (put_bucket m inb b')" and h: "holds m inb item"
    and neg: "item < 0 \<longrightarrow> (\<exists>c. get_bucket (put_bucket m inb b') item = Ret c) \<and> rk item < rk inb"
    by auto
  define m1 where "m1 = put_bucket m inb b'"
  note c1 = c [folded m1_def] and neg1 = neg [folded m1_def]
  obtain t where t: "item_type m1 item = Ret t" "t = 0 \<longleftrightarrow> 0 \<le> item"
    using item_type_total [OF cached_ok [OF c1], of item] neg1 by blast
  have red: "firstn_try a leaf rep outpos cnt out m out2 inb b flocal ftotal =
     (if item \<ge> max_devices m1 then Ret (BadItem, m1, out2)
      else if t \<noteq> ca_type a then
        (if item \<ge> 0 \<or> - 1 - item \<ge> max_buckets m1 then Ret (BadItem, m1, out2) else Ret (Descend item, m1, out2))
      else
        let collide = item \<in> set (take outpos out) in
        exec_bind (if \<not> collide \<and> ca_recurse_to_leaf a then firstn_leaf a leaf outpos cnt m1 out2 item r
                   else Ret (False, m1, out2)) (\<lambda>(reject, m, out2).
        exec_bind (if \<not> reject \<and> t = 0 then is_out (ca_weight a) (ca_weight_max a) item (ca_x a) else Ret reject)
          (\<lambda>reject. if reject \<or> collide then Ret (Rejected collide, m, out2) else Ret (Accept item, m, out2))))"
    using False pick t(1) unfolding firstn_try_def Let_def r_def [symmetric] m1_def by simp
  have tm: "item_type m item = Ret t" by (rule cached_view(3) [OF c1 t(1)])
  have under: "under m1 = under m" using cached_view(1) [OF c1] by simp
  show ?thesis
  proof (cases "item \<ge> max_devices m1 \<or> t \<noteq> ca_type a")
    case True
    then show ?thesis unfolding red using c1 h neg1 by auto
  next
    case match: False
    have out: "(if \<not> rej \<and> t = 0 then is_out (ca_weight a) (ca_weight_max a) item (ca_x a) else Ret rej) =
        Ret (rej \<or> t = 0 \<and> \<not> in_place a item)" for rej
      using is_out_total [OF a, of item] t(2) by simp
    have leaf': "exec_post (if item \<notin> set (take outpos out) \<and> ca_recurse_to_leaf a
         then firstn_leaf a leaf outpos cnt m1 out2 item r else Ret (False, m1, out2)) (\<lambda>(reject, m', out2').
       cached rk m m' \<and> length out2' = length out2 \<and> take outpos out2' = take outpos out2 \<and>
       (\<not> reject \<and> item \<notin> set (take outpos out) \<and> ca_recurse_to_leaf a \<longrightarrow> leaf_ok a m outpos out2' item))"
    proof (cases "item \<notin> set (take outpos out) \<and> ca_recurse_to_leaf a")
      case True
      then have "exec_post (firstn_leaf a leaf outpos cnt m1 out2 item r) (\<lambda>(reject, m', out2').
        cached rk m1 m' \<and> length out2' = length out2 \<and> take outpos out2' = take outpos out2 \<and>
        (\<not> reject \<longrightarrow> leaf_ok a m1 outpos out2' item))"
        using leaf neg1 by (intro firstn_leaf_spec [OF cached_ok [OF c1] a]) auto
      then show ?thesis using True c1 under
        by (auto simp: leaf_ok_def elim!: exec_post_mono intro: cached_trans)
    qed (use c1 in auto)
    from exec_postD [OF leaf'] obtain rej m2 o2 where
      eq: "(if item \<notin> set (take outpos out) \<and> ca_recurse_to_leaf a
         then firstn_leaf a leaf outpos cnt m1 out2 item r else Ret (False, m1, out2)) = Ret (rej, m2, o2)"
      and post: "cached rk m m2" "length o2 = length out2" "take outpos o2 = take outpos out2"
        "\<not> rej \<and> item \<notin> set (take outpos out) \<and> ca_recurse_to_leaf a \<longrightarrow> leaf_ok a m outpos o2 item"
      by auto
    have "firstn_try a leaf rep outpos cnt out m out2 inb b flocal ftotal =
      (if (rej \<or> t = 0 \<and> \<not> in_place a item) \<or> item \<in> set (take outpos out)
       then Ret (Rejected (item \<in> set (take outpos out)), m2, o2) else Ret (Accept item, m2, o2))"
      unfolding red Let_def eq exec_bind.simps prod.case out using match by simp
    then show ?thesis using post h tm t(2) match by (auto simp: item_ok_def)
  qed
qed

section \<open>The loops of crush\_choose\_firstn\<close>

text \<open>The local failures after which a descent is given up.\<close>

definition local_bound :: "choose_args \<Rightarrow> nat" where
  "local_bound a = max (ca_local_retries a) (0xffff + ca_local_fallback_retries a)"

definition counters_ok :: "choose_args \<Rightarrow> bool" where
  "counters_ok a \<longleftrightarrow> ca_tries a + local_bound a + 2 < 2 ^ 32"

lemma u32_add_small: "a + b < 2 ^ 32 \<Longrightarrow> u32_add a b = a + b"
  by (simp add: u32_add_def)

lemma verdict_retry:
  assumes "firstn_verdict a collide sz flocal ftotal = RetryBucket" "sz < 0xffff"
  shows "flocal \<le> local_bound a"
proof -
  have "u32_add sz f \<le> sz + f" for f by (simp add: u32_add_def)
  from this [of "ca_local_fallback_retries a"] show ?thesis
    using assms by (auto simp: firstn_verdict_def local_bound_def split: if_splits)
qed

lemma verdict_descent: "firstn_verdict a collide sz flocal ftotal = RetryDescent \<Longrightarrow> ftotal < ca_tries a"
  by (simp add: firstn_verdict_def split: if_splits)

lemma item_ok_cached: "cached rk m m' \<Longrightarrow> item_ok a m' outpos out out2 item \<Longrightarrow> item_ok a m outpos out out2 item"
  using cached_view(1,3) [of rk m m'] by (auto simp: item_ok_def leaf_ok_def split: if_splits)

lemma item_ok_take: "take outpos o2 = take outpos o1 \<Longrightarrow> o2 ! outpos = o1 ! outpos \<Longrightarrow>
    item_ok a m outpos out o2 item = item_ok a m outpos out o1 item"
  by (simp add: item_ok_def leaf_ok_def)

definition leaf_ready :: "(int \<Rightarrow> nat) \<Rightarrow> choose_args \<Rightarrow> leaf_choice \<Rightarrow> nat \<Rightarrow> int \<Rightarrow> int list \<Rightarrow> bool" where
  "leaf_ready rk a leaf outpos cnt out2 \<longleftrightarrow>
     (ca_recurse_to_leaf a \<longrightarrow> leaf_spec rk a leaf \<and> int outpos + cnt \<le> int (length out2) \<and> 0 < cnt)"

lemma leaf_ready_length: "leaf_ready rk a leaf outpos cnt out2 \<Longrightarrow> length o2 = length out2 \<Longrightarrow> leaf_ready rk a leaf outpos cnt o2"
  by (simp add: leaf_ready_def)

text \<open>The outcome of a descent from \<open>bucket\<close> entered with counter \<open>f0\<close>.\<close>

definition descent_ok :: "(int \<Rightarrow> nat) \<Rightarrow> choose_args \<Rightarrow> int \<Rightarrow> nat \<Rightarrow> nat \<Rightarrow> int list \<Rightarrow> crush_map \<Rightarrow> int list
    \<Rightarrow> descent \<times> crush_map \<times> int list \<Rightarrow> bool" where
  "descent_ok rk a bucket f0 outpos out m out2 = (\<lambda>(d, m', out2').
     cached rk m m' \<and> length out2' = length out2 \<and> take outpos out2' = take outpos out2 \<and>
     (case d of
        Got item f \<Rightarrow> under m bucket item \<and> item_ok a m outpos out out2' item
      | Again f \<Rightarrow> f0 < f \<and> f < ca_tries a
      | Skip \<Rightarrow> True))"

lemma descent_ok_trans:
  assumes "cached rk m m1" "length o1 = length out2" "take outpos o1 = take outpos out2"
    and "descent_ok rk a bucket f0 outpos out m1 o1 res"
  shows "descent_ok rk a bucket f0 outpos out m out2 res"
proof -
  obtain d m' o' where res: "res = (d, m', o')" by (cases res)
  show ?thesis
    using assms(2,3,4) cached_trans [OF assms(1)] item_ok_cached [OF assms(1)] cached_view(1) [OF assms(1)]
    by (cases d) (auto simp: descent_ok_def res)
qed

lemma firstn_bucket_spec:
  assumes a: "args_ok a" "counters_ok a"
  shows "map_ok rk m \<Longrightarrow> get_bucket m inb = Ret b \<Longrightarrow> inb = bucket \<or> under m bucket inb \<Longrightarrow>
    leaf_ready rk a leaf outpos cnt out2 \<Longrightarrow>
    local_bound a - flocal + rk inb < k \<Longrightarrow> flocal \<le> local_bound a \<Longrightarrow> f0 \<le> ftotal \<Longrightarrow>
    ftotal + (local_bound a - flocal) + 1 < 2 ^ 32 \<Longrightarrow>
    exec_post (firstn_bucket k a leaf rep outpos cnt out m out2 inb flocal ftotal)
      (descent_ok rk a bucket f0 outpos out m out2)"
proof (induction k arbitrary: m out2 inb b flocal ftotal)
  case (Suc k)
  note prems = Suc.prems
  have "ca_recurse_to_leaf a \<longrightarrow> leaf_spec rk a leaf \<and> int outpos + cnt \<le> int (length out2) \<and> 0 < cnt"
    using prems(4) by (simp add: leaf_ready_def)
  from exec_postD [OF firstn_try_spec [OF prems(1,2) a(1) this, of rep out flocal ftotal]]
  obtain j m1 o1 where tr: "firstn_try a leaf rep outpos cnt out m out2 inb b flocal ftotal = Ret (j, m1, o1)"
    and c: "cached rk m m1" and o1: "length o1 = length out2" "take outpos o1 = take outpos out2"
    and j: "case j of Descend i \<Rightarrow> holds m inb i \<and> (\<exists>c. get_bucket m1 i = Ret c) \<and> rk i < rk inb
      | Accept item \<Rightarrow> holds m inb item \<and> item_ok a m outpos out o1 item | _ \<Rightarrow> True"
    by auto
  have under1: "under m1 = under m" using cached_view(1) [OF c] by simp
  have ready: "leaf_ready rk a leaf outpos cnt o1" using leaf_ready_length [OF prems(4) o1(1)] .
  have reach: "under m bucket i" if "holds m inb i" for i
    using prems(3) that by (auto intro: tranclp.trancl_into_trancl)
  note go = descent_ok_trans [OF c o1]
  show ?case
  proof (cases j)
    case BadItem
    then show ?thesis using c o1 by (simp add: prems(2) tr descent_ok_def)
  next
    case (Descend i)
    then obtain ci where i: "get_bucket m1 i = Ret ci" "rk i < rk inb" "holds m inb i" using j by auto
    have "exec_post (firstn_bucket k a leaf rep outpos cnt out m1 o1 i flocal ftotal)
        (descent_ok rk a bucket f0 outpos out m1 o1)"
      using prems i reach [OF i(3)] under1 ready
      by (intro Suc.IH [OF cached_ok [OF c] i(1)]) auto
    then show ?thesis using Descend go by (auto simp: prems(2) tr elim: exec_post_mono)
  next
    case (Accept item)
    then show ?thesis using j c o1 reach by (simp add: prems(2) tr descent_ok_def)
  next
    case (Rejected collide)
    have add: "u32_add ftotal (Suc 0) = Suc ftotal" "u32_add flocal (Suc 0) = Suc flocal"
      using prems(6,8) a(2) by (simp_all add: u32_add_def counters_ok_def)
    have sz: "b_size b < 0xffff" using map_ok_bucket(1) [OF prems(1,2)] by (simp add: bucket_ok_def cache_ok_def)
    obtain b1 where b1: "get_bucket m1 inb = Ret b1" using cached_view(4) [OF c prems(2)] by blast
    show ?thesis
    proof (cases "firstn_verdict a collide (b_size b) (Suc flocal) (Suc ftotal)")
      case RetryBucket
      then have fl: "Suc flocal \<le> local_bound a" using sz by (rule verdict_retry)
      have "exec_post (firstn_bucket k a leaf rep outpos cnt out m1 o1 inb (Suc flocal) (Suc ftotal))
          (descent_ok rk a bucket f0 outpos out m1 o1)"
        using prems fl under1 ready by (intro Suc.IH [OF cached_ok [OF c] b1]) auto
      then show ?thesis using Rejected RetryBucket go
        by (auto simp: prems(2) tr add Let_def elim: exec_post_mono)
    next
      case RetryDescent
      then have "Suc ftotal < ca_tries a" by (rule verdict_descent)
      then show ?thesis using Rejected RetryDescent c o1 prems(7)
        by (simp add: prems(2) tr add Let_def descent_ok_def)
    next
      case GiveUp
      then show ?thesis using Rejected c o1 by (simp add: prems(2) tr add Let_def descent_ok_def)
    qed
  qed
qed simp

text \<open>The outcome for one replica.\<close>

definition replica_ok :: "(int \<Rightarrow> nat) \<Rightarrow> choose_args \<Rightarrow> int \<Rightarrow> nat \<Rightarrow> int list \<Rightarrow> crush_map \<Rightarrow> int list
    \<Rightarrow> (int \<times> nat) option \<times> crush_map \<times> int list \<Rightarrow> bool" where
  "replica_ok rk a bucket outpos out m out2 = (\<lambda>(d, m', out2').
     cached rk m m' \<and> length out2' = length out2 \<and> take outpos out2' = take outpos out2 \<and>
     (case d of
        Some (item, f) \<Rightarrow> under m bucket item \<and> item_ok a m outpos out out2' item
      | None \<Rightarrow> True))"

lemma replica_ok_trans:
  assumes "cached rk m m1" "length o1 = length out2" "take outpos o1 = take outpos out2"
    and "replica_ok rk a bucket outpos out m1 o1 res"
  shows "replica_ok rk a bucket outpos out m out2 res"
proof -
  obtain d m' o' where res: "res = (d, m', o')" by (cases res)
  show ?thesis
    using assms(2,3,4) cached_trans [OF assms(1)] item_ok_cached [OF assms(1)] cached_view(1) [OF assms(1)]
    by (cases d) (auto simp: replica_ok_def res)
qed

lemma firstn_descent_spec:
  assumes a: "args_ok a" "counters_ok a" and fuel: "local_bound a + rk bucket < fuel"
  shows "map_ok rk m \<Longrightarrow> get_bucket m bucket = Ret b \<Longrightarrow> leaf_ready rk a leaf outpos cnt out2 \<Longrightarrow>
    ca_tries a - ftotal < k \<Longrightarrow> ftotal \<le> ca_tries a \<Longrightarrow>
    exec_post (firstn_descent k fuel a leaf rep outpos cnt out m out2 bucket ftotal)
      (replica_ok rk a bucket outpos out m out2)"
proof (induction k arbitrary: m out2 b ftotal)
  case (Suc k)
  have "ftotal + (local_bound a - 0) + 1 < 2 ^ 32" using Suc.prems(5) a(2) by (simp add: counters_ok_def)
  then have "exec_post (firstn_bucket fuel a leaf rep outpos cnt out m out2 bucket 0 ftotal)
      (descent_ok rk a bucket ftotal outpos out m out2)"
    using Suc.prems fuel by (intro firstn_bucket_spec [OF a Suc.prems(1,2)]) auto
  then obtain d m1 o1 where eq: "firstn_bucket fuel a leaf rep outpos cnt out m out2 bucket 0 ftotal = Ret (d, m1, o1)"
    and d: "descent_ok rk a bucket ftotal outpos out m out2 (d, m1, o1)"
    by (metis exec_postD prod_cases3)
  then have c: "cached rk m m1" and o1: "length o1 = length out2" "take outpos o1 = take outpos out2"
    by (auto simp: descent_ok_def)
  show ?case
  proof (cases d)
    case (Again f)
    obtain b1 where b1: "get_bucket m1 bucket = Ret b1" using cached_view(4) [OF c Suc.prems(2)] by blast
    have "exec_post (firstn_descent k fuel a leaf rep outpos cnt out m1 o1 bucket f)
        (replica_ok rk a bucket outpos out m1 o1)"
      using d Again Suc.prems leaf_ready_length [OF Suc.prems(3) o1(1)]
      by (intro Suc.IH [OF cached_ok [OF c] b1]) (auto simp: descent_ok_def)
    then show ?thesis using Again replica_ok_trans [OF c o1] by (auto simp: eq elim: exec_post_mono)
  qed (use d in \<open>simp_all add: eq descent_ok_def replica_ok_def\<close>)
qed simp

text \<open>
  The outcome of the whole function, entered with the first \<open>p\<close> positions of the output filled:
  \<open>n\<close> positions are filled now, by different items of the wanted type under \<open>bucket\<close>, none of them
  out, and with different leaves if leaves are wanted.
\<close>

definition chosen_ok :: "choose_args \<Rightarrow> crush_map \<Rightarrow> int \<Rightarrow> nat \<Rightarrow> nat \<Rightarrow> int list \<Rightarrow> int list \<Rightarrow> bool" where
  "chosen_ok a m bucket p n out out2 \<longleftrightarrow>
     (\<forall>i. p \<le> i \<and> i < n \<longrightarrow> under m bucket (out ! i) \<and> item_ok a m i out out2 (out ! i))"

lemma chosen_ok_none [simp]: "chosen_ok a m bucket p p out out2"
  by (auto simp: chosen_ok_def)

lemma chosen_ok_cached: "cached rk m m' \<Longrightarrow> chosen_ok a m' bucket p n out out2 \<Longrightarrow> chosen_ok a m bucket p n out out2"
  using item_ok_cached [of rk m m'] cached_view(1) [of rk m m'] by (simp add: chosen_ok_def)

lemma note_tries_get: "map_ok rk m \<Longrightarrow> get_bucket m i = Ret b \<Longrightarrow>
    exec_post (note_tries m f) (\<lambda>m'. cached rk m m' \<and> (\<exists>b'. get_bucket m' i = Ret b'))"
  using note_tries_cached [of rk m f] cached_view(4) [of rk m] by (auto elim!: exec_post_mono)

lemma nth_take_eq: "take (Suc n) xs = take (Suc n) ys \<Longrightarrow> n < length ys \<Longrightarrow> xs ! n = ys ! n"
  by (metis nth_take lessI)

lemma take_take_eq: "take (Suc n) xs = take (Suc n) ys \<Longrightarrow> take n xs = take n ys"
  by (metis take_take min.absorb1 le_SucI order_refl)

lemma chosen_ok_extend:
  assumes "under m bucket item" "item_ok a m outpos out o1 item" "outpos < length out"
    and "take (Suc outpos) out' = take (Suc outpos) (out[outpos := item])"
    and "take (Suc outpos) out2' = take (Suc outpos) o1"
    and "ca_recurse_to_leaf a \<longrightarrow> outpos < length o1"
    and "chosen_ok a m bucket (Suc outpos) p out' out2'"
  shows "chosen_ok a m bucket outpos p out' out2'"
proof -
  have "out' ! outpos = item" using nth_take_eq [OF assms(4)] assms(3) by simp
  moreover have "take outpos out' = take outpos out" using take_take_eq [OF assms(4)] by simp
  moreover have "take outpos out2' = take outpos o1" by (rule take_take_eq [OF assms(5)])
  moreover have "ca_recurse_to_leaf a \<longrightarrow> out2' ! outpos = o1 ! outpos" using nth_take_eq [OF assms(5)] assms(6) by blast
  ultimately have "under m bucket (out' ! outpos) \<and> item_ok a m outpos out' out2' (out' ! outpos)"
    using assms(1,2) by (simp add: item_ok_def leaf_ok_def)
  then show ?thesis using assms(7) unfolding chosen_ok_def by (metis Suc_leI le_neq_implies_less)
qed

lemma firstn_reps_spec:
  assumes a: "args_ok a" "counters_ok a" and fuel: "local_bound a + rk bucket < fuel" "ca_tries a < fuel"
    and leaf: "ca_recurse_to_leaf a \<longrightarrow> leaf_spec rk a leaf"
  shows "map_ok rk m \<Longrightarrow> get_bucket m bucket = Ret b \<Longrightarrow> int outpos + cnt \<le> int (length out) \<Longrightarrow>
    ca_recurse_to_leaf a \<longrightarrow> int outpos + cnt \<le> int (length out2) \<Longrightarrow>
    exec_post (firstn_reps n fuel a leaf rep outpos cnt out m out2 bucket) (\<lambda>(p, m', out', out2').
      cached rk m m' \<and> length out' = length out \<and> length out2' = length out2 \<and>
      outpos \<le> p \<and> p \<le> outpos + n \<and> int p \<le> max (int outpos) (int outpos + cnt) \<and>
      take outpos out' = take outpos out \<and> take outpos out2' = take outpos out2 \<and>
      chosen_ok a m bucket outpos p out' out2')"
proof (induction n arbitrary: rep outpos cnt out m out2 b)
  case 0
  then show ?case by (simp add: cached_refl)
next
  case (Suc n)
  note prems = Suc.prems
  show ?case
  proof (cases "0 < cnt")
    case False
    then show ?thesis using prems(1) by (simp add: cached_refl)
  next
    case True
    have ready: "leaf_ready rk a leaf outpos cnt out2"
      using leaf prems(4) True by (auto simp: leaf_ready_def)
    have "exec_post (firstn_descent fuel fuel a leaf rep outpos cnt out m out2 bucket 0)
        (replica_ok rk a bucket outpos out m out2)"
      using fuel by (intro firstn_descent_spec [OF a fuel(1) prems(1,2) ready]) auto
    then obtain d m1 o1 where eq: "firstn_descent fuel fuel a leaf rep outpos cnt out m out2 bucket 0 = Ret (d, m1, o1)"
      and d: "replica_ok rk a bucket outpos out m out2 (d, m1, o1)"
      by (metis exec_postD prod_cases3)
    then have c: "cached rk m m1" and o1: "length o1 = length out2" "take outpos o1 = take outpos out2"
      by (auto simp: replica_ok_def)
    obtain b1 where b1: "get_bucket m1 bucket = Ret b1" using cached_view(4) [OF c prems(2)] by blast
    show ?thesis
    proof (cases d)
      case None
      have "exec_post (firstn_reps n fuel a leaf (rep + 1) outpos cnt out m1 o1 bucket) (\<lambda>(p, m', out', out2').
        cached rk m1 m' \<and> length out' = length out \<and> length out2' = length o1 \<and>
        outpos \<le> p \<and> p \<le> outpos + n \<and> int p \<le> max (int outpos) (int outpos + cnt) \<and>
        take outpos out' = take outpos out \<and> take outpos out2' = take outpos o1 \<and>
        chosen_ok a m1 bucket outpos p out' out2')"
        using prems(3,4) o1(1) by (intro Suc.IH [OF cached_ok [OF c] b1]) auto
      then show ?thesis using None True eq o1 cached_trans [OF c] chosen_ok_cached [OF c]
        by (auto elim!: exec_post_mono)
    next
      case (Some pr)
      then obtain item f where pr: "d = Some (item, f)" by (cases pr) auto
      have out: "outpos < length out" "arr_set out (int outpos) item = Ret (out[outpos := item])"
        using prems(3) True by auto
      from note_tries_get [OF cached_ok [OF c] b1, of f] obtain m2 b2 where
        m2: "note_tries m1 f = Ret m2" "cached rk m1 m2" "get_bucket m2 bucket = Ret b2"
        by (auto simp: exec_post_def)
      note c2 = cached_trans [OF c m2(2)]
      have "exec_post (firstn_reps n fuel a leaf (rep + 1) (Suc outpos) (cnt - 1) (out[outpos := item]) m2 o1 bucket)
        (\<lambda>(p, m', out', out2').
        cached rk m2 m' \<and> length out' = length (out[outpos := item]) \<and> length out2' = length o1 \<and>
        Suc outpos \<le> p \<and> p \<le> Suc outpos + n \<and> int p \<le> max (int (Suc outpos)) (int (Suc outpos) + (cnt - 1)) \<and>
        take (Suc outpos) out' = take (Suc outpos) (out[outpos := item]) \<and>
        take (Suc outpos) out2' = take (Suc outpos) o1 \<and>
        chosen_ok a m2 bucket (Suc outpos) p out' out2')"
        using prems(3,4) o1(1) True by (intro Suc.IH [OF cached_ok [OF m2(2)] m2(3)]) auto
      then obtain p m' out' out2' where
        run: "firstn_reps n fuel a leaf (rep + 1) (Suc outpos) (cnt - 1) (out[outpos := item]) m2 o1 bucket
           = Ret (p, m', out', out2')"
        and r: "cached rk m2 m'" "length out' = length out" "length out2' = length o1" "Suc outpos \<le> p"
          "p \<le> Suc outpos + n" "int p \<le> max (int (Suc outpos)) (int (Suc outpos) + (cnt - 1))"
          "take (Suc outpos) out' = take (Suc outpos) (out[outpos := item])"
          "take (Suc outpos) out2' = take (Suc outpos) o1" "chosen_ok a m2 bucket (Suc outpos) p out' out2'"
        by (auto simp: exec_post_def)
      have "chosen_ok a m bucket outpos p out' out2'"
        using d pr prems(4) True o1(1) chosen_ok_cached [OF c2 r(9)]
        by (intro chosen_ok_extend [OF _ _ out(1) r(7,8)]) (auto simp: replica_ok_def)
      then show ?thesis
        using True pr cached_trans [OF c2 r(1)] r(2-6) o1 take_take_eq [OF r(7)] take_take_eq [OF r(8)]
        by (simp add: eq out(2) m2(1) run)
    qed
  qed
qed

section \<open>crush\_choose\_firstn\<close>

text \<open>The arguments of the recursive call.\<close>

definition leaf_args :: "choose_args \<Rightarrow> int \<Rightarrow> choose_args" where
  "leaf_args a sub_r = a\<lparr>ca_type := 0, ca_tries := ca_recurse_tries a, ca_recurse_tries := 0,
     ca_recurse_to_leaf := False, ca_parent_r := sub_r\<rparr>"

lemma leaf_args_simps [simp]:
  "ca_type (leaf_args a r) = 0" "ca_tries (leaf_args a r) = ca_recurse_tries a"
  "\<not> ca_recurse_to_leaf (leaf_args a r)" "local_bound (leaf_args a r) = local_bound a"
  "in_place (leaf_args a r) item = in_place a item" "args_ok (leaf_args a r) = args_ok a"
  by (simp_all add: leaf_args_def local_bound_def in_place_def args_ok_def)

text \<open>Limits on the counters, and fuel for the longest run the limits allow.\<close>

definition firstn_fuel :: "(int \<Rightarrow> nat) \<Rightarrow> choose_args \<Rightarrow> nat \<Rightarrow> bool" where
  "firstn_fuel rk a fuel \<longleftrightarrow> (\<forall>i. local_bound a + rk i < fuel) \<and> ca_tries a < fuel \<and> ca_recurse_tries a < fuel
     \<and> counters_ok a \<and> ca_recurse_tries a + local_bound a + 2 < 2 ^ 32"

lemma firstn_leaf_level:
  assumes "args_ok a" "firstn_fuel rk a fuel"
  shows "leaf_spec rk a (\<lambda>m item outpos out2 cnt sub_r.
    exec_bind (crush_choose_firstn (Suc d) fuel (leaf_args a sub_r) m item (int outpos + 1) out2 outpos cnt [])
      (\<lambda>(n, m, out2, _). Ret (n, m, out2)))"
  unfolding leaf_spec_def
proof (intro allI impI, elim conjE)
  fix m item b outpos and out2 :: "int list" and cnt r :: int
  assume m: "map_ok rk m" "get_bucket m item = Ret b" "int outpos + cnt \<le> int (length out2)" "0 < cnt"
  let ?a = "leaf_args a r"
  have "counters_ok ?a" using assms(2) by (simp add: firstn_fuel_def counters_ok_def)
  then have reps: "exec_post (firstn_reps 1 fuel ?a leaf (int outpos) outpos cnt out2 m [] item) (\<lambda>(p, m', out', out2').
      cached rk m m' \<and> length out' = length out2 \<and> length out2' = length ([] :: int list) \<and>
      outpos \<le> p \<and> p \<le> outpos + 1 \<and> int p \<le> max (int outpos) (int outpos + cnt) \<and>
      take outpos out' = take outpos out2 \<and> take outpos out2' = take outpos [] \<and>
      chosen_ok ?a m item outpos p out' out2')" for leaf
    using assms m by (intro firstn_reps_spec [where b = b]) (simp_all add: firstn_fuel_def)
  have one: "nat (int outpos + 1 - int outpos) = 1" by simp
  obtain leaf where eq: "crush_choose_firstn (Suc d) fuel ?a m item (int outpos + 1) out2 outpos cnt [] =
      firstn_reps 1 fuel ?a leaf (int outpos) outpos cnt out2 m [] item"
    unfolding crush_choose_firstn.simps(2) one by blast
  from exec_postD [OF reps [of leaf, folded eq]] obtain p m' out' out2' where
    run: "crush_choose_firstn (Suc d) fuel ?a m item (int outpos + 1) out2 outpos cnt [] = Ret (p, m', out', out2')"
    and p: "cached rk m m'" "length out' = length out2" "outpos \<le> p" "p \<le> outpos + 1"
      "take outpos out' = take outpos out2" "chosen_ok ?a m item outpos p out' out2'"
    by (auto simp del: crush_choose_firstn.simps)
  show "exec_post (exec_bind (crush_choose_firstn (Suc d) fuel ?a m item (int outpos + 1) out2 outpos cnt [])
      (\<lambda>(n, m, out2, _). Ret (n, m, out2))) (\<lambda>(n, m', out2').
       cached rk m m' \<and> length out2' = length out2 \<and> take outpos out2' = take outpos out2 \<and>
       (outpos < n \<longrightarrow> 0 \<le> out2' ! outpos \<and> in_place a (out2' ! outpos) \<and>
          out2' ! outpos \<notin> set (take outpos out2) \<and> under m item (out2' ! outpos)))"
    using p by (auto simp: run chosen_ok_def item_ok_def simp del: crush_choose_firstn.simps)
qed

lemma choose_firstn_spec:
  assumes "args_ok a" "firstn_fuel rk a fuel" "map_ok rk m" "get_bucket m bucket = Ret b"
    and "out_size \<le> int (length out)" "ca_recurse_to_leaf a \<longrightarrow> out_size \<le> int (length out2)"
  shows "exec_post (crush_choose_firstn (Suc (Suc d)) fuel a m bucket numrep out 0 out_size out2) (\<lambda>(n, m', out', out2').
    cached rk m m' \<and> length out' = length out \<and> length out2' = length out2 \<and>
    int n \<le> max 0 numrep \<and> int n \<le> max 0 out_size \<and> chosen_ok a m bucket 0 n out' out2')"
proof -
  note leaf = firstn_leaf_level [OF assms(1,2), of d, unfolded leaf_args_def]
  have "exec_post (crush_choose_firstn (Suc (Suc d)) fuel a m bucket numrep out 0 out_size out2) (\<lambda>(p, m', out', out2').
      cached rk m m' \<and> length out' = length out \<and> length out2' = length out2 \<and>
      0 \<le> p \<and> p \<le> 0 + nat (numrep - int 0) \<and> int p \<le> max (int 0) (int 0 + out_size) \<and>
      take 0 out' = take 0 out \<and> take 0 out2' = take 0 out2 \<and>
      chosen_ok a m bucket 0 p out' out2')"
    unfolding crush_choose_firstn.simps(2) [of "Suc d"]
    using assms leaf by (intro firstn_reps_spec [where b = b]) (simp_all add: firstn_fuel_def)
  then show ?thesis by (auto elim!: exec_post_mono)
qed

lemma distinct_take_new: "n \<le> length xs \<Longrightarrow> (\<And>i. i < n \<Longrightarrow> xs ! i \<notin> set (take i xs)) \<Longrightarrow> distinct (take n xs)"
  by (induction n) (simp_all add: take_Suc_conv_app_nth)

lemma chosen_ok_props:
  assumes "chosen_ok a m bucket 0 n out out2" "n \<le> length out" "ca_recurse_to_leaf a \<longrightarrow> n \<le> length out2"
  shows "distinct (take n out)"
    "\<And>item. item \<in> set (take n out) \<Longrightarrow> under m bucket item \<and> item_type m item = Ret (ca_type a) \<and>
       (ca_type a = 0 \<longrightarrow> in_place a item)"
    "ca_recurse_to_leaf a \<Longrightarrow> distinct (take n out2)"
    "ca_recurse_to_leaf a \<Longrightarrow> item \<in> set (take n out2) \<Longrightarrow> 0 \<le> item \<and> under m bucket item \<and> in_place a item"
proof -
  have ok: "under m bucket (out ! i)" "item_ok a m i out out2 (out ! i)" if "i < n" for i
    using assms(1) that by (simp_all add: chosen_ok_def)
  show "distinct (take n out)" using ok assms(2) by (intro distinct_take_new) (auto simp: item_ok_def)
  show "under m bucket item \<and> item_type m item = Ret (ca_type a) \<and> (ca_type a = 0 \<longrightarrow> in_place a item)"
    if "item \<in> set (take n out)" for item
    using that ok assms(2) by (auto simp: in_set_conv_nth item_ok_def)
  assume rec: "ca_recurse_to_leaf a"
  have leaf: "out2 ! i = out ! i \<and> 0 \<le> out ! i \<or> out ! i < 0 \<and> 0 \<le> out2 ! i \<and> out2 ! i \<notin> set (take i out2)
      \<and> under m (out ! i) (out2 ! i) \<and> in_place a (out2 ! i)" if "i < n" for i
    using ok(2) [OF that] rec by (auto simp: item_ok_def leaf_ok_def split: if_splits)
  show "0 \<le> item \<and> under m bucket item \<and> in_place a item" if mem: "item \<in> set (take n out2)"
  proof -
    obtain i where i: "i < n" "item = out2 ! i" using mem assms(3) rec by (auto simp: in_set_conv_nth)
    show ?thesis using leaf [OF i(1)] ok [OF i(1)] i
      by (auto simp: item_ok_def item_type_def intro: tranclp_trans)
  qed
  show "distinct (take n out2)"
  proof (rule distinct_take_new)
    show "n \<le> length out2" using assms(3) rec by simp
    fix i
    assume i: "i < n"
    show "out2 ! i \<notin> set (take i out2)"
    proof (cases "ca_type a = 0")
      case True
      then have "out2 ! j = out ! j" if "j < n" for j using leaf [OF that] ok(2) [OF that] by (auto simp: item_ok_def)
      then have "take i out2 = take i out" using i assms(2,3) rec by (auto intro!: nth_equalityI)
      then show ?thesis using ok(2) [OF i] True \<open>\<And>j. j < n \<Longrightarrow> out2 ! j = out ! j\<close> i by (simp add: item_ok_def)
    next
      case False
      then show ?thesis using leaf [OF i] ok(2) [OF i] by (auto simp: item_ok_def item_type_def)
    qed
  qed
qed

text \<open>C1: On a well-formed map \<open>crush_choose_firstn\<close> returns (with the stated fuel, so its loops end):
  it chooses at most as many items as asked for and as fit, all different, all of the wanted type and
  below the starting bucket, and no device that is out; with \<open>recurse_to_leaf\<close> the leaves are
  different devices below the bucket that are in.  Of the map only caches and the histogram change.\<close>
theorem crush_choose_firstn_correct:
  assumes "map_ok rk m" "get_bucket m bucket = Ret b" "args_ok a" "firstn_fuel rk a fuel"
    and "0 \<le> numrep" "0 \<le> out_size" "out_size \<le> int (length out)" "out_size \<le> int (length out2)"
  shows "exec_post (crush_choose_firstn 2 fuel a m bucket numrep out 0 out_size out2) (\<lambda>(n, m', out', out2').
    int n \<le> numrep \<and> int n \<le> out_size \<and> distinct (take n out') \<and>
    (\<forall>item \<in> set (take n out'). under m bucket item \<and> item_type m item = Ret (ca_type a)
       \<and> (ca_type a = 0 \<longrightarrow> in_place a item)) \<and>
    (ca_recurse_to_leaf a \<longrightarrow> distinct (take n out2') \<and>
       (\<forall>item \<in> set (take n out2'). 0 \<le> item \<and> under m bucket item \<and> in_place a item)) \<and>
    map_ok rk m' \<and> map_static m' = map_static m)"
proof -
  have "exec_post (crush_choose_firstn (Suc (Suc 0)) fuel a m bucket numrep out 0 out_size out2) (\<lambda>(n, m', out', out2').
      cached rk m m' \<and> length out' = length out \<and> length out2' = length out2 \<and>
      int n \<le> max 0 numrep \<and> int n \<le> max 0 out_size \<and> chosen_ok a m bucket 0 n out' out2')"
    using assms by (intro choose_firstn_spec [where b = b]) auto
  then obtain n m' out' out2' where
    run: "crush_choose_firstn 2 fuel a m bucket numrep out 0 out_size out2 = Ret (n, m', out', out2')"
    and r: "cached rk m m'" "length out' = length out" "length out2' = length out2"
      "int n \<le> numrep" "int n \<le> out_size" "chosen_ok a m bucket 0 n out' out2'"
    using assms(5,6) by (auto simp: numeral_2_eq_2 exec_post_def simp del: crush_choose_firstn.simps)
  have len: "n \<le> length out'" "ca_recurse_to_leaf a \<longrightarrow> n \<le> length out2'" using r assms(7,8) by auto
  show ?thesis unfolding run using r chosen_ok_props [OF r(6) len] by (simp add: cached_def)
qed

section \<open>A sample map\<close>

text \<open>A root (type 2) over two hosts (type 1) with two devices each.\<close>

definition mk_bucket :: "int \<Rightarrow> u16 \<Rightarrow> int list \<Rightarrow> bucket_alg \<Rightarrow> crush_bucket" where
  "mk_bucket i t items a = \<lparr>b_id = i, b_type = t, b_hash = 0, b_weight = 0, b_size = length items,
     b_items = items, b_perm_x = 0, b_perm_n = 0, b_perm = replicate (length items) 0, b_alg = a\<rparr>"

definition mk_rule :: "crush_rule_step list \<Rightarrow> crush_rule" where
  "mk_rule sts = \<lparr>rule_len = length sts,
     rule_mask = \<lparr>ruleset = 0, mask_type = 1, min_size = 1, max_size = 10\<rparr>, steps = sts\<rparr>"

definition sample_rule :: crush_rule where
  "sample_rule = mk_rule [\<lparr>op = CRUSH_RULE_TAKE, arg1 = - 1, arg2 = 0\<rparr>,
     \<lparr>op = CRUSH_RULE_CHOOSELEAF_FIRSTN, arg1 = 0, arg2 = 1\<rparr>, \<lparr>op = CRUSH_RULE_EMIT, arg1 = 0, arg2 = 0\<rparr>]"

definition sample_map :: crush_map where
  "sample_map = \<lparr>buckets = [Some (mk_bucket (- 1) 2 [- 2, - 3] (Straw2 [0x20000, 0x20000])),
      Some (mk_bucket (- 2) 1 [0, 1] (Uniform 0x10000)),
      Some (mk_bucket (- 3) 1 [2, 3] (Straw2 [0x10000, 0x10000])), None],
    rules = [Some sample_rule], max_buckets = 4, max_rules = 1, max_devices = 4, choose_local_tries = 2,
    choose_local_fallback_tries = 5, choose_total_tries = 19, chooseleaf_descend_once = 0,
    chooseleaf_vary_r = 0, straw_calc_version = 0, allowed_bucket_algs = 0, choose_tries = None\<rparr>"

definition sample_rank :: "int \<Rightarrow> nat" where
  "sample_rank i = (if i = - 1 then 1 else 0)"

lemma get_sample_bucket:
  "get_bucket sample_map i = Ret b \<longleftrightarrow>
     i = - 1 \<and> b = mk_bucket (- 1) 2 [- 2, - 3] (Straw2 [0x20000, 0x20000]) \<or>
     i = - 2 \<and> b = mk_bucket (- 2) 1 [0, 1] (Uniform 0x10000) \<or>
     i = - 3 \<and> b = mk_bucket (- 3) 1 [2, 3] (Straw2 [0x10000, 0x10000])"
proof -
  have "i = - 1 \<or> i = - 2 \<or> i = - 3 \<or> i = - 4 \<or> i \<ge> 0 \<or> i < - 4" by linarith
  then show ?thesis by (auto simp: get_bucket_iff sample_map_def)
qed

lemma sample_map_ok: "map_ok sample_rank sample_map"
  unfolding map_ok_def
proof (intro conjI allI impI)
  show "int (length (buckets sample_map)) = max_buckets sample_map" by (simp add: sample_map_def)
  show "case choose_tries sample_map of None \<Rightarrow> True | Some h \<Rightarrow> choose_total_tries sample_map < length h"
    by (simp add: sample_map_def)
  fix i b
  assume "get_bucket sample_map i = Ret b"
  then show "bucket_ok b" "b_type b \<noteq> 0"
    "\<forall>item\<in>set (take (b_size b) (b_items b)). item < 0 \<longrightarrow>
        (\<exists>c. get_bucket sample_map item = Ret c) \<and> sample_rank item < sample_rank i"
    by (auto simp: get_sample_bucket mk_bucket_def bucket_ok_def cache_ok_def sample_rank_def)
qed

definition sample_args :: choose_args where
  "sample_args = \<lparr>ca_weight = replicate 4 0x10000, ca_weight_max = 4, ca_x = 42, ca_type = 1, ca_tries = 20,
     ca_recurse_tries = 20, ca_local_retries = 2, ca_local_fallback_retries = 5,
     ca_recurse_to_leaf = True, ca_vary_r = 0, ca_parent_r = 0\<rparr>"

lemma sample_args_ok: "args_ok sample_args" "firstn_fuel sample_rank sample_args 70000"
  by (simp_all add: args_ok_def firstn_fuel_def counters_ok_def local_bound_def sample_args_def sample_rank_def)

theorem crush_choose_firstn_correct_witness:
  "exec_post (crush_choose_firstn 2 70000 sample_args sample_map (- 1) 2 [0, 0] 0 2 [0, 0]) (\<lambda>(n, m', out', out2').
     n \<le> 2 \<and> distinct (take n out') \<and> distinct (take n out2') \<and> (\<forall>item \<in> set (take n out2'). 0 \<le> item))"
proof -
  have "get_bucket sample_map (- 1) = Ret (mk_bucket (- 1) 2 [- 2, - 3] (Straw2 [0x20000, 0x20000]))"
    by (simp add: get_sample_bucket)
  from crush_choose_firstn_correct [OF sample_map_ok this sample_args_ok, of 2 2 "[0, 0]" "[0, 0]"]
  show ?thesis by (auto simp: sample_args_def elim!: exec_post_mono)
qed

section \<open>Placement by a rule\<close>

text \<open>The arguments the middle step of a take, chooseleaf, emit rule calls \<open>crush_choose_firstn\<close>
  with, from the tunables of the map.\<close>

definition leaf_rule_args :: "crush_map \<Rightarrow> u32 list \<Rightarrow> int \<Rightarrow> int \<Rightarrow> int \<Rightarrow> choose_args" where
  "leaf_rule_args m weight weight_max x t =
     \<lparr>ca_weight = weight, ca_weight_max = weight_max, ca_x = x, ca_type = t,
      ca_tries = to_u32 (to_s32 (int (choose_total_tries m) + 1)),
      ca_recurse_tries = (if chooseleaf_descend_once m \<noteq> 0 then 1
        else to_u32 (to_s32 (int (choose_total_tries m) + 1))),
      ca_local_retries = to_u32 (to_s32 (int (choose_local_tries m))),
      ca_local_fallback_retries = to_u32 (to_s32 (int (choose_local_fallback_tries m))),
      ca_recurse_to_leaf = True, ca_vary_r = to_u32 (int (chooseleaf_vary_r m)), ca_parent_r = 0\<rparr>"

definition rule_start :: "crush_map \<Rightarrow> nat \<Rightarrow> int list \<Rightarrow> do_state" where
  "rule_start m result_max scratch =
     \<lparr>dr_w = take result_max scratch, dr_o = take result_max (drop result_max scratch),
      dr_c = take result_max (drop (2 * result_max) scratch), dr_wsize = 0, dr_result = [],
      dr_choose_tries = to_s32 (int (choose_total_tries m) + 1), dr_choose_leaf_tries = 0,
      dr_choose_local_retries = to_s32 (int (choose_local_tries m)),
      dr_choose_local_fallback_retries = to_s32 (int (choose_local_fallback_tries m)),
      dr_vary_r = int (chooseleaf_vary_r m), dr_map = m\<rparr>"

lemma to_u32_small: "0 \<le> i \<Longrightarrow> i < 2 ^ 31 \<Longrightarrow> to_u32 i = nat i"
  by (simp add: to_u32_def unat_eq_nat_uint uint_word_of_int del: nat_uint_eq)

lemma do_rule_start:
  assumes "0 \<le> ruleno" "ruleno < int (max_rules m)" "ruleno < 2 ^ 31" "nat ruleno < length (rules m)"
    and "rules m ! nat ruleno = Some rl" "rule_len rl \<le> length (steps rl)" "3 * result_max \<le> length scratch"
  shows "crush_do_rule fuel m ruleno x result_max weight weight_max scratch =
    exec_bind (do_steps fuel weight weight_max x (int result_max) (take (rule_len rl) (steps rl))
      (rule_start m result_max scratch)) (\<lambda>s. Ret (dr_result s, dr_map s))"
proof -
  have "to_u32 ruleno = nat ruleno" using assms(1,3) by (rule to_u32_small)
  moreover have "nat ruleno < max_rules m" using assms(1,2) by simp
  moreover have "arr_get (rules m) ruleno = Ret (Some rl)"
    using assms(1,4,5) by (simp add: arr_get_eq_Ret)
  ultimately show ?thesis using assms(1,4-7) by (simp add: crush_do_rule_def rule_start_def)
qed

text \<open>The middle step, in terms of the call it makes.\<close>

lemma get_bucket_slot: "get_bucket m i = Ret b \<Longrightarrow> arr_get (buckets m) (- 1 - i) = Ret (Some b)"
  by (simp add: get_bucket_iff arr_get_def)

lemma chooseleaf_step:
  assumes "get_bucket m root = Ret b" "0 < result_max" "dr_wsize s = 1" "dr_w s = root # ws" "dr_map s = m"
    and "s = (rule_start m result_max scratch)\<lparr>dr_w := root # ws, dr_wsize := 1\<rparr>"
    and "numrep = (if n \<le> 0 then n + int result_max else n)" "0 < numrep"
    and "crush_choose_firstn 2 fuel (leaf_rule_args m weight weight_max x t) m root numrep (dr_o s) 0
      (int result_max) (dr_c s) = Ret (k, m', out', out2')"
  shows "\<exists>s'. do_step fuel weight weight_max x (int result_max)
      \<lparr>op = CRUSH_RULE_CHOOSELEAF_FIRSTN, arg1 = n, arg2 = t\<rparr> s = Ret s' \<and> dr_wsize s' = k \<and>
      dr_w s' = take k out2' @ drop k out' \<and> dr_result s' = [] \<and> dr_map s' = m'"
proof -
  have "step_args weight weight_max x s \<lparr>op = CRUSH_RULE_CHOOSELEAF_FIRSTN, arg1 = n, arg2 = t\<rparr> True =
      leaf_rule_args m weight weight_max x t"
    by (simp add: assms(6) step_args_def leaf_rule_args_def rule_start_def to_u32_def)
  then show ?thesis using assms(7-9) get_bucket_slot [OF assms(1)]
    by (cases "n \<le> 0") (simp_all add: do_step_def assms(3,4,5) assms(6) rule_start_def Let_def)
qed

lemma chooseleaf_step_none:
  assumes "dr_wsize s = 1" "dr_w s = root # ws" "(if n \<le> 0 then n + int result_max else n) \<le> 0"
  shows "\<exists>s'. do_step fuel weight weight_max x (int result_max)
      \<lparr>op = CRUSH_RULE_CHOOSELEAF_FIRSTN, arg1 = n, arg2 = t\<rparr> s = Ret s' \<and> dr_wsize s' = 0 \<and>
      dr_result s' = dr_result s \<and> dr_map s' = dr_map s"
  using assms by (cases "n \<le> 0") (simp_all add: do_step_def Let_def)

text \<open>The interpreter on such a rule.\<close>

lemma do_rule_chooseleaf:
  assumes m: "map_ok rk m" "get_bucket m root = Ret b"
    and rule: "0 \<le> ruleno" "ruleno < int (max_rules m)" "ruleno < 2 ^ 31" "nat ruleno < length (rules m)"
      "rules m ! nat ruleno = Some rl" "rule_len rl = 3"
      "take 3 (steps rl) = [\<lparr>op = CRUSH_RULE_TAKE, arg1 = root, arg2 = z\<rparr>,
         \<lparr>op = CRUSH_RULE_CHOOSELEAF_FIRSTN, arg1 = n, arg2 = t\<rparr>, \<lparr>op = CRUSH_RULE_EMIT, arg1 = y, arg2 = y'\<rparr>]"
    and res: "0 < result_max" "3 * result_max \<le> length scratch"
    and args: "args_ok (leaf_rule_args m weight weight_max x t)"
      "firstn_fuel rk (leaf_rule_args m weight weight_max x t) fuel"
  shows "exec_post (crush_do_rule fuel m ruleno x result_max weight weight_max scratch) (\<lambda>(result, m').
    length result \<le> result_max \<and> distinct result \<and>
    (\<forall>item \<in> set result. 0 \<le> item \<and> under m root item \<and> in_place (leaf_rule_args m weight weight_max x t) item) \<and>
    map_ok rk m' \<and> map_static m' = map_static m)"
proof -
  let ?a = "leaf_rule_args m weight weight_max x t"
  let ?n = "if n \<le> 0 then n + int result_max else n"
  let ?s0 = "rule_start m result_max scratch"
  have len: "length (dr_w ?s0) = result_max" "length (dr_o ?s0) = result_max" "length (dr_c ?s0) = result_max"
    using res(2) by (simp_all add: rule_start_def)
  then obtain w ws where w: "dr_w ?s0 = w # ws" using res(1) by (cases "dr_w ?s0") auto
  define s1 where "s1 = ?s0\<lparr>dr_w := root # ws, dr_wsize := 1\<rparr>"
  have "3 \<le> length (steps rl)" using arg_cong [OF rule(7), of length] by simp
  then have start: "crush_do_rule fuel m ruleno x result_max weight weight_max scratch =
      exec_bind (do_steps fuel weight weight_max x (int result_max) (take 3 (steps rl)) ?s0)
        (\<lambda>s. Ret (dr_result s, dr_map s))"
    using do_rule_start [OF rule(1-5) _ res(2), of fuel x weight weight_max] rule(6) by simp
  have take: "do_step fuel weight weight_max x (int result_max) \<lparr>op = CRUSH_RULE_TAKE, arg1 = root, arg2 = z\<rparr> ?s0 = Ret s1"
    using w arr_set_in [of 0 "w # ws" root] by (simp add: do_step_def s1_def)
  show ?thesis
  proof (cases "0 < ?n")
    case False
    then obtain s2 where "do_step fuel weight weight_max x (int result_max)
        \<lparr>op = CRUSH_RULE_CHOOSELEAF_FIRSTN, arg1 = n, arg2 = t\<rparr> s1 = Ret s2" "dr_wsize s2 = 0"
        "dr_result s2 = dr_result s1" "dr_map s2 = dr_map s1"
      using chooseleaf_step_none [of s1 root ws n result_max fuel weight weight_max x t] by (auto simp: s1_def)
    then show ?thesis unfolding start rule(7) using take m(1)
      by (simp add: do_step_def [of _ _ _ _ _ "\<lparr>op = CRUSH_RULE_EMIT, arg1 = y, arg2 = y'\<rparr>"]) (simp add: s1_def rule_start_def)
  next
    case True
    have "exec_post (crush_choose_firstn (Suc (Suc 0)) fuel ?a m root ?n (dr_o s1) 0 (int result_max) (dr_c s1))
      (\<lambda>(n', m', out', out2').
        cached rk m m' \<and> length out' = length (dr_o s1) \<and> length out2' = length (dr_c s1) \<and>
        int n' \<le> max 0 ?n \<and> int n' \<le> max 0 (int result_max) \<and> chosen_ok ?a m root 0 n' out' out2')"
      using m args len by (intro choose_firstn_spec [where b = b]) (simp_all add: s1_def)
    then obtain k m' out' out2' where
      run: "crush_choose_firstn 2 fuel ?a m root ?n (dr_o s1) 0 (int result_max) (dr_c s1) = Ret (k, m', out', out2')"
      and r: "cached rk m m'" "length out' = result_max" "length out2' = result_max" "k \<le> result_max"
        "chosen_ok ?a m root 0 k out' out2'"
      using len by (auto simp: numeral_2_eq_2 exec_post_def s1_def simp del: crush_choose_firstn.simps)
    obtain s2 where s2: "do_step fuel weight weight_max x (int result_max)
        \<lparr>op = CRUSH_RULE_CHOOSELEAF_FIRSTN, arg1 = n, arg2 = t\<rparr> s1 = Ret s2" "dr_wsize s2 = k"
        "dr_w s2 = take k out2' @ drop k out'" "dr_result s2 = []" "dr_map s2 = m'"
      using chooseleaf_step [OF m(2) res(1) _ _ _ s1_def refl True run] by (auto simp: s1_def rule_start_def)
    have leaf: "ca_recurse_to_leaf ?a" by (simp add: leaf_rule_args_def)
    have "distinct (take k out2')" "\<forall>item \<in> set (take k out2'). 0 \<le> item \<and> under m root item \<and> in_place ?a item"
      using chosen_ok_props(3,4) [OF r(5) _ _ leaf] r(2-4) by auto
    then show ?thesis unfolding start rule(7) using take s2 r(1,3,4)
      by (simp add: do_step_def [of _ _ _ _ _ "\<lparr>op = CRUSH_RULE_EMIT, arg1 = y, arg2 = y'\<rparr>"] cached_def)
  qed
qed

text \<open>C4: A rule \<open>take root; chooseleaf firstn n type t; emit\<close> on a well-formed map returns at most
  \<open>result_max\<close> results; they are different devices, all below the root and all in.\<close>
theorem crush_do_rule_chooseleaf:
  assumes m: "map_ok rk m" "get_bucket m root = Ret b"
    and rule: "0 \<le> ruleno" "ruleno < int (max_rules m)" "ruleno < 2 ^ 31" "nat ruleno < length (rules m)"
      "rules m ! nat ruleno = Some rl" "rule_len rl = 3"
      "take 3 (steps rl) = [\<lparr>op = CRUSH_RULE_TAKE, arg1 = root, arg2 = z\<rparr>,
         \<lparr>op = CRUSH_RULE_CHOOSELEAF_FIRSTN, arg1 = n, arg2 = t\<rparr>, \<lparr>op = CRUSH_RULE_EMIT, arg1 = y, arg2 = y'\<rparr>]"
    and res: "0 < result_max" "3 * result_max \<le> length scratch"
    and args: "args_ok (leaf_rule_args m weight weight_max x t)"
      "firstn_fuel rk (leaf_rule_args m weight weight_max x t) fuel"
  shows "exec_post (crush_do_rule fuel m ruleno x result_max weight weight_max scratch) (\<lambda>(result, m').
    length result \<le> result_max \<and> distinct result \<and>
    (\<forall>item \<in> set result. 0 \<le> item \<and> under m root item \<and> in_place (leaf_rule_args m weight weight_max x t) item) \<and>
    map_ok rk m' \<and> map_static m' = map_static m)"
  using assms by (rule do_rule_chooseleaf)

theorem crush_do_rule_chooseleaf_witness:
  "exec_post (crush_do_rule 70000 sample_map 0 42 2 (replicate 4 0x10000) 4 (replicate 6 0)) (\<lambda>(result, m').
     length result \<le> 2 \<and> distinct result \<and> (\<forall>item \<in> set result. 0 \<le> item))"
proof -
  let ?w = "replicate 4 (0x10000 :: u32)"
  have b: "get_bucket sample_map (- 1) = Ret (mk_bucket (- 1) 2 [- 2, - 3] (Straw2 [0x20000, 0x20000]))"
    by (simp add: get_sample_bucket)
  have a: "leaf_rule_args sample_map ?w 4 42 1 = sample_args"
    by (simp add: leaf_rule_args_def sample_args_def sample_map_def to_u32_def to_s32_id)
  have r: "rules sample_map ! nat 0 = Some sample_rule" by (simp add: sample_map_def)
  from crush_do_rule_chooseleaf [OF sample_map_ok b _ _ _ _ r, of _ 0 1 0 0 2 "replicate 6 0" ?w 4 42 70000]
  show ?thesis unfolding a using sample_args_ok
    by (auto simp: sample_rule_def mk_rule_def sample_map_def elim!: exec_post_mono)
qed

end
