(* ===== verification/Crush_Indep.thy ===== *)
theory Crush_Indep
imports Crush_Placement
begin

text \<open>
  Correctness of \<open>crush_choose_indep\<close> of \<open>crush/mapper.c\<close>, the breadth-first choice that keeps
  positions: every position is filled with a suitable item or is a hole, and the loops end.  Two rules
  show where \<open>crush_do_rule\<close> goes wrong around it.
\<close>

section \<open>The slots of a breadth-first choice\<close>

text \<open>A device that may be used, below \<open>root\<close>.\<close>

definition good_leaf :: "choose_args \<Rightarrow> crush_map \<Rightarrow> int \<Rightarrow> int \<Rightarrow> bool" where
  "good_leaf a m root v \<longleftrightarrow> 0 \<le> v \<and> v < max_devices m \<and> under m root v \<and> in_place a v"

text \<open>An item of the wanted kind, below \<open>root\<close>.\<close>

definition good_item :: "choose_args \<Rightarrow> crush_map \<Rightarrow> int \<Rightarrow> int \<Rightarrow> bool" where
  "good_item a m root v \<longleftrightarrow> v < max_devices m \<and> under m root v \<and> item_type m v = Ret (ca_type a) \<and>
     (ca_type a = 0 \<longrightarrow> 0 \<le> v \<and> in_place a v)"

text \<open>A position of \<open>out\<close>, and the position of \<open>out2\<close> beside it.\<close>

definition slot_ok :: "choose_args \<Rightarrow> crush_map \<Rightarrow> int \<Rightarrow> int \<Rightarrow> bool" where
  "slot_ok a m root v \<longleftrightarrow> v = CRUSH_ITEM_UNDEF \<or> v = CRUSH_ITEM_NONE \<or> good_item a m root v"

definition leaf_slot :: "choose_args \<Rightarrow> crush_map \<Rightarrow> int \<Rightarrow> int \<Rightarrow> bool" where
  "leaf_slot a m v lv \<longleftrightarrow>
     (if v = CRUSH_ITEM_UNDEF then lv = CRUSH_ITEM_UNDEF \<or> lv = CRUSH_ITEM_NONE
      else if v = CRUSH_ITEM_NONE then lv = CRUSH_ITEM_NONE else good_leaf a m v lv)"

definition slots_ok :: "choose_args \<Rightarrow> crush_map \<Rightarrow> int \<Rightarrow> nat \<Rightarrow> nat \<Rightarrow> int list \<Rightarrow> int list option \<Rightarrow> bool" where
  "slots_ok a m root outpos endpos out out2 \<longleftrightarrow>
     (\<forall>j. outpos \<le> j \<and> j < endpos \<longrightarrow> slot_ok a m root (out ! j)) \<and>
     (\<forall>j k. outpos \<le> j \<and> j < k \<and> k < endpos \<and> out ! j = out ! k \<longrightarrow>
        out ! j = CRUSH_ITEM_UNDEF \<or> out ! j = CRUSH_ITEM_NONE) \<and>
     (ca_recurse_to_leaf a \<longrightarrow>
        (\<forall>j. outpos \<le> j \<and> j < endpos \<longrightarrow> leaf_slot a m (out ! j) (the out2 ! j)))"

definition same_outside :: "nat \<Rightarrow> nat \<Rightarrow> int list \<Rightarrow> int list \<Rightarrow> bool" where
  "same_outside lo hi xs ys \<longleftrightarrow> length ys = length xs \<and> (\<forall>j < length xs. j < lo \<or> hi \<le> j \<longrightarrow> ys ! j = xs ! j)"

lemma same_outside_refl [simp]: "same_outside lo hi xs xs"
  by (simp add: same_outside_def)

lemma same_outside_trans: "same_outside lo hi xs ys \<Longrightarrow> same_outside lo hi ys zs \<Longrightarrow> same_outside lo hi xs zs"
  by (simp add: same_outside_def)

lemma same_outside_length: "same_outside lo hi xs ys \<Longrightarrow> length ys = length xs"
  by (simp add: same_outside_def)

lemma same_outside_update: "lo \<le> j \<Longrightarrow> j < hi \<Longrightarrow> same_outside lo hi xs ys \<Longrightarrow> same_outside lo hi xs (ys[j := v])"
  by (auto simp: same_outside_def nth_list_update)

lemma same_outside_mono: "same_outside lo' hi' xs ys \<Longrightarrow> lo \<le> lo' \<Longrightarrow> hi' \<le> hi \<Longrightarrow> same_outside lo hi xs ys"
  by (simp add: same_outside_def)

lemma slots_ok_fill:
  assumes ok: "slots_ok a m root outpos endpos out out2"
    and rep: "outpos \<le> rep" "rep < endpos" "endpos \<le> length out"
    and v: "slot_ok a m root v" "v = CRUSH_ITEM_UNDEF \<or> v = CRUSH_ITEM_NONE \<or> v \<notin> set (drop outpos (take endpos out))"
    and leaf: "ca_recurse_to_leaf a \<Longrightarrow> leaf_slot a m v (the o2 ! rep)"
      "\<And>j. ca_recurse_to_leaf a \<Longrightarrow> j \<noteq> rep \<Longrightarrow> j < endpos \<Longrightarrow> the o2 ! j = the out2 ! j"
  shows "slots_ok a m root outpos endpos (out[rep := v]) o2"
proof -
  have new: "out ! j \<noteq> v" if "outpos \<le> j" "j < endpos" "v \<notin> set (drop outpos (take endpos out))" for j
  proof
    assume "out ! j = v"
    then have "drop outpos (take endpos out) ! (j - outpos) = v" "j - outpos < length (drop outpos (take endpos out))"
      using that rep(3) by simp_all
    then show False using that(3) nth_mem by blast
  qed
  show ?thesis unfolding slots_ok_def
  proof (intro conjI allI impI)
    fix j assume "outpos \<le> j \<and> j < endpos"
    then show "slot_ok a m root (out[rep := v] ! j)"
      using ok v(1) rep by (auto simp: slots_ok_def nth_list_update)
  next
    fix j k assume jk: "outpos \<le> j \<and> j < k \<and> k < endpos \<and> out[rep := v] ! j = out[rep := v] ! k"
    then show "out[rep := v] ! j = CRUSH_ITEM_UNDEF \<or> out[rep := v] ! j = CRUSH_ITEM_NONE"
      using ok v(2) rep new [of j] new [of k] unfolding slots_ok_def
      by (auto simp: nth_list_update split: if_splits)
  next
    fix j assume "ca_recurse_to_leaf a" "outpos \<le> j \<and> j < endpos"
    then show "leaf_slot a m (out[rep := v] ! j) (the o2 ! j)"
      using ok leaf rep unfolding slots_ok_def by (cases "j = rep") auto
  qed
qed

text \<open>The state of the loops: what they have changed since the start, and the slots.\<close>

definition indep_state :: "(int \<Rightarrow> nat) \<Rightarrow> choose_args \<Rightarrow> crush_map \<Rightarrow> int \<Rightarrow> nat \<Rightarrow> nat \<Rightarrow> int list \<Rightarrow> int list option
    \<Rightarrow> crush_map \<Rightarrow> int list \<Rightarrow> int list option \<Rightarrow> bool" where
  "indep_state rk a m0 root outpos endpos o0 p0 m out out2 \<longleftrightarrow> cached rk m0 m \<and>
     same_outside outpos endpos o0 out \<and> rel_option (same_outside outpos endpos) p0 out2 \<and>
     slots_ok a m0 root outpos endpos out out2"

text \<open>
  What a call needs: the vectors are long enough, no device number is one of the two special values,
  and the leaves are asked for only when the items are buckets.
\<close>

definition indep_ready :: "choose_args \<Rightarrow> crush_map \<Rightarrow> nat \<Rightarrow> int list \<Rightarrow> int list option \<Rightarrow> bool" where
  "indep_ready a m endpos out out2 \<longleftrightarrow> max_devices m \<le> 0x7ffffffe \<and> endpos \<le> length out \<and>
     (\<forall>xs. out2 = Some xs \<longrightarrow> endpos \<le> length xs) \<and>
     (ca_recurse_to_leaf a \<longrightarrow> ca_type a \<noteq> 0 \<and> out2 \<noteq> None)"

definition indep_leaf_spec :: "(int \<Rightarrow> nat) \<Rightarrow> nat \<Rightarrow> choose_args \<Rightarrow> leaf_indep \<Rightarrow> bool" where
  "indep_leaf_spec rk n a leaf \<longleftrightarrow> (\<forall>m item b rep xs r.
     map_ok rk m \<and> get_bucket m item = Ret b \<and> rk item < n \<and> rep < length xs \<and> max_devices m \<le> 0x7ffffffe \<longrightarrow>
     exec_post (leaf m item rep xs r) (\<lambda>(m', xs'). cached rk m m' \<and> same_outside rep (Suc rep) xs xs' \<and>
       (xs' ! rep = CRUSH_ITEM_NONE \<or> good_leaf a m item (xs' ! rep))))"

lemma good_not_special:
  assumes "max_devices m \<le> 0x7ffffffe" "good_item a m root v \<or> good_leaf a m root v"
  shows "v \<noteq> CRUSH_ITEM_UNDEF" "v \<noteq> CRUSH_ITEM_NONE"
  using assms by (auto simp: good_item_def good_leaf_def)

lemma good_cached:
  assumes "cached rk m m'"
  shows "good_leaf a m' root v = good_leaf a m root v" "good_item a m' root v = good_item a m root v"
proof -
  have "item_type m' v = Ret t \<longleftrightarrow> item_type m v = Ret t" for t using cached_view(2,3) [OF assms] by blast
  then show "good_leaf a m' root v = good_leaf a m root v" "good_item a m' root v = good_item a m root v"
    using cached_view(1,5) [OF assms] by (simp_all add: good_leaf_def good_item_def)
qed

lemma indep_leaf_run:
  assumes "indep_leaf_spec rk n a leaf" "map_ok rk m" "get_bucket m item = Ret b" "rk item < n" "rep < length xs"
    and "max_devices m \<le> 0x7ffffffe" "item < 0"
  obtains m' xs' where "indep_leaf leaf rep m (Some xs) item r = Ret (xs' ! rep \<noteq> CRUSH_ITEM_NONE, m', Some xs')"
    "cached rk m m'" "same_outside rep (Suc rep) xs xs'"
    "xs' ! rep = CRUSH_ITEM_NONE \<or> good_leaf a m item (xs' ! rep)"
proof -
  have "exec_post (leaf m item rep xs r) (\<lambda>(m', xs'). cached rk m m' \<and> same_outside rep (Suc rep) xs xs' \<and>
       (xs' ! rep = CRUSH_ITEM_NONE \<or> good_leaf a m item (xs' ! rep)))"
    using assms unfolding indep_leaf_spec_def by blast
  from exec_postD [OF this] obtain m' xs' where l: "leaf m item rep xs r = Ret (m', xs')" "cached rk m m'"
    "same_outside rep (Suc rep) xs xs'" "xs' ! rep = CRUSH_ITEM_NONE \<or> good_leaf a m item (xs' ! rep)" by auto
  have "indep_leaf leaf rep m (Some xs) item r = Ret (xs' ! rep \<noteq> CRUSH_ITEM_NONE, m', Some xs')"
    using l(1,3) assms(5,7) by (simp add: indep_leaf_def arr_get_def same_outside_def)
  then show thesis using l that by blast
qed

section \<open>The loops of crush\_choose\_indep\<close>

lemma indep_state_none:
  assumes st: "indep_state rk a m0 root outpos endpos o0 p0 m out out2"
    and ready: "indep_ready a m0 endpos o0 p0" and rep: "outpos \<le> rep" "rep < endpos"
    and c: "cached rk m0 m'"
  shows "exec_post (indep_none m' out out2 rep) (\<lambda>(e, m1, o1, p1). e = IBreak True \<and>
    indep_state rk a m0 root outpos endpos o0 p0 m1 o1 p1)"
proof -
  have o: "same_outside outpos endpos o0 out" "rel_option (same_outside outpos endpos) p0 out2"
    and s: "slots_ok a m0 root outpos endpos out out2" using st by (simp_all add: indep_state_def)
  have len: "endpos \<le> length out" using ready same_outside_length [OF o(1)] by (simp add: indep_ready_def)
  have none: "slot_ok a m0 root CRUSH_ITEM_NONE" "leaf_slot a m0 CRUSH_ITEM_NONE CRUSH_ITEM_NONE"
    by (simp_all add: slot_ok_def leaf_slot_def)
  show ?thesis
  proof (cases out2)
    case None
    then have "\<not> ca_recurse_to_leaf a" using o(2) ready by (auto simp: indep_ready_def)
    then have "slots_ok a m0 root outpos endpos (out[rep := CRUSH_ITEM_NONE]) None"
      using slots_ok_fill [OF s rep len none(1), of None] by simp
    then show ?thesis using None o rep len c
      by (simp add: indep_none_def set_out2_def arr_set_def indep_state_def same_outside_update)
  next
    case (Some xs)
    then obtain ys where ys: "p0 = Some ys" "same_outside outpos endpos ys xs" using o(2) by (cases p0) auto
    then have lx: "endpos \<le> length xs" using ready same_outside_length [OF ys(2)] by (simp add: indep_ready_def)
    have "slots_ok a m0 root outpos endpos (out[rep := CRUSH_ITEM_NONE]) (Some (xs[rep := CRUSH_ITEM_NONE]))"
      using Some lx rep none(2) by (intro slots_ok_fill [OF s rep len none(1)]) simp_all
    then show ?thesis using Some o rep len lx c ys
      by (simp add: indep_none_def set_out2_def arr_set_def indep_state_def same_outside_update)
  qed
qed

lemma indep_state_cached:
  "indep_state rk a m0 root outpos endpos o0 p0 m out out2 \<Longrightarrow> cached rk m0 m' \<Longrightarrow>
   indep_state rk a m0 root outpos endpos o0 p0 m' out out2"
  by (simp add: indep_state_def)

text \<open>An item of the wanted type that is not in the result yet.\<close>

definition indep_accept :: "choose_args \<Rightarrow> leaf_indep \<Rightarrow> nat \<Rightarrow> crush_map \<Rightarrow> int list \<Rightarrow> int list option \<Rightarrow> int \<Rightarrow> int \<Rightarrow> int
    \<Rightarrow> (indep_end \<times> crush_map \<times> int list \<times> int list option) exec" where
  "indep_accept a leaf rep m out out2 item itemtype r =
     exec_bind (if ca_recurse_to_leaf a then indep_leaf leaf rep m out2 item r
                else Ret (True, m, out2)) (\<lambda>(found, m, out2).
     if \<not> found then Ret (IBreak False, m, out, out2)
     else
       exec_bind (if itemtype = 0 then is_out (ca_weight a) (ca_weight_max a) item (ca_x a)
                  else Ret False) (\<lambda>gone.
       if gone then Ret (IBreak False, m, out, out2)
       else exec_bind (arr_set out (int rep) item) (\<lambda>out. Ret (IBreak True, m, out, out2))))"

lemma indep_accept_spec:
  assumes st: "indep_state rk a m0 root outpos endpos o0 p0 m out out2" and ready: "indep_ready a m0 endpos o0 p0"
    and rep: "outpos \<le> rep" "rep < endpos" "out ! rep = CRUSH_ITEM_UNDEF"
    and leaf: "ca_recurse_to_leaf a \<Longrightarrow> indep_leaf_spec rk n a leaf" "item < 0 \<Longrightarrow> rk item < n"
    and a: "args_ok a" and new: "item \<notin> set (drop outpos (take endpos out))"
    and item: "item < max_devices m0" "under m0 root item" "item_type m0 item = Ret (ca_type a)"
      "ca_type a = 0 \<longleftrightarrow> 0 \<le> item" "item < 0 \<Longrightarrow> get_bucket m item = Ret c"
  shows "exec_post (indep_accept a leaf rep m out out2 item (ca_type a) r) (\<lambda>(e, m1, o1, p1).
    (\<forall>i. e \<noteq> IDescend i) \<and> indep_state rk a m0 root outpos endpos o0 p0 m1 o1 p1)"
proof -
  have c: "cached rk m0 m" and o: "same_outside outpos endpos o0 out" "rel_option (same_outside outpos endpos) p0 out2"
    and s: "slots_ok a m0 root outpos endpos out out2" using st by (simp_all add: indep_state_def)
  have len: "endpos \<le> length out" using ready same_outside_length [OF o(1)] by (simp add: indep_ready_def)
  have out: "item \<ge> 0 \<Longrightarrow> is_out (ca_weight a) (ca_weight_max a) item (ca_x a) = Ret (\<not> in_place a item)"
    using is_out_total [OF a] by simp
  have good: "slot_ok a m0 root item" if "ca_type a = 0 \<longrightarrow> in_place a item"
    using item that by (simp add: slot_ok_def good_item_def)
  show ?thesis
  proof (cases "ca_recurse_to_leaf a")
    case False
    then have "slots_ok a m0 root outpos endpos (out[rep := item]) out2" if "ca_type a = 0 \<longrightarrow> in_place a item"
      using slots_ok_fill [OF s rep(1,2) len good [OF that]] new by simp
    then show ?thesis using False st o rep len item(4) out
      by (auto simp: indep_accept_def arr_set_def indep_state_def same_outside_update)
  next
    case True
    then have t: "ca_type a \<noteq> 0" "item < 0" "max_devices m \<le> 0x7ffffffe"
      using ready item(4) cached_view(5) [OF c] by (auto simp: indep_ready_def)
    obtain xs ys where xs: "out2 = Some xs" "p0 = Some ys" "same_outside outpos endpos ys xs"
      using True ready o(2) by (cases p0; cases out2) (auto simp: indep_ready_def)
    have lx: "endpos \<le> length xs" using ready xs same_outside_length [OF xs(3)] by (simp add: indep_ready_def)
    obtain m1 xs' where l: "indep_leaf leaf rep m (Some xs) item r = Ret (xs' ! rep \<noteq> CRUSH_ITEM_NONE, m1, Some xs')"
      "cached rk m m1" "same_outside rep (Suc rep) xs xs'" "xs' ! rep = CRUSH_ITEM_NONE \<or> good_leaf a m item (xs' ! rep)"
      by (rule indep_leaf_run [OF leaf(1) [OF True] cached_ok [OF c] item(5) leaf(2), of rep xs r])
        (use t lx rep(2) in auto)
    have p: "same_outside outpos endpos ys xs'"
      using xs(3) same_outside_mono [OF l(3)] rep(1,2) by (auto intro: same_outside_trans)
    have c1: "cached rk m0 m1" using c l(2) by (rule cached_trans)
    have keep: "the (Some xs') ! j = the out2 ! j" if "j \<noteq> rep" "j < endpos" for j
      using l(3) that lx xs(1) by (cases "j < rep") (simp_all add: same_outside_def)
    have sp: "item \<noteq> CRUSH_ITEM_UNDEF" "item \<noteq> CRUSH_ITEM_NONE" using t(2) by simp_all
    show ?thesis
    proof (cases "xs' ! rep = CRUSH_ITEM_NONE")
      case none: True
      have "slots_ok a m0 root outpos endpos (out[rep := CRUSH_ITEM_UNDEF]) (Some xs')"
        using none by (intro slots_ok_fill [OF s rep(1,2) len _ _ _ keep]) (auto simp: slot_ok_def leaf_slot_def)
      moreover have "out[rep := CRUSH_ITEM_UNDEF] = out" using rep(3) list_update_id [of out rep] by simp
      ultimately show ?thesis using True none xs(1,2) l(1) o(1) p c1 by (simp add: indep_accept_def indep_state_def)
    next
      case False
      then have "leaf_slot a m0 item (xs' ! rep)" using l(4) sp good_cached(1) [OF c] by (simp add: leaf_slot_def)
      then have "slots_ok a m0 root outpos endpos (out[rep := item]) (Some xs')"
        using new good t(1) by (intro slots_ok_fill [OF s rep(1,2) len _ _ _ keep]) auto
      then show ?thesis using True False t(1) xs(1,2) l(1) o(1) p c1 rep len
        by (simp add: indep_accept_def indep_state_def arr_set_def same_outside_update)
    qed
  qed
qed

lemma indep_try_spec:
  assumes st: "indep_state rk a m0 root outpos endpos o0 p0 m out out2" and ready: "indep_ready a m0 endpos o0 p0"
    and b: "get_bucket m inb = Ret b" "inb = root \<or> under m0 root inb" "rk inb \<le> n"
    and rep: "outpos \<le> rep" "rep < endpos" "out ! rep = CRUSH_ITEM_UNDEF"
    and leaf: "ca_recurse_to_leaf a \<Longrightarrow> indep_leaf_spec rk n a leaf" and a: "args_ok a" "numrep \<noteq> 0"
  shows "exec_post (indep_try a leaf numrep ftotal outpos endpos rep m out out2 inb b) (\<lambda>(e, m1, o1, p1).
    indep_state rk a m0 root outpos endpos o0 p0 m1 o1 p1 \<and>
    (\<forall>i. e = IDescend i \<longrightarrow> o1 = out \<and> under m0 root i \<and> (\<exists>c. get_bucket m1 i = Ret c) \<and> rk i < rk inb))"
proof (cases "b_size b = 0")
  case True
  then show ?thesis using st a(2) by (simp add: indep_try_def)
next
  case False
  have c: "cached rk m0 m" using st by (simp add: indep_state_def)
  define r where "r = to_s32 (int rep + ca_parent_r a + (if alg_code (b_alg b) = 1 \<and> int (b_size b) mod numrep = 0
    then (numrep + 1) * int ftotal else numrep * int ftotal))"
  from exec_postD [OF pick_spec [OF cached_ok [OF c] b(1), of False "ca_x a" r]] False
  obtain item b' where pick: "crush_bucket_choose b (ca_x a) r = Ret (item, b')"
    and c1: "cached rk m (put_bucket m inb b')" and h: "holds m inb item"
    and neg: "item < 0 \<longrightarrow> (\<exists>c. get_bucket (put_bucket m inb b') item = Ret c) \<and> rk item < rk inb"
    by auto
  define m1 where "m1 = put_bucket m inb b'"
  have c2: "cached rk m0 m1" using cached_trans [OF c c1] by (simp add: m1_def)
  note st1 = indep_state_cached [OF st c2] and neg1 = neg [folded m1_def]
  obtain t where t: "item_type m1 item = Ret t" "t = 0 \<longleftrightarrow> 0 \<le> item"
    using item_type_total [OF cached_ok [OF c2], of item] neg1 by blast
  have un: "under m0 root item"
    using b(2) h cached_view(1) [OF c] by (auto intro: tranclp.trancl_into_trancl)
  have red: "indep_try a leaf numrep ftotal outpos endpos rep m out out2 inb b =
     (if item \<ge> max_devices m1 then indep_none m1 out out2 rep
      else if t \<noteq> ca_type a then
        (if item \<ge> 0 \<or> - 1 - item \<ge> max_buckets m1 then indep_none m1 out out2 rep
         else Ret (IDescend item, m1, out, out2))
      else if item \<in> set (drop outpos (take endpos out)) then Ret (IBreak False, m1, out, out2)
      else indep_accept a leaf rep m1 out out2 item t r)"
    using False pick t(1) a(2) unfolding indep_try_def Let_def r_def [symmetric] m1_def indep_accept_def by simp
  have none: "exec_post (indep_none m1 out out2 rep) (\<lambda>(e, m1, o1, p1).
      indep_state rk a m0 root outpos endpos o0 p0 m1 o1 p1 \<and>
      (\<forall>i. e = IDescend i \<longrightarrow> o1 = out \<and> under m0 root i \<and> (\<exists>c. get_bucket m1 i = Ret c) \<and> rk i < rk inb))"
    using indep_state_none [OF st ready rep(1,2) c2] by (auto elim: exec_post_mono)
  have acc: "exec_post (indep_accept a leaf rep m1 out out2 item t r) (\<lambda>(e, m1, o1, p1).
    (\<forall>i. e \<noteq> IDescend i) \<and> indep_state rk a m0 root outpos endpos o0 p0 m1 o1 p1)"
    if "item < max_devices m1" "t = ca_type a" "item \<notin> set (drop outpos (take endpos out))"
  proof -
    obtain ci where ci: "item < 0 \<Longrightarrow> get_bucket m1 item = Ret ci" using neg1 by blast
    show ?thesis unfolding that(2)
      using that neg1 b(3) un t cached_view(3,5) [OF c2]
      by (intro indep_accept_spec [OF st1 ready rep leaf _ a(1) that(3) _ un _ _ ci]) auto
  qed
  show ?thesis unfolding red using none acc st1 un neg1 by (auto elim!: exec_post_mono)
qed

lemma indep_bucket_spec:
  assumes ready: "indep_ready a m0 endpos o0 p0" and rep: "outpos \<le> rep" "rep < endpos"
    and leaf: "ca_recurse_to_leaf a \<Longrightarrow> indep_leaf_spec rk n a leaf" and a: "args_ok a" "numrep \<noteq> 0"
  shows "indep_state rk a m0 root outpos endpos o0 p0 m out out2 \<Longrightarrow> get_bucket m inb = Ret b \<Longrightarrow>
    inb = root \<or> under m0 root inb \<Longrightarrow> rk inb < k \<Longrightarrow> rk inb \<le> n \<Longrightarrow> out ! rep = CRUSH_ITEM_UNDEF \<Longrightarrow>
    exec_post (indep_bucket k a leaf numrep ftotal outpos endpos rep m out out2 inb) (\<lambda>(f, m1, o1, p1).
      indep_state rk a m0 root outpos endpos o0 p0 m1 o1 p1)"
proof (induction k arbitrary: m out out2 inb b)
  case (Suc k)
  note prems = Suc.prems
  from exec_postD [OF indep_try_spec [OF prems(1) ready prems(2,3,5) rep prems(6) leaf a, of ftotal]]
  obtain e m1 o1 p1 where tr: "indep_try a leaf numrep ftotal outpos endpos rep m out out2 inb b = Ret (e, m1, o1, p1)"
    and st: "indep_state rk a m0 root outpos endpos o0 p0 m1 o1 p1"
    and e: "\<forall>i. e = IDescend i \<longrightarrow> o1 = out \<and> under m0 root i \<and> (\<exists>c. get_bucket m1 i = Ret c) \<and> rk i < rk inb"
    by auto
  show ?case
  proof (cases e)
    case (IDescend i)
    then obtain c where c: "get_bucket m1 i = Ret c" "o1 = out" "under m0 root i" "rk i < rk inb" using e by auto
    have "exec_post (indep_bucket k a leaf numrep ftotal outpos endpos rep m1 o1 p1 i) (\<lambda>(f, m1, o1, p1).
      indep_state rk a m0 root outpos endpos o0 p0 m1 o1 p1)"
      using c prems by (intro Suc.IH [OF st c(1)]) auto
    then show ?thesis using IDescend by (simp add: prems(2) tr)
  qed (use st in \<open>simp add: prems(2) tr\<close>)
qed simp

lemma indep_reps_spec:
  assumes ready: "indep_ready a m0 endpos o0 p0" and m: "get_bucket m0 root = Ret b" "rk root < fuel" "rk root \<le> n"
    and leaf: "ca_recurse_to_leaf a \<Longrightarrow> indep_leaf_spec rk n a leaf" and a: "args_ok a" "numrep \<noteq> 0"
  shows "indep_state rk a m0 root outpos endpos o0 p0 m out out2 \<Longrightarrow> outpos \<le> rep \<Longrightarrow> rep + k \<le> endpos \<Longrightarrow>
    exec_post (indep_reps k fuel a leaf numrep ftotal outpos endpos rep lft m out out2 root) (\<lambda>(f, m1, o1, p1).
      indep_state rk a m0 root outpos endpos o0 p0 m1 o1 p1)"
proof (induction k arbitrary: m out out2 rep lft)
  case (Suc k)
  note st = Suc.prems(1)
  have c: "cached rk m0 m" and "length out = length o0"
    using st by (auto simp: indep_state_def dest: same_outside_length)
  then have get: "arr_get out (int rep) = Ret (out ! rep)"
    using ready Suc.prems(3) by (simp add: arr_get_def indep_ready_def)
  obtain b' where b': "get_bucket m root = Ret b'" using cached_view(4) [OF c m(1)] by blast
  show ?case
  proof (cases "out ! rep = CRUSH_ITEM_UNDEF")
    case True
    have "exec_post (indep_bucket fuel a leaf numrep ftotal outpos endpos rep m out out2 root) (\<lambda>(f, m1, o1, p1).
      indep_state rk a m0 root outpos endpos o0 p0 m1 o1 p1)"
      using Suc.prems(2,3) m(2,3) True by (intro indep_bucket_spec [OF ready _ _ leaf a st b']) auto
    then obtain f m1 o1 p1 where
      run: "indep_bucket fuel a leaf numrep ftotal outpos endpos rep m out out2 root = Ret (f, m1, o1, p1)"
      and st1: "indep_state rk a m0 root outpos endpos o0 p0 m1 o1 p1" by (auto dest: exec_postD)
    show ?thesis using Suc.IH [OF st1] Suc.prems(2,3) True by (simp add: get run)
  next
    case False
    then show ?thesis using Suc.IH [OF st] Suc.prems(2,3) by (simp add: get)
  qed
qed simp

lemma indep_tries_spec:
  assumes ready: "indep_ready a m0 endpos o0 p0" and m: "get_bucket m0 root = Ret b" "rk root < fuel" "rk root \<le> n"
    and leaf: "ca_recurse_to_leaf a \<Longrightarrow> indep_leaf_spec rk n a leaf" and a: "args_ok a" "numrep \<noteq> 0"
    and pos: "outpos \<le> endpos"
  shows "indep_state rk a m0 root outpos endpos o0 p0 m out out2 \<Longrightarrow>
    exec_post (indep_tries k fuel a leaf numrep ftotal outpos endpos lft m out out2 root) (\<lambda>(f, m1, o1, p1).
      indep_state rk a m0 root outpos endpos o0 p0 m1 o1 p1)"
proof (induction k arbitrary: m out out2 ftotal lft)
  case (Suc k)
  have "exec_post (indep_reps (endpos - outpos) fuel a leaf numrep ftotal outpos endpos outpos lft m out out2 root)
      (\<lambda>(f, m1, o1, p1). indep_state rk a m0 root outpos endpos o0 p0 m1 o1 p1)"
    using pos by (intro indep_reps_spec [OF ready m leaf a Suc.prems]) auto
  then obtain l1 m1 o1 p1 where
    run: "indep_reps (endpos - outpos) fuel a leaf numrep ftotal outpos endpos outpos lft m out out2 root = Ret (l1, m1, o1, p1)"
    and st1: "indep_state rk a m0 root outpos endpos o0 p0 m1 o1 p1" by (auto dest: exec_postD)
  show ?case using Suc.IH [OF st1] Suc.prems by (simp add: run)
qed simp

text \<open>Marking the positions before the first pass and after the last one.\<close>

lemma map_range_run:
  assumes "lo \<le> hi" "hi \<le> length xs"
  obtains ys where "map_range lo hi f xs = Ret ys" "same_outside lo hi xs ys"
    "\<And>j. lo \<le> j \<Longrightarrow> j < hi \<Longrightarrow> ys ! j = f (xs ! j)"
proof
  let ?ys = "take lo xs @ map f (drop lo (take hi xs)) @ drop hi xs"
  show "map_range lo hi f xs = Ret ?ys" using assms by (simp add: map_range_def max_def)
  show "same_outside lo hi xs ?ys"
    using assms by (auto simp: same_outside_def nth_append)
  show "?ys ! j = f (xs ! j)" if "lo \<le> j" "j < hi" for j
    using assms that by (simp add: nth_append less_diff_conv2)
qed

lemma map_range2_run:
  assumes "lo \<le> hi" "\<forall>xs. out2 = Some xs \<longrightarrow> hi \<le> length xs"
  obtains o2 where "map_range2 lo hi f out2 = Ret o2" "rel_option (same_outside lo hi) out2 o2"
    "\<And>j. out2 \<noteq> None \<Longrightarrow> lo \<le> j \<Longrightarrow> j < hi \<Longrightarrow> the o2 ! j = f (the out2 ! j)"
proof (cases out2)
  case None
  then show thesis using that [of None] by (simp add: map_range2_def)
next
  case (Some xs)
  then have hi: "hi \<le> length xs" using assms by simp
  obtain ys where "map_range lo hi f xs = Ret ys" "same_outside lo hi xs ys"
    "\<And>j. lo \<le> j \<Longrightarrow> j < hi \<Longrightarrow> ys ! j = f (xs ! j)"
    using map_range_run [OF assms(1) hi, of f] by blast
  then show thesis using that [of "Some ys"] Some by (simp add: map_range2_def)
qed

lemma rel_option_same_trans:
  "rel_option (same_outside lo hi) p q \<Longrightarrow> rel_option (same_outside lo hi) q s \<Longrightarrow> rel_option (same_outside lo hi) p s"
  by (cases p; cases q; cases s) (auto intro: same_outside_trans)

lemma slots_ok_final:
  assumes dev: "max_devices m \<le> 0x7ffffffe" and s2: "slots_ok a m root outpos endpos o2 p2"
    and o3: "\<And>j. outpos \<le> j \<Longrightarrow> j < endpos \<Longrightarrow>
      o3 ! j = (if o2 ! j = CRUSH_ITEM_UNDEF then CRUSH_ITEM_NONE else o2 ! j)"
    and p3: "\<And>j. p2 \<noteq> None \<Longrightarrow> outpos \<le> j \<Longrightarrow> j < endpos \<Longrightarrow>
      the p3 ! j = (if the p2 ! j = CRUSH_ITEM_UNDEF then CRUSH_ITEM_NONE else the p2 ! j)"
    and some: "ca_recurse_to_leaf a \<Longrightarrow> p2 \<noteq> None"
  shows "slots_ok a m root outpos endpos o3 p3"
  unfolding slots_ok_def
proof (intro conjI allI impI)
  fix j k assume jk: "outpos \<le> j \<and> j < k \<and> k < endpos \<and> o3 ! j = o3 ! k"
  have "o2 ! j = o2 ! k \<Longrightarrow> o2 ! j = CRUSH_ITEM_UNDEF \<or> o2 ! j = CRUSH_ITEM_NONE"
    using s2 jk unfolding slots_ok_def by blast
  then show "o3 ! j = CRUSH_ITEM_UNDEF \<or> o3 ! j = CRUSH_ITEM_NONE"
    using o3 [of j] o3 [of k] jk by (auto split: if_splits)
next
  fix j assume j: "ca_recurse_to_leaf a" "outpos \<le> j \<and> j < endpos"
  then have "leaf_slot a m (o2 ! j) (the p2 ! j)" using s2 by (simp add: slots_ok_def)
  then show "leaf_slot a m (o3 ! j) (the p3 ! j)"
    using o3 [of j] p3 [of j] j some good_not_special(1) [OF dev, of a "o2 ! j" "the p2 ! j"]
    by (auto simp: leaf_slot_def split: if_splits)
qed (use o3 s2 in \<open>auto simp: slots_ok_def slot_ok_def\<close>)

text \<open>One call, given what the recursive call does.\<close>

lemma indep_level:
  assumes m: "map_ok rk m" "get_bucket m bucket = Ret b" "rk bucket < fuel" and a: "args_ok a" "numrep \<noteq> 0"
    and ready: "indep_ready a m (outpos + lft) out out2"
    and leaf: "ca_recurse_to_leaf a \<Longrightarrow> indep_leaf_spec rk fuel a (\<lambda>m item rep xs r.
        exec_bind (crush_choose_indep d fuel (a\<lparr>ca_type := 0, ca_tries := ca_recurse_tries a, ca_recurse_tries := 0,
                   ca_recurse_to_leaf := False, ca_parent_r := r\<rparr>) m item 1 numrep xs rep None)
        (\<lambda>(m, xs, _). Ret (m, xs)))"
  shows "exec_post (crush_choose_indep (Suc d) fuel a m bucket lft numrep out outpos out2) (\<lambda>(m', out', out2').
    indep_state rk a m bucket outpos (outpos + lft) out out2 m' out' out2' \<and>
    (\<forall>j. outpos \<le> j \<and> j < outpos + lft \<longrightarrow> out' ! j \<noteq> CRUSH_ITEM_UNDEF))"
proof -
  let ?e = "outpos + lft" and ?none = "\<lambda>v. if v = CRUSH_ITEM_UNDEF then CRUSH_ITEM_NONE else v"
  have len: "outpos \<le> ?e" "?e \<le> length out" "\<forall>xs. out2 = Some xs \<longrightarrow> ?e \<le> length xs"
    and dev: "max_devices m \<le> 0x7ffffffe" and some: "ca_recurse_to_leaf a \<Longrightarrow> out2 \<noteq> None"
    using ready by (auto simp: indep_ready_def)
  obtain o1 where o1: "map_range outpos ?e (\<lambda>_. CRUSH_ITEM_UNDEF) out = Ret o1" "same_outside outpos ?e out o1"
    "\<And>j. outpos \<le> j \<Longrightarrow> j < ?e \<Longrightarrow> o1 ! j = CRUSH_ITEM_UNDEF"
    using map_range_run [OF len(1,2), of "\<lambda>_. CRUSH_ITEM_UNDEF"] by blast
  obtain p1 where p1: "map_range2 outpos ?e (\<lambda>_. CRUSH_ITEM_UNDEF) out2 = Ret p1"
    "rel_option (same_outside outpos ?e) out2 p1"
    "\<And>j. out2 \<noteq> None \<Longrightarrow> outpos \<le> j \<Longrightarrow> j < ?e \<Longrightarrow> the p1 ! j = CRUSH_ITEM_UNDEF"
    using map_range2_run [OF len(1,3), of "\<lambda>_. CRUSH_ITEM_UNDEF"] by blast
  have "slots_ok a m bucket outpos ?e o1 p1"
    using o1(3) p1(3) some by (auto simp: slots_ok_def slot_ok_def leaf_slot_def)
  then have st1: "indep_state rk a m bucket outpos ?e out out2 m o1 p1"
    using o1(2) p1(2) cached_refl [OF m(1)] by (simp add: indep_state_def)
  from exec_postD [OF indep_tries_spec [OF ready m(2,3) less_imp_le [OF m(3)] leaf a len(1) st1, of "ca_tries a" 0 "int lft"]]
  obtain f m2 o2 p2 where
    run: "indep_tries (ca_tries a) fuel a (\<lambda>m item rep xs r.
        exec_bind (crush_choose_indep d fuel (a\<lparr>ca_type := 0, ca_tries := ca_recurse_tries a, ca_recurse_tries := 0,
                   ca_recurse_to_leaf := False, ca_parent_r := r\<rparr>) m item 1 numrep xs rep None)
        (\<lambda>(m, xs, _). Ret (m, xs))) numrep 0 outpos ?e (int lft) m o1 p1 bucket = Ret (f, m2, o2, p2)"
    and st2: "indep_state rk a m bucket outpos ?e out out2 m2 o2 p2" by auto
  have s2: "cached rk m m2" "same_outside outpos ?e out o2" "rel_option (same_outside outpos ?e) out2 p2"
    "slots_ok a m bucket outpos ?e o2 p2" using st2 by (simp_all add: indep_state_def)
  have len2: "?e \<le> length o2" "\<forall>xs. p2 = Some xs \<longrightarrow> ?e \<le> length xs"
    using len(2,3) s2(2,3) by (auto simp: same_outside_def option_rel_Some2)
  obtain o3 where o3: "map_range outpos ?e ?none o2 = Ret o3" "same_outside outpos ?e o2 o3"
    "\<And>j. outpos \<le> j \<Longrightarrow> j < ?e \<Longrightarrow> o3 ! j = ?none (o2 ! j)"
    using map_range_run [OF len(1) len2(1), of ?none] by blast
  obtain p3 where p3: "map_range2 outpos ?e ?none p2 = Ret p3" "rel_option (same_outside outpos ?e) p2 p3"
    "\<And>j. p2 \<noteq> None \<Longrightarrow> outpos \<le> j \<Longrightarrow> j < ?e \<Longrightarrow> the p3 ! j = ?none (the p2 ! j)"
    using map_range2_run [OF len(1) len2(2), of ?none] by blast
  have some2: "ca_recurse_to_leaf a \<Longrightarrow> p2 \<noteq> None" using some s2(3) by (cases p2) auto
  have "slots_ok a m bucket outpos ?e o3 p3"
    using slots_ok_final [OF dev s2(4) o3(3) p3(3)] some2 by simp
  then have st3: "indep_state rk a m bucket outpos ?e out out2 m' o3 p3" if "cached rk m2 m'" for m'
    using s2 o3(2) p3(2) that unfolding indep_state_def
    by (auto intro: cached_trans same_outside_trans rel_option_same_trans)
  have "exec_post (note_tries m2 f) (cached rk m2)" by (rule note_tries_cached [OF cached_ok [OF s2(1)]])
  then show ?thesis
    using st3 o3(3) by (auto simp: Let_def o1(1) p1(1) run [unfolded One_nat_def] o3(1) p3(1) elim!: exec_post_mono)
qed

lemma indep_leaf_level:
  assumes "args_ok a" "numrep \<noteq> 0"
  shows "indep_leaf_spec rk fuel a (\<lambda>m item rep xs r.
        exec_bind (crush_choose_indep (Suc d) fuel (a\<lparr>ca_type := 0, ca_tries := ca_recurse_tries a, ca_recurse_tries := 0,
                   ca_recurse_to_leaf := False, ca_parent_r := r\<rparr>) m item 1 numrep xs rep None)
        (\<lambda>(m, xs, _). Ret (m, xs)))"
  unfolding indep_leaf_spec_def
proof (intro allI impI, elim conjE)
  fix m item b rep and xs :: "int list" and r
  assume m: "map_ok rk m" "get_bucket m item = Ret b" "rk item < fuel" "rep < length xs" "max_devices m \<le> 0x7ffffffe"
  let ?a = "a\<lparr>ca_type := 0, ca_tries := ca_recurse_tries a, ca_recurse_tries := 0,
    ca_recurse_to_leaf := False, ca_parent_r := r\<rparr>"
  have ready: "indep_ready ?a m (rep + 1) xs None" using m by (simp add: indep_ready_def)
  have good: "good_leaf a m item v" if "slot_ok ?a m item v" "v \<noteq> CRUSH_ITEM_UNDEF" "v \<noteq> CRUSH_ITEM_NONE" for v
    using that by (simp add: slot_ok_def good_item_def good_leaf_def in_place_def)
  have "exec_post (crush_choose_indep (Suc d) fuel ?a m item 1 numrep xs rep None) (\<lambda>(m', out', out2').
    indep_state rk ?a m item rep (rep + 1) xs None m' out' out2' \<and>
    (\<forall>j. rep \<le> j \<and> j < rep + 1 \<longrightarrow> out' ! j \<noteq> CRUSH_ITEM_UNDEF))"
    using assms m ready by (intro indep_level) (simp_all add: args_ok_def)
  then show "exec_post (exec_bind (crush_choose_indep (Suc d) fuel ?a m item 1 numrep xs rep None)
      (\<lambda>(m, xs, _). Ret (m, xs))) (\<lambda>(m', xs'). cached rk m m' \<and> same_outside rep (Suc rep) xs xs' \<and>
       (xs' ! rep = CRUSH_ITEM_NONE \<or> good_leaf a m item (xs' ! rep)))"
    unfolding exec_post_bind
    by (rule exec_post_mono) (auto simp: indep_state_def slots_ok_def dest!: spec [of _ rep] dest: good)
qed

section \<open>Correctness of crush\_choose\_indep\<close>

lemma choose_indep_spec:
  assumes "map_ok rk m" "get_bucket m bucket = Ret b" "rk bucket < fuel" "args_ok a" "numrep \<noteq> 0"
    and "indep_ready a m (outpos + lft) out out2"
  shows "exec_post (crush_choose_indep (Suc (Suc d)) fuel a m bucket lft numrep out outpos out2) (\<lambda>(m', out', out2').
    indep_state rk a m bucket outpos (outpos + lft) out out2 m' out' out2' \<and>
    (\<forall>j. outpos \<le> j \<and> j < outpos + lft \<longrightarrow> out' ! j \<noteq> CRUSH_ITEM_UNDEF))"
  by (rule indep_level [OF assms indep_leaf_level [OF assms(4,5)]])

lemma distinct_filter_nth:
  "(\<And>i j. i < j \<Longrightarrow> j < length xs \<Longrightarrow> xs ! i = xs ! j \<Longrightarrow> \<not> P (xs ! i)) \<Longrightarrow> distinct (filter P xs)"
proof (induction xs)
  case (Cons x xs)
  have "distinct (filter P xs)"
  proof (rule Cons.IH)
    fix i j assume "i < j" "j < length xs" "xs ! i = xs ! j"
    then show "\<not> P (xs ! i)" using Cons.prems [of "Suc i" "Suc j"] by simp
  qed
  moreover have "x \<notin> set (filter P xs)"
  proof
    assume "x \<in> set (filter P xs)"
    then obtain j where "j < length xs" "xs ! j = x" "P x" by (auto simp: in_set_conv_nth)
    then show False using Cons.prems [of 0 "Suc j"] by simp
  qed
  ultimately show ?case by auto
qed simp

lemma slots_ok_distinct:
  assumes "slots_ok a m root outpos endpos out out2" "endpos \<le> length out"
    and "\<forall>j. outpos \<le> j \<and> j < endpos \<longrightarrow> out ! j \<noteq> CRUSH_ITEM_UNDEF"
  shows "distinct (filter (\<lambda>v. v \<noteq> CRUSH_ITEM_NONE) (drop outpos (take endpos out)))"
proof (rule distinct_filter_nth)
  fix i j
  assume ij: "i < j" "j < length (drop outpos (take endpos out))"
    "drop outpos (take endpos out) ! i = drop outpos (take endpos out) ! j"
  then have "out ! (outpos + i) = out ! (outpos + j)" "outpos + j < endpos" using assms(2) by simp_all
  then show "\<not> drop outpos (take endpos out) ! i \<noteq> CRUSH_ITEM_NONE"
    using assms ij unfolding slots_ok_def by (force dest: spec [of _ "outpos + i"])
qed

lemma indep_state_slots:
  assumes "indep_state rk a m root outpos endpos out (Some xs) m' out' out2'" "endpos \<le> length out"
    and "\<forall>j. outpos \<le> j \<and> j < endpos \<longrightarrow> out' ! j \<noteq> CRUSH_ITEM_UNDEF"
  obtains xs' where "out2' = Some xs'" "same_outside outpos endpos out out'" "same_outside outpos endpos xs xs'"
    "distinct (filter (\<lambda>v. v \<noteq> CRUSH_ITEM_NONE) (drop outpos (take endpos out')))"
    "\<And>j. outpos \<le> j \<Longrightarrow> j < endpos \<Longrightarrow> if out' ! j = CRUSH_ITEM_NONE
        then ca_recurse_to_leaf a \<longrightarrow> xs' ! j = CRUSH_ITEM_NONE
        else good_item a m root (out' ! j) \<and> (ca_recurse_to_leaf a \<longrightarrow> good_leaf a m (out' ! j) (xs' ! j))"
    "cached rk m m'"
proof -
  have o: "same_outside outpos endpos out out'" "rel_option (same_outside outpos endpos) (Some xs) out2'"
    and s: "slots_ok a m root outpos endpos out' out2'" and c: "cached rk m m'"
    using assms(1) by (simp_all add: indep_state_def)
  obtain xs' where xs': "out2' = Some xs'" "same_outside outpos endpos xs xs'" using o(2) by (cases out2') auto
  show thesis
  proof (rule that [OF xs'(1) o(1) xs'(2) _ _ c])
    show "distinct (filter (\<lambda>v. v \<noteq> CRUSH_ITEM_NONE) (drop outpos (take endpos out')))"
      using slots_ok_distinct [OF s _ assms(3)] assms(2) same_outside_length [OF o(1)] by simp
    show "if out' ! j = CRUSH_ITEM_NONE then ca_recurse_to_leaf a \<longrightarrow> xs' ! j = CRUSH_ITEM_NONE
        else good_item a m root (out' ! j) \<and> (ca_recurse_to_leaf a \<longrightarrow> good_leaf a m (out' ! j) (xs' ! j))"
      if "outpos \<le> j" "j < endpos" for j
    proof -
      have "out' ! j \<noteq> CRUSH_ITEM_UNDEF" "slot_ok a m root (out' ! j)"
        "ca_recurse_to_leaf a \<longrightarrow> leaf_slot a m (out' ! j) (xs' ! j)"
        using s assms(3) that unfolding slots_ok_def xs'(1) by simp_all
      then show ?thesis by (auto simp: slot_ok_def leaf_slot_def)
    qed
  qed
qed

text \<open>C10: On a well-formed map whose device numbers stay below the two special values,
  \<open>crush_choose_indep\<close> returns with fuel above the rank of the bucket: every position asked for holds
  either \<open>CRUSH_ITEM_NONE\<close> or an item of the wanted type below the bucket, which is in if it is a
  device; the items are different; with \<open>recurse_to_leaf\<close> on a bucket type, the position beside it in
  \<open>out2\<close> holds a device below that item that is in, and \<open>CRUSH_ITEM_NONE\<close> beside a hole.  No other
  position changes, and of the map only caches and the histogram change.\<close>
theorem crush_choose_indep_correct:
  assumes "map_ok rk m" "get_bucket m bucket = Ret b" "rk bucket < fuel" "args_ok a" "numrep \<noteq> 0"
    and "max_devices m \<le> 0x7ffffffe" "ca_recurse_to_leaf a \<Longrightarrow> ca_type a \<noteq> 0"
    and "outpos + lft \<le> length out" "outpos + lft \<le> length xs"
  shows "exec_post (crush_choose_indep 2 fuel a m bucket lft numrep out outpos (Some xs)) (\<lambda>(m', out', out2').
    \<exists>xs'. out2' = Some xs' \<and>
    same_outside outpos (outpos + lft) out out' \<and> same_outside outpos (outpos + lft) xs xs' \<and>
    distinct (filter (\<lambda>v. v \<noteq> CRUSH_ITEM_NONE) (drop outpos (take (outpos + lft) out'))) \<and>
    (\<forall>j \<in> {outpos ..< outpos + lft}.
       if out' ! j = CRUSH_ITEM_NONE then ca_recurse_to_leaf a \<longrightarrow> xs' ! j = CRUSH_ITEM_NONE
       else good_item a m bucket (out' ! j) \<and> (ca_recurse_to_leaf a \<longrightarrow> good_leaf a m (out' ! j) (xs' ! j))) \<and>
    map_ok rk m' \<and> map_static m' = map_static m)"
proof -
  have ready: "indep_ready a m (outpos + lft) out (Some xs)"
    using assms(6-9) by (simp add: indep_ready_def)
  show ?thesis unfolding numeral_2_eq_2
  proof (rule exec_post_mono [OF choose_indep_spec [OF assms(1-5) ready]], clarify)
    fix m' out' out2'
    assume "indep_state rk a m bucket outpos (outpos + lft) out (Some xs) m' out' out2'"
      "\<forall>j. outpos \<le> j \<and> j < outpos + lft \<longrightarrow> out' ! j \<noteq> CRUSH_ITEM_UNDEF"
    from indep_state_slots [OF this(1) assms(8) this(2)] show "\<exists>xs'. out2' = Some xs' \<and>
      same_outside outpos (outpos + lft) out out' \<and> same_outside outpos (outpos + lft) xs xs' \<and>
      distinct (filter (\<lambda>v. v \<noteq> CRUSH_ITEM_NONE) (drop outpos (take (outpos + lft) out'))) \<and>
      (\<forall>j \<in> {outpos ..< outpos + lft}.
       if out' ! j = CRUSH_ITEM_NONE then ca_recurse_to_leaf a \<longrightarrow> xs' ! j = CRUSH_ITEM_NONE
       else good_item a m bucket (out' ! j) \<and> (ca_recurse_to_leaf a \<longrightarrow> good_leaf a m (out' ! j) (xs' ! j))) \<and>
      map_ok rk m' \<and> map_static m' = map_static m"
      unfolding cached_def by (metis atLeastLessThan_iff)
  qed
qed

theorem crush_choose_indep_correct_witness:
  "exec_post (crush_choose_indep 2 2 sample_args sample_map (- 1) 3 3 [0, 0, 0] 0 (Some [0, 0, 0])) (\<lambda>(m', out', out2').
     \<exists>xs'. out2' = Some xs' \<and> distinct (filter (\<lambda>v. v \<noteq> CRUSH_ITEM_NONE) (take 3 out')) \<and>
     (out' ! 2 = CRUSH_ITEM_NONE \<and> xs' ! 2 = CRUSH_ITEM_NONE \<or> good_leaf sample_args sample_map (out' ! 2) (xs' ! 2)))"
proof -
  have b: "get_bucket sample_map (- 1) = Ret (mk_bucket (- 1) 2 [- 2, - 3] (Straw2 [0x20000, 0x20000]))"
    by (simp add: get_sample_bucket)
  have a: "ca_recurse_to_leaf sample_args" "ca_type sample_args \<noteq> 0" "sample_rank (- 1) < 2"
    "max_devices sample_map \<le> 0x7ffffffe"
    by (simp_all add: sample_args_def sample_rank_def sample_map_def)
  from crush_choose_indep_correct [OF sample_map_ok b a(3) sample_args_ok(1) _ a(4,2), of 3 0 3 "[0, 0, 0]" "[0, 0, 0]"]
  show ?thesis using a(1) by (auto elim!: exec_post_mono split: if_splits)
qed

section \<open>Two rules that go wrong\<close>

text \<open>One bucket over one device, with a rule that asks for leaves of type device.\<close>

definition one_device_map :: crush_map where
  "one_device_map = sample_map\<lparr>buckets := [Some (mk_bucket (- 1) 1 [0] (Uniform 0x10000))], max_buckets := 1,
     max_devices := 1, choose_total_tries := 0,
     rules := [Some (mk_rule [\<lparr>op = CRUSH_RULE_TAKE, arg1 = - 1, arg2 = 0\<rparr>,
       \<lparr>op = CRUSH_RULE_CHOOSELEAF_INDEP, arg1 = 0, arg2 = 0\<rparr>, \<lparr>op = CRUSH_RULE_EMIT, arg1 = 0, arg2 = 0\<rparr>])]\<rparr>"

lemma one_device_choose:
  assumes "bucket_ok b" "static b = static (mk_bucket (- 1) 1 [0] (Uniform 0x10000))"
  shows "\<exists>b'. crush_bucket_choose b x r = Ret (0, b') \<and> bucket_ok b' \<and>
    static b' = static (mk_bucket (- 1) 1 [0] (Uniform 0x10000))"
proof -
  have f: "b_size b = 1" "b_items b = [0]" using static_fields [OF assms(2)] by (simp_all add: mk_bucket_def)
  then show ?thesis using choose.pick_item [OF assms(1), of x r] assms(2) by auto
qed

definition device_args :: "int \<Rightarrow> choose_args" where
  "device_args x = sample_args\<lparr>ca_weight := [0], ca_weight_max := 1, ca_x := x, ca_type := 0, ca_tries := 1,
     ca_recurse_tries := 1\<rparr>"

lemma one_device_bucket:
  assumes m: "get_bucket m (- 1) = Ret b" "bucket_ok b" "static b = static (mk_bucket (- 1) 1 [0] (Uniform 0x10000))"
    "max_devices m = 1" and rep: "rep < 2" "length xs = 2"
  shows "\<exists>b'. indep_bucket (Suc k) (device_args x) leaf 2 0 0 2 rep m [CRUSH_ITEM_UNDEF, CRUSH_ITEM_UNDEF] (Some xs) (- 1) =
      Ret (False, put_bucket m (- 1) b', [CRUSH_ITEM_UNDEF, CRUSH_ITEM_UNDEF], Some (xs[rep := 0])) \<and> bucket_ok b' \<and>
      static b' = static (mk_bucket (- 1) 1 [0] (Uniform 0x10000)) \<and>
      get_bucket (put_bucket m (- 1) b') (- 1) = Ret b' \<and> max_devices (put_bucket m (- 1) b') = 1"
proof -
  have sz: "b_size b = 1" using static_fields [OF m(3)] by (simp add: mk_bucket_def)
  obtain b' where b': "\<And>r. crush_bucket_choose b x r = Ret (0, b' r)" "\<And>r. bucket_ok (b' r)"
      "\<And>r. static (b' r) = static (mk_bucket (- 1) 1 [0] (Uniform 0x10000))"
    using one_device_choose [OF m(2,3)] by metis
  have dev: "max_devices (put_bucket m (- 1) c) = 1" for c using m(4) by (simp add: put_bucket_def)
  have "is_out [0] 1 0 x = Ret True" by (simp add: is_out_def arr_get_def)
  then show ?thesis
    using rep b' by (simp add: m(1) sz dev indep_try_def Let_def device_args_def sample_args_def item_type_def
      indep_leaf_def arr_set_def get_put_bucket [OF m(1)]) blast
qed

lemma one_device_indep:
  "\<exists>m'. crush_choose_indep 2 (Suc k) (device_args x) one_device_map (- 1) 2 2 [0, 0] 0 (Some [0, 0]) =
     Ret (m', [CRUSH_ITEM_NONE, CRUSH_ITEM_NONE], Some [0, 0])"
proof -
  let ?b = "mk_bucket (- 1) 1 [0] (Uniform 0x10000)" and ?u = "[CRUSH_ITEM_UNDEF, CRUSH_ITEM_UNDEF]"
  let ?leaf = "\<lambda>m item rep xs r.
        exec_bind (crush_choose_indep (Suc 0) (Suc k) ((device_args x)\<lparr>ca_type := 0, ca_tries := 1, ca_recurse_tries := 0,
                   ca_recurse_to_leaf := False, ca_parent_r := r\<rparr>) m item (Suc 0) 2 xs rep None)
        (\<lambda>(m, xs, _). Ret (m, xs))"
  have m: "get_bucket one_device_map (- 1) = Ret ?b" "bucket_ok ?b" "max_devices one_device_map = 1"
    by (simp_all add: one_device_map_def get_bucket_def arr_get_def mk_bucket_def bucket_ok_def cache_ok_def)
  obtain b1 where b1: "indep_bucket (Suc k) (device_args x) ?leaf 2 0 0 2 0 one_device_map ?u (Some ?u) (- 1) =
      Ret (False, put_bucket one_device_map (- 1) b1, ?u, Some (?u[0 := 0]))" "bucket_ok b1" "static b1 = static ?b"
      "get_bucket (put_bucket one_device_map (- 1) b1) (- 1) = Ret b1"
      "max_devices (put_bucket one_device_map (- 1) b1) = 1"
    using one_device_bucket [OF m(1,2) refl m(3), of 0 ?u k x ?leaf] by auto
  define m1 where "m1 = put_bucket one_device_map (- 1) b1"
  obtain b2 where b2: "indep_bucket (Suc k) (device_args x) ?leaf 2 0 0 2 1 m1 ?u (Some [0, CRUSH_ITEM_UNDEF]) (- 1) =
      Ret (False, put_bucket m1 (- 1) b2, ?u, Some [0, 0])"
    using one_device_bucket [OF b1(4,2,3,5), of 1 "[0, CRUSH_ITEM_UNDEF]" k x ?leaf] by (auto simp: m1_def)
  have tries: "indep_tries (Suc 0) (Suc k) (device_args x) ?leaf 2 0 0 2 2 one_device_map ?u (Some ?u) (- 1) =
      Ret (Suc 0, put_bucket m1 (- 1) b2, ?u, Some [0, 0])"
    using b1(1) b2 by (simp add: arr_get_def m1_def numeral_2_eq_2 del: indep_bucket.simps)
  have a: "ca_tries (device_args x) = 1" "ca_recurse_tries (device_args x) = 1" by (simp_all add: device_args_def)
  have "choose_tries (put_bucket m1 (- 1) b2) = None"
    by (simp add: m1_def put_bucket_def one_device_map_def sample_map_def)
  then have nt: "note_tries (put_bucket m1 (- 1) b2) (Suc 0) = Ret (put_bucket m1 (- 1) b2)"
    by (simp add: note_tries_def)
  have two: "(2 :: nat) = Suc (Suc 0)" by simp
  show ?thesis
    unfolding two crush_choose_indep.simps(2) [of "Suc 0"]
    using tries nt by (simp add: Let_def map_range_def map_range2_def a numeral_2_eq_2 del: crush_choose_indep.simps indep_tries.simps)
qed

text \<open>A \<open>chooseleaf indep\<close> step of type device returns devices that are out, and the same device
  twice: the device is stored in \<open>out2\<close> before \<open>is_out\<close> is asked, and stays there.\<close>
theorem crush_do_rule_indep_device_out:
  "\<exists>m'. crush_do_rule (Suc k) one_device_map 0 x 2 [0] 1 [0, 0, 0, 0, 0, 0] = Ret ([0, 0], m') \<and>
     is_out [0] 1 0 x = Ret True"
proof -
  obtain m' where m': "crush_choose_indep 2 (Suc k) (device_args x) one_device_map (- 1) 2 2 [0, 0] 0 (Some [0, 0]) =
     Ret (m', [CRUSH_ITEM_NONE, CRUSH_ITEM_NONE], Some [0, 0])" using one_device_indep by blast
  let ?s = "(rule_start one_device_map 2 [0, 0, 0, 0, 0, 0])\<lparr>dr_w := [- 1, 0], dr_wsize := 1\<rparr>"
  let ?st = "\<lparr>op = CRUSH_RULE_CHOOSELEAF_INDEP, arg1 = 0, arg2 = 0\<rparr>"
  have a: "step_args [0] 1 x ?s ?st False = device_args x"
    by (simp add: step_args_def device_args_def sample_args_def rule_start_def one_device_map_def sample_map_def
      to_u32_def to_s32_id)
  have st: "dr_map ?s = one_device_map" "dr_o ?s = [0, 0]" "dr_c ?s = [0, 0]" "dr_w ?s = [- 1, 0]" "dr_result ?s = []"
    by (simp_all add: rule_start_def)
  have slot: "arr_get (buckets one_device_map) 0 = Ret (Some (mk_bucket (- 1) 1 [0] (Uniform 0x10000)))"
    by (simp add: one_device_map_def arr_get_def)
  have "is_out [0] 1 0 x = Ret True" by (simp add: is_out_def arr_get_def)
  moreover have "crush_do_rule (Suc k) one_device_map 0 x 2 [0] 1 [0, 0, 0, 0, 0, 0] =
    exec_bind (do_steps (Suc k) [0] 1 x (int 2) (take 3 (steps (mk_rule [\<lparr>op = CRUSH_RULE_TAKE, arg1 = - 1, arg2 = 0\<rparr>,
       ?st, \<lparr>op = CRUSH_RULE_EMIT, arg1 = 0, arg2 = 0\<rparr>])))
      (rule_start one_device_map 2 [0, 0, 0, 0, 0, 0])) (\<lambda>s. Ret (dr_result s, dr_map s))"
    by (subst do_rule_start [where rl = "mk_rule [\<lparr>op = CRUSH_RULE_TAKE, arg1 = - 1, arg2 = 0\<rparr>,
       ?st, \<lparr>op = CRUSH_RULE_EMIT, arg1 = 0, arg2 = 0\<rparr>]"])
      (simp_all add: one_device_map_def sample_map_def mk_rule_def)
  moreover have "do_step (Suc k) [0] 1 x 2 ?st ?s = Ret (?s\<lparr>dr_map := m', dr_o := [- 1, 0], dr_c := [0, 0], dr_w := [0, 0],
      dr_wsize := 2\<rparr>)"
    using m' a st slot by (simp add: do_step_def Let_def)
  moreover have "do_step (Suc k) [0] 1 x 2 \<lparr>op = CRUSH_RULE_TAKE, arg1 = - 1, arg2 = 0\<rparr>
      (rule_start one_device_map 2 [0, 0, 0, 0, 0, 0]) = Ret ?s"
    by (simp add: do_step_def rule_start_def arr_set_def)
  ultimately show ?thesis
    using st by (simp add: mk_rule_def do_step_def [of _ _ _ _ _ "\<lparr>op = CRUSH_RULE_EMIT, arg1 = 0, arg2 = 0\<rparr>"])
qed

text \<open>A root without items, with a rule that descends in two steps.\<close>

definition empty_root_map :: crush_map where
  "empty_root_map = sample_map\<lparr>buckets := [Some (mk_bucket (- 1) 2 [] (Straw2 []))], max_buckets := 1,
     rules := [Some (mk_rule [\<lparr>op = CRUSH_RULE_TAKE, arg1 = - 1, arg2 = 0\<rparr>,
       \<lparr>op = CRUSH_RULE_CHOOSE_INDEP, arg1 = 1, arg2 = 1\<rparr>, \<lparr>op = CRUSH_RULE_CHOOSE_INDEP, arg1 = 1, arg2 = 0\<rparr>,
       \<lparr>op = CRUSH_RULE_EMIT, arg1 = 0, arg2 = 0\<rparr>])]\<rparr>"

lemma hole_is_no_bucket:
  assumes "0 < (if arg1 st \<le> 0 then arg1 st + result_max else arg1 st)"
  shows "choose_loop fuel weight weight_max x result_max st firstn (CRUSH_ITEM_NONE # ws) osize s = Fault"
  using assms by (simp add: Let_def arr_get_def not_le)

lemma empty_root_indep:
  assumes "ca_tries a = 20" "\<not> ca_recurse_to_leaf a"
  shows "crush_choose_indep 2 (Suc k) a empty_root_map (- 1) 1 1 [0] 0 (Some [0]) =
     Ret (empty_root_map, [CRUSH_ITEM_NONE], Some [CRUSH_ITEM_NONE])"
proof -
  have b: "get_bucket empty_root_map (- 1) = Ret (mk_bucket (- 1) 2 [] (Straw2 []))"
    by (simp add: empty_root_map_def get_bucket_def arr_get_def)
  have tries: "indep_tries n (Suc k) a leaf 1 f 0 1 1 empty_root_map [CRUSH_ITEM_UNDEF] (Some [CRUSH_ITEM_UNDEF]) (- 1) =
      Ret (f + n, empty_root_map, [CRUSH_ITEM_UNDEF], Some [CRUSH_ITEM_UNDEF])" for n f leaf
    by (induction n arbitrary: f) (simp_all add: arr_get_def b indep_try_def mk_bucket_def)
  have nt: "note_tries empty_root_map f = Ret empty_root_map" for f
    by (simp add: note_tries_def empty_root_map_def sample_map_def)
  have two: "(2 :: nat) = Suc (Suc 0)" by simp
  show ?thesis
    unfolding two crush_choose_indep.simps(2) [of "Suc 0"]
    using tries nt by (simp add: Let_def map_range_def map_range2_def del: indep_tries.simps crush_choose_indep.simps)
qed

text \<open>A rule with two \<open>choose indep\<close> steps goes through the holes of the first step as if they were
  buckets: on a root without items \<open>crush_do_rule\<close> reads \<open>buckets[-1 - CRUSH_ITEM_NONE]\<close>, far
  outside the array.\<close>
theorem crush_do_rule_hole_faults:
  "crush_do_rule (Suc k) empty_root_map 0 x 1 weight weight_max [0, 0, 0] = Fault"
proof -
  let ?r = "mk_rule [\<lparr>op = CRUSH_RULE_TAKE, arg1 = - 1, arg2 = 0\<rparr>,
       \<lparr>op = CRUSH_RULE_CHOOSE_INDEP, arg1 = 1, arg2 = 1\<rparr>, \<lparr>op = CRUSH_RULE_CHOOSE_INDEP, arg1 = 1, arg2 = 0\<rparr>,
       \<lparr>op = CRUSH_RULE_EMIT, arg1 = 0, arg2 = 0\<rparr>]"
  let ?s = "(rule_start empty_root_map 1 [0, 0, 0])\<lparr>dr_w := [- 1], dr_wsize := 1\<rparr>"
  let ?st = "\<lparr>op = CRUSH_RULE_CHOOSE_INDEP, arg1 = 1, arg2 = 1\<rparr>"
  define a where "a = step_args weight weight_max x ?s ?st False"
  have at: "ca_tries a = 20" "\<not> ca_recurse_to_leaf a"
    by (simp_all add: a_def step_args_def rule_start_def empty_root_map_def sample_map_def to_u32_def to_s32_id)
  have slot: "arr_get (buckets empty_root_map) 0 = Ret (Some (mk_bucket (- 1) 2 [] (Straw2 [])))"
    by (simp add: empty_root_map_def arr_get_def)
  have st: "dr_map ?s = empty_root_map" "dr_o ?s = [0]" "dr_c ?s = [0]" "dr_w ?s = [- 1]"
    by (simp_all add: rule_start_def)
  have start: "crush_do_rule (Suc k) empty_root_map 0 x 1 weight weight_max [0, 0, 0] =
    exec_bind (do_steps (Suc k) weight weight_max x (int 1) (take 4 (steps ?r)) (rule_start empty_root_map 1 [0, 0, 0]))
      (\<lambda>s. Ret (dr_result s, dr_map s))"
    by (subst do_rule_start [where rl = ?r]) (simp_all add: empty_root_map_def sample_map_def mk_rule_def)
  have take: "do_step (Suc k) weight weight_max x 1 \<lparr>op = CRUSH_RULE_TAKE, arg1 = - 1, arg2 = 0\<rparr>
      (rule_start empty_root_map 1 [0, 0, 0]) = Ret ?s"
    by (simp add: do_step_def rule_start_def arr_set_def)
  have first: "do_step (Suc k) weight weight_max x 1 ?st ?s = Ret (?s\<lparr>dr_map := empty_root_map, dr_o := [- 1],
      dr_c := [CRUSH_ITEM_NONE], dr_w := [CRUSH_ITEM_NONE], dr_wsize := 1\<rparr>)"
    using empty_root_indep [OF at] st slot a_def by (simp add: do_step_def Let_def)
  have second: "do_step (Suc k) weight weight_max x 1 \<lparr>op = CRUSH_RULE_CHOOSE_INDEP, arg1 = 1, arg2 = 0\<rparr> s = Fault"
    if "dr_w s = [CRUSH_ITEM_NONE]" "dr_wsize s = 1" for s
    using that hole_is_no_bucket [of "\<lparr>op = CRUSH_RULE_CHOOSE_INDEP, arg1 = 1, arg2 = 0\<rparr>"]
    by (simp add: do_step_def del: choose_loop.simps)
  show ?thesis unfolding start using take first second by (simp add: mk_rule_def)
qed

end
