(* ===== verification/Crush_Builder.thy ===== *)
theory Crush_Builder
  imports Crush_Choose "HOL-Library.Multiset"
begin

text \<open>
  Construction and editing of CRUSH maps (\<open>crush/builder.c\<close>): rules, bucket slots, and for each of
  the five bucket algorithms how a bucket is made and how an item is added, removed and reweighted.

  The heap is a parameter: whether the \<open>k\<close>-th allocation of a call succeeds, and what memory that the
  program has not written holds.  Floating-point arithmetic, which only the straw lengths use, is a
  parameter too.  A NULL result is \<open>None\<close>; an editing operation returns its error code with the
  bucket as it leaves it, also when it fails half-way.
\<close>

unbundle bit_operations_syntax

section \<open>The heap\<close>

record heap =
  h_ok :: "nat \<Rightarrow> bool"
  h_junk :: "nat \<Rightarrow> u32"
  h_past :: u32

definition allocs :: "heap \<Rightarrow> nat \<Rightarrow> bool" where
  "allocs h n \<longleftrightarrow> list_all (h_ok h) [0..<n]"

text \<open>\<open>realloc\<close> to \<open>n\<close> entries: what does not fit is dropped, new entries hold what the memory held.\<close>

definition resize :: "(nat \<Rightarrow> 'a) \<Rightarrow> nat \<Rightarrow> 'a list \<Rightarrow> 'a list" where
  "resize junk n xs = take n xs @ map junk [length xs..<n]"

definition resize32 :: "heap \<Rightarrow> nat \<Rightarrow> u32 list \<Rightarrow> u32 list" where
  "resize32 h = resize (h_junk h)"

text \<open>
  The reallocations of \<open>items\<close> and \<open>perm\<close> every editing operation starts with; \<open>k\<close> goes on after
  both have succeeded.
\<close>

definition resize_base :: "heap \<Rightarrow> nat \<Rightarrow> crush_bucket \<Rightarrow> (crush_bucket \<Rightarrow> (int \<times> crush_bucket) exec)
    \<Rightarrow> (int \<times> crush_bucket) exec" where
  "resize_base h n b k =
     (if \<not> h_ok h 0 then Ret (- ENOMEM, b)
      else
        let b = b\<lparr>b_items := resize (\<lambda>i. sint (h_junk h i)) n (b_items b)\<rparr> in
        if \<not> h_ok h 1 then Ret (- ENOMEM, b)
        else k (b\<lparr>b_perm := resize (\<lambda>i. unat (h_junk h i)) n (b_perm b)\<rparr>))"

text \<open>The caller's arrays must have the announced number of entries.\<close>

definition copy_array :: "nat \<Rightarrow> 'a list \<Rightarrow> 'a list exec" where
  "copy_array n xs = (if n \<le> length xs then Ret (take n xs) else Fault)"

section \<open>Maps and rules\<close>

definition crush_create :: "heap \<Rightarrow> crush_map option" where
  "crush_create h =
     (if \<not> h_ok h 0 then None
      else Some \<lparr>buckets = [], rules = [], max_buckets = 0, max_rules = 0, max_devices = 0,
        choose_local_tries = 2, choose_local_fallback_tries = 5, choose_total_tries = 19,
        chooseleaf_descend_once = 0, chooseleaf_vary_r = 0, straw_calc_version = 0,
        allowed_bucket_algs = push_bit 1 1 OR push_bit 2 1 OR push_bit 4 1, choose_tries = None\<rparr>)"

definition finalize_items :: "int \<Rightarrow> int list \<Rightarrow> int" where
  "finalize_items d items = fold (\<lambda>item d. if item \<ge> d then item + 1 else d) items d"

fun finalize_buckets :: "crush_bucket option list \<Rightarrow> int \<Rightarrow> int exec" where
  "finalize_buckets [] d = Ret d"
| "finalize_buckets (None # bs) d = finalize_buckets bs d"
| "finalize_buckets (Some b # bs) d =
     exec_bind (copy_array (b_size b) (b_items b)) (\<lambda>items. finalize_buckets bs (finalize_items d items))"

definition crush_finalize :: "crush_map \<Rightarrow> crush_map exec" where
  "crush_finalize m =
     exec_bind (copy_array (nat (max_buckets m)) (buckets m)) (\<lambda>bs.
     exec_bind (finalize_buckets bs 0) (\<lambda>d. Ret (m\<lparr>max_devices := d\<rparr>)))"

text \<open>The first empty slot among the \<open>n\<close> an array is said to have, or \<open>n\<close>.\<close>

primrec first_free :: "'a option list \<Rightarrow> nat" where
  "first_free [] = 0"
| "first_free (x # xs) = (case x of None \<Rightarrow> 0 | Some _ \<Rightarrow> Suc (first_free xs))"

definition find_free :: "nat \<Rightarrow> 'a option list \<Rightarrow> nat exec" where
  "find_free n xs = (let i = first_free (take n xs) in if i < n \<and> length xs \<le> i then Fault else Ret i)"

definition crush_add_rule :: "heap \<Rightarrow> crush_map \<Rightarrow> crush_rule \<Rightarrow> int \<Rightarrow> (int \<times> crush_map) exec" where
  "crush_add_rule h m rl ruleno =
     exec_bind
       (if ruleno < 0
        then exec_bind (find_free (max_rules m) (rules m)) (\<lambda>r. if r < CRUSH_MAX_RULES then Ret r else Fault)
        else Ret (nat ruleno)) (\<lambda>r.
       if r \<ge> max_rules m then
         (if max_rules m + 1 > CRUSH_MAX_RULES then Ret (- ENOSPC, m)
          else if \<not> h_ok h 0 then Ret (- ENOMEM, m\<lparr>max_rules := r + 1\<rparr>)
          else
            exec_bind (copy_array (max_rules m) (rules m)) (\<lambda>rs.
              Ret (int r, m\<lparr>max_rules := r + 1,
                rules := (rs @ replicate (r + 1 - max_rules m) None)[r := Some rl]\<rparr>)))
       else exec_bind (arr_set (rules m) (int r) (Some rl)) (\<lambda>rs. Ret (int r, m\<lparr>rules := rs\<rparr>)))"

text \<open>The steps of a fresh rule are not initialised.\<close>

definition crush_make_rule :: "heap \<Rightarrow> nat \<Rightarrow> int \<Rightarrow> int \<Rightarrow> int \<Rightarrow> int \<Rightarrow> crush_rule option" where
  "crush_make_rule h len rset t minsize maxsize =
     (if \<not> h_ok h 0 then None
      else Some \<lparr>rule_len = len,
        rule_mask = \<lparr>ruleset = word_of_int rset, mask_type = word_of_int t,
          min_size = word_of_int minsize, max_size = word_of_int maxsize\<rparr>,
        steps = map (\<lambda>i. \<lparr>op = h_junk h (3 * i), arg1 = sint (h_junk h (3 * i + 1)),
          arg2 = sint (h_junk h (3 * i + 2))\<rparr>) [0..<len]\<rparr>)"

definition crush_rule_set_step :: "crush_rule \<Rightarrow> int \<Rightarrow> u32 \<Rightarrow> int \<Rightarrow> int \<Rightarrow> crush_rule exec" where
  "crush_rule_set_step rl n opc a1 a2 =
     (let i = unat (word_of_int n :: u32) in
      if \<not> i < rule_len rl then Fault
      else exec_bind (arr_set (steps rl) (int i) \<lparr>op = opc, arg1 = a1, arg2 = a2\<rparr>)
        (\<lambda>sts. Ret (rl\<lparr>steps := sts\<rparr>)))"

section \<open>Bucket slots\<close>

definition crush_get_next_bucket_id :: "crush_map \<Rightarrow> int exec" where
  "crush_get_next_bucket_id m =
     exec_bind (find_free (nat (max_buckets m)) (buckets m)) (\<lambda>pos. Ret (- 1 - int pos))"

text \<open>
  The loop that doubles the array until \<open>pos\<close> fits; the flag says whether every \<open>realloc\<close> succeeded.
  When one fails \<open>max_buckets\<close> has already been doubled.
\<close>

primrec grow_buckets :: "nat \<Rightarrow> heap \<Rightarrow> nat \<Rightarrow> crush_map \<Rightarrow> int \<Rightarrow> (bool \<times> crush_map) exec" where
  "grow_buckets 0 h k m pos = NoFuel"
| "grow_buckets (Suc fuel) h k m pos =
     (if \<not> pos \<ge> max_buckets m then Ret (True, m)
      else
        let n = (if max_buckets m \<noteq> 0 then to_s32 (max_buckets m * 2) else 8) in
        if \<not> h_ok h k then Ret (False, m\<lparr>max_buckets := n\<rparr>)
        else
          exec_bind (copy_array (nat (max_buckets m)) (buckets m)) (\<lambda>bs.
            grow_buckets fuel h (Suc k)
              (m\<lparr>max_buckets := n, buckets := bs @ replicate (nat (n - max_buckets m)) None\<rparr>) pos))"

text \<open>The result is the code, the map and, for \<open>*idout\<close>, the identifier given to the bucket.\<close>

definition crush_add_bucket :: "heap \<Rightarrow> crush_map \<Rightarrow> int \<Rightarrow> crush_bucket \<Rightarrow> (int \<times> crush_map \<times> int option) exec" where
  "crush_add_bucket h m i b =
     exec_bind (if i = 0 then crush_get_next_bucket_id m else Ret i) (\<lambda>i.
     exec_bind (grow_buckets 33 h 0 m (- 1 - i)) (\<lambda>(ok, m).
       if \<not> ok then Ret (- ENOMEM, m, None)
       else
         exec_bind (arr_get (buckets m) (- 1 - i)) (\<lambda>slot.
           if slot \<noteq> None then Ret (- EEXIST, m, None)
           else Ret (0, put_bucket m i (b\<lparr>b_id := i\<rparr>), Some i))))"

definition crush_remove_bucket :: "crush_map \<Rightarrow> crush_bucket \<Rightarrow> (int \<times> crush_map) exec" where
  "crush_remove_bucket m b =
     exec_bind (arr_set (buckets m) (- 1 - b_id b) None) (\<lambda>bs. Ret (0, m\<lparr>buckets := bs\<rparr>))"


section \<open>Making buckets\<close>

definition bucket_header :: "int \<Rightarrow> int \<Rightarrow> nat \<Rightarrow> bucket_alg \<Rightarrow> crush_bucket" where
  "bucket_header hsh t sz alg =
     \<lparr>b_id = 0, b_type = word_of_int t, b_hash = word_of_int hsh, b_weight = 0, b_size = sz, b_items = [],
      b_perm_x = 0, b_perm_n = 0, b_perm = [], b_alg = alg\<rparr>"

text \<open>The parts every constructor fills: a permutation array of fresh memory, and the items.\<close>

definition with_items :: "heap \<Rightarrow> int list \<Rightarrow> crush_bucket \<Rightarrow> crush_bucket" where
  "with_items h items b =
     b\<lparr>b_items := items, b_perm := map (\<lambda>i. unat (h_junk h i)) [0..<length items]\<rparr>"

definition crush_make_uniform_bucket :: "heap \<Rightarrow> int \<Rightarrow> int \<Rightarrow> nat \<Rightarrow> int list \<Rightarrow> int \<Rightarrow> crush_bucket option exec" where
  "crush_make_uniform_bucket h hsh t sz items iw =
     (if \<not> allocs h 3 \<or> crush_multiplication_is_unsafe (word_of_nat sz) (word_of_int iw) then Ret None
      else
        exec_bind (copy_array sz items) (\<lambda>its.
          Ret (Some (with_items h its
            ((bucket_header hsh t sz (Uniform (word_of_int iw)))
               \<lparr>b_weight := word_of_nat sz * word_of_int iw\<rparr>)))))"

text \<open>The running sums of a list bucket, \<open>None\<close> when one of them overflows.\<close>

primrec list_sums :: "u32 \<Rightarrow> u32 list \<Rightarrow> u32 list option" where
  "list_sums w [] = Some []"
| "list_sums w (x # xs) =
     (if crush_addition_is_unsafe w x then None else map_option (Cons (w + x)) (list_sums (w + x) xs))"

definition crush_make_list_bucket :: "heap \<Rightarrow> int \<Rightarrow> int \<Rightarrow> nat \<Rightarrow> int list \<Rightarrow> int list \<Rightarrow> crush_bucket option exec" where
  "crush_make_list_bucket h hsh t sz items weights =
     (if \<not> allocs h 5 then Ret None
      else
        exec_bind (copy_array sz items) (\<lambda>its.
        exec_bind (copy_array sz (map word_of_int weights)) (\<lambda>ws.
          case list_sums 0 ws of
            None \<Rightarrow> Ret None
          | Some sums \<Rightarrow>
              Ret (Some (with_items h its
                ((bucket_header hsh t sz (ListAlg ws sums))
                   \<lparr>b_weight := (if sums = [] then 0 else last sums)\<rparr>))))))"

text \<open>Trees: the parent of a node, and the depth of a tree with a given number of leaves.\<close>

definition on_right :: "nat \<Rightarrow> nat \<Rightarrow> bool" where
  "on_right n h = bit n (h + 1)"

definition parent :: "nat \<Rightarrow> nat exec" where
  "parent n = exec_bind (height n) (\<lambda>h. Ret (if on_right n h then n - 2 ^ h else n + 2 ^ h))"

fun bit_count :: "nat \<Rightarrow> nat" where
  "bit_count t = (if t = 0 then 0 else Suc (bit_count (t div 2)))"

declare bit_count.simps [simp del]

definition calc_depth :: "nat \<Rightarrow> nat" where
  "calc_depth sz = (if sz = 0 then 0 else Suc (bit_count (sz - 1)))"

text \<open>
  The walk towards the root that adds an item's weight to the nodes above it; the flag is lost when
  a sum would overflow, and the nodes below stay changed.
\<close>

primrec add_up :: "nat \<Rightarrow> u32 list \<Rightarrow> nat \<Rightarrow> u32 \<Rightarrow> (bool \<times> u32 list) exec" where
  "add_up 0 nw node w = Ret (True, nw)"
| "add_up (Suc k) nw node w =
     exec_bind (parent node) (\<lambda>node.
     exec_bind (arr_get nw (int node)) (\<lambda>v.
       if crush_addition_is_unsafe v w then Ret (False, nw)
       else exec_bind (arr_set nw (int node) (v + w)) (\<lambda>nw. add_up k nw node w)))"

primrec tree_fill :: "nat \<Rightarrow> (nat \<times> u32) list \<Rightarrow> u32 list \<Rightarrow> u32 \<Rightarrow> (u32 list \<times> u32) option exec" where
  "tree_fill depth [] nw tot = Ret (Some (nw, tot))"
| "tree_fill depth (iw # iws) nw tot =
     (let node = crush_calc_tree_node (fst iw); w = snd iw in
      exec_bind (arr_set nw (int node) w) (\<lambda>nw.
        if crush_addition_is_unsafe tot w then Ret None
        else
          exec_bind (add_up (depth - 1) nw node w) (\<lambda>(ok, nw).
            if ok then tree_fill depth iws nw (tot + w) else Ret None)))"

definition crush_make_tree_bucket :: "heap \<Rightarrow> int \<Rightarrow> int \<Rightarrow> nat \<Rightarrow> int list \<Rightarrow> int list \<Rightarrow> crush_bucket option exec" where
  "crush_make_tree_bucket h hsh t sz items weights =
     (if \<not> h_ok h 0 then Ret None
      else if sz = 0 then Ret (Some (bucket_header hsh t 0 (TreeAlg 0 [])))
      else if \<not> allocs h 4 then Ret None
      else
        let depth = calc_depth sz; nn = word_of_nat (2 ^ depth) :: u8 in
        exec_bind (copy_array sz items) (\<lambda>its.
        exec_bind (copy_array sz (map word_of_int weights)) (\<lambda>ws.
        exec_bind (tree_fill depth (enumerate 0 ws) (replicate (unat nn) 0) 0) (\<lambda>res.
          case res of
            None \<Rightarrow> Ret None
          | Some (nw, tot) \<Rightarrow>
              exec_bind (arr_get nw (int (unat nn div 2))) (\<lambda>root.
                if root \<noteq> tot then Fault
                else Ret (Some (with_items h its
                  ((bucket_header hsh t sz (TreeAlg nn nw))\<lparr>b_weight := tot\<rparr>))))))))"


section \<open>Straw lengths\<close>

text \<open>The floating-point operations of the platform that \<open>crush_calc_straw\<close> uses.\<close>

record 'd fp =
  f_int :: "int \<Rightarrow> 'd"
  f_add :: "'d \<Rightarrow> 'd \<Rightarrow> 'd"
  f_sub :: "'d \<Rightarrow> 'd \<Rightarrow> 'd"
  f_mul :: "'d \<Rightarrow> 'd \<Rightarrow> 'd"
  f_div :: "'d \<Rightarrow> 'd \<Rightarrow> 'd"
  f_pow :: "'d \<Rightarrow> 'd \<Rightarrow> 'd"
  f_u32 :: "'d \<Rightarrow> u32"

text \<open>The insertion sort that fills \<open>reverse\<close>: positions by ascending weight.\<close>

primrec straw_pos :: "u32 list \<Rightarrow> nat \<Rightarrow> nat list \<Rightarrow> nat" where
  "straw_pos ws i [] = 0"
| "straw_pos ws i (r # rs) = (if ws ! i < ws ! r then 0 else Suc (straw_pos ws i rs))"

definition straw_insert :: "u32 list \<Rightarrow> nat \<Rightarrow> nat list \<Rightarrow> nat list" where
  "straw_insert ws i rs = (let j = straw_pos ws i rs in take j rs @ i # drop j rs)"

definition straw_order :: "u32 list \<Rightarrow> nat \<Rightarrow> nat list" where
  "straw_order ws sz = (if sz = 0 then [] else fold (straw_insert ws) [1..<sz] [0])"

text \<open>The next straw, with the weight already below it and the number of straws left.\<close>

definition next_straw :: "'d fp \<Rightarrow> 'd \<Rightarrow> 'd \<Rightarrow> int \<Rightarrow> u32 \<Rightarrow> u32 \<Rightarrow> 'd" where
  "next_straw fp straw wbelow numleft w w' =
     (let wnext = f_int fp (uint (word_of_int numleft * (w' - w)));
          pbelow = f_div fp wbelow (f_add fp wbelow wnext)
      in f_mul fp straw (f_pow fp (f_div fp (f_int fp 1) pbelow) (f_div fp (f_int fp 1) (f_int fp numleft))))"

text \<open>The loop over \<open>reverse\<close> for \<open>straw_calc_version\<close> 0.\<close>

primrec straw_loop0 :: "'d fp \<Rightarrow> u32 list \<Rightarrow> nat list \<Rightarrow> 'd \<Rightarrow> 'd \<Rightarrow> 'd \<Rightarrow> int \<Rightarrow> u32 list \<Rightarrow> u32 list" where
  "straw_loop0 fp ws [] straw wbelow lastw numleft strs = strs"
| "straw_loop0 fp ws (r # rest) straw wbelow lastw numleft strs =
     (if ws ! r = 0 then straw_loop0 fp ws rest straw wbelow lastw numleft (strs[r := 0])
      else
        let strs = strs[r := f_u32 fp (f_mul fp straw (f_int fp 0x10000))] in
        case rest of
          [] \<Rightarrow> strs
        | r' # _ \<Rightarrow>
            if ws ! r' = ws ! r then straw_loop0 fp ws rest straw wbelow lastw numleft strs
            else
              let wbelow = f_add fp wbelow
                    (f_mul fp (f_sub fp (f_int fp (uint (ws ! r))) lastw) (f_int fp numleft));
                  numleft = numleft - int (length (takeWhile (\<lambda>q. ws ! q = ws ! r') rest))
              in straw_loop0 fp ws rest (next_straw fp straw wbelow numleft (ws ! r) (ws ! r')) wbelow
                   (f_int fp (uint (ws ! r))) numleft strs)"

text \<open>The loop for later versions.\<close>

primrec straw_loop1 :: "'d fp \<Rightarrow> u32 list \<Rightarrow> nat list \<Rightarrow> 'd \<Rightarrow> 'd \<Rightarrow> 'd \<Rightarrow> int \<Rightarrow> u32 list \<Rightarrow> u32 list" where
  "straw_loop1 fp ws [] straw wbelow lastw numleft strs = strs"
| "straw_loop1 fp ws (r # rest) straw wbelow lastw numleft strs =
     (if ws ! r = 0 then straw_loop1 fp ws rest straw wbelow lastw (numleft - 1) (strs[r := 0])
      else
        let strs = strs[r := f_u32 fp (f_mul fp straw (f_int fp 0x10000))] in
        case rest of
          [] \<Rightarrow> strs
        | r' # _ \<Rightarrow>
            let wbelow = f_add fp wbelow
                  (f_mul fp (f_sub fp (f_int fp (uint (ws ! r))) lastw) (f_int fp numleft));
                numleft = numleft - 1
            in straw_loop1 fp ws rest (next_straw fp straw wbelow numleft (ws ! r) (ws ! r')) wbelow
                 (f_int fp (uint (ws ! r))) numleft strs)"

text \<open>
  \<open>crush_calc_straw\<close>: the result code and the straws of a bucket with the given size, weights and
  straws; \<open>k\<close> numbers its allocation in the calling operation.
\<close>

definition crush_calc_straw :: "heap \<Rightarrow> nat \<Rightarrow> 'd fp \<Rightarrow> nat \<Rightarrow> nat \<Rightarrow> u32 list \<Rightarrow> u32 list \<Rightarrow> (int \<times> u32 list) exec" where
  "crush_calc_straw h k fp version sz ws strs =
     (if \<not> h_ok h k then Ret (- ENOMEM, strs)
      else if length ws < sz \<or> length strs < sz then Fault
      else
        let loop = (if version = 0 then straw_loop0 else straw_loop1)
        in Ret (0, loop fp ws (straw_order ws sz) (f_int fp 1) (f_int fp 0) (f_int fp 0) (int sz) strs))"

definition crush_make_straw_bucket :: "heap \<Rightarrow> 'd fp \<Rightarrow> crush_map \<Rightarrow> int \<Rightarrow> int \<Rightarrow> nat \<Rightarrow> int list \<Rightarrow> int list
    \<Rightarrow> crush_bucket option exec" where
  "crush_make_straw_bucket h fp m hsh t sz items weights =
     (if \<not> allocs h 5 then Ret None
      else
        exec_bind (copy_array sz items) (\<lambda>its.
        exec_bind (copy_array sz (map word_of_int weights)) (\<lambda>ws.
        exec_bind (crush_calc_straw h 5 fp (straw_calc_version m) sz ws (map (h_junk h) [0..<sz])) (\<lambda>(r, strs).
          if r < 0 then Ret None
          else Ret (Some (with_items h its
            ((bucket_header hsh t sz (Straw ws strs))\<lparr>b_weight := sum_list ws\<rparr>)))))))"

definition crush_make_straw2_bucket :: "heap \<Rightarrow> int \<Rightarrow> int \<Rightarrow> nat \<Rightarrow> int list \<Rightarrow> int list \<Rightarrow> crush_bucket option exec" where
  "crush_make_straw2_bucket h hsh t sz items weights =
     (if \<not> allocs h 4 then Ret None
      else
        exec_bind (copy_array sz items) (\<lambda>its.
        exec_bind (copy_array sz (map word_of_int weights)) (\<lambda>ws.
          Ret (Some (with_items h its ((bucket_header hsh t sz (Straw2 ws))\<lparr>b_weight := sum_list ws\<rparr>))))))"

text \<open>\<open>weights\<close> may be NULL for a uniform bucket.\<close>

definition crush_make_bucket :: "heap \<Rightarrow> 'd fp \<Rightarrow> crush_map \<Rightarrow> int \<Rightarrow> int \<Rightarrow> int \<Rightarrow> nat \<Rightarrow> int list
    \<Rightarrow> int list option \<Rightarrow> crush_bucket option exec" where
  "crush_make_bucket h fp m alg hsh t sz items weights =
     (let ws = (case weights of None \<Rightarrow> [] | Some ws \<Rightarrow> ws) in
      if alg = 1 then
        exec_bind (if sz \<noteq> 0 \<and> weights \<noteq> None then arr_get ws 0 else Ret 0) (\<lambda>iw.
          crush_make_uniform_bucket h hsh t sz items iw)
      else if alg = 2 then crush_make_list_bucket h hsh t sz items ws
      else if alg = 3 then crush_make_tree_bucket h hsh t sz items ws
      else if alg = 4 then crush_make_straw_bucket h fp m hsh t sz items ws
      else if alg = 5 then crush_make_straw2_bucket h hsh t sz items ws
      else Ret None)"

section \<open>The numbering of tree nodes\<close>

text \<open>Node \<open>q\<close> of height \<open>h\<close>, counted from the left; leaf \<open>i\<close> lies below it iff \<open>i div 2^h = q\<close>.\<close>

definition nd :: "nat \<Rightarrow> nat \<Rightarrow> nat" where
  "nd h q = 2 ^ h * (2 * q + 1)"

lemma nd_pos [simp]: "0 < nd h q"
  by (simp add: nd_def)

lemma tree_height_nd [simp]: "tree_height (nd h q) = h"
  unfolding nd_def by (rule tree_height_pow) simp

lemma nd_inject [simp]: "nd h q = nd h' q' \<longleftrightarrow> h = h' \<and> q = q'"
proof
  assume eq: "nd h q = nd h' q'"
  then have "h = h'" by (metis tree_height_nd)
  then show "h = h' \<and> q = q'" using eq by (simp add: nd_def)
qed simp

lemma nd_exists: "0 < n \<Longrightarrow> \<exists>h q. n = nd h q"
proof -
  assume "0 < n"
  then obtain m where "odd m" "n = 2 ^ tree_height n * m" using tree_height_form [of n] by blast
  moreover from this(1) obtain q where "m = 2 * q + 1" by (elim oddE)
  ultimately have "n = nd (tree_height n) q" by (simp only: nd_def)
  then show ?thesis by blast
qed

lemma leaf_nd: "crush_calc_tree_node i = nd 0 i"
  by (simp add: crush_calc_tree_node_def nd_def)

lemma parent_nd: "parent (nd h q) = Ret (nd (Suc h) (q div 2))"
proof -
  have b: "on_right (nd h q) h \<longleftrightarrow> odd q"
  proof -
    have "bit (nd h q) (h + 1) \<longleftrightarrow> odd (nd h q div 2 ^ h div 2)"
      by (simp add: bit_iff_odd div_mult2_eq [symmetric] mult.commute)
    then show ?thesis by (simp add: on_right_def nd_def)
  qed
  show ?thesis
  proof (cases "odd q")
    case True
    then obtain r where "q = 2 * r + 1" by (elim oddE)
    then show ?thesis using b by (simp add: parent_def height_def) (simp add: nd_def algebra_simps)
  next
    case False
    then obtain r where "q = 2 * r" by auto
    then show ?thesis using b by (simp add: parent_def height_def) (simp add: nd_def algebra_simps)
  qed
qed

lemma nd_less: "nd h q < 2 ^ d \<longleftrightarrow> h < d \<and> q < 2 ^ (d - 1 - h)"
proof (cases "h < d")
  case True
  then obtain e where e: "d = Suc (h + e)" using less_iff_Suc_add by auto
  have "nd h q < 2 ^ d \<longleftrightarrow> 2 * q + 1 < 2 * 2 ^ e"
    unfolding nd_def e power_Suc2 power_add mult.assoc by (simp only: nat_mult_less_cancel1 zero_less_power mult.commute [of _ 2])
  also have "\<dots> \<longleftrightarrow> q < 2 ^ e" by linarith
  finally show ?thesis using True by (simp add: e)
next
  case False
  then have "(2 :: nat) ^ d \<le> 2 ^ h" by simp
  also have "\<dots> \<le> nd h q" by (simp add: nd_def)
  finally show ?thesis using False by simp
qed

lemma path_less:
  assumes "i < 2 ^ (d - 1)" "h < d"
  shows "nd h (i div 2 ^ h) < 2 ^ d"
proof -
  have "i < 2 ^ (d - 1 - h) * 2 ^ h" using assms by (simp flip: power_add)
  then have "i div 2 ^ h < 2 ^ (d - 1 - h)" by (simp add: less_mult_imp_div_less)
  then show ?thesis using assms by (simp add: nd_less)
qed

lemma path_parent: "i div 2 ^ h div 2 = i div 2 ^ Suc h" for i :: nat
  by (simp only: power_Suc2 div_mult2_eq)

text \<open>Depth: enough levels for all leaves.\<close>

lemma bit_count_less: "t < 2 ^ bit_count t"
proof (induction t rule: bit_count.induct)
  case (1 t)
  show ?case
  proof (cases "t = 0")
    case False
    then have "t div 2 < 2 ^ bit_count (t div 2)" by (rule 1)
    then have "t < 2 ^ Suc (bit_count (t div 2))" by simp
    then show ?thesis using False by (subst bit_count.simps) simp
  qed (simp add: bit_count.simps)
qed

lemma bit_count_le: "t < 2 ^ k \<Longrightarrow> bit_count t \<le> k"
proof (induction t arbitrary: k rule: bit_count.induct)
  case (1 t)
  show ?case
  proof (cases "t = 0")
    case False
    then obtain k' where "k = Suc k'" using "1.prems" by (cases k) auto
    moreover have "t div 2 < 2 ^ k'" if "k = Suc k'" using "1.prems" that by simp
    ultimately show ?thesis using 1(1) False by (subst bit_count.simps) simp
  qed (simp add: bit_count.simps)
qed

lemma calc_depth_leaves: "0 < sz \<Longrightarrow> sz \<le> 2 ^ (calc_depth sz - 1)"
  using bit_count_less [of "sz - 1"] by (simp add: calc_depth_def)

lemma calc_depth_le: "0 < k \<Longrightarrow> sz \<le> 2 ^ (k - 1) \<Longrightarrow> calc_depth sz \<le> k"
proof -
  assume "0 < k" "sz \<le> 2 ^ (k - 1)"
  moreover have "bit_count (sz - 1) \<le> k - 1" if "sz - 1 < 2 ^ (k - 1)" using bit_count_le [OF that] .
  moreover have "0 < (2 :: nat) ^ (k - 1)" by simp
  ultimately have "Suc (bit_count (sz - 1)) \<le> k" by linarith
  then show ?thesis by (simp add: calc_depth_def)
qed

lemma calc_depth_pos [simp]: "0 < calc_depth sz \<longleftrightarrow> 0 < sz"
  by (simp add: calc_depth_def)

section \<open>Weights of a tree\<close>

text \<open>The weight of the leaves below node \<open>q\<close> of height \<open>h\<close>.\<close>

definition span :: "u32 list \<Rightarrow> nat \<Rightarrow> nat \<Rightarrow> int" where
  "span ws h q = (\<Sum>i | i < length ws \<and> i div 2 ^ h = q. uint (ws ! i))"

lemma span_Nil [simp]: "span [] h q = 0"
  by (simp add: span_def)

lemma span_snoc: "span (ws @ [w]) h q = span ws h q + (if length ws div 2 ^ h = q then uint w else 0)"
proof -
  have *: "{i. i < length (ws @ [w]) \<and> i div 2 ^ h = q} =
    {i. i < length ws \<and> i div 2 ^ h = q} \<union> (if length ws div 2 ^ h = q then {length ws} else {})"
    by (auto simp: less_Suc_eq)
  have "span (ws @ [w]) h q = (\<Sum>i | i < length ws \<and> i div 2 ^ h = q. uint ((ws @ [w]) ! i)) +
      (if length ws div 2 ^ h = q then uint w else 0)"
    unfolding span_def * by (subst sum.union_disjoint) auto
  also have "(\<Sum>i | i < length ws \<and> i div 2 ^ h = q. uint ((ws @ [w]) ! i)) = span ws h q"
    unfolding span_def by (rule sum.cong) (simp_all add: nth_append)
  finally show ?thesis .
qed

lemma span_all: "length ws \<le> 2 ^ h \<Longrightarrow> span ws h 0 = sum_list (map uint ws)"
proof -
  assume "length ws \<le> 2 ^ h"
  then have "{i. i < length ws \<and> i div 2 ^ h = 0} = {..<length ws}" by auto
  then show ?thesis by (simp add: span_def sum_list_sum_nth atLeast0LessThan)
qed

lemma span_leaf: "span ws 0 q = (if q < length ws then uint (ws ! q) else 0)"
proof -
  have "{i. i < length ws \<and> i div 2 ^ 0 = q} = (if q < length ws then {q} else {})" by auto
  then show ?thesis by (simp add: span_def)
qed

lemma span_children: "span ws (Suc h) q = span ws h (2 * q) + span ws h (2 * q + 1)"
proof -
  have "{i. i < length ws \<and> i div 2 ^ Suc h = q} =
    {i. i < length ws \<and> i div 2 ^ h = 2 * q} \<union> {i. i < length ws \<and> i div 2 ^ h = 2 * q + 1}"
    unfolding path_parent [symmetric] by auto
  then have "span ws (Suc h) q = (\<Sum>i \<in> {i. i < length ws \<and> i div 2 ^ h = 2 * q} \<union>
      {i. i < length ws \<and> i div 2 ^ h = 2 * q + 1}. uint (ws ! i))"
    unfolding span_def by (rule arg_cong)
  also have "\<dots> = span ws h (2 * q) + span ws h (2 * q + 1)"
    unfolding span_def by (rule sum.union_disjoint) auto
  finally show ?thesis .
qed

lemma span_le: "span ws h q \<le> sum_list (map uint ws)"
proof -
  have "span ws h q \<le> (\<Sum>i<length ws. uint (ws ! i))"
    unfolding span_def by (rule sum_mono2) auto
  then show ?thesis by (simp add: sum_list_sum_nth atLeast0LessThan)
qed

lemma span_nonneg: "0 \<le> span ws h q"
  unfolding span_def by (rule sum_nonneg) simp

text \<open>The node weights of a tree of depth \<open>d\<close> over leaves with weights \<open>ws\<close>.\<close>

definition tree_spec :: "nat \<Rightarrow> u32 list \<Rightarrow> u32 list \<Rightarrow> bool" where
  "tree_spec d ws nw \<longleftrightarrow> length nw = 2 ^ d \<and> (\<forall>h q. nd h q < 2 ^ d \<longrightarrow> uint (nw ! nd h q) = span ws h q)"

lemma add_up_spec:
  assumes "i < 2 ^ (d - 1)"
  shows "length nw = 2 ^ d \<Longrightarrow> j + k < d \<Longrightarrow>
    \<exists>ok nw'. add_up k nw (nd j (i div 2 ^ j)) w = Ret (ok, nw') \<and> length nw' = 2 ^ d \<and>
      (ok \<longleftrightarrow> (\<forall>t. j < t \<and> t \<le> j + k \<longrightarrow> uint (nw ! nd t (i div 2 ^ t)) + uint w < 2 ^ 32)) \<and>
      (ok \<longrightarrow> (\<forall>h q. nd h q < 2 ^ d \<longrightarrow>
         uint (nw' ! nd h q) = uint (nw ! nd h q) + (if j < h \<and> h \<le> j + k \<and> q = i div 2 ^ h then uint w else 0)))"
proof (induction k arbitrary: j nw)
  case 0
  then show ?case by (intro exI [of _ True] exI [of _ nw]) simp
next
  case (Suc k)
  let ?p = "nd (Suc j) (i div 2 ^ Suc j)"
  have p: "?p < 2 ^ d" using assms Suc.prems(2) by (intro path_less) auto
  have par: "parent (nd j (i div 2 ^ j)) = Ret ?p" unfolding parent_nd path_parent ..
  show ?case
  proof (cases "crush_addition_is_unsafe (nw ! ?p) w")
    case True
    then have "add_up (Suc k) nw (nd j (i div 2 ^ j)) w = Ret (False, nw)"
      using p Suc.prems(1) by (simp add: par del: power_Suc)
    moreover have "\<not> uint (nw ! ?p) + uint w < 2 ^ 32" using True by (simp add: addition_unsafe_iff del: power_Suc)
    ultimately show ?thesis using Suc.prems(1) by (intro exI [of _ False] exI [of _ nw]) auto
  next
    case False
    define nw1 where "nw1 = nw[?p := nw ! ?p + w]"
    have run: "add_up (Suc k) nw (nd j (i div 2 ^ j)) w = add_up k nw1 ?p w"
      using p Suc.prems(1) False by (simp add: par nw1_def del: power_Suc)
    have at: "nw1 ! nd h q = (if h = Suc j \<and> q = i div 2 ^ Suc j then nw ! ?p + w else nw ! nd h q)" for h q
      using p Suc.prems(1) by (auto simp: nw1_def nth_list_update simp del: power_Suc)
    have small: "uint (nw ! ?p) + uint w < 2 ^ 32" using False by (simp add: addition_unsafe_iff del: power_Suc)
    have "length nw1 = 2 ^ d" "Suc j + k < d" using Suc.prems by (simp_all add: nw1_def)
    from Suc.IH [OF this] obtain ok nw' where r: "add_up k nw1 ?p w = Ret (ok, nw')" "length nw' = 2 ^ d"
      "ok \<longleftrightarrow> (\<forall>t. Suc j < t \<and> t \<le> Suc j + k \<longrightarrow> uint (nw1 ! nd t (i div 2 ^ t)) + uint w < 2 ^ 32)"
      "ok \<Longrightarrow> \<forall>h q. nd h q < 2 ^ d \<longrightarrow>
         uint (nw' ! nd h q) = uint (nw1 ! nd h q) + (if Suc j < h \<and> h \<le> Suc j + k \<and> q = i div 2 ^ h then uint w else 0)"
      by blast
    have ok: "ok \<longleftrightarrow> (\<forall>t. j < t \<and> t \<le> j + Suc k \<longrightarrow> uint (nw ! nd t (i div 2 ^ t)) + uint w < 2 ^ 32)"
    proof -
      have "j < t \<and> t \<le> j + Suc k \<longleftrightarrow> t = Suc j \<or> Suc j < t \<and> t \<le> Suc j + k" for t by auto
      then show ?thesis unfolding r(3) using small by (auto simp: at simp del: power_Suc)
    qed
    have "uint (nw' ! nd h q) = uint (nw ! nd h q) + (if j < h \<and> h \<le> j + Suc k \<and> q = i div 2 ^ h then uint w else 0)"
      if "ok" "nd h q < 2 ^ d" for h q
    proof (cases "h = Suc j")
      case True
      then show ?thesis using r(4) that addition_safe_uint [OF False] by (simp add: at del: power_Suc)
    next
      case False
      then have "Suc j < h \<longleftrightarrow> j < h" by auto
      then show ?thesis using r(4) that False by (simp add: at del: power_Suc)
    qed
    then show ?thesis unfolding run using r(1,2) ok by blast
  qed
qed

text \<open>A leaf and the nodes above it, given the weight of a new item.\<close>

lemma tree_spec_snoc:
  assumes spec: "tree_spec d us nw" and d: "length us < 2 ^ (d - 1)" "0 < d"
    and small: "sum_list (map uint us) + uint w < 2 ^ 32"
  shows "\<exists>nw'. add_up (d - 1) (nw[nd 0 (length us) := w]) (nd 0 (length us)) w = Ret (True, nw') \<and>
    tree_spec d (us @ [w]) nw'"
proof -
  let ?n = "length us" let ?nw1 = "nw[nd 0 ?n := w]"
  have len: "length nw = 2 ^ d" and val: "\<And>h q. nd h q < 2 ^ d \<Longrightarrow> uint (nw ! nd h q) = span us h q"
    using spec by (auto simp: tree_spec_def)
  have leaf: "nd 0 ?n < 2 ^ d" using d path_less [of ?n d 0] by simp
  have at: "nd h q < 2 ^ d \<Longrightarrow> uint (?nw1 ! nd h q) = (if h = 0 \<and> q = ?n then uint w else span us h q)" for h q
    using leaf len val by (auto simp: nth_list_update)
  have "uint (?nw1 ! nd t (?n div 2 ^ t)) + uint w < 2 ^ 32" if "0 < t" "t \<le> d - 1" for t
  proof -
    have "nd t (?n div 2 ^ t) < 2 ^ d" using d that by (intro path_less) auto
    from at [OF this] show ?thesis using that small span_le [of us t "?n div 2 ^ t"] by simp
  qed
  moreover have "length ?nw1 = 2 ^ d" "0 + (d - 1) < d" using len d(2) by simp_all
  ultimately obtain nw' where r: "add_up (d - 1) ?nw1 (nd 0 ?n) w = Ret (True, nw')" "length nw' = 2 ^ d"
    "\<forall>h q. nd h q < 2 ^ d \<longrightarrow>
       uint (nw' ! nd h q) = uint (?nw1 ! nd h q) + (if 0 < h \<and> h \<le> d - 1 \<and> q = ?n div 2 ^ h then uint w else 0)"
    using add_up_spec [OF d(1), of ?nw1 0 "d - 1" w] by auto
  have "uint (nw' ! nd h q) = span (us @ [w]) h q" if "nd h q < 2 ^ d" for h q
  proof -
    have "h < d" using that by (simp add: nd_less)
    then show ?thesis using r(3) that by (auto simp: at span_snoc span_leaf)
  qed
  then show ?thesis using r(1,2) by (auto simp: tree_spec_def)
qed

lemma sum_uint_nonneg: "0 \<le> sum_list (map uint ws)"
  by (rule sum_list_nonneg) auto

lemma tree_fill_spec:
  assumes "0 < d"
  shows "tree_spec d us nw \<Longrightarrow> length us + length ws \<le> 2 ^ (d - 1) \<Longrightarrow> uint tot = sum_list (map uint us) \<Longrightarrow>
    exec_post (tree_fill d (enumerate (length us) ws) nw tot) (\<lambda>r. case r of
      None \<Rightarrow> 2 ^ 32 \<le> sum_list (map uint (us @ ws))
    | Some (nw', tot') \<Rightarrow> tree_spec d (us @ ws) nw' \<and> uint tot' = sum_list (map uint (us @ ws)))"
proof (induction ws arbitrary: us nw tot)
  case Nil
  then show ?case by simp
next
  case (Cons w ws)
  have len: "length us < 2 ^ (d - 1)" using Cons.prems(2) by simp
  have leaf: "nd 0 (length us) < length nw"
    using path_less [OF len, of 0] assms Cons.prems(1) by (simp add: tree_spec_def)
  show ?case
  proof (cases "crush_addition_is_unsafe tot w")
    case True
    then have "2 ^ 32 \<le> sum_list (map uint (us @ w # ws))"
      using Cons.prems(3) sum_uint_nonneg [of ws] by (simp add: addition_unsafe_iff)
    then show ?thesis using True leaf by (simp add: leaf_nd)
  next
    case False
    then have small: "sum_list (map uint us) + uint w < 2 ^ 32"
      using Cons.prems(3) by (simp add: addition_unsafe_iff)
    from tree_spec_snoc [OF Cons.prems(1) len assms small] obtain nw' where
      nw': "add_up (d - 1) (nw[nd 0 (length us) := w]) (nd 0 (length us)) w = Ret (True, nw')"
        "tree_spec d (us @ [w]) nw'" by blast
    have "uint (tot + w) = sum_list (map uint (us @ [w]))"
      using addition_safe_uint [OF False] Cons.prems(3) by simp
    note IH = Cons.IH [OF nw'(2) _ this]
    have "exec_post (tree_fill d (enumerate (length (us @ [w])) ws) nw' (tot + w)) (\<lambda>r. case r of
        None \<Rightarrow> 2 ^ 32 \<le> sum_list (map uint (us @ w # ws))
      | Some (nw', tot') \<Rightarrow> tree_spec d (us @ w # ws) nw' \<and> uint tot' = sum_list (map uint (us @ w # ws)))"
      using Cons.prems(2) by (intro exec_post_mono [OF IH]) (auto split: option.splits)
    then show ?thesis using False leaf nw'(1) by (simp add: leaf_nd)
  qed
qed

text \<open>A tree with the right node weights is what the choose method expects.\<close>

lemma tree_spec_ok:
  assumes spec: "tree_spec d ws nw" and d: "0 < d" "unat nn = 2 ^ d"
  shows "tree_ok (length ws) nn nw"
  unfolding tree_ok_def
proof (intro conjI allI impI)
  have val: "\<And>h q. nd h q < 2 ^ d \<Longrightarrow> uint (nw ! nd h q) = span ws h q" using spec by (simp add: tree_spec_def)
  show "\<exists>d. 0 < d \<and> unat nn = 2 ^ d" using d by blast
  show "unat nn \<le> length nw" using spec d by (simp add: tree_spec_def)
  show "nw ! (2 * i + 1) = 0" if "length ws \<le> i \<and> 2 * i + 1 < unat nn" for i
  proof -
    have "nd 0 i = 2 * i + 1" by (simp add: nd_def)
    then show ?thesis using val [of 0 i] that d(2) by (simp add: span_leaf uint_0_iff)
  qed
  show "tree_sums (unat nn) nw"
    unfolding tree_sums_def
  proof (intro allI impI, elim conjE)
    fix n :: nat
    assume n: "0 < n" "n < unat nn" "even n"
    then obtain h' q where "n = nd h' q" using nd_exists by blast
    moreover have "h' \<noteq> 0" using n(3) \<open>n = nd h' q\<close> by (auto simp: nd_def)
    ultimately obtain h where nq: "n = nd (Suc h) q" by (cases h') auto
    have l: "n - 2 ^ (tree_height n - 1) = nd h (2 * q)" "n + 2 ^ (tree_height n - 1) = nd h (2 * q + 1)"
      unfolding nq tree_height_nd by (simp_all add: nd_def algebra_simps)
    have "h < d - 1" "q < 2 ^ (d - 2 - h)" using n(2) d(2) nd_less [of "Suc h" q d] unfolding nq by auto
    then have "2 * q + 1 < 2 ^ (d - 1 - h)"
    proof -
      have "d - 1 - h = Suc (d - 2 - h)" using \<open>h < d - 1\<close> by simp
      then have "(2 :: nat) ^ (d - 1 - h) = 2 * 2 ^ (d - 2 - h)" by simp
      then show ?thesis using \<open>q < 2 ^ (d - 2 - h)\<close> by linarith
    qed
    then have "nd h (2 * q) < 2 ^ d" "nd h (2 * q + 1) < 2 ^ d" using \<open>h < d - 1\<close> by (simp_all add: nd_less)
    then show "uint (nw ! n) = uint (nw ! (n - 2 ^ (tree_height n - 1))) + uint (nw ! (n + 2 ^ (tree_height n - 1)))"
      unfolding l using n(2) d(2) val span_children [of ws h q] unfolding nq by simp
  qed
qed

section \<open>Well-formed buckets and what they hold\<close>

text \<open>The weight of each item, and the bucket as a list of weighted items.\<close>

definition weight_list :: "crush_bucket \<Rightarrow> u32 list" where
  "weight_list b =
     (case b_alg b of
        Uniform w \<Rightarrow> replicate (b_size b) w
      | ListAlg ws _ \<Rightarrow> take (b_size b) ws
      | TreeAlg _ nw \<Rightarrow> map (\<lambda>i. nw ! crush_calc_tree_node i) [0..<b_size b]
      | Straw ws _ \<Rightarrow> take (b_size b) ws
      | Straw2 ws \<Rightarrow> take (b_size b) ws
      | OtherAlg _ \<Rightarrow> [])"

definition contents :: "crush_bucket \<Rightarrow> (int \<times> u32) list" where
  "contents b = zip (take (b_size b) (b_items b)) (weight_list b)"

text \<open>
  The arrays are long enough, the weight of the bucket is the sum of the item weights (which does not
  overflow), and the sums kept inside the bucket are right.
\<close>

definition bucket_wf :: "crush_bucket \<Rightarrow> bool" where
  "bucket_wf b \<longleftrightarrow> b_size b \<le> length (b_items b) \<and> b_size b \<le> length (b_perm b) \<and>
     uint (b_weight b) = sum_list (map uint (weight_list b)) \<and>
     (case b_alg b of
        Uniform _ \<Rightarrow> True
      | ListAlg ws sums \<Rightarrow> b_size b \<le> length ws \<and> b_size b \<le> length sums \<and>
          (\<forall>j<b_size b. uint (sums ! j) = sum_list (map uint (take (Suc j) ws)))
      | TreeAlg nn nw \<Rightarrow> b_size b = 0 \<or> b_size b \<le> 64 \<and> unat nn = 2 ^ calc_depth (b_size b) \<and>
          tree_spec (calc_depth (b_size b)) (weight_list b) nw
      | Straw ws strs \<Rightarrow> b_size b \<le> length ws \<and> b_size b \<le> length strs
      | Straw2 ws \<Rightarrow> b_size b \<le> length ws
      | OtherAlg _ \<Rightarrow> False)"

lemma tree_spec_weights:
  assumes "tree_spec d ws nw" "0 < d" "length ws \<le> 2 ^ (d - 1)"
  shows "map (\<lambda>i. nw ! crush_calc_tree_node i) [0..<length ws] = ws"
proof (rule nth_equalityI)
  fix i
  assume "i < length (map (\<lambda>i. nw ! crush_calc_tree_node i) [0..<length ws])"
  then have i: "i < length ws" by simp
  then have "nd 0 i < 2 ^ d" using assms path_less [of i d 0] by simp
  then have "uint (nw ! nd 0 i) = uint (ws ! i)" using assms(1) i by (simp add: tree_spec_def span_leaf)
  then show "map (\<lambda>i. nw ! crush_calc_tree_node i) [0..<length ws] ! i = ws ! i"
    using i by (simp add: leaf_nd word_uint_eq_iff)
qed simp

lemma depth_small: "0 < sz \<Longrightarrow> sz \<le> 64 \<Longrightarrow> unat (word_of_nat (2 ^ calc_depth sz) :: u8) = 2 ^ calc_depth sz"
proof -
  assume "0 < sz" "sz \<le> 64"
  then have "calc_depth sz \<le> 7" using calc_depth_le [of 7 sz] by simp
  then have "(2 :: nat) ^ calc_depth sz \<le> 2 ^ 7" by (rule power_increasing) simp
  then have "2 ^ calc_depth sz mod 2 ^ 8 = (2 :: nat) ^ calc_depth sz" by simp
  then show ?thesis by (subst unat_of_nat) simp
qed

text \<open>A well-formed bucket with weight can be given to the choose methods.\<close>

lemma bucket_wf_ok:
  assumes wf: "bucket_wf b" and "b_perm_n b = 0" "b_size b < 0xffff" "b_weight b \<noteq> 0"
  shows "bucket_ok b"
proof -
  have cache: "cache_ok b" using assms by (simp add: cache_ok_def bucket_wf_def)
  show ?thesis
  proof (cases "b_alg b")
    case (TreeAlg nn nw)
    have "tree_ok (b_size b) nn nw \<and> nw ! (unat nn div 2) \<noteq> 0" if pos: "0 < b_size b"
    proof -
      let ?d = "calc_depth (b_size b)"
      have t: "unat nn = 2 ^ ?d" "tree_spec ?d (weight_list b) nw"
        and total: "uint (b_weight b) = sum_list (map uint (weight_list b))"
        using wf pos TreeAlg by (auto simp: bucket_wf_def)
      have len: "length (weight_list b) = b_size b" using TreeAlg by (simp add: weight_list_def)
      have d: "0 < ?d" using pos by simp
      have root: "unat nn div 2 = nd (?d - 1) 0" using d t(1) by (cases ?d) (simp_all add: nd_def)
      have "uint (nw ! nd (?d - 1) 0) = span (weight_list b) (?d - 1) 0"
        using t(2) d by (simp add: tree_spec_def nd_less)
      then have "uint (nw ! nd (?d - 1) 0) = uint (b_weight b)"
        using span_all [of "weight_list b" "?d - 1"] calc_depth_leaves [OF pos] total by (simp add: len)
      then have "nw ! (unat nn div 2) = b_weight b" unfolding root by (simp add: word_uint_eq_iff)
      then show ?thesis using tree_spec_ok [OF t(2) d t(1)] assms(4) by (simp add: len)
    qed
    then show ?thesis using cache TreeAlg by (simp add: bucket_ok_def)
  qed (use cache wf in \<open>simp_all add: bucket_ok_def bucket_wf_def\<close>)
qed

section \<open>Making buckets\<close>

text \<open>The outcome of a constructor: why it may fail, and what it makes otherwise.\<close>

definition made :: "bool \<Rightarrow> nat \<Rightarrow> int list \<Rightarrow> u32 list \<Rightarrow> crush_bucket option \<Rightarrow> bool" where
  "made fails sz items ws r \<longleftrightarrow>
     (case r of
        None \<Rightarrow> fails
      | Some b \<Rightarrow> bucket_wf b \<and> b_perm_n b = 0 \<and> b_size b = sz \<and> contents b = zip (take sz items) ws)"

lemma allocs_mono: "allocs h n \<Longrightarrow> k \<le> n \<Longrightarrow> allocs h k"
  by (auto simp: allocs_def list_all_iff)

lemma bucket_header_simps [simp]:
  "b_size (bucket_header hsh t sz a) = sz" "b_alg (bucket_header hsh t sz a) = a"
  "b_perm_n (bucket_header hsh t sz a) = 0"
  by (simp_all add: bucket_header_def)

lemma with_items_simps [simp]:
  "b_size (with_items h its b) = b_size b" "b_alg (with_items h its b) = b_alg b"
  "b_perm_n (with_items h its b) = b_perm_n b" "b_weight (with_items h its b) = b_weight b"
  "b_items (with_items h its b) = its" "length (b_perm (with_items h its b)) = length its"
  by (simp_all add: with_items_def)

lemma copy_array_in: "n \<le> length xs \<Longrightarrow> copy_array n xs = Ret (take n xs)"
  by (simp add: copy_array_def)

lemma make_uniform:
  fixes iw :: int
  assumes "sz \<le> length items" "sz < 2 ^ 32"
  defines "w \<equiv> word_of_int iw :: u32"
  shows "exec_post (crush_make_uniform_bucket h hsh t sz items iw)
    (made (\<not> allocs h 6 \<or> 2 ^ 32 \<le> sum_list (map uint (replicate sz w)) \<or> w = 0) sz items (replicate sz w))"
proof -
  have n: "uint (word_of_nat sz :: u32) = int sz" using assms(2) by (simp add: uint_nat unat_of_nat)
  show ?thesis
  proof (cases "\<not> allocs h 3 \<or> crush_multiplication_is_unsafe (word_of_nat sz) w")
    case True
    then show ?thesis using allocs_mono [of h 6 3] n
      by (auto simp: crush_make_uniform_bucket_def made_def multiplication_unsafe_iff w_def
        sum_list_replicate)
  next
    case False
    then have "uint (word_of_nat sz * w) = int sz * uint w"
      by (simp add: multiplication_unsafe_iff n uint_word_ariths)
    then show ?thesis using False assms(1)
      by (simp add: crush_make_uniform_bucket_def copy_array_in made_def bucket_wf_def weight_list_def
        contents_def sum_list_replicate w_def [symmetric])
  qed
qed

lemma list_sums_spec:
  "case list_sums w ws of
     None \<Rightarrow> 2 ^ 32 \<le> uint w + sum_list (map uint ws)
   | Some sums \<Rightarrow> length sums = length ws \<and>
       (\<forall>j<length ws. uint (sums ! j) = uint w + sum_list (map uint (take (Suc j) ws)))"
proof (induction ws arbitrary: w)
  case (Cons x xs)
  show ?case
  proof (cases "crush_addition_is_unsafe w x")
    case True
    then show ?thesis using sum_uint_nonneg [of xs] by (simp add: addition_unsafe_iff)
  next
    case False
    note s = addition_safe_uint [OF False]
    show ?thesis using Cons.IH [of "w + x"] False s
      by (cases "list_sums (w + x) xs") (auto simp: nth_Cons split: nat.splits)
  qed
qed simp

lemma make_list:
  fixes weights :: "int list"
  assumes "sz \<le> length items" "sz \<le> length weights"
  defines "ws \<equiv> map word_of_int (take sz weights) :: u32 list"
  shows "exec_post (crush_make_list_bucket h hsh t sz items weights)
    (made (\<not> allocs h 6 \<or> 2 ^ 32 \<le> sum_list (map uint ws)) sz items ws)"
proof (cases "allocs h 5")
  case False
  then show ?thesis using allocs_mono [of h 6 5] by (auto simp: crush_make_list_bucket_def made_def)
next
  case True
  have cp: "copy_array sz (map word_of_int weights) = Ret ws" "length ws = sz"
    using assms(2) by (simp_all add: copy_array_in take_map ws_def)
  show ?thesis
  proof (cases "list_sums 0 ws")
    case None
    then have "2 ^ 32 \<le> sum_list (map uint ws)" using list_sums_spec [of 0 ws] by simp
    then show ?thesis using True None assms(1) cp by (simp add: crush_make_list_bucket_def made_def copy_array_in)
  next
    case (Some sums)
    then have s: "length sums = sz" "\<And>j. j < sz \<Longrightarrow> uint (sums ! j) = sum_list (map uint (take (Suc j) ws))"
      using list_sums_spec [of 0 ws] cp by simp_all
    have "uint (if sums = [] then 0 else last sums) = sum_list (map uint ws)"
      using s(1) s(2) [of "sz - 1"] cp(2) by (cases "sz = 0") (auto simp: last_conv_nth)
    then show ?thesis using True Some assms(1) cp s
      by (simp add: crush_make_list_bucket_def made_def copy_array_in bucket_wf_def weight_list_def contents_def)
  qed
qed

lemma tree_spec_zero: "tree_spec d [] (replicate (2 ^ d) 0)"
  by (simp add: tree_spec_def)

lemma make_tree:
  fixes weights :: "int list"
  assumes "sz \<le> length items" "sz \<le> length weights" "sz \<le> 64"
  defines "ws \<equiv> map word_of_int (take sz weights) :: u32 list"
  shows "exec_post (crush_make_tree_bucket h hsh t sz items weights)
    (made (\<not> allocs h 6 \<or> 2 ^ 32 \<le> sum_list (map uint ws)) sz items ws)"
proof (cases "sz = 0 \<or> \<not> allocs h 4")
  case True
  have "h_ok h 0" if "allocs h 6" using that by (simp add: allocs_def list_all_iff)
  then show ?thesis using True allocs_mono [of h 6 4]
    by (auto simp: crush_make_tree_bucket_def made_def bucket_wf_def weight_list_def contents_def bucket_header_def)
next
  case False
  let ?d = "calc_depth sz" let ?nn = "word_of_nat (2 ^ ?d) :: u8"
  have ok: "h_ok h 0" "allocs h 4" and pos: "0 < sz" using False by (auto simp: allocs_def list_all_iff)
  have cp: "copy_array sz (map word_of_int weights) = Ret ws" "length ws = sz"
    using assms(2) by (simp_all add: copy_array_in take_map ws_def)
  have d: "0 < ?d" "length ws \<le> 2 ^ (?d - 1)" "unat ?nn = 2 ^ ?d"
    using pos calc_depth_leaves [OF pos] depth_small [OF pos assms(3)] cp(2) by simp_all
  have "exec_post (tree_fill ?d (enumerate 0 ws) (replicate (2 ^ ?d) 0) 0) (\<lambda>r. case r of
      None \<Rightarrow> 2 ^ 32 \<le> sum_list (map uint ws)
    | Some (nw, tot) \<Rightarrow> tree_spec ?d ws nw \<and> uint tot = sum_list (map uint ws))"
  proof -
    have "length ([] :: u32 list) + length ws \<le> 2 ^ (?d - 1)" "uint (0 :: u32) = sum_list (map uint ([] :: u32 list))"
      using d(2) by simp_all
    from tree_fill_spec [OF d(1) tree_spec_zero this] show ?thesis by (simp only: append_Nil list.size)
  qed
  then obtain r where r: "tree_fill ?d (enumerate 0 ws) (replicate (2 ^ ?d) 0) 0 = Ret r"
    "case r of None \<Rightarrow> 2 ^ 32 \<le> sum_list (map uint ws)
     | Some (nw, tot) \<Rightarrow> tree_spec ?d ws nw \<and> uint tot = sum_list (map uint ws)"
    unfolding exec_post_def by blast
  show ?thesis
  proof (cases r)
    case None
    then show ?thesis using ok pos assms(1) cp r d(3)
      by (simp add: crush_make_tree_bucket_def made_def copy_array_in Let_def)
  next
    case (Some p)
    then obtain nw tot where p: "r = Some (nw, tot)" "tree_spec ?d ws nw" "uint tot = sum_list (map uint ws)"
      using r(2) by (cases p) auto
    have root: "unat ?nn div 2 = nd (?d - 1) 0" using d by (cases ?d) (simp_all add: nd_def)
    have "uint (nw ! nd (?d - 1) 0) = span ws (?d - 1) 0" using p(2) d(1) by (simp add: tree_spec_def nd_less)
    then have "nw ! (unat ?nn div 2) = tot" using span_all [OF d(2)] p(3) unfolding root by (simp add: word_uint_eq_iff)
    moreover have "unat ?nn div 2 < length nw" using p(2) d by (simp add: tree_spec_def)
    ultimately show ?thesis using ok pos assms(1,3) cp r(1) d p tree_spec_weights [OF p(2) d(1,2)]
      by (simp add: crush_make_tree_bucket_def made_def copy_array_in Let_def bucket_wf_def weight_list_def contents_def)
  qed
qed

section \<open>Straw lengths\<close>

lemma straw_insert_Nil: "straw_insert ws i [] = [i]"
  by (simp add: straw_insert_def)

lemma straw_insert_Cons:
  "straw_insert ws i (r # rs) = (if ws ! i < ws ! r then i # r # rs else r # straw_insert ws i rs)"
  by (simp add: straw_insert_def Let_def)

lemma mset_straw_insert: "mset (straw_insert ws i rs) = add_mset i (mset rs)"
  by (induction rs) (simp_all add: straw_insert_Nil straw_insert_Cons)

lemma sorted_straw_insert:
  "sorted (map ((!) ws) rs) \<Longrightarrow> sorted (map ((!) ws) (straw_insert ws i rs))"
proof (induction rs)
  case (Cons r rs)
  have "set (straw_insert ws i rs) = insert i (set rs)" by (metis mset_straw_insert set_mset_add_mset_insert set_mset_mset)
  then show ?case using Cons by (auto simp: straw_insert_Cons)
qed (simp add: straw_insert_Nil)

lemma straw_order_fold:
  "mset (fold (straw_insert ws) is rs) = mset is + mset rs"
  "sorted (map ((!) ws) rs) \<Longrightarrow> sorted (map ((!) ws) (fold (straw_insert ws) is rs))"
  by (induction "is" arbitrary: rs) (simp_all add: mset_straw_insert sorted_straw_insert)

lemma straw_order_perm: "mset (straw_order ws sz) = mset [0..<sz]"
proof (cases "sz = 0")
  case False
  then have "[0..<sz] = 0 # [1..<sz]" by (simp add: upt_conv_Cons)
  then show ?thesis using False by (simp add: straw_order_def straw_order_fold(1))
qed (simp add: straw_order_def)

lemma straw_order_sorted: "sorted (map ((!) ws) (straw_order ws sz))"
  by (simp add: straw_order_def straw_order_fold(2))

lemma straw_order_set: "set (straw_order ws sz) = {..<sz}"
  using straw_order_perm [of ws sz] by (metis atLeast0LessThan set_mset_mset set_upt)

lemma straw_loop0_step:
  "\<exists>straw' wbelow' lastw' numleft' v. (ws ! r = 0 \<longrightarrow> v = 0) \<and>
     straw_loop0 fp ws (r # rs) straw wbelow lastw numleft strs =
       straw_loop0 fp ws rs straw' wbelow' lastw' numleft' (strs[r := v])"
proof (cases "ws ! r = 0")
  case True
  then show ?thesis by auto
next
  case False
  then show ?thesis
    by (cases rs) (auto simp: Let_def straw_loop0.simps(2) [of fp ws r] simp del: straw_loop0.simps(2); blast)+
qed

lemma straw_loop0_spec:
  "length (straw_loop0 fp ws rs straw wbelow lastw numleft strs) = length strs \<and>
   (\<forall>p. p \<notin> set rs \<longrightarrow> straw_loop0 fp ws rs straw wbelow lastw numleft strs ! p = strs ! p) \<and>
   (distinct rs \<longrightarrow> (\<forall>p \<in> set rs. p < length strs \<longrightarrow> ws ! p = 0 \<longrightarrow>
      straw_loop0 fp ws rs straw wbelow lastw numleft strs ! p = 0))"
proof (induction rs arbitrary: straw wbelow lastw numleft strs)
  case (Cons r rs)
  obtain straw' wbelow' lastw' numleft' v where "ws ! r = 0 \<longrightarrow> v = 0"
    "straw_loop0 fp ws (r # rs) straw wbelow lastw numleft strs =
       straw_loop0 fp ws rs straw' wbelow' lastw' numleft' (strs[r := v])"
    using straw_loop0_step [of ws r fp rs straw wbelow lastw numleft strs] by blast
  then show ?case using Cons.IH [of straw' wbelow' lastw' numleft' "strs[r := v]"]
    by (auto simp del: straw_loop0.simps)
qed simp

lemma straw_loop1_step:
  "\<exists>straw' wbelow' lastw' numleft' v. (ws ! r = 0 \<longrightarrow> v = 0) \<and>
     straw_loop1 fp ws (r # rs) straw wbelow lastw numleft strs =
       straw_loop1 fp ws rs straw' wbelow' lastw' numleft' (strs[r := v])"
proof (cases "ws ! r = 0")
  case True
  then show ?thesis by auto
next
  case False
  then show ?thesis
    by (cases rs) (auto simp: Let_def straw_loop1.simps(2) [of fp ws r] simp del: straw_loop1.simps(2); blast)+
qed

lemma straw_loop1_spec:
  "length (straw_loop1 fp ws rs straw wbelow lastw numleft strs) = length strs \<and>
   (\<forall>p. p \<notin> set rs \<longrightarrow> straw_loop1 fp ws rs straw wbelow lastw numleft strs ! p = strs ! p) \<and>
   (distinct rs \<longrightarrow> (\<forall>p \<in> set rs. p < length strs \<longrightarrow> ws ! p = 0 \<longrightarrow>
      straw_loop1 fp ws rs straw wbelow lastw numleft strs ! p = 0))"
proof (induction rs arbitrary: straw wbelow lastw numleft strs)
  case (Cons r rs)
  obtain straw' wbelow' lastw' numleft' v where "ws ! r = 0 \<longrightarrow> v = 0"
    "straw_loop1 fp ws (r # rs) straw wbelow lastw numleft strs =
       straw_loop1 fp ws rs straw' wbelow' lastw' numleft' (strs[r := v])"
    using straw_loop1_step [of ws r fp rs straw wbelow lastw numleft strs] by blast
  then show ?case using Cons.IH [of straw' wbelow' lastw' numleft' "strs[r := v]"]
    by (auto simp del: straw_loop1.simps)
qed simp

lemma calc_straw_spec:
  assumes "sz \<le> length ws" "sz \<le> length strs"
  shows "exec_post (crush_calc_straw h k fp version sz ws strs) (\<lambda>(r, strs').
    r = (if h_ok h k then 0 else - ENOMEM) \<and> length strs' = length strs \<and>
    (r = 0 \<longrightarrow> (\<forall>p < sz. ws ! p = 0 \<longrightarrow> strs' ! p = 0)))"
proof -
  have "distinct (straw_order ws sz)" using straw_order_perm [of ws sz] by (metis distinct_upt mset_eq_imp_distinct_iff)
  then show ?thesis using assms
      straw_loop0_spec [of fp ws "straw_order ws sz" "f_int fp 1" "f_int fp 0" "f_int fp 0" "int sz" strs]
      straw_loop1_spec [of fp ws "straw_order ws sz" "f_int fp 1" "f_int fp 0" "f_int fp 0" "int sz" strs]
    by (simp add: crush_calc_straw_def straw_order_set)
qed

lemma make_straw:
  fixes weights :: "int list"
  assumes "sz \<le> length items" "sz \<le> length weights"
  defines "ws \<equiv> map word_of_int (take sz weights) :: u32 list"
  assumes total: "sum_list (map uint ws) < 2 ^ 32"
  shows "exec_post (crush_make_straw_bucket h fp m hsh t sz items weights) (made (\<not> allocs h 6) sz items ws)"
    and "exec_post (crush_make_straw2_bucket h hsh t sz items weights) (made (\<not> allocs h 6) sz items ws)"
proof -
  have cp: "copy_array sz (map word_of_int weights) = Ret ws" "length ws = sz"
    using assms(2) by (simp_all add: copy_array_in take_map ws_def)
  have sum: "uint (sum_list ws) = sum_list (map uint ws)" using total
  proof (induction ws)
    case (Cons w ws)
    then have "uint w + sum_list (map uint ws) < 2 ^ 32" by simp
    then have "sum_list (map uint ws) < 2 ^ 32" using uint_ge_0 [of w] by linarith
    then show ?case using Cons by (simp add: uint_word_ariths sum_uint_nonneg)
  qed simp
  show "exec_post (crush_make_straw2_bucket h hsh t sz items weights) (made (\<not> allocs h 6) sz items ws)"
    using assms(1) cp sum allocs_mono [of h 6 4]
    by (auto simp: crush_make_straw2_bucket_def made_def copy_array_in bucket_wf_def weight_list_def contents_def)
  have "sz \<le> length ws" "sz \<le> length (map (h_junk h) [0..<sz])" using cp(2) by simp_all
  from calc_straw_spec [OF this, of h 5 fp "straw_calc_version m"] obtain strs where
    "crush_calc_straw h 5 fp (straw_calc_version m) sz ws (map (h_junk h) [0..<sz]) =
       Ret (if h_ok h 5 then 0 else - ENOMEM, strs)" "length strs = sz"
    by (auto simp: exec_post_def)
  then show "exec_post (crush_make_straw_bucket h fp m hsh t sz items weights) (made (\<not> allocs h 6) sz items ws)"
    using assms(1) cp sum allocs_mono [of h 6 5]
    by (auto simp: crush_make_straw_bucket_def made_def copy_array_in bucket_wf_def weight_list_def contents_def
      allocs_def list_all_iff)
qed

text \<open>The weights a new bucket gets: a uniform bucket takes the first for all its items.\<close>

definition given_weights :: "int \<Rightarrow> nat \<Rightarrow> int list \<Rightarrow> u32 list" where
  "given_weights alg sz weights =
     (if alg = 1 then replicate sz (if sz = 0 then 0 else word_of_int (weights ! 0))
      else map word_of_int (take sz weights))"

lemma make_bucket_spec:
  assumes "1 \<le> alg" "alg \<le> 5" "sz \<le> length items" "sz \<le> length weights" "sz < 2 ^ 32" "alg = 3 \<Longrightarrow> sz \<le> 64"
    and "alg \<ge> 4 \<Longrightarrow> sum_list (map uint (given_weights alg sz weights)) < 2 ^ 32"
  shows "exec_post (crush_make_bucket h fp m alg hsh t sz items (Some weights))
    (made (\<not> allocs h 6 \<or> 2 ^ 32 \<le> sum_list (map uint (given_weights alg sz weights)) \<or>
        alg = 1 \<and> (sz = 0 \<or> word_of_int (weights ! 0) = (0 :: u32)))
      sz items (given_weights alg sz weights))"
proof -
  have weaken: "made F sz items ws r \<Longrightarrow> (F \<Longrightarrow> F') \<Longrightarrow> made F' sz items ws r" for F F' ws r
    by (auto simp: made_def split: option.splits)
  consider "alg = 1" | "alg = 2" | "alg = 3" | "alg = 4" | "alg = 5" using assms(1,2) by linarith
  then show ?thesis
  proof cases
    case 1
    have "sz \<noteq> 0 \<Longrightarrow> arr_get weights 0 = Ret (weights ! 0)" using assms(4) by (auto simp: arr_get_def)
    then show ?thesis using 1 exec_post_mono [OF make_uniform [OF assms(3,5)] weaken]
      by (cases "sz = 0") (auto simp: crush_make_bucket_def given_weights_def)
  qed (use assms(3-7) make_list [OF assms(3,4)] make_tree [OF assms(3,4)] make_straw [OF assms(3,4)] in
    \<open>auto simp: crush_make_bucket_def given_weights_def elim!: exec_post_mono intro: weaken\<close>)
qed

text \<open>C19: \<open>crush_make_bucket\<close> returns for every algorithm.  It gives NULL only when memory is short, the
  total weight does not fit 32 bits, or a uniform bucket would be empty or weightless; otherwise it
  gives a well-formed bucket that holds exactly the given items with the given weights.  A tree may have
  64 items, and the weights of a straw bucket must not overflow.\<close>
theorem crush_make_bucket_correct:
  assumes "1 \<le> alg" "alg \<le> 5" "sz \<le> length items" "sz \<le> length weights" "sz < 2 ^ 32" "alg = 3 \<Longrightarrow> sz \<le> 64"
    and "alg \<ge> 4 \<Longrightarrow> sum_list (map uint (given_weights alg sz weights)) < 2 ^ 32"
  shows "exec_post (crush_make_bucket h fp m alg hsh t sz items (Some weights))
    (made (\<not> allocs h 6 \<or> 2 ^ 32 \<le> sum_list (map uint (given_weights alg sz weights)) \<or>
        alg = 1 \<and> (sz = 0 \<or> word_of_int (weights ! 0) = (0 :: u32)))
      sz items (given_weights alg sz weights))"
  using assms by (rule make_bucket_spec)

text \<open>Concrete parameters: memory that never runs out, filled with \<open>0xff\<close>, and integer arithmetic.\<close>

definition sample_heap :: heap where
  "sample_heap = \<lparr>h_ok = (\<lambda>_. True), h_junk = (\<lambda>_. - 1), h_past = - 1\<rparr>"

definition sample_fp :: "int fp" where
  "sample_fp = \<lparr>f_int = (\<lambda>i. i), f_add = (+), f_sub = (-), f_mul = (*), f_div = (div), f_pow = (\<lambda>x _. x),
     f_u32 = word_of_int\<rparr>"

lemma sample_heap_allocs [simp]: "allocs sample_heap n" "h_ok sample_heap k" "h_junk sample_heap k = - 1"
  by (simp_all add: allocs_def list_all_iff sample_heap_def)

definition empty_map :: crush_map where
  "empty_map = \<lparr>buckets = [], rules = [], max_buckets = 0, max_rules = 0, max_devices = 0, choose_local_tries = 2,
    choose_local_fallback_tries = 5, choose_total_tries = 19, chooseleaf_descend_once = 0,
    chooseleaf_vary_r = 0, straw_calc_version = 0, allowed_bucket_algs = 0x16, choose_tries = None\<rparr>"

theorem crush_make_bucket_correct_witness:
  "\<exists>b. crush_make_bucket sample_heap sample_fp empty_map 3 0 1 3 [7, 8, 9] (Some [1, 2, 3]) = Ret (Some b) \<and>
     bucket_wf b \<and> contents b = [(7, 1), (8, 2), (9, 3)]"
proof -
  have w: "given_weights 3 3 [1, 2, 3] = [1, 2, 3]" by (simp add: given_weights_def)
  have "exec_post (crush_make_bucket sample_heap sample_fp empty_map 3 0 1 3 [7, 8, 9] (Some [1, 2, 3]))
      (made False 3 [7, 8, 9] [1, 2, 3])"
    using crush_make_bucket_correct [of 3 3 "[7, 8, 9]" "[1, 2, 3]" sample_heap sample_fp empty_map 0 1]
    by (simp add: w)
  then show ?thesis by (auto simp: exec_post_def made_def split: option.splits)
qed

text \<open>A tree bucket of more than 64 items overruns its node array: \<open>num_nodes\<close> has 8 bits, so
  \<open>1 << depth\<close> is stored as 0, no node is allocated, and the first item is written outside the array.\<close>
theorem crush_make_tree_bucket_overrun:
  assumes "64 < sz" "sz \<le> length items" "sz \<le> length weights" "allocs h 4"
  shows "crush_make_tree_bucket h hsh t sz items weights = Fault"
proof -
  have "64 < (2 :: nat) ^ (calc_depth sz - 1)" using calc_depth_leaves [of sz] assms(1) by linarith
  then have "6 < calc_depth sz - 1" using power_less_imp_less_exp [of "2 :: nat" 6 "calc_depth sz - 1"] by simp
  then have "8 \<le> calc_depth sz" by linarith
  then have z: "(2 ^ calc_depth sz :: u8) = 0" by simp
  obtain w ws where "map word_of_int (take sz weights) = (w :: u32) # ws"
    using assms(1,3) by (cases "map word_of_int (take sz weights) :: u32 list") auto
  moreover have "h_ok h 0" using assms(4) by (simp add: allocs_def list_all_iff)
  ultimately show ?thesis using assms
    by (simp add: crush_make_tree_bucket_def Let_def copy_array_in take_map arr_set_def z)
qed

theorem crush_make_tree_bucket_overrun_witness:
  "crush_make_tree_bucket sample_heap 0 1 65 (replicate 65 1) (replicate 65 1) = Fault"
  by (rule crush_make_tree_bucket_overrun) simp_all

text \<open>The order \<open>crush_calc_straw\<close> sorts into is a permutation of the positions with ascending weights,
  and items without weight get straws of length 0, in both versions.\<close>
theorem crush_calc_straw_correct:
  assumes "sz \<le> length ws" "sz \<le> length strs" "h_ok h k"
  shows "mset (straw_order ws sz) = mset [0..<sz] \<and> sorted (map ((!) ws) (straw_order ws sz)) \<and>
    exec_post (crush_calc_straw h k fp version sz ws strs) (\<lambda>(r, strs').
      r = 0 \<and> length strs' = length strs \<and> (\<forall>p < sz. ws ! p = 0 \<longrightarrow> strs' ! p = 0))"
  using calc_straw_spec [OF assms(1,2), of h k fp version] assms(3)
  by (auto simp: straw_order_perm straw_order_sorted elim!: exec_post_mono)

theorem crush_calc_straw_correct_witness:
  "mset (straw_order [3, 0, 2] 3) = mset [0..<3] \<and> straw_order [3, 0, 2] 3 = [1, 2, 0]"
  using crush_calc_straw_correct [of 3 "[3, 0, 2]" "[0, 0, 0]" sample_heap 0 sample_fp 0]
  by (simp add: straw_order_def straw_insert_def upt_rec)

section \<open>Bucket slots\<close>

definition slots_ok :: "crush_map \<Rightarrow> bool" where
  "slots_ok m \<longleftrightarrow> 0 \<le> max_buckets m \<and> length (buckets m) = nat (max_buckets m)"

lemma first_free_le: "first_free xs \<le> length xs"
  by (induction xs) (auto split: option.splits)

lemma first_free_None: "first_free xs < length xs \<Longrightarrow> xs ! first_free xs = None"
  by (induction xs) (auto split: option.splits)

lemma first_free_Some: "i < first_free xs \<Longrightarrow> xs ! i \<noteq> None"
  by (induction xs arbitrary: i) (auto simp: nth_Cons split: option.splits nat.splits)

lemma find_free_in: "n \<le> length xs \<Longrightarrow> find_free n xs = Ret (first_free (take n xs))"
  using first_free_le [of "take n xs"] by (auto simp: find_free_def Let_def)

text \<open>Growing keeps every bucket where it is.\<close>

lemma get_bucket_grown:
  assumes "buckets m' = buckets m @ replicate k None"
  shows "get_bucket m' i = get_bucket m i"
  using assms by (auto simp: get_bucket_def arr_get_def nth_append)

lemma grow_buckets_spec:
  assumes "\<forall>k. h_ok h k" "pos < 2 ^ 30"
  shows "slots_ok m \<Longrightarrow> max_buckets m \<noteq> 0 \<Longrightarrow> pos < max_buckets m * 2 ^ fuel \<Longrightarrow> max_buckets m < 2 ^ 30 \<or> pos < max_buckets m \<Longrightarrow>
    \<exists>m' k. grow_buckets (Suc fuel) h j m pos = Ret (True, m') \<and> slots_ok m' \<and> pos < max_buckets m' \<and>
      buckets m' = buckets m @ replicate k None \<and>
      m' = m\<lparr>max_buckets := max_buckets m', buckets := buckets m'\<rparr>"
proof (induction fuel arbitrary: m j)
  case 0
  then show ?case by (intro exI [of _ m] exI [of _ 0]) simp
next
  case (Suc fuel)
  show ?case
  proof (cases "pos < max_buckets m")
    case True
    then show ?thesis using Suc.prems by (intro exI [of _ m] exI [of _ 0]) simp
  next
    case False
    have pos: "0 < max_buckets m" using Suc.prems(1,2) by (simp add: slots_ok_def)
    have n: "to_s32 (max_buckets m * 2) = max_buckets m * 2" using Suc.prems(4) False pos by (intro to_s32_id) auto
    let ?m = "m\<lparr>max_buckets := max_buckets m * 2, buckets := buckets m @ replicate (nat (max_buckets m)) None\<rparr>"
    have len: "length (buckets m) = nat (max_buckets m)" using Suc.prems(1) by (simp add: slots_ok_def)
    have run: "grow_buckets (Suc (Suc fuel)) h j m pos = grow_buckets (Suc fuel) h (Suc j) ?m pos"
      using False assms(1) pos by (subst grow_buckets.simps(2)) (simp add: n copy_array_in len Let_def del: grow_buckets.simps)
    have "slots_ok ?m" "max_buckets ?m \<noteq> 0" "pos < max_buckets ?m * 2 ^ fuel"
      "max_buckets ?m < 2 ^ 30 \<or> pos < max_buckets ?m"
      using Suc.prems False pos assms(2) len by (simp_all add: slots_ok_def) linarith
    from Suc.IH [OF this, of "Suc j"] obtain m' k where m': "grow_buckets (Suc fuel) h (Suc j) ?m pos = Ret (True, m')"
      "slots_ok m'" "pos < max_buckets m'" "buckets m' = buckets ?m @ replicate k None"
      "m' = ?m\<lparr>max_buckets := max_buckets m', buckets := buckets m'\<rparr>" by blast
    have "buckets m' = buckets m @ replicate (nat (max_buckets m) + k) None" using m'(4) by (simp add: replicate_add)
    then show ?thesis unfolding run using m' by (intro exI [of _ m'] exI [of _ "nat (max_buckets m) + k"]) simp
  qed
qed


lemma grow_buckets_total:
  assumes "\<forall>k. h_ok h k" "pos < 2 ^ 30" "slots_ok m" "max_buckets m < 2 ^ 30"
  shows "\<exists>m' k. grow_buckets 33 h 0 m pos = Ret (True, m') \<and> slots_ok m' \<and> pos < max_buckets m' \<and>
      buckets m' = buckets m @ replicate k None \<and> m' = m\<lparr>max_buckets := max_buckets m', buckets := buckets m'\<rparr>"
proof (cases "max_buckets m = 0")
  case False
  then have "0 < max_buckets m" using assms(3) by (simp add: slots_ok_def)
  then have "pos < max_buckets m * 2 ^ 32" using assms(2) by simp
  then show ?thesis using grow_buckets_spec [OF assms(1,2,3) False, of 32 0] assms(4) by simp
next
  case zero: True
  then have nil: "buckets m = []" using assms(3) by (simp add: slots_ok_def)
  show ?thesis
  proof (cases "pos < 0")
    case True
    then have "grow_buckets (Suc 32) h 0 m pos = Ret (True, m)" using zero by (subst grow_buckets.simps(2)) simp
    then show ?thesis using True zero assms(3) by (intro exI [of _ m] exI [of _ 0]) simp
  next
    case False
    let ?m = "m\<lparr>max_buckets := 8, buckets := replicate 8 None\<rparr>"
    have run: "grow_buckets (Suc (Suc 31)) h 0 m pos = grow_buckets (Suc 31) h 1 ?m pos"
      using False assms(1) zero nil by (subst grow_buckets.simps(2)) (simp add: copy_array_in Let_def del: grow_buckets.simps)
    have "slots_ok ?m" "max_buckets ?m \<noteq> 0" "pos < max_buckets ?m * 2 ^ 31" "max_buckets ?m < 2 ^ 30 \<or> pos < max_buckets ?m"
      using assms(2) by (simp_all add: slots_ok_def)
    from grow_buckets_spec [OF assms(1,2) this, of 1] obtain m' k where
      m': "grow_buckets (Suc 31) h 1 ?m pos = Ret (True, m')" "slots_ok m'" "pos < max_buckets m'"
      "buckets m' = buckets ?m @ replicate k None" "m' = ?m\<lparr>max_buckets := max_buckets m', buckets := buckets m'\<rparr>"
      by blast
    have "grow_buckets 33 h 0 m pos = Ret (True, m')" using run m'(1) by simp
    moreover have "buckets m' = buckets m @ replicate (8 + k) None" using m'(4) nil by (simp add: replicate_add)
    ultimately show ?thesis using m'(2,3,5) by (intro exI [of _ m'] exI [of _ "8 + k"]) simp
  qed
qed

lemma get_put_same: "0 \<le> - 1 - i \<Longrightarrow> - 1 - i < int (length (buckets m)) \<Longrightarrow> get_bucket (put_bucket m i b) i = Ret b"
  by (simp add: get_bucket_def put_bucket_def arr_get_def)

lemma get_put_other: "i < 0 \<Longrightarrow> j \<noteq> i \<Longrightarrow> get_bucket (put_bucket m i b) j = get_bucket m j"
  by (auto simp: get_bucket_def put_bucket_def arr_get_def nth_list_update)

text \<open>C33: \<open>crush_add_bucket\<close> stores the bucket under the identifier asked for, or under a free one, and every
  other bucket stays where it was; a taken identifier is refused and nothing changes.\<close>
theorem crush_add_bucket_roundtrip:
  assumes "\<forall>k. h_ok h k" "slots_ok m" "max_buckets m < 2 ^ 30" "i \<le> 0" "- (2 ^ 30) \<le> i"
  shows "exec_post (crush_add_bucket h m i b) (\<lambda>(r, m', new).
    slots_ok m' \<and>
    (case new of
       Some j \<Rightarrow> r = 0 \<and> (i \<noteq> 0 \<longrightarrow> j = i) \<and> j < 0 \<and> get_bucket m j = Fault \<and>
         get_bucket m' j = Ret (b\<lparr>b_id := j\<rparr>) \<and> (\<forall>k. k \<noteq> j \<longrightarrow> get_bucket m' k = get_bucket m k)
     | None \<Rightarrow> r = - EEXIST \<and> (\<exists>c. get_bucket m i = Ret c) \<and> (\<forall>k. get_bucket m' k = get_bucket m k)))"
proof -
  have len: "length (buckets m) = nat (max_buckets m)" "0 \<le> max_buckets m" using assms(2) by (simp_all add: slots_ok_def)
  obtain j where j: "(if i = 0 then crush_get_next_bucket_id m else Ret i) = Ret j" "j < 0" "i \<noteq> 0 \<Longrightarrow> j = i"
    "- 1 - j < 2 ^ 30" "i = 0 \<Longrightarrow> get_bucket m j = Fault"
  proof (cases "i = 0")
    case True
    let ?f = "first_free (buckets m)"
    have "?f \<le> nat (max_buckets m)" using first_free_le [of "buckets m"] len by simp
    moreover have "get_bucket m (- 1 - int ?f) = Fault"
      using first_free_None [of "buckets m"] by (simp add: get_bucket_def arr_get_def)
    ultimately show ?thesis using True that [of "- 1 - int ?f"] len assms(3)
      by (simp add: crush_get_next_bucket_id_def find_free_in)
  next
    case False
    then show ?thesis using that [of i] assms(4,5) by simp
  qed
  from grow_buckets_total [OF assms(1) j(4) assms(2,3)] obtain m' k where
    m': "grow_buckets 33 h 0 m (- 1 - j) = Ret (True, m')" "slots_ok m'" "- 1 - j < max_buckets m'"
    "buckets m' = buckets m @ replicate k None" by blast
  have same: "get_bucket m' i = get_bucket m i" for i by (rule get_bucket_grown [OF m'(4)])
  have in': "0 \<le> - 1 - j" "- 1 - j < int (length (buckets m'))" using j(2) m'(2,3) by (auto simp: slots_ok_def)
  have run: "crush_add_bucket h m i b = exec_bind (arr_get (buckets m') (- 1 - j)) (\<lambda>slot.
      if slot \<noteq> None then Ret (- EEXIST, m', None) else Ret (0, put_bucket m' j (b\<lparr>b_id := j\<rparr>), Some j))"
    unfolding crush_add_bucket_def j(1) using m'(1) by simp
  have slot: "arr_get (buckets m') (- 1 - j) = Ret (buckets m' ! nat (- 1 - j))"
    using in' by (simp add: arr_get_def)
  show ?thesis
  proof (cases "buckets m' ! nat (- 1 - j)")
    case None
    then have "get_bucket m j = Fault" using slot same [of j] by (simp add: get_bucket_def)
    moreover have "slots_ok (put_bucket m' j (b\<lparr>b_id := j\<rparr>))" using m'(2) by (simp add: slots_ok_def put_bucket_def)
    ultimately show ?thesis unfolding run slot
      using None j(2,3) same by (auto simp: get_put_same [OF in'] get_put_other)
  next
    case (Some c)
    then have c: "get_bucket m j = Ret c" using slot same [of j] by (simp add: get_bucket_def)
    then have "i \<noteq> 0" using j(5) by auto
    then show ?thesis unfolding run slot using Some c j(3) m'(2) same by auto
  qed
qed

definition sample_device_bucket :: crush_bucket where
  "sample_device_bucket = (bucket_header 0 1 2 (Straw2 [1, 2]))\<lparr>b_items := [0, 1], b_perm := [0, 0], b_weight := 3\<rparr>"

theorem crush_add_bucket_roundtrip_witness:
  "exec_post (crush_add_bucket sample_heap empty_map 0 sample_device_bucket) (\<lambda>(r, m', new). slots_ok m')"
proof -
  have "\<forall>k. h_ok sample_heap k" "slots_ok empty_map" "max_buckets empty_map < 2 ^ 30"
    by (simp_all add: slots_ok_def empty_map_def)
  from crush_add_bucket_roundtrip [OF this, of 0 sample_device_bucket] show ?thesis
    by (auto elim: exec_post_mono)
qed

section \<open>Devices and rules\<close>

lemma finalize_items_spec:
  "d \<le> finalize_items d items \<and> (\<forall>item \<in> set items. item < finalize_items d items) \<and>
   (finalize_items d items = d \<or> finalize_items d items - 1 \<in> set items)"
proof (induction items arbitrary: d)
  case (Cons x xs)
  show ?case using Cons.IH [of "if x \<ge> d then x + 1 else d"]
    by (auto simp: finalize_items_def split: if_splits)
qed (simp add: finalize_items_def)

text \<open>The items of a bucket.\<close>

definition bucket_items :: "crush_bucket \<Rightarrow> int list" where
  "bucket_items b = take (b_size b) (b_items b)"

lemma finalize_buckets_spec:
  assumes "\<forall>b. Some b \<in> set bs \<longrightarrow> b_size b \<le> length (b_items b)"
  shows "exec_post (finalize_buckets bs d) (\<lambda>d'.
    d \<le> d' \<and> (\<forall>b. Some b \<in> set bs \<longrightarrow> (\<forall>item \<in> set (bucket_items b). item < d')) \<and>
    (d' = d \<or> (\<exists>b. Some b \<in> set bs \<and> d' - 1 \<in> set (bucket_items b))))"
  using assms
proof (induction bs d rule: finalize_buckets.induct)
  case (3 b bs d)
  let ?d = "finalize_items d (bucket_items b)"
  have run: "finalize_buckets (Some b # bs) d = finalize_buckets bs ?d"
    using "3.prems" by (simp add: copy_array_in bucket_items_def)
  have "exec_post (finalize_buckets bs ?d) (\<lambda>d'.
    ?d \<le> d' \<and> (\<forall>b. Some b \<in> set bs \<longrightarrow> (\<forall>item \<in> set (bucket_items b). item < d')) \<and>
    (d' = ?d \<or> (\<exists>b. Some b \<in> set bs \<and> d' - 1 \<in> set (bucket_items b))))"
    using 3 by (auto simp: copy_array_in bucket_items_def)
  then show ?case unfolding run
    using finalize_items_spec [of d "bucket_items b"] by (elim exec_post_mono) force
qed auto

text \<open>After \<open>crush_finalize\<close> every item of every bucket is below \<open>max_devices\<close>, and \<open>max_devices\<close> is the
  least such number that is not negative; nothing else of the map changes.\<close>
theorem crush_finalize_least:
  assumes "slots_ok m" "\<forall>i b. get_bucket m i = Ret b \<longrightarrow> b_size b \<le> length (b_items b)"
  shows "exec_post (crush_finalize m) (\<lambda>m'. m' = m\<lparr>max_devices := max_devices m'\<rparr> \<and> 0 \<le> max_devices m' \<and>
    (\<forall>i b. get_bucket m i = Ret b \<longrightarrow> (\<forall>item \<in> set (bucket_items b). item < max_devices m')) \<and>
    (max_devices m' = 0 \<or> (\<exists>i b. get_bucket m i = Ret b \<and> max_devices m' - 1 \<in> set (bucket_items b))))"
proof -
  have slot: "(\<exists>i. get_bucket m i = Ret b) \<longleftrightarrow> Some b \<in> set (buckets m)" for b
  proof
    assume "Some b \<in> set (buckets m)"
    then obtain k where "k < length (buckets m)" "buckets m ! k = Some b" by (auto simp: in_set_conv_nth)
    then have "get_bucket m (- 1 - int k) = Ret b" by (simp add: get_bucket_def)
    then show "\<exists>i. get_bucket m i = Ret b" by blast
  next
    assume "\<exists>i. get_bucket m i = Ret b"
    then obtain i where "0 \<le> - 1 - i" "- 1 - i < int (length (buckets m))" "buckets m ! nat (- 1 - i) = Some b"
      by (auto simp: get_bucket_def arr_get_eq_Ret split: option.splits)
    then show "Some b \<in> set (buckets m)" by (metis nat_less_iff nth_mem)
  qed
  have "\<forall>b. Some b \<in> set (buckets m) \<longrightarrow> b_size b \<le> length (b_items b)" using assms(2) slot by blast
  from finalize_buckets_spec [OF this, of 0] obtain d where d: "finalize_buckets (buckets m) 0 = Ret d" "0 \<le> d"
    "\<And>b item. Some b \<in> set (buckets m) \<Longrightarrow> item \<in> set (bucket_items b) \<Longrightarrow> item < d"
    "d = 0 \<or> (\<exists>b. Some b \<in> set (buckets m) \<and> d - 1 \<in> set (bucket_items b))" by (auto simp: exec_post_def)
  have "crush_finalize m = Ret (m\<lparr>max_devices := d\<rparr>)"
    using assms(1) d(1) by (simp add: crush_finalize_def copy_array_in slots_ok_def)
  then show ?thesis using d(2-4) slot by (simp add: exec_post_def) blast
qed

theorem crush_finalize_least_witness:
  "exec_post (crush_finalize (empty_map\<lparr>max_buckets := 1, buckets := [Some sample_device_bucket]\<rparr>))
     (\<lambda>m'. 0 \<le> max_devices m' \<and> 1 < max_devices m')"
proof -
  let ?m = "empty_map\<lparr>max_buckets := 1, buckets := [Some sample_device_bucket]\<rparr>"
  have "slots_ok ?m" by (simp add: slots_ok_def)
  moreover have at: "get_bucket ?m i = Ret b \<longleftrightarrow> i = - 1 \<and> b = sample_device_bucket" for i b
    by (auto simp: get_bucket_def arr_get_def)
  moreover have "b_size sample_device_bucket \<le> length (b_items sample_device_bucket)"
    and mem: "1 \<in> set (bucket_items sample_device_bucket)"
    by (simp_all add: sample_device_bucket_def bucket_items_def)
  ultimately show ?thesis
    using crush_finalize_least [of ?m] by (elim meta_impE exec_post_mono) auto
qed

text \<open>A rule fits a request.\<close>

definition rule_fits :: "crush_rule option \<Rightarrow> int \<Rightarrow> int \<Rightarrow> int \<Rightarrow> bool" where
  "rule_fits slot rset t sz \<longleftrightarrow>
     (case slot of
        None \<Rightarrow> False
      | Some rl \<Rightarrow> uint (ruleset (rule_mask rl)) = rset \<and> uint (mask_type (rule_mask rl)) = t
          \<and> uint (min_size (rule_mask rl)) \<le> sz \<and> uint (max_size (rule_mask rl)) \<ge> sz)"

lemma find_rule_from_spec:
  "i + k \<le> length (rules m) \<Longrightarrow> i \<le> j \<Longrightarrow> j < i + k \<Longrightarrow> rule_fits (rules m ! j) rset t sz \<Longrightarrow>
   \<exists>f. find_rule_from m rset t sz i k = Ret (int f) \<and> f \<le> j \<and> rule_fits (rules m ! f) rset t sz"
proof (induction k arbitrary: i)
  case (Suc k)
  show ?case
  proof (cases "rule_fits (rules m ! i) rset t sz")
    case True
    then show ?thesis using Suc.prems
      by (intro exI [of _ i]) (auto simp: rule_fits_def split: option.splits)
  next
    case False
    then have "find_rule_from m rset t sz i (Suc k) = find_rule_from m rset t sz (Suc i) k"
      using Suc.prems(1) by (auto simp: rule_fits_def split: option.splits)
    moreover have "i \<noteq> j" using False Suc.prems(4) by blast
    ultimately show ?thesis using Suc.IH [of "Suc i"] Suc.prems by auto
  qed
qed simp

definition rules_ok :: "crush_map \<Rightarrow> bool" where
  "rules_ok m \<longleftrightarrow> length (rules m) = max_rules m \<and> max_rules m \<le> CRUSH_MAX_RULES"

text \<open>C39: A rule added without a number to a table with room, when memory is given, is stored in the first free slot:
  no rule was there, and the other rules stay.  \<open>crush_find_rule\<close> then answers every request the new rule
  fits with a rule that fits, no later than the new one; it is the new one if no other rule fits.\<close>
theorem crush_add_rule_found:
  assumes "rules_ok m" "ruleno < 0" "first_free (rules m) < CRUSH_MAX_RULES" "h_ok h 0"
  shows "exec_post (crush_add_rule h m rl ruleno) (\<lambda>(r, m').
    0 \<le> r \<and> r \<le> int (max_rules m) \<and> (nat r < max_rules m \<longrightarrow> rules m ! nat r = None) \<and> (\<forall>k < nat r. rules m ! k \<noteq> None) \<and>
    rules_ok m' \<and> rules m' ! nat r = Some rl \<and> (\<forall>k < max_rules m. k \<noteq> nat r \<longrightarrow> rules m' ! k = rules m ! k) \<and>
    (\<forall>rset t sz. rule_fits (Some rl) rset t sz \<longrightarrow>
      (\<exists>f \<le> nat r. crush_find_rule m' rset t sz = Ret (int f) \<and> rule_fits (rules m' ! f) rset t sz \<and>
        ((\<forall>k < max_rules m. \<not> rule_fits (rules m ! k) rset t sz) \<longrightarrow> f = nat r))))"
proof -
  let ?r = "first_free (rules m)"
  have len: "length (rules m) = max_rules m" "max_rules m \<le> 256" using assms(1) by (simp_all add: rules_ok_def)
  have r: "?r \<le> max_rules m" using first_free_le [of "rules m"] len by simp
  define m' where "m' = m\<lparr>max_rules := max (max_rules m) (?r + 1),
    rules := (rules m @ replicate (?r + 1 - max_rules m) None)[?r := Some rl]\<rparr>"
  have "crush_add_rule h m rl ruleno = Ret (int ?r, m')"
    using assms r len by (auto simp: crush_add_rule_def find_free_in copy_array_in m'_def max_def)
  moreover have "?r < max_rules m \<longrightarrow> rules m ! ?r = None" using first_free_None [of "rules m"] len by simp
  moreover have "\<forall>k < ?r. rules m ! k \<noteq> None" using first_free_Some [of _ "rules m"] by blast
  moreover have "rules_ok m'" using r len assms(3) by (auto simp: rules_ok_def m'_def max_def)
  moreover have at: "rules m' ! ?r = Some rl" "?r < length (rules m')" "length (rules m') = max_rules m'"
    using r len by (simp_all add: m'_def max_def)
  moreover have other: "rules m' ! k = rules m ! k" if "k < max_rules m" "k \<noteq> ?r" for k
    using that len by (simp add: m'_def nth_append)
  moreover have "\<exists>f \<le> ?r. crush_find_rule m' rset t sz = Ret (int f) \<and> rule_fits (rules m' ! f) rset t sz \<and>
      ((\<forall>k < max_rules m. \<not> rule_fits (rules m ! k) rset t sz) \<longrightarrow> f = ?r)"
    if fit: "rule_fits (Some rl) rset t sz" for rset t sz
  proof -
    obtain f where f: "crush_find_rule m' rset t sz = Ret (int f)" "f \<le> ?r" "rule_fits (rules m' ! f) rset t sz"
      using find_rule_from_spec [of 0 "max_rules m'" m' ?r rset t sz] at fit by (auto simp: crush_find_rule_def)
    moreover have "f = ?r" if "\<forall>k < max_rules m. \<not> rule_fits (rules m ! k) rset t sz"
    proof (rule ccontr)
      assume "f \<noteq> ?r"
      then have "f < max_rules m" using f(2) r by linarith
      then show False using that f(3) other [of f] \<open>f \<noteq> ?r\<close> by simp
    qed
    ultimately show ?thesis by blast
  qed
  ultimately show ?thesis using r by simp
qed

theorem crush_add_rule_found_witness:
  "exec_post (crush_add_rule sample_heap empty_map
     \<lparr>rule_len = 0, rule_mask = \<lparr>ruleset = 1, mask_type = 1, min_size = 1, max_size = 3\<rparr>, steps = []\<rparr> (- 1))
     (\<lambda>(r, m'). r = 0 \<and> crush_find_rule m' 1 1 2 = Ret 0)"
proof -
  have "rules_ok empty_map" "first_free (rules empty_map) < 256" "max_rules empty_map = 0"
    by (simp_all add: rules_ok_def empty_map_def)
  moreover have "rule_fits (Some \<lparr>rule_len = 0,
      rule_mask = \<lparr>ruleset = 1, mask_type = 1, min_size = 1, max_size = 3\<rparr>, steps = []\<rparr>) 1 1 2"
    by (simp add: rule_fits_def)
  ultimately show ?thesis
    using crush_add_rule_found [of empty_map "- 1" sample_heap] by (force elim!: exec_post_mono)
qed

text \<open>With 256 rules in the table, adding one more without a number fails the assertion on the slot
  number instead of returning \<open>-ENOSPC\<close>.\<close>
theorem crush_add_rule_full_aborts:
  assumes "length (rules m) = CRUSH_MAX_RULES" "max_rules m = CRUSH_MAX_RULES" "\<forall>k < CRUSH_MAX_RULES. rules m ! k \<noteq> None"
    and "ruleno < 0"
  shows "crush_add_rule h m rl ruleno = Fault"
proof -
  have "first_free (rules m) = 256"
    using first_free_le [of "rules m"] first_free_None [of "rules m"] assms(1,3) by (cases "first_free (rules m) = 256") auto
  then show ?thesis using assms by (simp add: crush_add_rule_def find_free_in)
qed

theorem crush_add_rule_full_aborts_witness:
  "\<forall>rl. crush_add_rule sample_heap (empty_map\<lparr>rules := replicate 256 (Some rl), max_rules := 256\<rparr>) rl (- 1) = Fault"
  by (intro allI crush_add_rule_full_aborts) simp_all

text \<open>A failing \<open>realloc\<close> in \<open>crush_add_bucket\<close> leaves \<open>max_buckets\<close> larger than the array: the next walk over
  the buckets runs past its end.\<close>
theorem crush_add_bucket_oom_corrupts:
  assumes "slots_ok m" "max_buckets m < 2 ^ 30" "i < 0" "- 1 - i \<ge> max_buckets m" "\<not> h_ok h 0"
  shows "exec_post (crush_add_bucket h m i b) (\<lambda>(r, m', new). r = - ENOMEM \<and> crush_finalize m' = Fault)"
proof -
  have len: "length (buckets m) = nat (max_buckets m)" "0 \<le> max_buckets m" using assms(1) by (simp_all add: slots_ok_def)
  define n where "n = (if max_buckets m \<noteq> 0 then to_s32 (max_buckets m * 2) else 8)"
  have n: "nat (max_buckets m) < nat n" using len(2) assms(2) by (auto simp: n_def to_s32_id)
  have "grow_buckets (Suc 32) h 0 m (- 1 - i) = Ret (False, m\<lparr>max_buckets := n\<rparr>)"
    using assms(4,5) by (subst grow_buckets.simps(2)) (simp add: Let_def n_def)
  then have "crush_add_bucket h m i b = Ret (- ENOMEM, m\<lparr>max_buckets := n\<rparr>, None)"
    using assms(3) by (simp add: crush_add_bucket_def)
  then show ?thesis using n len(1) by (simp add: crush_finalize_def copy_array_def del: zless_nat_conj nat_less_eq_zless)
qed

theorem crush_add_bucket_oom_corrupts_witness:
  "exec_post (crush_add_bucket (sample_heap\<lparr>h_ok := \<lambda>_. False\<rparr>) empty_map (- 1) sample_device_bucket)
     (\<lambda>(r, m', new). r = - ENOMEM \<and> crush_finalize m' = Fault)"
  by (rule crush_add_bucket_oom_corrupts) (simp_all add: slots_ok_def empty_map_def)

end
