(* ===== verification/Crush_Edit.thy ===== *)
theory Crush_Edit
  imports Crush_Builder
begin

text \<open>
  Editing buckets (\<open>crush/builder.c\<close>): adding and removing an item, changing an item's weight, and
  recomputing the weights of a hierarchy from its leaves.  Each operation returns its code and the
  bucket as it leaves it, errors included.
\<close>

unbundle bit_operations_syntax

section \<open>Adding an item\<close>

definition crush_add_uniform_bucket_item :: "heap \<Rightarrow> crush_bucket \<Rightarrow> int \<Rightarrow> int \<Rightarrow> (int \<times> crush_bucket) exec" where
  "crush_add_uniform_bucket_item h b item weight =
     (let newsize = b_size b + 1; w = word_of_int weight :: u32 in
      resize_base h newsize b (\<lambda>b.
        exec_bind (arr_set (b_items b) (int newsize - 1) item) (\<lambda>its.
          let b = b\<lparr>b_items := its\<rparr> in
          if crush_addition_is_unsafe (b_weight b) w then Ret (- ERANGE, b)
          else Ret (0, b\<lparr>b_weight := b_weight b + w, b_size := newsize\<rparr>))))"

definition crush_add_list_bucket_item :: "heap \<Rightarrow> crush_bucket \<Rightarrow> u32 list \<Rightarrow> u32 list \<Rightarrow> int \<Rightarrow> int
    \<Rightarrow> (int \<times> crush_bucket) exec" where
  "crush_add_list_bucket_item h b ws sums item weight =
     (let newsize = b_size b + 1; w = word_of_int weight :: u32 in
      resize_base h newsize b (\<lambda>b.
        if \<not> h_ok h 2 then Ret (- ENOMEM, b)
        else if \<not> h_ok h 3 then Ret (- ENOMEM, b\<lparr>b_alg := ListAlg (resize32 h newsize ws) sums\<rparr>)
        else
          exec_bind (arr_set (b_items b) (int newsize - 1) item) (\<lambda>its.
          exec_bind (arr_set (resize32 h newsize ws) (int newsize - 1) w) (\<lambda>ws.
          let sums = resize32 h newsize sums; b = b\<lparr>b_items := its, b_alg := ListAlg ws sums\<rparr> in
          exec_bind (if newsize > 1 then arr_get sums (int newsize - 2) else Ret 0) (\<lambda>prev.
            if newsize > 1 \<and> crush_addition_is_unsafe prev w then Ret (- ERANGE, b)
            else
              exec_bind (arr_set sums (int newsize - 1) (prev + w)) (\<lambda>sums.
                Ret (0, b\<lparr>b_alg := ListAlg ws sums, b_weight := b_weight b + w, b_size := newsize\<rparr>)))))))"

text \<open>
  A tree grows to the depth the new size needs; when the item is the first of the right half, the
  new root starts from the weight of the left half.
\<close>

definition crush_add_tree_bucket_item :: "heap \<Rightarrow> crush_bucket \<Rightarrow> u8 \<Rightarrow> u32 list \<Rightarrow> int \<Rightarrow> int
    \<Rightarrow> (int \<times> crush_bucket) exec" where
  "crush_add_tree_bucket_item h b nn nw item weight =
     (let newsize = b_size b + 1; w = word_of_int weight :: u32; depth = calc_depth newsize;
          nn = word_of_nat (2 ^ depth) :: u8; node = crush_calc_tree_node (newsize - 1); root = unat nn div 2
      in
      resize_base h newsize (b\<lparr>b_alg := TreeAlg nn nw\<rparr>) (\<lambda>b.
        if \<not> h_ok h 2 then Ret (- ENOMEM, b)
        else
          exec_bind (arr_set (resize32 h (unat nn) nw) (int node) w) (\<lambda>nw.
          exec_bind
            (if depth \<ge> 2 \<and> node - 1 = root
             then exec_bind (arr_get nw (int (root div 2))) (\<lambda>v. arr_set nw (int root) v)
             else Ret nw) (\<lambda>nw.
          exec_bind (add_up (depth - 1) nw node w) (\<lambda>(ok, nw).
            let b = b\<lparr>b_alg := TreeAlg nn nw\<rparr> in
            if \<not> ok \<or> crush_addition_is_unsafe (b_weight b) w then Ret (- ERANGE, b)
            else
              exec_bind (arr_set (b_items b) (int newsize - 1) item) (\<lambda>its.
                Ret (0, b\<lparr>b_items := its, b_weight := b_weight b + w, b_size := newsize\<rparr>)))))))"

definition crush_add_straw_bucket_item :: "heap \<Rightarrow> 'd fp \<Rightarrow> nat \<Rightarrow> crush_bucket \<Rightarrow> u32 list \<Rightarrow> u32 list
    \<Rightarrow> int \<Rightarrow> int \<Rightarrow> (int \<times> crush_bucket) exec" where
  "crush_add_straw_bucket_item h fp version b ws strs item weight =
     (let newsize = b_size b + 1; w = word_of_int weight :: u32 in
      resize_base h newsize b (\<lambda>b.
        if \<not> h_ok h 2 then Ret (- ENOMEM, b)
        else if \<not> h_ok h 3 then Ret (- ENOMEM, b\<lparr>b_alg := Straw (resize32 h newsize ws) strs\<rparr>)
        else
          exec_bind (arr_set (b_items b) (int newsize - 1) item) (\<lambda>its.
          exec_bind (arr_set (resize32 h newsize ws) (int newsize - 1) w) (\<lambda>ws.
          let strs = resize32 h newsize strs; b = b\<lparr>b_items := its, b_alg := Straw ws strs\<rparr> in
          if crush_addition_is_unsafe (b_weight b) w then Ret (- ERANGE, b)
          else
            exec_bind (crush_calc_straw h 4 fp version newsize ws strs) (\<lambda>(r, strs).
              Ret (r, b\<lparr>b_alg := Straw ws strs, b_weight := b_weight b + w, b_size := newsize\<rparr>))))))"

definition crush_add_straw2_bucket_item :: "heap \<Rightarrow> crush_bucket \<Rightarrow> u32 list \<Rightarrow> int \<Rightarrow> int \<Rightarrow> (int \<times> crush_bucket) exec" where
  "crush_add_straw2_bucket_item h b ws item weight =
     (let newsize = b_size b + 1; w = word_of_int weight :: u32 in
      resize_base h newsize b (\<lambda>b.
        if \<not> h_ok h 2 then Ret (- ENOMEM, b)
        else
          exec_bind (arr_set (b_items b) (int newsize - 1) item) (\<lambda>its.
          exec_bind (arr_set (resize32 h newsize ws) (int newsize - 1) w) (\<lambda>ws.
          let b = b\<lparr>b_items := its, b_alg := Straw2 ws\<rparr> in
          if crush_addition_is_unsafe (b_weight b) w then Ret (- ERANGE, b)
          else Ret (0, b\<lparr>b_weight := b_weight b + w, b_size := newsize\<rparr>)))))"

definition crush_bucket_add_item :: "heap \<Rightarrow> 'd fp \<Rightarrow> crush_map \<Rightarrow> crush_bucket \<Rightarrow> int \<Rightarrow> int \<Rightarrow> (int \<times> crush_bucket) exec" where
  "crush_bucket_add_item h fp m b item weight =
     (let b = b\<lparr>b_perm_n := 0\<rparr> in
      case b_alg b of
        Uniform _ \<Rightarrow> crush_add_uniform_bucket_item h b item weight
      | ListAlg ws sums \<Rightarrow> crush_add_list_bucket_item h b ws sums item weight
      | TreeAlg nn nw \<Rightarrow> crush_add_tree_bucket_item h b nn nw item weight
      | Straw ws strs \<Rightarrow> crush_add_straw_bucket_item h fp (straw_calc_version m) b ws strs item weight
      | Straw2 ws \<Rightarrow> crush_add_straw2_bucket_item h b ws item weight
      | OtherAlg _ \<Rightarrow> Ret (- 1, b))"


section \<open>Removing an item\<close>

text \<open>The position of an item among the \<open>b_size\<close> first, or \<open>b_size\<close>.\<close>

primrec index_of :: "'a \<Rightarrow> 'a list \<Rightarrow> nat" where
  "index_of x [] = 0"
| "index_of x (y # ys) = (if y = x then 0 else Suc (index_of x ys))"

definition find_item :: "crush_bucket \<Rightarrow> int \<Rightarrow> nat exec" where
  "find_item b item =
     (let i = index_of item (take (b_size b) (b_items b))
      in if i < b_size b \<and> length (b_items b) \<le> i then Fault else Ret i)"

text \<open>
  \<open>for (j = i; j < n; j++) xs[j] = f (xs[j+1])\<close>.  With \<open>n\<close> the size of the array the last round reads
  one entry past it; \<open>past\<close> is what is found there.
\<close>

definition shift_down :: "'a \<Rightarrow> ('a \<Rightarrow> 'a) \<Rightarrow> nat \<Rightarrow> nat \<Rightarrow> 'a list \<Rightarrow> 'a list exec" where
  "shift_down past f i n xs =
     (if length xs < n then Fault
      else Ret (take i xs @ map (\<lambda>j. f (if Suc j < length xs then xs ! Suc j else past)) [i..<n] @ drop n xs))"

definition less_weight :: "u32 \<Rightarrow> u32 \<Rightarrow> u32" where
  "less_weight weight w = (if w < weight then weight - w else 0)"

definition crush_remove_uniform_bucket_item :: "heap \<Rightarrow> crush_bucket \<Rightarrow> u32 \<Rightarrow> int \<Rightarrow> (int \<times> crush_bucket) exec" where
  "crush_remove_uniform_bucket_item h b iw item =
     exec_bind (find_item b item) (\<lambda>i.
       if i = b_size b then Ret (- ENOENT, b)
       else
         exec_bind (shift_down (sint (h_past h)) (\<lambda>x. x) i (b_size b) (b_items b)) (\<lambda>its.
           let newsize = b_size b - 1 in
           resize_base h newsize
             (b\<lparr>b_items := its, b_size := newsize, b_weight := less_weight (b_weight b) iw\<rparr>)
             (\<lambda>b. Ret (0, b))))"

definition crush_remove_list_bucket_item :: "heap \<Rightarrow> crush_bucket \<Rightarrow> u32 list \<Rightarrow> u32 list \<Rightarrow> int
    \<Rightarrow> (int \<times> crush_bucket) exec" where
  "crush_remove_list_bucket_item h b ws sums item =
     exec_bind (find_item b item) (\<lambda>i.
       if i = b_size b then Ret (- ENOENT, b)
       else
         exec_bind (arr_get ws (int i)) (\<lambda>weight.
         exec_bind (shift_down (sint (h_past h)) (\<lambda>x. x) i (b_size b) (b_items b)) (\<lambda>its.
         exec_bind (shift_down (h_past h) (\<lambda>x. x) i (b_size b) ws) (\<lambda>ws.
         exec_bind (shift_down (h_past h) (\<lambda>x. x - weight) i (b_size b) sums) (\<lambda>sums.
           let newsize = b_size b - 1 in
           resize_base h newsize
             (b\<lparr>b_items := its, b_size := newsize, b_weight := less_weight (b_weight b) weight,
                b_alg := ListAlg ws sums\<rparr>)
             (\<lambda>b.
               if \<not> h_ok h 2 then Ret (- ENOMEM, b)
               else if \<not> h_ok h 3 then Ret (- ENOMEM, b\<lparr>b_alg := ListAlg (resize32 h newsize ws) sums\<rparr>)
               else Ret (0, b\<lparr>b_alg := ListAlg (resize32 h newsize ws) (resize32 h newsize sums)\<rparr>)))))))"

text \<open>Adding \<open>d\<close> (modulo \<open>2^32\<close>) to the \<open>k\<close> nodes above a node.\<close>

primrec shift_up :: "nat \<Rightarrow> u32 list \<Rightarrow> nat \<Rightarrow> u32 \<Rightarrow> u32 list exec" where
  "shift_up 0 nw node d = Ret nw"
| "shift_up (Suc k) nw node d =
     exec_bind (parent node) (\<lambda>node.
     exec_bind (arr_get nw (int node)) (\<lambda>v.
     exec_bind (arr_set nw (int node) (v + d)) (\<lambda>nw. shift_up k nw node d)))"

text \<open>The size without the weightless leaves at the end.\<close>

primrec trim_size :: "u32 list \<Rightarrow> nat \<Rightarrow> nat exec" where
  "trim_size nw 0 = Ret 0"
| "trim_size nw (Suc n) =
     exec_bind (arr_get nw (int (crush_calc_tree_node n))) (\<lambda>w.
       if w \<noteq> 0 then Ret (Suc n) else trim_size nw n)"

definition crush_remove_tree_bucket_item :: "heap \<Rightarrow> crush_bucket \<Rightarrow> u8 \<Rightarrow> u32 list \<Rightarrow> int \<Rightarrow> (int \<times> crush_bucket) exec" where
  "crush_remove_tree_bucket_item h b nn nw item =
     exec_bind (find_item b item) (\<lambda>i.
       if i = b_size b then Ret (- ENOENT, b)
       else
         let node = crush_calc_tree_node i; olddepth = calc_depth (b_size b) in
         exec_bind (arr_get nw (int node)) (\<lambda>weight.
         exec_bind (arr_set nw (int node) 0) (\<lambda>nw.
         exec_bind (shift_up (olddepth - 1) nw node (- weight)) (\<lambda>nw.
         exec_bind (trim_size nw (b_size b)) (\<lambda>newsize.
           let b = b\<lparr>b_weight := less_weight (b_weight b) weight, b_alg := TreeAlg nn nw\<rparr> in
           if newsize = b_size b then Ret (0, b)
           else
             resize_base h newsize b (\<lambda>b.
               let newdepth = calc_depth newsize; nn' = word_of_nat (2 ^ newdepth) :: u8 in
               if olddepth = newdepth then Ret (0, b\<lparr>b_size := newsize\<rparr>)
               else if \<not> h_ok h 2 then Ret (- ENOMEM, b\<lparr>b_alg := TreeAlg nn' nw\<rparr>)
               else Ret (0, b\<lparr>b_alg := TreeAlg nn' (resize32 h (unat nn') nw), b_size := newsize\<rparr>)))))))"

text \<open>
  The straw removals compare the position with the size after it has been decremented, so the item
  in the last position is taken out and \<open>-ENOENT\<close> returned.
\<close>

definition crush_remove_straw_bucket_item :: "heap \<Rightarrow> 'd fp \<Rightarrow> nat \<Rightarrow> crush_bucket \<Rightarrow> u32 list \<Rightarrow> u32 list
    \<Rightarrow> int \<Rightarrow> (int \<times> crush_bucket) exec" where
  "crush_remove_straw_bucket_item h fp version b ws strs item =
     exec_bind (find_item b item) (\<lambda>i.
       if i = b_size b then Ret (- ENOENT, b)
       else
         let newsize = b_size b - 1 in
         exec_bind (arr_get ws (int i)) (\<lambda>weight.
         exec_bind (shift_down (sint (h_past h)) (\<lambda>x. x) i newsize (b_items b)) (\<lambda>its.
         exec_bind (shift_down (h_past h) (\<lambda>x. x) i newsize ws) (\<lambda>ws.
           let b = b\<lparr>b_items := its, b_size := newsize, b_weight := less_weight (b_weight b) weight,
                     b_alg := Straw ws strs\<rparr> in
           if i = b_size b then Ret (- ENOENT, b)
           else
             resize_base h newsize b (\<lambda>b.
               if \<not> h_ok h 2 then Ret (- ENOMEM, b)
               else if \<not> h_ok h 3 then Ret (- ENOMEM, b\<lparr>b_alg := Straw (resize32 h newsize ws) strs\<rparr>)
               else
                 let ws = resize32 h newsize ws; strs = resize32 h newsize strs in
                 exec_bind (crush_calc_straw h 4 fp version newsize ws strs) (\<lambda>(r, strs).
                   Ret (r, b\<lparr>b_alg := Straw ws strs\<rparr>)))))))"

definition crush_remove_straw2_bucket_item :: "heap \<Rightarrow> crush_bucket \<Rightarrow> u32 list \<Rightarrow> int \<Rightarrow> (int \<times> crush_bucket) exec" where
  "crush_remove_straw2_bucket_item h b ws item =
     exec_bind (find_item b item) (\<lambda>i.
       if i = b_size b then Ret (- ENOENT, b)
       else
         let newsize = b_size b - 1 in
         exec_bind (arr_get ws (int i)) (\<lambda>weight.
         exec_bind (shift_down (sint (h_past h)) (\<lambda>x. x) i newsize (b_items b)) (\<lambda>its.
         exec_bind (shift_down (h_past h) (\<lambda>x. x) i newsize ws) (\<lambda>ws.
           let b = b\<lparr>b_items := its, b_size := newsize, b_weight := less_weight (b_weight b) weight,
                     b_alg := Straw2 ws\<rparr> in
           if i = b_size b then Ret (- ENOENT, b)
           else
             resize_base h newsize b (\<lambda>b.
               if \<not> h_ok h 2 then Ret (- ENOMEM, b)
               else Ret (0, b\<lparr>b_alg := Straw2 (resize32 h newsize ws)\<rparr>))))))"

definition crush_bucket_remove_item :: "heap \<Rightarrow> 'd fp \<Rightarrow> crush_map \<Rightarrow> crush_bucket \<Rightarrow> int \<Rightarrow> (int \<times> crush_bucket) exec" where
  "crush_bucket_remove_item h fp m b item =
     (let b = b\<lparr>b_perm_n := 0\<rparr> in
      case b_alg b of
        Uniform iw \<Rightarrow> crush_remove_uniform_bucket_item h b iw item
      | ListAlg ws sums \<Rightarrow> crush_remove_list_bucket_item h b ws sums item
      | TreeAlg nn nw \<Rightarrow> crush_remove_tree_bucket_item h b nn nw item
      | Straw ws strs \<Rightarrow> crush_remove_straw_bucket_item h fp (straw_calc_version m) b ws strs item
      | Straw2 ws \<Rightarrow> crush_remove_straw2_bucket_item h b ws item
      | OtherAlg _ \<Rightarrow> Ret (- 1, b))"


section \<open>Changing the weight of an item\<close>

text \<open>The result is the difference between the new and the old weight, as a signed number.\<close>

definition weight_diff :: "int \<Rightarrow> u32 \<Rightarrow> int" where
  "weight_diff weight w = sint (word_of_int weight - w)"

definition crush_adjust_uniform_bucket_item_weight :: "crush_bucket \<Rightarrow> u32 \<Rightarrow> int \<Rightarrow> int \<Rightarrow> (int \<times> crush_bucket) exec" where
  "crush_adjust_uniform_bucket_item_weight b iw item weight =
     (let diff = sint ((word_of_int weight - iw) * word_of_nat (b_size b)); w = word_of_int weight
      in Ret (diff, b\<lparr>b_alg := Uniform w, b_weight := w * word_of_nat (b_size b)\<rparr>))"

definition crush_adjust_list_bucket_item_weight :: "crush_bucket \<Rightarrow> u32 list \<Rightarrow> u32 list \<Rightarrow> int \<Rightarrow> int
    \<Rightarrow> (int \<times> crush_bucket) exec" where
  "crush_adjust_list_bucket_item_weight b ws sums item weight =
     exec_bind (find_item b item) (\<lambda>i.
       if i = b_size b then Ret (0, b)
       else
         exec_bind (arr_get ws (int i)) (\<lambda>w.
         let diff = weight_diff weight w; d = word_of_int diff in
         exec_bind (arr_set ws (int i) (word_of_int weight)) (\<lambda>ws.
           if length sums < b_size b then Fault
           else
             let sums = take i sums @ map (\<lambda>s. s + d) (take (b_size b - i) (drop i sums)) @ drop (b_size b) sums
             in Ret (diff, b\<lparr>b_alg := ListAlg ws sums, b_weight := b_weight b + d\<rparr>))))"

definition crush_adjust_tree_bucket_item_weight :: "crush_bucket \<Rightarrow> u8 \<Rightarrow> u32 list \<Rightarrow> int \<Rightarrow> int
    \<Rightarrow> (int \<times> crush_bucket) exec" where
  "crush_adjust_tree_bucket_item_weight b nn nw item weight =
     exec_bind (find_item b item) (\<lambda>i.
       if i = b_size b then Ret (0, b)
       else
         let node = crush_calc_tree_node i in
         exec_bind (arr_get nw (int node)) (\<lambda>w.
         let diff = weight_diff weight w; d = word_of_int diff in
         exec_bind (arr_set nw (int node) (word_of_int weight)) (\<lambda>nw.
         exec_bind (shift_up (calc_depth (b_size b) - 1) nw node d) (\<lambda>nw.
           Ret (diff, b\<lparr>b_alg := TreeAlg nn nw, b_weight := b_weight b + d\<rparr>)))))"

definition crush_adjust_straw_bucket_item_weight :: "heap \<Rightarrow> 'd fp \<Rightarrow> nat \<Rightarrow> crush_bucket \<Rightarrow> u32 list \<Rightarrow> u32 list
    \<Rightarrow> int \<Rightarrow> int \<Rightarrow> (int \<times> crush_bucket) exec" where
  "crush_adjust_straw_bucket_item_weight h fp version b ws strs item weight =
     exec_bind (find_item b item) (\<lambda>i.
       if i = b_size b then Ret (0, b)
       else
         exec_bind (arr_get ws (int i)) (\<lambda>w.
         let diff = weight_diff weight w; d = word_of_int diff in
         exec_bind (arr_set ws (int i) (word_of_int weight)) (\<lambda>ws.
         exec_bind (crush_calc_straw h 0 fp version (b_size b) ws strs) (\<lambda>(r, strs).
           Ret (if r < 0 then r else diff, b\<lparr>b_alg := Straw ws strs, b_weight := b_weight b + d\<rparr>)))))"

definition crush_adjust_straw2_bucket_item_weight :: "crush_bucket \<Rightarrow> u32 list \<Rightarrow> int \<Rightarrow> int
    \<Rightarrow> (int \<times> crush_bucket) exec" where
  "crush_adjust_straw2_bucket_item_weight b ws item weight =
     exec_bind (find_item b item) (\<lambda>i.
       if i = b_size b then Ret (0, b)
       else
         exec_bind (arr_get ws (int i)) (\<lambda>w.
         let diff = weight_diff weight w in
         exec_bind (arr_set ws (int i) (word_of_int weight)) (\<lambda>ws.
           Ret (diff, b\<lparr>b_alg := Straw2 ws, b_weight := b_weight b + word_of_int diff\<rparr>))))"

definition crush_bucket_adjust_item_weight :: "heap \<Rightarrow> 'd fp \<Rightarrow> crush_map \<Rightarrow> crush_bucket \<Rightarrow> int \<Rightarrow> int
    \<Rightarrow> (int \<times> crush_bucket) exec" where
  "crush_bucket_adjust_item_weight h fp m b item weight =
     (case b_alg b of
        Uniform iw \<Rightarrow> crush_adjust_uniform_bucket_item_weight b iw item weight
      | ListAlg ws sums \<Rightarrow> crush_adjust_list_bucket_item_weight b ws sums item weight
      | TreeAlg nn nw \<Rightarrow> crush_adjust_tree_bucket_item_weight b nn nw item weight
      | Straw ws strs \<Rightarrow> crush_adjust_straw_bucket_item_weight h fp (straw_calc_version m) b ws strs item weight
      | Straw2 ws \<Rightarrow> crush_adjust_straw2_bucket_item_weight b ws item weight
      | OtherAlg _ \<Rightarrow> Ret (- 1, b))"

section \<open>Recomputing weights\<close>

text \<open>
  The recursive call is a parameter of the loops; its code is ignored, as in the source.  The bucket
  under work is read from the map and written back in each round.
\<close>

type_synonym reweight = "crush_map \<Rightarrow> int \<Rightarrow> (int \<times> crush_map) exec"

definition child_weight :: "reweight \<Rightarrow> crush_map \<Rightarrow> int \<Rightarrow> (u32 \<times> crush_map) exec" where
  "child_weight rw m i =
     exec_bind (rw m i) (\<lambda>(_, m). exec_bind (get_bucket m i) (\<lambda>c. Ret (b_weight c, m)))"

text \<open>The array of item weights of a bucket; a tree keeps them in its node weights.\<close>

definition weight_array :: "bucket_alg \<Rightarrow> u32 list" where
  "weight_array a = (case a of ListAlg ws _ \<Rightarrow> ws | TreeAlg _ nw \<Rightarrow> nw | Straw ws _ \<Rightarrow> ws | Straw2 ws \<Rightarrow> ws | _ \<Rightarrow> [])"

definition with_weights :: "bucket_alg \<Rightarrow> u32 list \<Rightarrow> bucket_alg" where
  "with_weights a ws =
     (case a of ListAlg _ sums \<Rightarrow> ListAlg ws sums | TreeAlg nn _ \<Rightarrow> TreeAlg nn ws
      | Straw _ strs \<Rightarrow> Straw ws strs | Straw2 _ \<Rightarrow> Straw2 ws | _ \<Rightarrow> a)"

fun reweight_loop :: "reweight \<Rightarrow> (nat \<Rightarrow> nat) \<Rightarrow> int \<Rightarrow> nat list \<Rightarrow> crush_map \<Rightarrow> (int \<times> crush_map) exec" where
  "reweight_loop rw cell i [] m = Ret (0, m)"
| "reweight_loop rw cell i (p # ps) m =
     exec_bind (get_bucket m i) (\<lambda>b.
     exec_bind (arr_get (b_items b) (int p)) (\<lambda>c.
     exec_bind
       (if c < 0
        then
          exec_bind (child_weight rw m c) (\<lambda>(w, m).
          exec_bind (get_bucket m i) (\<lambda>b.
          exec_bind (arr_set (weight_array (b_alg b)) (int (cell p)) w) (\<lambda>ws.
            Ret (put_bucket m i (b\<lparr>b_alg := with_weights (b_alg b) ws\<rparr>)))))
        else Ret m) (\<lambda>m.
     exec_bind (get_bucket m i) (\<lambda>b.
     exec_bind (arr_get (weight_array (b_alg b)) (int (cell p))) (\<lambda>w.
       if crush_addition_is_unsafe (b_weight b) w then Ret (- ERANGE, m)
       else reweight_loop rw cell i ps (put_bucket m i (b\<lparr>b_weight := b_weight b + w\<rparr>)))))))"

text \<open>A uniform bucket averages its bucket children when they are more than its leaves.\<close>

fun reweight_uniform_loop :: "reweight \<Rightarrow> int \<Rightarrow> nat list \<Rightarrow> u32 \<Rightarrow> nat \<Rightarrow> nat \<Rightarrow> crush_map
    \<Rightarrow> ((u32 \<times> nat \<times> nat) option \<times> crush_map) exec" where
  "reweight_uniform_loop rw i [] tot n leaves m = Ret (Some (tot, n, leaves), m)"
| "reweight_uniform_loop rw i (p # ps) tot n leaves m =
     exec_bind (get_bucket m i) (\<lambda>b.
     exec_bind (arr_get (b_items b) (int p)) (\<lambda>c.
       if c < 0
       then
         exec_bind (child_weight rw m c) (\<lambda>(w, m).
           if crush_addition_is_unsafe tot w then Ret (None, m)
           else reweight_uniform_loop rw i ps (tot + w) (Suc n) leaves m)
       else reweight_uniform_loop rw i ps tot n (Suc leaves) m))"

definition crush_reweight_uniform_bucket :: "reweight \<Rightarrow> crush_map \<Rightarrow> int \<Rightarrow> (int \<times> crush_map) exec" where
  "crush_reweight_uniform_bucket rw m i =
     exec_bind (get_bucket m i) (\<lambda>b.
     exec_bind (reweight_uniform_loop rw i [0..<b_size b] 0 0 0 m) (\<lambda>(res, m).
       case res of
         None \<Rightarrow> Ret (- ERANGE, m)
       | Some (tot, n, leaves) \<Rightarrow>
           exec_bind (get_bucket m i) (\<lambda>b.
             let iw = (if n > leaves then tot div word_of_nat n else item_weight (b_alg b))
             in Ret (0, put_bucket m i (b\<lparr>b_alg := Uniform iw, b_weight := iw * word_of_nat (b_size b)\<rparr>)))))"

definition reweight_items :: "reweight \<Rightarrow> (nat \<Rightarrow> nat) \<Rightarrow> crush_map \<Rightarrow> int \<Rightarrow> (int \<times> crush_map) exec" where
  "reweight_items rw cell m i =
     exec_bind (get_bucket m i) (\<lambda>b.
       reweight_loop rw cell i [0..<b_size b] (put_bucket m i (b\<lparr>b_weight := 0\<rparr>)))"

definition crush_reweight_list_bucket :: "reweight \<Rightarrow> crush_map \<Rightarrow> int \<Rightarrow> (int \<times> crush_map) exec" where
  "crush_reweight_list_bucket rw = reweight_items rw (\<lambda>p. p)"

definition crush_reweight_tree_bucket :: "reweight \<Rightarrow> crush_map \<Rightarrow> int \<Rightarrow> (int \<times> crush_map) exec" where
  "crush_reweight_tree_bucket rw = reweight_items rw crush_calc_tree_node"

definition crush_reweight_straw_bucket :: "heap \<Rightarrow> 'd fp \<Rightarrow> reweight \<Rightarrow> crush_map \<Rightarrow> int \<Rightarrow> (int \<times> crush_map) exec" where
  "crush_reweight_straw_bucket h fp rw m i =
     exec_bind (reweight_items rw (\<lambda>p. p) m i) (\<lambda>(r, m).
       if r \<noteq> 0 then Ret (r, m)
       else
         exec_bind (get_bucket m i) (\<lambda>b.
         exec_bind (crush_calc_straw h (nat (- 1 - i)) fp (straw_calc_version m) (b_size b)
             (weight_array (b_alg b)) (straws (b_alg b))) (\<lambda>(_, strs).
           Ret (0, put_bucket m i (b\<lparr>b_alg := Straw (weight_array (b_alg b)) strs\<rparr>)))))"

definition crush_reweight_straw2_bucket :: "reweight \<Rightarrow> crush_map \<Rightarrow> int \<Rightarrow> (int \<times> crush_map) exec" where
  "crush_reweight_straw2_bucket rw = reweight_items rw (\<lambda>p. p)"

text \<open>The fuel bounds the depth of the hierarchy.\<close>

primrec crush_reweight_bucket :: "nat \<Rightarrow> heap \<Rightarrow> 'd fp \<Rightarrow> reweight" where
  "crush_reweight_bucket 0 h fp = (\<lambda>m i. NoFuel)"
| "crush_reweight_bucket (Suc fuel) h fp = (\<lambda>m i.
     exec_bind (get_bucket m i) (\<lambda>b.
       case b_alg b of
         Uniform _ \<Rightarrow> crush_reweight_uniform_bucket (crush_reweight_bucket fuel h fp) m i
       | ListAlg _ _ \<Rightarrow> crush_reweight_list_bucket (crush_reweight_bucket fuel h fp) m i
       | TreeAlg _ _ \<Rightarrow> crush_reweight_tree_bucket (crush_reweight_bucket fuel h fp) m i
       | Straw _ _ \<Rightarrow> crush_reweight_straw_bucket h fp (crush_reweight_bucket fuel h fp) m i
       | Straw2 _ \<Rightarrow> crush_reweight_straw2_bucket (crush_reweight_bucket fuel h fp) m i
       | OtherAlg _ \<Rightarrow> Ret (- 1, m)))"

section \<open>Adding keeps buckets well-formed\<close>

lemma length_resize [simp]: "length (resize junk n xs) = n"
  by (simp add: resize_def)

lemma length_resize32 [simp]: "length (resize32 h n xs) = n"
  by (simp add: resize32_def)

lemma take_resize: "k \<le> n \<Longrightarrow> k \<le> length xs \<Longrightarrow> take k (resize junk n xs) = take k xs"
  by (simp add: resize_def min_def)

lemma resize_snoc [simp]: "n \<le> length xs \<Longrightarrow> (resize junk (Suc n) xs)[n := v] = take n xs @ [v]"
  by (rule nth_equalityI) (auto simp: resize_def nth_list_update nth_append less_Suc_eq min_def)

lemma resize32_snoc [simp]: "n \<le> length xs \<Longrightarrow> (resize32 h (Suc n) xs)[n := v] = take n xs @ [v]"
  by (simp add: resize32_def)

lemma arr_set_resize_first [simp]:
  "arr_set (resize junk (Suc 0) xs) 0 v = Ret [v]" "arr_set (resize32 h (Suc 0) ws) 0 w = Ret [w]"
  using resize_snoc [of 0 xs junk v] resize32_snoc [of 0 ws h w] by (simp_all add: arr_set_def)

text \<open>The outcome of an editing step: the code is one of the given ones, and the bucket holds either its
  old or its new contents, the new ones when the code is 0.\<close>

definition edited :: "int set \<Rightarrow> crush_bucket \<Rightarrow> (int \<times> u32) list \<Rightarrow> int \<times> crush_bucket \<Rightarrow> bool" where
  "edited codes b new res \<longleftrightarrow>
     (case res of (r, b') \<Rightarrow> r \<in> insert 0 codes \<and> bucket_wf b' \<and> b_perm_n b' = 0 \<and>
        alg_code (b_alg b') = alg_code (b_alg b) \<and> contents b' \<in> {contents b, new} \<and> (r = 0 \<longrightarrow> contents b' = new))"

lemma alg_code_simps [simp]:
  "alg_code (Uniform w) = 1" "alg_code (ListAlg ws sums) = 2" "alg_code (TreeAlg nn nw) = 3"
  "alg_code (Straw ws strs) = 4" "alg_code (Straw2 ws) = 5"
  by (simp_all add: alg_code_def)

lemma wf_arrays:
  assumes "bucket_wf b"
  shows "b_size b \<le> length (b_items b)" "b_size b \<le> length (b_perm b)"
    "uint (b_weight b) = sum_list (map uint (weight_list b))"
  using assms by (simp_all add: bucket_wf_def)

text \<open>Longer arrays and another cache change neither well-formedness nor contents.\<close>

lemma wf_same:
  assumes "bucket_wf b" "b_size b' = b_size b" "b_weight b' = b_weight b"
    and "take (b_size b) (b_items b') = take (b_size b) (b_items b)" "b_size b \<le> length (b_items b')"
    and "b_size b \<le> length (b_perm b')" "b_alg b' = b_alg b"
  shows "bucket_wf b'" "contents b' = contents b"
proof -
  have w: "weight_list b' = weight_list b" using assms(2,7) by (cases "b_alg b") (simp_all add: weight_list_def)
  show "bucket_wf b'" using assms w by (cases "b_alg b") (simp_all add: bucket_wf_def)
  show "contents b' = contents b" using assms(2,4) w by (simp add: contents_def)
qed

lemma wf_reweight_free: "bucket_wf (b\<lparr>b_perm_n := n\<rparr>) = bucket_wf b" "contents (b\<lparr>b_perm_n := n\<rparr>) = contents b"
  by (simp_all add: bucket_wf_def contents_def weight_list_def cong: bucket_alg.case_cong)

text \<open>The first two reallocations.\<close>

lemma resize_base_spec:
  assumes "bucket_wf b" "b_perm_n b = 0"
    and "\<And>perm. b_size b < length perm \<Longrightarrow>
      exec_post (k (b\<lparr>b_items := resize (\<lambda>i. sint (h_junk h i)) (b_size b + 1) (b_items b), b_perm := perm\<rparr>)) (edited codes b new)"
    and "- ENOMEM \<in> codes"
  shows "exec_post (resize_base h (b_size b + 1) b k) (edited codes b new)"
proof -
  note len = wf_arrays [OF assms(1)]
  let ?its = "resize (\<lambda>i. sint (h_junk h i)) (b_size b + 1) (b_items b)"
  have its: "take (b_size b) ?its = take (b_size b) (b_items b)" using len by (simp add: take_resize)
  have "edited codes b new (- ENOMEM, b)" using assms(1,2,4) by (simp add: edited_def)
  moreover have "edited codes b new (- ENOMEM, b\<lparr>b_items := ?its\<rparr>)"
    using assms(2,4) wf_same [OF assms(1), of "b\<lparr>b_items := ?its\<rparr>"] its len by (simp add: edited_def)
  ultimately show ?thesis
    using assms(3) [of "resize (\<lambda>i. unat (h_junk h i)) (b_size b + 1) (b_perm b)"]
    by (simp add: resize_base_def Let_def)
qed

lemma sum_list_snoc: "sum_list (map uint (xs @ [w])) = sum_list (map uint xs) + uint w"
  by simp

text \<open>A failing step that has at most enlarged arrays or written behind the last item.\<close>

lemma edited_fail:
  assumes "bucket_wf b" "b_perm_n b = 0" "r \<in> codes" "r \<noteq> 0"
    and "b_size b' = b_size b" "b_weight b' = b_weight b" "b_perm_n b' = 0"
    and "take (b_size b) (b_items b') = take (b_size b) (b_items b)" "b_size b \<le> length (b_items b')"
    and "b_size b \<le> length (b_perm b')" "bucket_wf (b\<lparr>b_alg := b_alg b'\<rparr>)"
      "weight_list (b\<lparr>b_alg := b_alg b'\<rparr>) = weight_list b" "alg_code (b_alg b') = alg_code (b_alg b)"
  shows "edited codes b new (r, b')"
proof -
  let ?b = "b\<lparr>b_alg := b_alg b'\<rparr>"
  have "contents ?b = contents b" using assms(12) by (simp add: contents_def)
  then show ?thesis using wf_same [OF assms(11), of b'] assms by (simp add: edited_def)
qed

lemma replicate_snoc: "replicate (Suc n) x = replicate n x @ [x]"
  by (simp add: replicate_append_same)

lemma add_uniform:
  assumes "bucket_wf b" "b_perm_n b = 0" "b_alg b = Uniform (word_of_int weight)"
  shows "exec_post (crush_add_uniform_bucket_item h b item weight)
    (edited {- ENOMEM, - ERANGE} b (contents b @ [(item, word_of_int weight)]))"
  unfolding crush_add_uniform_bucket_item_def Let_def
proof (rule resize_base_spec [OF assms(1,2)], goal_cases)
  case (1 perm)
  let ?w = "word_of_int weight :: u32"
  let ?b = "b\<lparr>b_perm := perm, b_items := take (b_size b) (b_items b) @ [item]\<rparr>"
  note len = wf_arrays [OF assms(1)]
  have "edited {- ENOMEM, - ERANGE} b (contents b @ [(item, ?w)]) (- ERANGE, ?b)"
    using assms(1,2) len 1 by (intro edited_fail) (simp_all add: weight_list_def)
  moreover have "edited {- ENOMEM, - ERANGE} b (contents b @ [(item, ?w)])
      (0, ?b\<lparr>b_weight := b_weight b + ?w, b_size := b_size b + 1\<rparr>)"
    if "\<not> crush_addition_is_unsafe (b_weight b) ?w"
    using len 1 assms(2,3) addition_safe_uint [OF that]
    by (simp add: edited_def bucket_wf_def contents_def weight_list_def replicate_snoc del: replicate_Suc)
  ultimately show ?case using len(1) by simp
qed simp

lemma add_straw2:
  assumes "bucket_wf b" "b_perm_n b = 0" "b_alg b = Straw2 ws"
  shows "exec_post (crush_add_straw2_bucket_item h b ws item weight)
    (edited {- ENOMEM, - ERANGE} b (contents b @ [(item, word_of_int weight)]))"
  unfolding crush_add_straw2_bucket_item_def Let_def
proof (rule resize_base_spec [OF assms(1,2)], goal_cases)
  case (1 perm)
  let ?w = "word_of_int weight :: u32"
  let ?b = "b\<lparr>b_perm := perm, b_items := take (b_size b) (b_items b) @ [item], b_alg := Straw2 (take (b_size b) ws @ [?w])\<rparr>"
  note len = wf_arrays [OF assms(1)]
  have ws: "b_size b \<le> length ws" using assms(1,3) by (simp add: bucket_wf_def)
  have "edited {- ENOMEM, - ERANGE} b (contents b @ [(item, ?w)])
      (- ENOMEM, b\<lparr>b_items := resize (\<lambda>i. sint (h_junk h i)) (b_size b + 1) (b_items b), b_perm := perm\<rparr>)"
    using assms(1,2) len 1 by (intro edited_fail) (simp_all add: take_resize)
  moreover have "edited {- ENOMEM, - ERANGE} b (contents b @ [(item, ?w)]) (- ERANGE, ?b)"
    using assms len 1 ws by (intro edited_fail) (simp_all add: weight_list_def bucket_wf_def)
  moreover have "edited {- ENOMEM, - ERANGE} b (contents b @ [(item, ?w)])
      (0, ?b\<lparr>b_weight := b_weight b + ?w, b_size := b_size b + 1\<rparr>)"
    if "\<not> crush_addition_is_unsafe (b_weight b) ?w"
    using len 1 assms(2,3) ws addition_safe_uint [OF that]
    by (simp add: edited_def bucket_wf_def contents_def weight_list_def)
  ultimately show ?case using len(1) ws by simp
qed simp


lemma add_straw:
  assumes "bucket_wf b" "b_perm_n b = 0" "b_alg b = Straw ws strs"
  shows "exec_post (crush_add_straw_bucket_item h fp version b ws strs item weight)
    (edited {- ENOMEM, - ERANGE} b (contents b @ [(item, word_of_int weight)]))"
  unfolding crush_add_straw_bucket_item_def Let_def
proof (rule resize_base_spec [OF assms(1,2)], goal_cases)
  case (1 perm)
  let ?w = "word_of_int weight :: u32" let ?n = "b_size b + 1"
  let ?ws = "take (b_size b) ws @ [?w]" let ?strs = "resize32 h ?n strs"
  let ?b = "b\<lparr>b_perm := perm, b_items := take (b_size b) (b_items b) @ [item], b_alg := Straw ?ws ?strs\<rparr>"
  let ?its = "resize (\<lambda>i. sint (h_junk h i)) ?n (b_items b)"
  note len = wf_arrays [OF assms(1)]
  have ws: "b_size b \<le> length ws" "b_size b \<le> length strs" using assms(1,3) by (simp_all add: bucket_wf_def)
  let ?E = "edited {- ENOMEM, - ERANGE} b (contents b @ [(item, ?w)])"
  have "?E (- ENOMEM, b\<lparr>b_items := ?its, b_perm := perm\<rparr>)"
    using assms(1,2) len 1 by (intro edited_fail) (simp_all add: take_resize)
  moreover have "?E (- ENOMEM, b\<lparr>b_items := ?its, b_perm := perm, b_alg := Straw (resize32 h ?n ws) strs\<rparr>)"
    using assms len 1 ws by (intro edited_fail) (simp_all add: take_resize weight_list_def bucket_wf_def resize32_def)
  moreover have "?E (- ERANGE, ?b)"
    using assms len 1 ws by (intro edited_fail) (simp_all add: weight_list_def bucket_wf_def)
  moreover have "exec_post (crush_calc_straw h 4 fp version ?n ?ws ?strs) (\<lambda>(r, strs').
      ?E (r, ?b\<lparr>b_alg := Straw ?ws strs', b_weight := b_weight b + ?w, b_size := ?n\<rparr>))"
    if "\<not> crush_addition_is_unsafe (b_weight b) ?w"
    using calc_straw_spec [of ?n ?ws ?strs h 4 fp version] len 1 assms(2,3) ws addition_safe_uint [OF that]
    by (elim meta_impE exec_post_mono) (auto simp: edited_def bucket_wf_def contents_def weight_list_def)
  ultimately show ?case using len(1) ws by (simp add: split_def)
qed simp

lemma add_list:
  assumes "bucket_wf b" "b_perm_n b = 0" "b_alg b = ListAlg ws sums"
  shows "exec_post (crush_add_list_bucket_item h b ws sums item weight)
    (edited {- ENOMEM, - ERANGE} b (contents b @ [(item, word_of_int weight)]))"
  unfolding crush_add_list_bucket_item_def Let_def
proof (rule resize_base_spec [OF assms(1,2)], goal_cases)
  case (1 perm)
  let ?w = "word_of_int weight :: u32" let ?n = "b_size b + 1"
  let ?ws = "take (b_size b) ws @ [?w]" let ?sums = "resize32 h ?n sums"
  let ?b = "b\<lparr>b_perm := perm, b_items := take (b_size b) (b_items b) @ [item], b_alg := ListAlg ?ws ?sums\<rparr>"
  let ?its = "resize (\<lambda>i. sint (h_junk h i)) ?n (b_items b)"
  note len = wf_arrays [OF assms(1)]
  have ws: "b_size b \<le> length ws" "b_size b \<le> length sums"
    and sums: "\<And>j. j < b_size b \<Longrightarrow> uint (sums ! j) = sum_list (map uint (take (Suc j) ws))"
    using assms(1,3) by (simp_all add: bucket_wf_def)
  have sums': "resize32 h (Suc (b_size b)) sums ! j = sums ! j" if "j < b_size b" for j
    using that ws(2) by (simp add: resize32_def resize_def nth_append min_def)
  let ?E = "edited {- ENOMEM, - ERANGE} b (contents b @ [(item, ?w)])"
  let ?prev = "if b_size b = 0 then 0 else sums ! (b_size b - 1)"
  have prev: "uint ?prev = uint (b_weight b)"
    using sums [of "b_size b - 1"] len(3) assms(3) by (simp add: weight_list_def)
  have get: "arr_get (resize32 h (Suc (b_size b)) sums) (int (b_size b) - 1) = Ret (sums ! (b_size b - 1))"
    if "b_size b \<noteq> 0"
    using sums' [of "b_size b - 1"] that by (auto simp: arr_get_def nat_diff_distrib)
  have "?E (- ENOMEM, b\<lparr>b_items := ?its, b_perm := perm\<rparr>)"
    using assms(1,2) len 1 by (intro edited_fail) (simp_all add: take_resize)
  moreover have "?E (- ENOMEM, b\<lparr>b_items := ?its, b_perm := perm, b_alg := ListAlg (resize32 h ?n ws) sums\<rparr>)"
    using assms len 1 ws sums
    by (intro edited_fail) (simp_all add: take_resize weight_list_def bucket_wf_def resize32_def)
  moreover have "?E (- ERANGE, ?b)"
    using assms len 1 ws sums by (intro edited_fail) (simp_all add: weight_list_def bucket_wf_def sums')
  moreover have "?E (0, ?b\<lparr>b_alg := ListAlg ?ws (take (b_size b) sums @ [?prev + ?w]), b_weight := b_weight b + ?w,
      b_size := ?n\<rparr>)"
    if "?n > 1 \<longrightarrow> \<not> crush_addition_is_unsafe ?prev ?w"
  proof -
    have safe: "uint ?prev + uint ?w < 2 ^ 32"
      using that unsigned_less [of ?w] by (cases "b_size b = 0") (simp_all add: addition_unsafe_iff)
    then have "uint (?prev + ?w) = uint ?prev + uint ?w" "uint (b_weight b + ?w) = uint (b_weight b) + uint ?w"
      using prev by (simp_all add: uint_word_ariths)
    then show ?thesis using len 1 assms(2,3) ws sums prev
      by (simp add: edited_def bucket_wf_def contents_def weight_list_def nth_append less_Suc_eq)
  qed
  ultimately show ?case using len(1) ws get by (cases "b_size b = 0") simp_all
qed simp

lemma calc_depth_mono: "0 < sz \<Longrightarrow> sz \<le> sz' \<Longrightarrow> calc_depth sz \<le> calc_depth sz'"
  using calc_depth_le [of "calc_depth sz'" sz] calc_depth_leaves [of sz'] by force

text \<open>The depth changes exactly when the tree is full.\<close>

lemma calc_depth_Suc:
  assumes "0 < n"
  shows "calc_depth (Suc n) = (if n = 2 ^ (calc_depth n - 1) then Suc (calc_depth n) else calc_depth n)"
proof -
  have le: "n \<le> 2 ^ (calc_depth n - 1)" by (rule calc_depth_leaves [OF assms])
  have mono: "calc_depth n \<le> calc_depth (Suc n)" using assms by (intro calc_depth_mono) auto
  show ?thesis
  proof (cases "n = 2 ^ (calc_depth n - 1)")
    case True
    have "calc_depth (Suc n) \<le> Suc (calc_depth n)"
    proof (rule calc_depth_le)
      have "Suc n \<le> n + n" using assms by simp
      also have "\<dots> = 2 * 2 ^ (calc_depth n - 1)" using True by simp
      also have "\<dots> = 2 ^ (Suc (calc_depth n) - 1)" using assms by (cases "calc_depth n") (auto simp: calc_depth_def)
      finally show "Suc n \<le> 2 ^ (Suc (calc_depth n) - 1)" .
    qed simp
    moreover have "calc_depth (Suc n) \<noteq> calc_depth n"
      using calc_depth_leaves [of "Suc n"] True by (metis Suc_n_not_le_n zero_less_Suc)
    ultimately show ?thesis using True mono by simp
  next
    case False
    then have "calc_depth (Suc n) \<le> calc_depth n" using le assms by (intro calc_depth_le) simp_all
    then show ?thesis using False mono by simp
  qed
qed

text \<open>Doubling a full tree: zeroed memory on the right, the old total at the new root.\<close>

lemma tree_spec_double:
  assumes spec: "tree_spec d ws nw" and d: "0 < d" "length ws \<le> 2 ^ (d - 1)"
  shows "tree_spec (Suc d) ws ((nw @ replicate (2 ^ d) 0)[2 ^ d := nw ! (2 ^ (d - 1))])"
  unfolding tree_spec_def
proof (intro conjI allI impI)
  have len: "length nw = 2 ^ d" and val: "\<And>h q. nd h q < 2 ^ d \<Longrightarrow> uint (nw ! nd h q) = span ws h q"
    using spec by (simp_all add: tree_spec_def)
  show "length ((nw @ replicate (2 ^ d) 0)[2 ^ d := nw ! (2 ^ (d - 1))]) = 2 ^ Suc d" using len by simp
  fix h q
  assume n: "nd h q < 2 ^ Suc d"
  consider (below) "nd h q < 2 ^ d" | (root) "nd h q = 2 ^ d" | (above) "2 ^ d < nd h q" by linarith
  then show "uint ((nw @ replicate (2 ^ d) 0)[2 ^ d := nw ! (2 ^ (d - 1))] ! nd h q) = span ws h q"
  proof cases
    case below
    then show ?thesis using len val by (simp add: nth_append)
  next
    case root
    then have hq: "h = d" "q = 0" using nd_inject [of h q d 0] by (simp_all add: nd_def)
    have r: "2 ^ (d - 1) = nd (d - 1) 0" by (simp add: nd_def)
    have "nd (d - 1) 0 < 2 ^ d" using d(1) by (simp add: nd_less)
    moreover have "length ws \<le> 2 ^ d" using d(2) le_trans [OF d(2), of "2 ^ d"] by simp
    ultimately have "uint (nw ! nd (d - 1) 0) = span ws d 0"
      using val [of "d - 1" 0] span_all [OF d(2)] span_all [of ws d] by simp
    then have "uint (nw ! (2 ^ (d - 1))) = span ws d 0" by (simp only: r)
    then show ?thesis using root hq len by (simp add: nth_append)
  next
    case above
    have "{i. i < length ws \<and> i div 2 ^ h = q} = {}"
    proof (rule ccontr)
      assume "{i. i < length ws \<and> i div 2 ^ h = q} \<noteq> {}"
      then obtain i where i: "i < length ws" "i div 2 ^ h = q" by blast
      then have "i < 2 ^ (d - 1)" using d(2) by simp
      show False
      proof (cases "h < d")
        case True
        then have "nd h q < 2 ^ d" using path_less [OF \<open>i < 2 ^ (d - 1)\<close> True] i(2) by simp
        then show False using above by simp
      next
        case False
        then have "h = d" using n nd_less [of h q "Suc d"] by auto
        moreover have "i < 2 ^ d" using \<open>i < 2 ^ (d - 1)\<close> d(1) by (metis diff_le_self less_le_trans power_increasing one_le_numeral)
        ultimately have "q = 0" using i(2) by simp
        then show False using above \<open>h = d\<close> by (simp add: nd_def)
      qed
    qed
    then have "span ws h q = 0" by (simp only: span_def sum.empty)
    moreover have "nd h q - 2 ^ d < 2 ^ d" using n above by simp
    ultimately show ?thesis using above len by (simp add: nth_append)
  qed
qed

text \<open>The nodes of the enlarged tree with the leaf and the new root set, and the walk up from the leaf.\<close>

definition tree_grow :: "heap \<Rightarrow> nat \<Rightarrow> u32 list \<Rightarrow> nat \<Rightarrow> u32 \<Rightarrow> (bool \<times> u32 list) exec" where
  "tree_grow h d nw n w =
     exec_bind (arr_set (resize32 h (2 ^ d) nw) (int (nd 0 n)) w) (\<lambda>nw.
     exec_bind
       (if d \<ge> 2 \<and> nd 0 n - 1 = 2 ^ (d - 1)
        then exec_bind (arr_get nw (int (2 ^ (d - 1) div 2))) (\<lambda>v. arr_set nw (int (2 ^ (d - 1))) v)
        else Ret nw) (\<lambda>nw. add_up (d - 1) nw (nd 0 n) w))"

lemma resize_zero:
  assumes "\<forall>i. h_junk h i = 0"
  shows "length nw \<le> k \<Longrightarrow> resize32 h k nw = nw @ replicate (k - length nw) 0"
proof -
  have "map (h_junk h) [length nw..<k] = replicate (k - length nw) 0"
    using assms by (intro nth_equalityI) simp_all
  then show "length nw \<le> k \<Longrightarrow> resize32 h k nw = nw @ replicate (k - length nw) 0"
    by (simp add: resize32_def resize_def)
qed

lemma tree_grow_first: "\<exists>nw'. tree_grow h 1 nw 0 w = Ret (True, nw') \<and> tree_spec 1 [w] nw'"
proof -
  have "nd 0 0 = 1" by (simp add: nd_def)
  then have "tree_grow h 1 nw 0 w = Ret (True, (resize32 h 2 nw)[1 := w])"
    by (simp add: tree_grow_def arr_set_def)
  moreover have "tree_spec 1 [w] ((resize32 h 2 nw)[1 := w])"
  proof -
    have "nd h q < 2 \<longleftrightarrow> h = 0 \<and> q = 0" for h q using nd_less [of h q 1] by auto
    then show ?thesis by (auto simp: tree_spec_def span_leaf \<open>nd 0 0 = 1\<close>)
  qed
  ultimately show ?thesis by blast
qed

lemma tree_grow_same:
  assumes spec: "tree_spec d ws nw" and d: "length ws < 2 ^ (d - 1)" "0 < d" "2 * length ws \<noteq> 2 ^ (d - 1)"
    and small: "sum_list (map uint ws) + uint w < 2 ^ 32"
  shows "\<exists>nw'. tree_grow h d nw (length ws) w = Ret (True, nw') \<and> tree_spec d (ws @ [w]) nw'"
proof -
  have len: "length nw = 2 ^ d" using spec by (simp add: tree_spec_def)
  have leaf: "nd 0 (length ws) < 2 ^ d" using path_less [OF d(1,2)] by simp
  have "nd 0 (length ws) - 1 \<noteq> 2 ^ (d - 1)" using d(3) by (simp add: nd_def)
  moreover have "resize32 h (2 ^ d) nw = nw" using len by (simp add: resize32_def resize_def)
  ultimately show ?thesis using tree_spec_snoc [OF spec d(1,2) small] leaf len
    by (simp add: tree_grow_def)
qed

lemma tree_grow_double:
  assumes spec: "tree_spec d ws nw" and d: "0 < d" "length ws = 2 ^ (d - 1)"
    and small: "sum_list (map uint ws) + uint w < 2 ^ 32" and zero: "\<forall>i. h_junk h i = 0"
  shows "\<exists>nw'. tree_grow h (Suc d) nw (length ws) w = Ret (True, nw') \<and> tree_spec (Suc d) (ws @ [w]) nw'"
proof -
  have len: "length nw = 2 ^ d" using spec by (simp add: tree_spec_def)
  let ?nw1 = "nw @ replicate (2 ^ d) 0" let ?leaf = "nd 0 (length ws)" let ?r = "2 ^ d :: nat"
  have leaf: "?leaf = 2 ^ d + 1" using d by (cases d) (simp_all add: nd_def)
  have p: "(2 :: nat) ^ d div 2 = 2 ^ (d - 1)" "(2 :: nat) ^ (d - 1) < 2 ^ d" using d(1) by (cases d; simp)+
  have "resize32 h (2 ^ Suc d) nw = ?nw1" using resize_zero [OF zero, of nw "2 ^ Suc d"] len by simp
  moreover have "arr_set ?nw1 (int ?leaf) w = Ret (?nw1[?leaf := w])"
    using len leaf one_less_power [of "2 :: nat" d] d(1) by (intro arr_set_in) simp
  moreover have "arr_get (?nw1[?leaf := w]) (2 ^ d div 2) = Ret (nw ! (2 ^ (d - 1)))"
  proof -
    have "(2 :: int) ^ d div 2 = int (2 ^ (d - 1))" using d(1) by (cases d) simp_all
    moreover have "arr_get (?nw1[?leaf := w]) (int (2 ^ (d - 1))) = Ret (?nw1[?leaf := w] ! (2 ^ (d - 1)))"
      using trans_less_add1 [OF p(2), of "2 ^ d"] len by (intro arr_get_in) simp
    moreover have "?nw1[?leaf := w] ! (2 ^ (d - 1)) = nw ! (2 ^ (d - 1))"
    proof -
      have "?leaf \<noteq> 2 ^ (d - 1)" using p(2) leaf by linarith
      then show ?thesis using p(2) unfolding len [symmetric] by (simp add: nth_append)
    qed
    ultimately show ?thesis by simp
  qed
  moreover have "arr_set (?nw1[?leaf := w]) (2 ^ d) v = Ret (?nw1[?r := v, ?leaf := w])" for v
  proof -
    have "arr_set (?nw1[?leaf := w]) (int ?r) v = Ret (?nw1[?leaf := w, ?r := v])"
      using len by (intro arr_set_in) simp
    then show ?thesis using leaf by (simp add: list_update_swap)
  qed
  ultimately have "tree_grow h (Suc d) nw (length ws) w =
      add_up (Suc d - 1) (?nw1[?r := nw ! (2 ^ (d - 1)), ?leaf := w]) ?leaf w"
    using d(1) leaf by (simp add: tree_grow_def zdiv_int del: power_Suc)
  moreover have "length ws < 2 ^ (Suc d - 1)" using d p(2) by simp
  ultimately show ?thesis
    using tree_spec_snoc [OF tree_spec_double [OF spec d(1)] _ _ small] d(2) by simp
qed

lemma add_tree:
  assumes "bucket_wf b" "b_perm_n b = 0" "b_alg b = TreeAlg nn nw" "b_size b < 64" "\<forall>i. h_junk h i = 0" "allocs h 3"
    and small: "uint (b_weight b) + uint (word_of_int weight :: u32) < 2 ^ 32"
  shows "exec_post (crush_add_tree_bucket_item h b nn nw item weight)
    (edited {} b (contents b @ [(item, word_of_int weight)]))"
proof -
  let ?w = "word_of_int weight :: u32" let ?n = "b_size b" let ?d = "calc_depth (Suc ?n)" let ?ws = "weight_list b"
  let ?nn = "word_of_nat (2 ^ ?d) :: u8"
  note len = wf_arrays [OF assms(1)]
  have lw: "length ?ws = ?n" using assms(3) by (simp add: weight_list_def)
  have nn: "unat ?nn = 2 ^ ?d" using assms(4) by (intro depth_small) auto
  have d: "0 < ?d" "?n < 2 ^ (?d - 1)" using calc_depth_leaves [of "Suc ?n"] by simp_all
  have root: "unat ?nn div 2 = 2 ^ (?d - 1)" using nn d(1) by (cases ?d) simp_all
  obtain nw' where nw': "tree_grow h ?d nw ?n ?w = Ret (True, nw')" "tree_spec ?d (?ws @ [?w]) nw'"
  proof (cases "?n = 0")
    case True
    then have "?d = 1" by (simp add: calc_depth_def bit_count.simps)
    then show thesis using tree_grow_first [of h nw ?w] True lw that by auto
  next
    case False
    then have spec: "tree_spec (calc_depth ?n) ?ws nw" using assms(1,3) by (simp add: bucket_wf_def)
    have sm: "sum_list (map uint ?ws) + uint ?w < 2 ^ 32" using small len(3) by simp
    have dn: "0 < calc_depth ?n" using False by simp
    show thesis
    proof (cases "?n = 2 ^ (calc_depth ?n - 1)")
      case True
      then have "?d = Suc (calc_depth ?n)" using calc_depth_Suc [of ?n] False by simp
      then show thesis using tree_grow_double [OF spec dn _ sm assms(5)] True lw that by auto
    next
      case F: False
      then have "?d = calc_depth ?n" using calc_depth_Suc [of ?n] False by simp
      moreover have "2 * ?n \<noteq> 2 ^ (calc_depth ?n - 1)"
      proof
        assume "2 * ?n = 2 ^ (calc_depth ?n - 1)"
        then obtain e where e: "calc_depth ?n - 1 = Suc e" "?n = 2 ^ e" by (cases "calc_depth ?n - 1") auto
        have "calc_depth ?n \<le> Suc e" using e(2) by (intro calc_depth_le) simp_all
        then show False using e(1) by simp
      qed
      ultimately show thesis using tree_grow_same [OF spec _ dn _ sm, of h] d(2) lw that by auto
    qed
  qed
  have w': "uint (b_weight b + ?w) = uint (b_weight b) + uint ?w" "\<not> crush_addition_is_unsafe (b_weight b) ?w"
    using small by (simp_all add: uint_word_ariths addition_unsafe_iff)
  let ?its = "take ?n (b_items b) @ [item]" let ?perm = "resize (\<lambda>i. unat (h_junk h i)) (Suc ?n) (b_perm b)"
  have ok: "h_ok h 0" "h_ok h (Suc 0)" "h_ok h 2" using assms(6) by (simp_all add: allocs_def list_all_iff)
  let ?b = "b\<lparr>b_perm := ?perm, b_alg := TreeAlg ?nn nw', b_items := ?its, b_weight := b_weight b + ?w, b_size := Suc ?n\<rparr>"
  have "crush_add_tree_bucket_item h b nn nw item weight = Ret (0, ?b)"
  proof -
    from nw'(1) obtain nw1 nw2 where e: "arr_set (resize32 h (2 ^ ?d) nw) (int (nd 0 ?n)) ?w = Ret nw1"
      "(if ?d \<ge> 2 \<and> nd 0 ?n - 1 = 2 ^ (?d - 1)
        then exec_bind (arr_get nw1 (int (2 ^ (?d - 1) div 2))) (\<lambda>v. arr_set nw1 (int (2 ^ (?d - 1))) v)
        else Ret nw1) = Ret nw2" "add_up (?d - 1) nw2 (nd 0 ?n) ?w = Ret (True, nw')"
      unfolding tree_grow_def exec_bind_eq_Ret by blast
    have r: "2 ^ ?d div 2 = (2 :: nat) ^ (?d - 1)" using d(1) by (cases ?d) simp_all
    show ?thesis
    proof (cases "?d \<ge> 2 \<and> nd 0 ?n - 1 = 2 ^ (?d - 1)")
      case True
      then obtain v where "arr_get nw1 (int (2 ^ (?d - 1) div 2)) = Ret v" "arr_set nw1 (int (2 ^ (?d - 1))) v = Ret nw2"
        using e(2) by auto
      then show ?thesis unfolding crush_add_tree_bucket_item_def Let_def resize_base_def leaf_nd
        using ok w'(2) len(1) True e(1,3) by (simp add: nn r del: of_nat_power)
    next
      case False
      then have "nw2 = nw1" using e(2) by auto
      then show ?thesis unfolding crush_add_tree_bucket_item_def Let_def resize_base_def leaf_nd
        using ok w'(2) len(1) e(1,3) False by (auto simp add: nn r simp del: of_nat_power)
    qed
  qed
  moreover have wl: "weight_list ?b = ?ws @ [?w]"
    using tree_spec_weights [OF nw'(2) d(1)] d(2) lw unfolding weight_list_def [of ?b] by (simp del: upt_Suc)
  moreover have "contents ?b = contents b @ [(item, ?w)]" using wl lw len(1) by (simp add: contents_def)
  moreover have "bucket_wf ?b" using assms(4) len nn nw'(2) w'(1) wl by (simp add: bucket_wf_def)
  ultimately show ?thesis using assms(2,3) by (simp add: edited_def)
qed

text \<open>
  When adding an item is sure to keep the bucket well-formed: the weight of a uniform bucket must be
  its item weight; a tree must have room in 8 bits of node numbers, zeroed new memory, and no failure
  half-way.
\<close>

definition add_ready :: "heap \<Rightarrow> crush_bucket \<Rightarrow> int \<Rightarrow> bool" where
  "add_ready h b weight \<longleftrightarrow>
     (case b_alg b of
        Uniform w \<Rightarrow> w = word_of_int weight
      | TreeAlg _ _ \<Rightarrow> b_size b < 64 \<and> (\<forall>i. h_junk h i = 0) \<and> allocs h 3 \<and>
          uint (b_weight b) + uint (word_of_int weight :: u32) < 2 ^ 32
      | _ \<Rightarrow> True)"

lemma edited_weaken: "edited codes b new res \<Longrightarrow> codes \<subseteq> codes' \<Longrightarrow> edited codes' b new res"
  by (auto simp: edited_def)

lemma add_item_spec:
  assumes "bucket_wf b" "add_ready h b weight"
  shows "exec_post (crush_bucket_add_item h fp m b item weight)
    (edited {- ENOMEM, - ERANGE} b (contents b @ [(item, word_of_int weight)]))"
proof -
  let ?b = "b\<lparr>b_perm_n := 0\<rparr>"
  have b: "bucket_wf ?b" "b_perm_n ?b = 0" "contents ?b = contents b" "b_alg ?b = b_alg b" "b_size ?b = b_size b"
    "b_weight ?b = b_weight b" using assms(1) by (simp_all add: wf_reweight_free)
  have same: "edited codes ?b new = edited codes b new" for codes new
    by (rule ext) (simp add: edited_def b)
  show ?thesis
  proof (cases "b_alg b")
    case (Uniform w)
    then show ?thesis using add_uniform [OF b(1,2), of weight h item] assms(2)
      by (simp add: crush_bucket_add_item_def add_ready_def same b)
  next
    case (ListAlg ws sums)
    then show ?thesis using add_list [OF b(1,2), of ws sums h item weight]
      by (simp add: crush_bucket_add_item_def same b)
  next
    case (TreeAlg nn nw)
    then have "exec_post (crush_add_tree_bucket_item h ?b nn nw item weight)
        (edited {} ?b (contents ?b @ [(item, word_of_int weight)]))"
      using assms(2) by (intro add_tree [OF b(1,2)]) (simp_all add: add_ready_def)
    then show ?thesis using TreeAlg edited_weaken
      by (simp add: crush_bucket_add_item_def same b) (blast intro: exec_post_mono)
  next
    case (Straw ws strs)
    then show ?thesis using add_straw [OF b(1,2), of ws strs h fp "straw_calc_version m" item weight]
      by (simp add: crush_bucket_add_item_def same b)
  next
    case (Straw2 ws)
    then show ?thesis using add_straw2 [OF b(1,2), of ws h item weight]
      by (simp add: crush_bucket_add_item_def same b)
  next
    case (OtherAlg n)
    then show ?thesis using assms(1) by (simp add: bucket_wf_def)
  qed
qed

lemma allocs_less: "allocs h n \<Longrightarrow> k < n \<Longrightarrow> h_ok h k"
  by (simp add: allocs_def list_all_iff)

lemma resize_base_code:
  assumes "resize_base h n b k = Ret (r, b')"
  obtains "r = - ENOMEM" "\<not> allocs h 5" | its perm where "k (b\<lparr>b_items := its, b_perm := perm\<rparr>) = Ret (r, b')"
  using assms allocs_less [of h 5 0] allocs_less [of h 5 1]
  by (auto simp: resize_base_def Let_def split: if_splits)

lemma calc_straw_code: "crush_calc_straw h 4 fp version n ws strs = Ret (r, strs') \<Longrightarrow> r = 0 \<or> r = - ENOMEM \<and> \<not> allocs h 5"
  using allocs_less [of h 5 4] by (auto simp: crush_calc_straw_def Let_def split: if_splits)

text \<open>The error codes of an addition: memory that is not there, or a weight that does not fit.\<close>

lemma add_item_codes:
  assumes wf: "bucket_wf b" "add_ready h b weight"
    and run: "crush_bucket_add_item h fp m b item weight = Ret (r, b')"
  shows "r = 0 \<or> r = - ENOMEM \<and> \<not> allocs h 5 \<or> r = - ERANGE \<and> 2 ^ 32 \<le> uint (b_weight b) + uint (word_of_int weight :: u32)"
proof -
  note ok = allocs_less [of h 5 2] allocs_less [of h 5 3]
  let ?b = "b\<lparr>b_perm_n := 0\<rparr>"
  show ?thesis
  proof (cases "b_alg b")
    case (Uniform w)
    then have "crush_add_uniform_bucket_item h ?b item weight = Ret (r, b')" using run by (simp add: crush_bucket_add_item_def)
    then show ?thesis unfolding crush_add_uniform_bucket_item_def Let_def
      by (elim resize_base_code) (auto simp: addition_unsafe_iff split: if_splits)
  next
    case (ListAlg ws sums)
    then have r: "crush_add_list_bucket_item h ?b ws sums item weight = Ret (r, b')" using run by (simp add: crush_bucket_add_item_def)
    have sum: "uint (sums ! (b_size b - 1)) = uint (b_weight b)" "b_size b \<le> length sums" if "b_size b \<noteq> 0"
      using wf(1) ListAlg that wf_arrays(3) [OF wf(1)] by (simp_all add: bucket_wf_def weight_list_def)
    have "arr_get (resize32 h (Suc (b_size b)) sums) (int (b_size b) - 1) = Ret (sums ! (b_size b - 1))" if "b_size b \<noteq> 0"
      using sum(2) [OF that] that by (auto simp: arr_get_def nat_diff_distrib resize32_def resize_def nth_append min_def)
    with r sum(1) show ?thesis unfolding crush_add_list_bucket_item_def Let_def
      by (elim resize_base_code) (auto simp: ok addition_unsafe_iff split: if_splits)
  next
    case (TreeAlg nn nw)
    then have "exec_post (crush_add_tree_bucket_item h ?b nn nw item weight)
        (edited {} ?b (contents ?b @ [(item, word_of_int weight)]))"
      using wf by (intro add_tree) (simp_all add: add_ready_def wf_reweight_free)
    then show ?thesis using TreeAlg run by (simp add: crush_bucket_add_item_def edited_def)
  next
    case (Straw ws strs)
    then have "crush_add_straw_bucket_item h fp (straw_calc_version m) ?b ws strs item weight = Ret (r, b')"
      using run by (simp add: crush_bucket_add_item_def)
    then show ?thesis unfolding crush_add_straw_bucket_item_def Let_def
      by (elim resize_base_code) (auto simp: ok addition_unsafe_iff split: if_splits dest: calc_straw_code)
  next
    case (Straw2 ws)
    then have "crush_add_straw2_bucket_item h ?b ws item weight = Ret (r, b')" using run by (simp add: crush_bucket_add_item_def)
    then show ?thesis unfolding crush_add_straw2_bucket_item_def Let_def
      by (elim resize_base_code) (auto simp: ok addition_unsafe_iff split: if_splits)
  next
    case (OtherAlg n)
    then show ?thesis using wf by (simp add: bucket_wf_def)
  qed
qed

text \<open>C11: \<open>crush_bucket_add_item\<close> on a well-formed bucket that is ready for the addition returns with a well-formed
  bucket, and with one of three results.  It reports success and the bucket holds the old items followed by
  the new one with its weight; this is the only result when memory is given and the total weight fits 32
  bits.  It reports \<open>-ENOMEM\<close> because a reallocation failed, or \<open>-ERANGE\<close> because the total weight
  does not fit 32 bits; then the bucket holds the old items or, if only the straws could not be recomputed,
  already the new one.  Ready means for a uniform bucket that the weight is the weight of its items, and for
  a tree that it has fewer than 64 items, that the memory \<open>realloc\<close> adds is zero, and that neither memory
  nor the total weight fails; list, straw and straw2 buckets are always ready.\<close>
theorem crush_bucket_add_item_appends:
  assumes "bucket_wf b" "add_ready h b weight"
  shows "exec_post (crush_bucket_add_item h fp m b item weight) (\<lambda>(r, b').
    bucket_wf b' \<and> b_perm_n b' = 0 \<and>
    (r = 0 \<and> contents b' = contents b @ [(item, word_of_int weight)] \<or>
     contents b' \<in> {contents b, contents b @ [(item, word_of_int weight)]} \<and>
       (r = - ENOMEM \<and> \<not> allocs h 5 \<or>
        r = - ERANGE \<and> 2 ^ 32 \<le> uint (b_weight b) + uint (word_of_int weight :: u32))))"
proof -
  obtain r b' where run: "crush_bucket_add_item h fp m b item weight = Ret (r, b')"
    and e: "edited {- ENOMEM, - ERANGE} b (contents b @ [(item, word_of_int weight)]) (r, b')"
    using add_item_spec [OF assms, of fp m item] by (auto simp: exec_post_def)
  then show ?thesis
    using add_item_codes [OF assms run] by (auto simp: edited_def)
qed

theorem crush_bucket_add_item_appends_witness:
  "exec_post (crush_bucket_add_item sample_heap sample_fp empty_map sample_device_bucket 5 6) (\<lambda>(r, b').
     bucket_wf b' \<and> r = 0 \<and> contents b' = [(0, 1), (1, 2), (5, 6)])"
proof -
  have "bucket_wf sample_device_bucket" "contents sample_device_bucket = [(0, 1), (1, 2)]" "b_weight sample_device_bucket = 3"
    by (simp_all add: sample_device_bucket_def bucket_wf_def contents_def weight_list_def)
  moreover have "add_ready sample_heap sample_device_bucket 6" by (simp add: add_ready_def sample_device_bucket_def)
  moreover have "allocs sample_heap 5" by (simp add: allocs_def sample_heap_def list_all_iff)
  ultimately show ?thesis
    using crush_bucket_add_item_appends [of sample_device_bucket sample_heap 6 sample_fp empty_map 5]
    by (auto elim!: exec_post_mono)
qed

text \<open>
  What a caller that adds items one by one relies on, and what it gets: the items in the order
  added, as long as no call fails.
\<close>

fun add_all :: "(crush_bucket \<Rightarrow> int \<Rightarrow> int \<Rightarrow> (int \<times> crush_bucket) exec) \<Rightarrow> crush_bucket \<Rightarrow> (int \<times> int) list
    \<Rightarrow> (int \<times> crush_bucket) exec" where
  "add_all add b [] = Ret (0, b)"
| "add_all add b ((item, weight) # rest) =
     exec_bind (add b item weight) (\<lambda>(r, b'). if r = 0 then add_all add b' rest else Ret (r, b'))"

locale item_adder =
  fixes add :: "crush_bucket \<Rightarrow> int \<Rightarrow> int \<Rightarrow> (int \<times> crush_bucket) exec"
    and kind :: "crush_bucket \<Rightarrow> bool"
  assumes add_appends: "bucket_wf b \<Longrightarrow> kind b \<Longrightarrow> exec_post (add b item weight) (\<lambda>(r, b').
    bucket_wf b' \<and> kind b' \<and> (r = 0 \<longrightarrow> contents b' = contents b @ [(item, word_of_int weight)]))"
begin

lemma add_all_contents:
  "bucket_wf b \<Longrightarrow> kind b \<Longrightarrow> exec_post (add_all add b iws) (\<lambda>(r, b').
     bucket_wf b' \<and> (r = 0 \<longrightarrow> contents b' = contents b @ map (\<lambda>(i, w). (i, word_of_int w)) iws))"
proof (induction iws arbitrary: b)
  case (Cons iw iws)
  obtain i w where iw: "iw = (i, w)" by (cases iw)
  from add_appends [OF Cons.prems, of i w] obtain r b' where
    b': "add b i w = Ret (r, b')" "bucket_wf b'" "kind b'" "r = 0 \<Longrightarrow> contents b' = contents b @ [(i, word_of_int w)]"
    by (auto simp: exec_post_def)
  show ?case
  proof (cases "r = 0")
    case True
    then show ?thesis using b' Cons.IH [OF b'(2,3)] iw by (auto elim!: exec_post_mono)
  next
    case False
    then show ?thesis using b' iw by simp
  qed
qed simp

end

text \<open>List and straw buckets take any items; the algorithm of a bucket does not change.\<close>

definition plain_bucket :: "crush_bucket \<Rightarrow> bool" where
  "plain_bucket b \<longleftrightarrow> alg_code (b_alg b) \<in> {2, 4, 5}"

interpretation adder: item_adder "crush_bucket_add_item h fp m" plain_bucket
  for h fp m
proof
  fix b item weight
  assume b: "bucket_wf b" "plain_bucket b"
  then have "add_ready h b weight"
    by (cases "b_alg b") (simp_all add: plain_bucket_def add_ready_def)
  from add_item_spec [OF b(1) this, of fp m item] b(2)
  show "exec_post (crush_bucket_add_item h fp m b item weight) (\<lambda>(r, b').
      bucket_wf b' \<and> plain_bucket b' \<and> (r = 0 \<longrightarrow> contents b' = contents b @ [(item, word_of_int weight)]))"
    by (elim exec_post_mono) (auto simp: edited_def plain_bucket_def)
qed

text \<open>Building a list, straw or straw2 bucket empty and adding its items one by one gives, when every call
  succeeds, a well-formed bucket with the same contents as making it with all items at once.\<close>
theorem add_all_equals_make:
  assumes "alg \<in> {2, 4, 5}"
  shows "exec_post (crush_make_bucket h fp m alg hsh t 0 [] (Some [])) (\<lambda>r. case r of
    None \<Rightarrow> \<not> allocs h 6
  | Some b \<Rightarrow> exec_post (add_all (crush_bucket_add_item h fp m) b iws) (\<lambda>(r, b').
      bucket_wf b' \<and> (r = 0 \<longrightarrow> contents b' = zip (map fst iws) (map word_of_int (map snd iws)))))"
proof -
  have "exec_post (crush_make_bucket h fp m alg hsh t 0 [] (Some [])) (\<lambda>r. case r of
      None \<Rightarrow> \<not> allocs h 6
    | Some b \<Rightarrow> bucket_wf b \<and> plain_bucket b \<and> contents b = [])"
    using assms by (auto simp: crush_make_bucket_def crush_make_list_bucket_def crush_make_straw_bucket_def
      crush_make_straw2_bucket_def copy_array_def crush_calc_straw_def straw_order_def bucket_wf_def weight_list_def contents_def
      plain_bucket_def allocs_def list_all_iff)
  moreover have "map (\<lambda>(i, w). (i, word_of_int w :: u32)) iws = zip (map fst iws) (map word_of_int (map snd iws))"
    by (induction iws) auto
  then have "exec_post (add_all (crush_bucket_add_item h fp m) b iws) (\<lambda>(r, b').
      bucket_wf b' \<and> (r = 0 \<longrightarrow> contents b' = zip (map fst iws) (map word_of_int (map snd iws))))"
    if "bucket_wf b" "plain_bucket b" "contents b = []" for b
    using exec_post_mono [OF adder.add_all_contents [OF that(1,2), of h fp m iws]] that(3) by fastforce
  ultimately show ?thesis by (elim exec_post_mono) (auto split: option.splits)
qed

theorem add_all_equals_make_witness:
  "exec_post (crush_make_bucket sample_heap sample_fp empty_map 5 0 1 0 [] (Some [])) (\<lambda>r. case r of
    None \<Rightarrow> False
  | Some b \<Rightarrow> exec_post (add_all (crush_bucket_add_item sample_heap sample_fp empty_map) b [(7, 1), (8, 2)]) (\<lambda>(r, b').
      r = 0 \<longrightarrow> contents b' = [(7, 1), (8, 2)]))"
  using add_all_equals_make [of 5 sample_heap sample_fp empty_map 0 1 "[(7, 1), (8, 2)]"]
  by (auto elim!: exec_post_mono split: option.splits)

section \<open>Removing an item\<close>

definition remove_nth :: "nat \<Rightarrow> 'a list \<Rightarrow> 'a list" where
  "remove_nth i xs = take i xs @ drop (Suc i) xs"

lemma resize_le [simp]: "n \<le> length xs \<Longrightarrow> resize junk n xs = take n xs" "n \<le> length ws \<Longrightarrow> resize32 h n ws = take n ws"
  by (simp_all add: resize_def resize32_def)

lemma index_of_le: "index_of x xs \<le> length xs"
  by (induction xs) auto

lemma index_of_less: "index_of x xs < length xs \<longleftrightarrow> x \<in> set xs"
  by (induction xs) auto

lemma index_of_nth: "x \<in> set xs \<Longrightarrow> xs ! index_of x xs = x"
  by (induction xs) auto

lemma find_item_in:
  assumes "b_size b \<le> length (b_items b)"
  shows "find_item b item = Ret (index_of item (bucket_items b))"
  using index_of_le [of item "bucket_items b"] assms by (auto simp: find_item_def bucket_items_def Let_def)

text \<open>Shifting moves the entries behind \<open>i\<close> down by one, whatever lies past the array.\<close>

lemma shift_down_take:
  assumes "i < n" "n \<le> length xs" "k = n \<or> k = n - 1"
  shows "\<exists>ys. shift_down past f i k xs = Ret ys \<and> length ys = length xs \<and>
    take (n - 1) ys = take i xs @ map f (take (n - 1 - i) (drop (Suc i) xs))"
proof -
  let ?g = "\<lambda>j. f (if Suc j < length xs then xs ! Suc j else past)"
  let ?ys = "take i xs @ map ?g [i..<k] @ drop k xs"
  have "map ?g [i..<n - 1] = map f (take (n - 1 - i) (drop (Suc i) xs))"
    using assms by (intro nth_equalityI) auto
  moreover have "take (n - 1) ?ys = take i xs @ map ?g [i..<n - 1]"
  proof -
    have "min (n - 1) i = i" "min (length xs) i = i" using assms(1,2) by auto
    then show ?thesis using assms by (elim disjE) (simp_all add: take_map take_upt)
  qed
  moreover have "length ?ys = length xs" using assms by auto
  ultimately show ?thesis using assms by (auto simp: shift_down_def)
qed

lemma shift_down_remove:
  assumes "i < n" "n \<le> length xs" "k = n \<or> k = n - 1"
  shows "\<exists>ys. shift_down past (\<lambda>x. x) i k xs = Ret ys \<and> length ys = length xs \<and>
    take (n - 1) ys = remove_nth i (take n xs)"
proof -
  have "take (n - Suc i) (drop (Suc i) xs) = drop (Suc i) (take n xs)" by (simp add: drop_take)
  then show ?thesis using shift_down_take [OF assms, of past "\<lambda>x. x"] assms(1)
    by (auto simp: remove_nth_def min_def)
qed

lemma sum_remove_nth:
  assumes "i < length ws"
  shows "sum_list (map uint (remove_nth i ws)) = sum_list (map uint ws) - uint (ws ! i)"
proof -
  have "ws = take i ws @ ws ! i # drop (Suc i) ws" using assms by (rule id_take_nth_drop)
  then have "sum_list (map uint ws) = sum_list (map uint (take i ws)) + (uint (ws ! i) + sum_list (map uint (drop (Suc i) ws)))"
    by (metis list.simps(9) map_append sum_list.Cons sum_list_append)
  then show ?thesis by (simp add: remove_nth_def)
qed

lemma length_remove_nth: "i < length xs \<Longrightarrow> length (remove_nth i xs) = length xs - 1"
  by (simp add: remove_nth_def)

lemma zip_remove_nth: "length xs = length ys \<Longrightarrow> remove_nth i (zip xs ys) = zip (remove_nth i xs) (remove_nth i ys)"
  by (simp add: remove_nth_def take_zip drop_zip)

lemma nth_le_sum: "i < length ws \<Longrightarrow> uint (ws ! i) \<le> sum_list (map uint ws)" for ws :: "u32 list"
  using member_le_sum_list [of "uint (ws ! i)" "map uint ws"] by auto

lemma less_weight_uint: "uint w \<le> uint W \<Longrightarrow> uint (less_weight W w) = uint W - uint w"
  by (auto simp: less_weight_def word_less_def uint_sub_if')

text \<open>A bucket that differs in nothing the invariant looks at.\<close>

lemma wf_alg:
  assumes "bucket_wf b" "b_size b' = b_size b" "b_weight b' = b_weight b"
    and "take (b_size b) (b_items b') = take (b_size b) (b_items b)" "b_size b \<le> length (b_items b')"
    and "b_size b \<le> length (b_perm b')" "bucket_wf (b\<lparr>b_alg := b_alg b'\<rparr>)"
      "weight_list (b\<lparr>b_alg := b_alg b'\<rparr>) = weight_list b"
  shows "bucket_wf b' \<and> contents b' = contents b"
  using wf_same [OF assms(7), of b'] assms by (simp add: contents_def)

text \<open>The outcome when the item is there: the contents without it, whatever the code.\<close>

definition removed :: "int set \<Rightarrow> crush_bucket \<Rightarrow> nat \<Rightarrow> int \<times> crush_bucket \<Rightarrow> bool" where
  "removed codes b i res \<longleftrightarrow>
     (case res of (r, b') \<Rightarrow> r \<in> codes \<and> bucket_wf b' \<and> b_perm_n b' = b_perm_n b \<and> contents b' = remove_nth i (contents b))"

lemma resize_base_shrink:
  assumes "bucket_wf b1" "b_size b1 = n" "b_perm_n b1 = b_perm_n b" "contents b1 = remove_nth i (contents b)" "- ENOMEM \<in> codes"
    and "\<And>its perm. take n its = take n (b_items b1) \<Longrightarrow> n \<le> length its \<Longrightarrow> n \<le> length perm \<Longrightarrow>
      exec_post (k (b1\<lparr>b_items := its, b_perm := perm\<rparr>)) (removed codes b i)"
  shows "exec_post (resize_base h n b1 k) (removed codes b i)"
proof -
  let ?its = "resize (\<lambda>i. sint (h_junk h i)) n (b_items b1)" let ?perm = "resize (\<lambda>i. unat (h_junk h i)) n (b_perm b1)"
  have len: "n \<le> length (b_items b1)" "n \<le> length (b_perm b1)" using wf_arrays [OF assms(1)] assms(2) by auto
  have "removed codes b i (- ENOMEM, b1)" using assms(1,3-5) by (simp add: removed_def)
  moreover have "removed codes b i (- ENOMEM, b1\<lparr>b_items := ?its\<rparr>)"
    using wf_same [OF assms(1), of "b1\<lparr>b_items := ?its\<rparr>"] assms(2-5) len by (simp add: removed_def take_resize)
  moreover have "exec_post (k (b1\<lparr>b_items := ?its, b_perm := ?perm\<rparr>)) (removed codes b i)"
    using assms(6) [of ?its ?perm] len by (simp add: take_resize)
  ultimately show ?thesis by (simp add: resize_base_def Let_def)
qed

lemma remove_uniform:
  assumes "bucket_wf b" "b_alg b = Uniform iw" "item \<in> set (bucket_items b)"
  defines "i \<equiv> index_of item (bucket_items b)"
  shows "exec_post (crush_remove_uniform_bucket_item h b iw item) (removed {0, - ENOMEM} b i)"
proof -
  note len = wf_arrays [OF assms(1)]
  have lb: "length (bucket_items b) = b_size b" using len by (simp add: bucket_items_def)
  have i: "i < b_size b" using index_of_less [of item "bucket_items b"] assms(3) lb by (simp add: i_def)
  obtain its where its: "shift_down (sint (h_past h)) (\<lambda>x. x) i (b_size b) (b_items b) = Ret its"
    "length its = length (b_items b)" "take (b_size b - 1) its = remove_nth i (take (b_size b) (b_items b))"
    using shift_down_remove [OF i len(1), of "b_size b"] by blast
  let ?b = "b\<lparr>b_items := its, b_size := b_size b - 1, b_weight := less_weight (b_weight b) iw\<rparr>"
  have wl: "weight_list ?b = remove_nth i (weight_list b)" "length (weight_list b) = b_size b" "weight_list b ! i = iw"
    using assms(2) i by (auto simp: weight_list_def remove_nth_def min_def replicate_add [symmetric])
  have "uint (less_weight (b_weight b) iw) = sum_list (map uint (weight_list ?b))"
    using nth_le_sum [of i "weight_list b"] sum_remove_nth [of i "weight_list b"] wl i len(3) less_weight_uint by simp
  then have wf: "bucket_wf ?b" using len its(2) assms(2) by (auto simp: bucket_wf_def)
  have ct: "contents ?b = remove_nth i (contents b)"
    using its(3) wl len(1) by (simp add: contents_def zip_remove_nth)
  have "exec_post (resize_base h (b_size b - 1) ?b (\<lambda>b. Ret (0, b))) (removed {0, - ENOMEM} b i)"
  proof (rule resize_base_shrink [OF wf _ _ ct], goal_cases)
    case (4 its' perm)
    then show ?case using wf_same [OF wf, of "?b\<lparr>b_items := its', b_perm := perm\<rparr>"] ct by (simp add: removed_def)
  qed simp_all
  then show ?thesis using its(1) i find_item_in [OF len(1), of item]
    by (simp add: crush_remove_uniform_bucket_item_def i_def [symmetric] Let_def)
qed

lemma take_remove_nth:
  "i < length xs \<Longrightarrow> take k (remove_nth i xs) = (if k \<le> i then take k xs else remove_nth i (take (Suc k) xs))"
  by (auto simp: remove_nth_def min_def drop_take)

text \<open>The running sums behind a removed item.\<close>

lemma remove_sums:
  fixes ws :: "u32 list"
  assumes i: "i < n" "n \<le> length ws" "n \<le> length sums"
    and sums: "\<And>j. j < n \<Longrightarrow> uint (sums ! j) = sum_list (map uint (take (Suc j) ws))"
    and ws': "take (n - 1) ws' = remove_nth i (take n ws)"
    and sums': "take (n - 1) sums' = take i sums @ map (\<lambda>x. x - ws ! i) (take (n - 1 - i) (drop (Suc i) sums))"
    and j: "j < n - 1"
  shows "uint (sums' ! j) = sum_list (map uint (take (Suc j) ws'))"
proof -
  have lw: "take (Suc j) ws' = take (Suc j) (remove_nth i (take n ws))" using j unfolding ws' [symmetric] by (simp add: min_def)
  have ls: "sums' ! j = take (n - 1) sums' ! j" using j by simp
  show ?thesis
  proof (cases "j < i")
    case True
    then have "sums' ! j = sums ! j" unfolding ls sums' using i by (simp add: nth_append)
    moreover have "take (Suc j) (remove_nth i (take n ws)) = take (Suc j) ws"
      using True i by (simp add: take_remove_nth min_def)
    ultimately show ?thesis using sums [of j] True i(1) by (simp add: lw)
  next
    case False
    then have "j - i < length (take (n - 1 - i) (drop (Suc i) sums))" "Suc i + (j - i) = Suc j" using i j by auto
    then have s: "sums' ! j = sums ! Suc j - ws ! i" unfolding ls sums' using i False by (simp add: nth_append)
    let ?t = "take (Suc (Suc j)) ws"
    have it: "i < length ?t" "?t ! i = ws ! i" using False i j by auto
    have "take (Suc j) (remove_nth i (take n ws)) = remove_nth i ?t"
      using False i j by (simp add: take_remove_nth min_def)
    moreover have "uint (sums ! Suc j) = sum_list (map uint ?t)" using sums [of "Suc j"] j by simp
    moreover have "uint (ws ! i) \<le> sum_list (map uint ?t)" using nth_le_sum [OF it(1)] it(2) by simp
    ultimately show ?thesis using sum_remove_nth [OF it(1)] it(2) by (simp add: s lw uint_sub_if')
  qed
qed

lemma remove_list:
  assumes "bucket_wf b" "b_alg b = ListAlg ws sums" "item \<in> set (bucket_items b)"
  defines "i \<equiv> index_of item (bucket_items b)"
  shows "exec_post (crush_remove_list_bucket_item h b ws sums item) (removed {0, - ENOMEM} b i)"
proof -
  let ?n = "b_size b"
  note len = wf_arrays [OF assms(1)]
  have lb: "length (bucket_items b) = ?n" using len by (simp add: bucket_items_def)
  have i: "i < ?n" using index_of_less [of item "bucket_items b"] assms(3) lb by (simp add: i_def)
  have lw: "?n \<le> length ws" "?n \<le> length sums"
    and sums: "\<And>j. j < ?n \<Longrightarrow> uint (sums ! j) = sum_list (map uint (take (Suc j) ws))"
    using assms(1,2) by (simp_all add: bucket_wf_def)
  obtain its where its: "shift_down (sint (h_past h)) (\<lambda>x. x) i ?n (b_items b) = Ret its"
    "length its = length (b_items b)" "take (?n - 1) its = remove_nth i (take ?n (b_items b))"
    using shift_down_remove [OF i len(1), of ?n] by blast
  obtain ws' where ws': "shift_down (h_past h) (\<lambda>x. x) i ?n ws = Ret ws'"
    "length ws' = length ws" "take (?n - 1) ws' = remove_nth i (take ?n ws)"
    using shift_down_remove [OF i lw(1), of ?n] by blast
  obtain sums' where sums': "shift_down (h_past h) (\<lambda>x. x - ws ! i) i ?n sums = Ret sums'"
    "length sums' = length sums"
    "take (?n - 1) sums' = take i sums @ map (\<lambda>x. x - ws ! i) (take (?n - 1 - i) (drop (Suc i) sums))"
    using shift_down_take [OF i lw(2), of ?n] by blast
  note s' = remove_sums [OF i lw sums ws'(3) sums'(3)]
  let ?b = "b\<lparr>b_items := its, b_size := ?n - 1, b_weight := less_weight (b_weight b) (ws ! i), b_alg := ListAlg ws' sums'\<rparr>"
  have wl: "weight_list ?b = remove_nth i (weight_list b)" "length (weight_list b) = ?n" "weight_list b ! i = ws ! i"
    using assms(2) i lw ws'(3) by (auto simp: weight_list_def)
  have "uint (less_weight (b_weight b) (ws ! i)) = sum_list (map uint (weight_list ?b))"
    using nth_le_sum [of i "weight_list b"] sum_remove_nth [of i "weight_list b"] wl i len(3) less_weight_uint by simp
  then have wf: "bucket_wf ?b" using len its(2) ws'(2) sums'(2) lw s' by (auto simp: bucket_wf_def)
  have ct: "contents ?b = remove_nth i (contents b)"
    using its(3) wl len(1) by (simp add: contents_def zip_remove_nth)
  have cut: "bucket_wf (?b\<lparr>b_items := its', b_perm := perm, b_alg := ListAlg ws1 sums1\<rparr>) \<and>
      contents (?b\<lparr>b_items := its', b_perm := perm, b_alg := ListAlg ws1 sums1\<rparr>) = remove_nth i (contents b)"
    if "take (?n - 1) its' = take (?n - 1) its" "?n - 1 \<le> length its'" "?n - 1 \<le> length perm"
      "ws1 = ws' \<or> ws1 = take (?n - 1) ws'" "sums1 = sums' \<or> sums1 = take (?n - 1) sums'" for its' perm ws1 sums1
  proof -
    have "?n - 1 \<le> length ws'" "?n - 1 \<le> length sums'" using lw ws'(2) sums'(2) by auto
    then have "weight_list (?b\<lparr>b_alg := ListAlg ws1 sums1\<rparr>) = weight_list ?b"
      "bucket_wf (?b\<lparr>b_alg := ListAlg ws1 sums1\<rparr>)"
      using that(4,5) wf s' by (auto simp: weight_list_def bucket_wf_def)
    then show ?thesis using wf_alg [OF wf, of "?b\<lparr>b_items := its', b_perm := perm, b_alg := ListAlg ws1 sums1\<rparr>"] that ct by simp
  qed
  have "exec_post (resize_base h (?n - 1) ?b (\<lambda>b.
      if \<not> h_ok h 2 then Ret (- ENOMEM, b)
      else if \<not> h_ok h 3 then Ret (- ENOMEM, b\<lparr>b_alg := ListAlg (resize32 h (?n - Suc 0) ws') sums'\<rparr>)
      else Ret (0, b\<lparr>b_alg := ListAlg (resize32 h (?n - Suc 0) ws') (resize32 h (?n - Suc 0) sums')\<rparr>)))
    (removed {0, - ENOMEM} b i)"
  proof (rule resize_base_shrink [OF wf _ _ ct], goal_cases)
    case (4 its' perm)
    have "?n - 1 \<le> length ws'" "?n - 1 \<le> length sums'" using lw ws'(2) sums'(2) by auto
    then show ?case using cut [of its' perm] 4 ct wf_same [OF wf, of "?b\<lparr>b_items := its', b_perm := perm\<rparr>"]
      by (simp add: removed_def)
  qed simp_all
  then show ?thesis using its(1) ws'(1) sums'(1) i lw find_item_in [OF len(1), of item]
    by (simp add: crush_remove_list_bucket_item_def i_def [symmetric] Let_def)
qed

lemma remove_straw2:
  assumes "bucket_wf b" "b_alg b = Straw2 ws" "item \<in> set (bucket_items b)"
  defines "i \<equiv> index_of item (bucket_items b)"
  shows "exec_post (crush_remove_straw2_bucket_item h b ws item)
    (removed (if i = b_size b - 1 then {- ENOENT} else {0, - ENOMEM}) b i)"
proof -
  let ?n = "b_size b"
  note len = wf_arrays [OF assms(1)]
  have lb: "length (bucket_items b) = ?n" using len by (simp add: bucket_items_def)
  have i: "i < ?n" using index_of_less [of item "bucket_items b"] assms(3) lb by (simp add: i_def)
  have lw: "?n \<le> length ws" using assms(1,2) by (simp_all add: bucket_wf_def)
  obtain its where its: "shift_down (sint (h_past h)) (\<lambda>x. x) i (?n - 1) (b_items b) = Ret its"
    "length its = length (b_items b)" "take (?n - 1) its = remove_nth i (take ?n (b_items b))"
    using shift_down_remove [OF i len(1), of "?n - 1"] by blast
  obtain ws' where ws': "shift_down (h_past h) (\<lambda>x. x) i (?n - 1) ws = Ret ws'"
    "length ws' = length ws" "take (?n - 1) ws' = remove_nth i (take ?n ws)"
    using shift_down_remove [OF i lw(1), of "?n - 1"] by blast
  let ?b = "b\<lparr>b_items := its, b_size := ?n - 1, b_weight := less_weight (b_weight b) (ws ! i), b_alg := Straw2 ws'\<rparr>"
  have wl: "weight_list ?b = remove_nth i (weight_list b)" "length (weight_list b) = ?n" "weight_list b ! i = ws ! i"
    using assms(2) i lw ws'(3) by (auto simp: weight_list_def)
  have "uint (less_weight (b_weight b) (ws ! i)) = sum_list (map uint (weight_list ?b))"
    using nth_le_sum [of i "weight_list b"] sum_remove_nth [of i "weight_list b"] wl i len(3) less_weight_uint by simp
  then have wf: "bucket_wf ?b" using len its(2) ws'(2) lw by (auto simp: bucket_wf_def)
  have ct: "contents ?b = remove_nth i (contents b)"
    using its(3) wl len(1) by (simp add: contents_def zip_remove_nth)
  have "exec_post (resize_base h (?n - 1) ?b (\<lambda>b.
      if \<not> h_ok h 2 then Ret (- ENOMEM, b) else Ret (0, b\<lparr>b_alg := Straw2 (resize32 h (?n - Suc 0) ws')\<rparr>)))
    (removed {0, - ENOMEM} b i)"
  proof (rule resize_base_shrink [OF wf _ _ ct], goal_cases)
    case (4 its' perm)
    have l: "?n - 1 \<le> length ws'" using lw ws'(2) by auto
    have "weight_list (?b\<lparr>b_alg := Straw2 (take (?n - 1) ws')\<rparr>) = weight_list ?b"
      "bucket_wf (?b\<lparr>b_alg := Straw2 (take (?n - 1) ws')\<rparr>)" using wf l by (auto simp: weight_list_def bucket_wf_def)
    then show ?case using 4 l ct wf_same [OF wf, of "?b\<lparr>b_items := its', b_perm := perm\<rparr>"]
        wf_alg [OF wf, of "?b\<lparr>b_items := its', b_perm := perm, b_alg := Straw2 (take (?n - 1) ws')\<rparr>"]
      by (simp add: removed_def)
  qed simp_all
  moreover have "removed {- ENOENT} b i (- ENOENT, ?b)" using wf ct by (simp add: removed_def)
  moreover have "crush_remove_straw2_bucket_item h b ws item =
      (if i = ?n - 1 then Ret (- ENOENT, ?b)
       else resize_base h (?n - 1) ?b (\<lambda>b.
         if \<not> h_ok h 2 then Ret (- ENOMEM, b) else Ret (0, b\<lparr>b_alg := Straw2 (resize32 h (?n - Suc 0) ws')\<rparr>)))"
    using its(1) ws'(1) i lw find_item_in [OF len(1), of item]
    by (auto simp: crush_remove_straw2_bucket_item_def i_def [symmetric] Let_def)
  ultimately show ?thesis by (cases "i = ?n - 1") simp_all
qed

lemma remove_straw:
  assumes "bucket_wf b" "b_alg b = Straw ws strs" "item \<in> set (bucket_items b)"
  defines "i \<equiv> index_of item (bucket_items b)"
  shows "exec_post (crush_remove_straw_bucket_item h fp version b ws strs item)
    (removed (if i = b_size b - 1 then {- ENOENT} else {0, - ENOMEM}) b i)"
proof -
  let ?n = "b_size b"
  note len = wf_arrays [OF assms(1)]
  have lb: "length (bucket_items b) = ?n" using len by (simp add: bucket_items_def)
  have i: "i < ?n" using index_of_less [of item "bucket_items b"] assms(3) lb by (simp add: i_def)
  have lw: "?n \<le> length ws" "?n \<le> length strs" using assms(1,2) by (simp_all add: bucket_wf_def)
  obtain its where its: "shift_down (sint (h_past h)) (\<lambda>x. x) i (?n - 1) (b_items b) = Ret its"
    "length its = length (b_items b)" "take (?n - 1) its = remove_nth i (take ?n (b_items b))"
    using shift_down_remove [OF i len(1), of "?n - 1"] by blast
  obtain ws' where ws': "shift_down (h_past h) (\<lambda>x. x) i (?n - 1) ws = Ret ws'"
    "length ws' = length ws" "take (?n - 1) ws' = remove_nth i (take ?n ws)"
    using shift_down_remove [OF i lw(1), of "?n - 1"] by blast
  let ?b = "b\<lparr>b_items := its, b_size := ?n - 1, b_weight := less_weight (b_weight b) (ws ! i), b_alg := Straw ws' strs\<rparr>"
  have wl: "weight_list ?b = remove_nth i (weight_list b)" "length (weight_list b) = ?n" "weight_list b ! i = ws ! i"
    using assms(2) i lw ws'(3) by (auto simp: weight_list_def)
  have "uint (less_weight (b_weight b) (ws ! i)) = sum_list (map uint (weight_list ?b))"
    using nth_le_sum [of i "weight_list b"] sum_remove_nth [of i "weight_list b"] wl i len(3) less_weight_uint by simp
  then have wf: "bucket_wf ?b" using len its(2) ws'(2) lw by (auto simp: bucket_wf_def)
  have ct: "contents ?b = remove_nth i (contents b)"
    using its(3) wl len(1) by (simp add: contents_def zip_remove_nth)
  let ?k = "\<lambda>b. if \<not> h_ok h 2 then Ret (- ENOMEM, b)
      else if \<not> h_ok h 3 then Ret (- ENOMEM, b\<lparr>b_alg := Straw (resize32 h (?n - Suc 0) ws') strs\<rparr>)
      else exec_bind (crush_calc_straw h 4 fp version (?n - Suc 0) (resize32 h (?n - Suc 0) ws') (resize32 h (?n - Suc 0) strs))
        (\<lambda>(r, strs'). Ret (r, b\<lparr>b_alg := Straw (resize32 h (?n - Suc 0) ws') strs'\<rparr>))"
  have "exec_post (resize_base h (?n - 1) ?b ?k) (removed {0, - ENOMEM} b i)"
  proof (rule resize_base_shrink [OF wf _ _ ct], goal_cases)
    case (4 its' perm)
    let ?ws = "take (?n - Suc 0) ws'" let ?strs = "take (?n - Suc 0) strs"
    have l: "?n - Suc 0 \<le> length ws'" "?n - Suc 0 \<le> length strs" using lw ws'(2) by auto
    have any: "removed {0, - ENOMEM} b i (r, ?b\<lparr>b_items := its', b_perm := perm, b_alg := Straw ?ws strs'\<rparr>)"
      if "?n - Suc 0 \<le> length strs'" "r = 0 \<or> r = - ENOMEM" for r strs'
    proof -
      have "weight_list (?b\<lparr>b_alg := Straw ?ws strs'\<rparr>) = weight_list ?b" "bucket_wf (?b\<lparr>b_alg := Straw ?ws strs'\<rparr>)"
        using wf l that(1) by (auto simp: weight_list_def bucket_wf_def)
      then show ?thesis using 4 ct that(2) wf_alg [OF wf, of "?b\<lparr>b_items := its', b_perm := perm, b_alg := Straw ?ws strs'\<rparr>"]
        by (auto simp: removed_def)
    qed
    have "exec_post (crush_calc_straw h 4 fp version (?n - Suc 0) ?ws ?strs) (\<lambda>(r, strs').
        (r = 0 \<or> r = - ENOMEM) \<and> length strs' = ?n - Suc 0)"
      using calc_straw_spec [of "?n - Suc 0" ?ws ?strs h 4 fp version] l by (auto elim!: exec_post_mono split: if_splits)
    then have "exec_post (crush_calc_straw h 4 fp version (?n - Suc 0) ?ws ?strs) (\<lambda>(r, strs').
        removed {0, - ENOMEM} b i (r, ?b\<lparr>b_items := its', b_perm := perm, b_alg := Straw ?ws strs'\<rparr>))"
      using any by (elim exec_post_mono) force
    then show ?case using 4 l ct wf_same [OF wf, of "?b\<lparr>b_items := its', b_perm := perm\<rparr>"] any [of strs "- ENOMEM"]
      by (simp add: removed_def split_def)
  qed simp_all
  moreover have "removed {- ENOENT} b i (- ENOENT, ?b)" using wf ct by (simp add: removed_def)
  moreover have "crush_remove_straw_bucket_item h fp version b ws strs item =
      (if i = ?n - 1 then Ret (- ENOENT, ?b) else resize_base h (?n - 1) ?b ?k)"
    unfolding crush_remove_straw_bucket_item_def Let_def One_nat_def
    using its(1) ws'(1) i lw find_item_in [OF len(1), of item] by (auto simp: i_def [symmetric])
  ultimately show ?thesis by (cases "i = ?n - 1") simp_all
qed

lemma find_absent:
  assumes "bucket_wf b" "item \<notin> set (bucket_items b)"
  shows "find_item b item = Ret (b_size b)"
proof -
  have "length (bucket_items b) = b_size b" using wf_arrays [OF assms(1)] by (simp add: bucket_items_def)
  moreover have "index_of item (bucket_items b) = length (bucket_items b)"
    using index_of_le [of item "bucket_items b"] index_of_less [of item "bucket_items b"] assms(2) by auto
  ultimately show ?thesis using find_item_in wf_arrays(1) [OF assms(1)] by simp
qed

text \<open>What a removal leaves, whatever its code.\<close>

lemma remove_item_spec:
  assumes "bucket_wf b" "alg_code (b_alg b) \<in> {1, 2, 4, 5}"
  shows "exec_post (crush_bucket_remove_item h fp m b item) (\<lambda>(r, b').
    bucket_wf b' \<and> b_perm_n b' = 0 \<and>
    (if item \<in> set (bucket_items b)
     then contents b' = remove_nth (index_of item (bucket_items b)) (contents b) \<and>
       (if alg_code (b_alg b) \<in> {4, 5} \<and> index_of item (bucket_items b) = b_size b - 1 then r = - ENOENT
        else r \<in> {0, - ENOMEM})
     else contents b' = contents b \<and> r = - ENOENT))"
proof -
  let ?b = "b\<lparr>b_perm_n := 0\<rparr>"
  have b: "bucket_wf ?b" "b_perm_n ?b = 0" "contents ?b = contents b" "b_alg ?b = b_alg b" "b_size ?b = b_size b"
    "bucket_items ?b = bucket_items b" using assms(1) by (simp_all add: wf_reweight_free bucket_items_def)
  define i where "i = index_of item (bucket_items b)"
  have i: "index_of item (bucket_items ?b) = i" by (simp add: i_def b)
  note fold_i = i_def [symmetric]
  show ?thesis
  proof (cases "item \<in> set (bucket_items b)")
    case False
    then have "find_item ?b item = Ret (b_size b)" using find_absent [OF b(1)] b by simp
    moreover have "b_alg b \<noteq> OtherAlg n" for n using assms(1) by (auto simp: bucket_wf_def)
    ultimately show ?thesis using False b assms(2)
      by (cases "b_alg b") (auto simp: crush_bucket_remove_item_def crush_remove_uniform_bucket_item_def
        crush_remove_list_bucket_item_def crush_remove_straw_bucket_item_def crush_remove_straw2_bucket_item_def)
  next
    case True
    then have in_b: "item \<in> set (bucket_items ?b)" by (simp add: b)
    show ?thesis
    proof (cases "b_alg b")
      case (Uniform w)
      then show ?thesis using remove_uniform [OF b(1) _ in_b, of w h] True
        by (auto simp: crush_bucket_remove_item_def b i fold_i removed_def elim!: exec_post_mono)
    next
      case (ListAlg ws sums)
      then show ?thesis using remove_list [OF b(1) _ in_b, of ws sums h] True
        by (auto simp: crush_bucket_remove_item_def b i fold_i removed_def elim!: exec_post_mono)
    next
      case (Straw ws strs)
      then show ?thesis using remove_straw [OF b(1) _ in_b, of ws strs h fp "straw_calc_version m"] True
        by (auto simp: crush_bucket_remove_item_def b i fold_i removed_def elim!: exec_post_mono split: if_splits)
    next
      case (Straw2 ws)
      then show ?thesis using remove_straw2 [OF b(1) _ in_b, of ws h] True
        by (auto simp: crush_bucket_remove_item_def b i fold_i removed_def elim!: exec_post_mono split: if_splits)
    next
      case (TreeAlg nn nw)
      then show ?thesis using assms(2) by simp
    next
      case (OtherAlg n)
      then show ?thesis using assms(1) by (simp add: bucket_wf_def)
    qed
  qed
qed

text \<open>The code of a removal that finds the item, apart from the last position of the straw algorithms.\<close>

lemma remove_item_codes:
  assumes "crush_bucket_remove_item h fp m b item = Ret (r, b')" "bucket_wf b" "alg_code (b_alg b) \<in> {1, 2, 4, 5}"
  shows "r = 0 \<or> r = - ENOENT \<or> r = - ENOMEM \<and> \<not> allocs h 5"
proof -
  note ok = allocs_less [of h 5 2] allocs_less [of h 5 3]
  show ?thesis
    using assms bucket_wf_def [of b]
    by (cases "b_alg b")
      (auto simp: crush_bucket_remove_item_def crush_remove_uniform_bucket_item_def crush_remove_list_bucket_item_def
        crush_remove_straw_bucket_item_def crush_remove_straw2_bucket_item_def Let_def ok
        split: if_splits elim!: resize_base_code dest: calc_straw_code)
qed

text \<open>C15: \<open>crush_bucket_remove_item\<close> on a well-formed uniform, list, straw or straw2 bucket (a tree zeroes the slot
  instead) returns, whatever memory lies past the arrays.  An item that is there is taken out, its weight
  with it, and the bucket stays well-formed; the code is 0, or \<open>-ENOMEM\<close> if a reallocation failed, except that the
  straw algorithms report \<open>-ENOENT\<close> for the item in the last position.  An item that is not there gives
  \<open>-ENOENT\<close> and changes nothing.\<close>
theorem crush_bucket_remove_item_removes:
  assumes "bucket_wf b" "alg_code (b_alg b) \<in> {1, 2, 4, 5}"
  shows "exec_post (crush_bucket_remove_item h fp m b item) (\<lambda>(r, b').
    bucket_wf b' \<and> b_perm_n b' = 0 \<and>
    (if item \<in> set (bucket_items b)
     then contents b' = remove_nth (index_of item (bucket_items b)) (contents b) \<and>
       (if alg_code (b_alg b) \<in> {4, 5} \<and> index_of item (bucket_items b) = b_size b - 1 then r = - ENOENT
        else r = 0 \<or> r = - ENOMEM \<and> \<not> allocs h 5)
     else contents b' = contents b \<and> r = - ENOENT))"
proof -
  obtain r b' where run: "crush_bucket_remove_item h fp m b item = Ret (r, b')"
    using remove_item_spec [OF assms, of h fp m item] by (auto simp: exec_post_def)
  then show ?thesis
    using remove_item_codes [OF run assms] remove_item_spec [OF assms, of h fp m item] by (auto split: if_splits)
qed

lemma sample_device_wf:
  "bucket_wf sample_device_bucket" "contents sample_device_bucket = [(0, 1), (1, 2)]"
  "alg_code (b_alg sample_device_bucket) = 5" "bucket_items sample_device_bucket = [0, 1]" "b_size sample_device_bucket = 2"
  by (simp_all add: sample_device_bucket_def bucket_wf_def contents_def weight_list_def bucket_items_def)

theorem crush_bucket_remove_item_removes_witness:
  "exec_post (crush_bucket_remove_item sample_heap sample_fp empty_map sample_device_bucket 0) (\<lambda>(r, b').
     bucket_wf b' \<and> contents b' = [(1, 2)] \<and> r \<in> {0, - ENOMEM})"
  using crush_bucket_remove_item_removes [OF sample_device_wf(1), of sample_heap sample_fp empty_map 0]
  by (auto simp: sample_device_wf remove_nth_def elim!: exec_post_mono)

text \<open>Removing the last item of a straw2 bucket takes it out and still answers \<open>-ENOENT\<close>, the code for an
  item that is not there: the position is compared with the size after the size has been decremented.\<close>
theorem crush_remove_straw2_last_enoent:
  assumes "bucket_wf b" "b_alg b = Straw2 ws" "item \<in> set (bucket_items b)"
    and "index_of item (bucket_items b) = b_size b - 1"
  shows "exec_post (crush_remove_straw2_bucket_item h b ws item) (\<lambda>(r, b').
    r = - ENOENT \<and> contents b' = butlast (contents b))"
proof -
  have "length (contents b) = b_size b"
    using wf_arrays [OF assms(1)] assms(1,2) by (simp add: contents_def weight_list_def bucket_wf_def)
  then have "remove_nth (b_size b - 1) (contents b) = butlast (contents b)"
    by (simp add: remove_nth_def butlast_conv_take)
  then show ?thesis using remove_straw2 [OF assms(1-3), of h] assms(4)
    by (auto simp: removed_def elim!: exec_post_mono)
qed

theorem crush_remove_straw2_last_enoent_witness:
  "exec_post (crush_remove_straw2_bucket_item sample_heap sample_device_bucket [1, 2] 1) (\<lambda>(r, b').
     r = - ENOENT \<and> contents b' = [(0, 1)])"
  using crush_remove_straw2_last_enoent [OF sample_device_wf(1), of "[1, 2]" 1 sample_heap]
  by (simp add: sample_device_wf) (simp add: sample_device_bucket_def bucket_header_def)

text \<open>\<open>crush_add_tree_bucket_item\<close> does not initialise the memory a growing tree gets: after a third item is
  added to a tree of two, node 6 holds its weight plus whatever the memory held, and unless that was 0
  the tree is no longer consistent.\<close>
theorem crush_add_tree_uninitialised:
  assumes "bucket_wf b" "b_alg b = TreeAlg nn nw" "b_size b = 2" "allocs h 3"
    and "uint (h_junk h 6) + uint (word_of_int weight :: u32) < 2 ^ 32"
    and "uint (b_weight b) + uint (word_of_int weight :: u32) < 2 ^ 32"
  shows "exec_post (crush_add_tree_bucket_item h b nn nw item weight) (\<lambda>(r, b'). r = 0 \<and> b_size b' = 3 \<and>
    (\<exists>nn' nw'. b_alg b' = TreeAlg nn' nw' \<and> nw' ! 6 = h_junk h 6 + word_of_int weight \<and>
      (h_junk h 6 \<noteq> 0 \<longrightarrow> \<not> bucket_wf b')))"
proof -
  let ?w = "word_of_int weight :: u32"
  have d: "calc_depth 2 = 2" "calc_depth 3 = 3" by (simp_all add: calc_depth_def bit_count.simps)
  have spec: "tree_spec 2 (weight_list b) nw" using assms(1-3) d by (auto simp: bucket_wf_def)
  then have "length nw = 4" by (simp add: tree_spec_def)
  then obtain a0 a1 a2 a3 where nw: "nw = [a0, a1, a2, a3]"
    by (auto simp: numeral_eq_Suc length_Suc_conv)
  have par: "parent 5 = Ret 6" "parent 6 = Ret 4"
    using parent_nd [of 0 2] parent_nd [of 1 1] by (simp_all add: nd_def)
  have "uint a2 = uint (b_weight b)"
  proof -
    have lw: "length (weight_list b) = 2" using assms(2,3) by (simp add: weight_list_def)
    have "nd 1 0 < 2 ^ 2" "nd 1 0 = 2" by (simp_all add: nd_def)
    then have "uint (nw ! 2) = span (weight_list b) 1 0" using spec unfolding tree_spec_def by metis
    then show ?thesis using span_all [of "weight_list b" 1] lw wf_arrays(3) [OF assms(1)] by (simp add: nw)
  qed
  then have safe: "\<not> crush_addition_is_unsafe a2 ?w" "\<not> crush_addition_is_unsafe (h_junk h 6) ?w"
      "\<not> crush_addition_is_unsafe (b_weight b) ?w"
    using assms(5,6) by (simp_all add: addition_unsafe_iff)
  let ?J = "h_junk h"
  let ?nw' = "[a0, a1, a2, a3, a2 + ?w, ?w, ?J 6 + ?w, ?J 7]"
  have up: "add_up 2 [a0, a1, a2, a3, a2, ?w, ?J 6, ?J 7] 5 ?w = Ret (True, ?nw')"
    using safe(1,2) by (simp add: numeral_2_eq_2 par arr_get_def arr_set_def)
  have "h_ok h 0" "h_ok h (Suc 0)" "h_ok h 2" using assms(4) by (simp_all add: allocs_def list_all_iff)
  then have "crush_add_tree_bucket_item h b nn nw item weight =
      Ret (0, b\<lparr>b_perm := resize (\<lambda>i. unat (?J i)) 3 (b_perm b), b_alg := TreeAlg 8 ?nw',
        b_items := take 2 (b_items b) @ [item], b_weight := b_weight b + ?w, b_size := 3\<rparr>)"
  proof -
    have "resize32 h 8 nw = [a0, a1, a2, a3, ?J 4, ?J 5, ?J 6, ?J 7]"
      by (simp add: nw resize32_def resize_def upt_rec eval_nat_numeral)
    moreover have "arr_set (resize (\<lambda>i. sint (?J i)) 3 (b_items b)) 2 item = Ret (take 2 (b_items b) @ [item])"
      using resize_snoc [of 2 "b_items b" "\<lambda>i. sint (?J i)" item] wf_arrays(1) [OF assms(1)] assms(3)
      by (simp add: arr_set_def numeral_3_eq_3 numeral_2_eq_2)
    ultimately show ?thesis using \<open>h_ok h 0\<close> \<open>h_ok h (Suc 0)\<close> \<open>h_ok h 2\<close> assms(3) safe(3) up
      by (simp add: crush_add_tree_bucket_item_def resize_base_def Let_def crush_calc_tree_node_def d arr_get_def
        arr_set_def [of "[_, _, _, _, _, _, _, _]"])
  qed
  moreover have "\<not> bucket_wf b'" if b': "b_alg b' = TreeAlg nn' ?nw'" "b_size b' = 3" "?J 6 \<noteq> 0" for b' nn'
  proof
    assume "bucket_wf b'"
    then have "tree_spec 3 (weight_list b') ?nw'" using b' d by (auto simp: bucket_wf_def)
    moreover have "nd 1 1 < 2 ^ 3" "nd 1 1 = 6" by (simp_all add: nd_def)
    ultimately have "uint (?nw' ! 6) = span (weight_list b') 1 1" unfolding tree_spec_def by metis
    moreover have "weight_list b' = [a1, a3, ?w]"
      using b' by (simp add: weight_list_def crush_calc_tree_node_def upt_rec)
    ultimately have "uint (?J 6 + ?w) = uint ?w" using span_children [of "[a1, a3, ?w]" 0 1] by (simp add: span_leaf)
    then show False using addition_safe_uint [OF safe(2)] b'(3) by (simp add: uint_0_iff)
  qed
  ultimately show ?thesis by simp
qed

definition sample_tree_bucket :: crush_bucket where
  "sample_tree_bucket = (bucket_header 0 1 2 (TreeAlg 4 [0, 1, 3, 2]))\<lparr>b_items := [7, 8], b_perm := [0, 0], b_weight := 3\<rparr>"

lemma sample_tree_wf: "bucket_wf sample_tree_bucket"
proof -
  have d: "calc_depth 2 = 2" by (simp add: calc_depth_def bit_count.simps)
  have "tree_spec 2 [1, 2] [0, 1, 3, 2]"
    unfolding tree_spec_def
  proof (intro conjI allI impI)
    fix h q
    assume "nd h q < 2 ^ 2"
    then have "h < 2" "q < 2 ^ (2 - 1 - h)" using nd_less [of h q 2] by blast+
    then have "h = 0 \<and> q = 0 \<or> h = 0 \<and> q = 1 \<or> h = 1 \<and> q = 0" by (auto simp: less_2_cases_iff)
    then show "uint ([0, 1, 3, 2 :: u32] ! nd h q) = span [1, 2] h q"
      using span_children [of "[1, 2]" 0 0] by (auto simp: nd_def span_leaf)
  qed simp
  then show ?thesis
    by (simp add: sample_tree_bucket_def bucket_wf_def weight_list_def d crush_calc_tree_node_def upt_rec)
qed

theorem crush_add_tree_uninitialised_witness:
  "exec_post (crush_add_tree_bucket_item (sample_heap\<lparr>h_junk := \<lambda>_. 5\<rparr>) sample_tree_bucket 4 [0, 1, 3, 2] 9 4)
     (\<lambda>(r, b'). r = 0 \<and> \<not> bucket_wf b')"
proof -
  have "allocs (sample_heap\<lparr>h_junk := \<lambda>_. 5\<rparr>) 3" by (simp add: allocs_def list_all_iff sample_heap_def)
  then show ?thesis
    using crush_add_tree_uninitialised [OF sample_tree_wf, of 4 "[0, 1, 3, 2]" "sample_heap\<lparr>h_junk := \<lambda>_. 5\<rparr>" 4 9]
    by (simp add: sample_tree_bucket_def) (erule exec_post_mono, auto)
qed

end
