(* ===== verification/Crush_Weights.thy ===== *)
theory Crush_Weights
  imports Crush_Edit
begin

text \<open>
  Weights after an edit (\<open>crush/builder.c\<close>): changing the weight of one item keeps every stored sum
  right, in trees too, and recomputing a hierarchy of straw2 buckets gives each bucket the total of the
  devices below it.
\<close>

unbundle bit_operations_syntax

section \<open>Changing a weight\<close>

lemma word_of_weight_diff [simp]: "word_of_int (weight_diff weight w) = word_of_int weight - w"
  by (simp add: weight_diff_def)

lemma uint_shift:
  fixes W w w' :: u32
  assumes "uint W - uint w + uint w' < 2 ^ 32" "uint w \<le> uint W"
  shows "uint (W + (w' - w)) = uint W - uint w + uint w'"
proof -
  have "uint (W + (w' - w)) = (uint W - uint w + uint w') mod 2 ^ 32"
    by (simp add: uint_word_ariths mod_simps algebra_simps)
  then show ?thesis using assms uint_ge_0 [of w'] by (simp del: uint_ge_0)
qed

lemma sum_update:
  "i < length ws \<Longrightarrow> sum_list (map uint (ws[i := w])) = sum_list (map uint ws) - uint (ws ! i) + uint w"
  by (induction ws arbitrary: i) (auto split: nat.splits)

lemma span_update:
  assumes "i < length ws"
  shows "span (ws[i := w]) h q = span ws h q + (if i div 2 ^ h = q then uint w - uint (ws ! i) else 0)"
proof -
  let ?S = "{j. j < length ws \<and> j div 2 ^ h = q}"
  have "span (ws[i := w]) h q = (\<Sum>j \<in> ?S. uint (ws ! j) + (if j = i then uint w - uint (ws ! i) else 0))"
    unfolding span_def length_list_update by (rule sum.cong) (auto simp: nth_list_update)
  also have "\<dots> = span ws h q + (\<Sum>j \<in> ?S. if j = i then uint w - uint (ws ! i) else 0)"
    by (simp add: sum.distrib span_def)
  also have "(\<Sum>j \<in> ?S. if j = i then uint w - uint (ws ! i) else 0) = (if i \<in> ?S then uint w - uint (ws ! i) else 0)"
    by (rule sum.delta) simp
  finally show ?thesis using assms by simp
qed

lemma span_member:
  assumes "i < length ws" "i div 2 ^ h = q"
  shows "uint (ws ! i) \<le> span ws h q"
  unfolding span_def using assms by (intro member_le_sum) auto

lemma shift_up_spec:
  assumes "i < 2 ^ (d - 1)"
  shows "length nw = 2 ^ d \<Longrightarrow> j + k < d \<Longrightarrow>
    \<exists>nw'. shift_up k nw (nd j (i div 2 ^ j)) w = Ret nw' \<and> length nw' = 2 ^ d \<and>
      (\<forall>h q. nd h q < 2 ^ d \<longrightarrow>
         nw' ! nd h q = nw ! nd h q + (if j < h \<and> h \<le> j + k \<and> q = i div 2 ^ h then w else 0))"
proof (induction k arbitrary: j nw)
  case 0
  then show ?case by (intro exI [of _ nw]) auto
next
  case (Suc k)
  let ?p = "nd (Suc j) (i div 2 ^ Suc j)"
  have p: "?p < 2 ^ d" using assms Suc.prems(2) by (intro path_less) auto
  have par: "parent (nd j (i div 2 ^ j)) = Ret ?p" unfolding parent_nd path_parent ..
  define nw1 where "nw1 = nw[?p := nw ! ?p + w]"
  have run: "shift_up (Suc k) nw (nd j (i div 2 ^ j)) w = shift_up k nw1 ?p w"
    using p Suc.prems(1) by (simp add: par nw1_def del: power_Suc)
  have at: "nw1 ! nd h q = (if h = Suc j \<and> q = i div 2 ^ Suc j then nw ! ?p + w else nw ! nd h q)" for h q
    using p Suc.prems(1) by (auto simp: nw1_def nth_list_update simp del: power_Suc)
  have "length nw1 = 2 ^ d" "Suc j + k < d" using Suc.prems by (simp_all add: nw1_def)
  from Suc.IH [OF this] obtain nw' where r: "shift_up k nw1 ?p w = Ret nw'" "length nw' = 2 ^ d"
    "\<forall>h q. nd h q < 2 ^ d \<longrightarrow>
       nw' ! nd h q = nw1 ! nd h q + (if Suc j < h \<and> h \<le> Suc j + k \<and> q = i div 2 ^ h then w else 0)"
    by blast
  have "nw' ! nd h q = nw ! nd h q + (if j < h \<and> h \<le> j + Suc k \<and> q = i div 2 ^ h then w else 0)"
    if "nd h q < 2 ^ d" for h q
  proof (cases "h = Suc j")
    case True
    then show ?thesis using r(3) that by (simp add: at del: power_Suc)
  next
    case False
    then have "Suc j < h \<longleftrightarrow> j < h" by auto
    then show ?thesis using r(3) that False by (simp add: at del: power_Suc)
  qed
  then show ?case unfolding run using r(1,2) by blast
qed

text \<open>A leaf gets a new weight and the nodes above it the difference.\<close>

lemma tree_spec_update:
  assumes spec: "tree_spec d ws nw" and i: "i < length ws" "length ws \<le> 2 ^ (d - 1)" "0 < d"
    and small: "sum_list (map uint ws) - uint (ws ! i) + uint w < 2 ^ 32"
  shows "\<exists>nw'. shift_up (d - 1) (nw[nd 0 i := w]) (nd 0 i) (w - ws ! i) = Ret nw' \<and> tree_spec d (ws[i := w]) nw'"
proof -
  have len: "length nw = 2 ^ d" and val: "\<And>h q. nd h q < 2 ^ d \<Longrightarrow> uint (nw ! nd h q) = span ws h q"
    using spec by (auto simp: tree_spec_def)
  have i2: "i < 2 ^ (d - 1)" using i by simp
  let ?nw1 = "nw[nd 0 i := w]"
  have "length ?nw1 = 2 ^ d" "0 + (d - 1) < d" using len i(3) by simp_all
  from shift_up_spec [OF i2 this, of "w - ws ! i"] obtain nw' where
    r: "shift_up (d - 1) ?nw1 (nd 0 i) (w - ws ! i) = Ret nw'" "length nw' = 2 ^ d"
    "\<forall>h q. nd h q < 2 ^ d \<longrightarrow>
       nw' ! nd h q = ?nw1 ! nd h q + (if 0 < h \<and> h \<le> d - 1 \<and> q = i div 2 ^ h then w - ws ! i else 0)"
    by auto
  have "uint (nw' ! nd h q) = span (ws[i := w]) h q" if n: "nd h q < 2 ^ d" for h q
  proof -
    have "h < d" using n by (simp add: nd_less)
    have leaf: "nd 0 i < length nw" using path_less [OF i2 i(3)] len by simp
    consider "h = 0 \<and> q = i" | "h = 0 \<and> q \<noteq> i" | "0 < h \<and> q = i div 2 ^ h" | "0 < h \<and> q \<noteq> i div 2 ^ h" by (metis gr0I)
    then show ?thesis
    proof cases
      case 1
      then show ?thesis using r(3) n leaf i(1) by (simp add: span_leaf)
    next
      case 2
      then show ?thesis using r(3) n val by (simp add: span_leaf)
    next
      case 3
      then have "nw' ! nd h q = nw ! nd h q + (w - ws ! i)" using r(3) n \<open>h < d\<close> by auto
      moreover have "uint (ws ! i) \<le> span ws h q" "span ws h q \<le> sum_list (map uint ws)"
        using span_member [OF i(1)] 3 span_le by auto
      ultimately show ?thesis using 3 small val [OF n] uint_shift [of "nw ! nd h q" "ws ! i" w] span_update [OF i(1), of w h q]
        by simp
    next
      case 4
      then show ?thesis using r(3) n val [OF n] span_update [OF i(1), of w h q] by auto
    qed
  qed
  then show ?thesis using r(1,2) by (auto simp: tree_spec_def)
qed

lemma length_weight_list:
  assumes "bucket_wf b"
  shows "length (weight_list b) = b_size b"
  using assms by (cases "b_alg b") (simp_all add: bucket_wf_def weight_list_def)

lemma index_in_bucket:
  assumes "bucket_wf b" "item \<in> set (bucket_items b)"
  shows "index_of item (bucket_items b) < b_size b" "find_item b item = Ret (index_of item (bucket_items b))"
    "take (b_size b) (b_items b) ! index_of item (bucket_items b) = item"
proof -
  have "length (bucket_items b) = b_size b" using wf_arrays [OF assms(1)] by (simp add: bucket_items_def)
  then show "index_of item (bucket_items b) < b_size b" using index_of_less assms(2) by metis
  show "find_item b item = Ret (index_of item (bucket_items b))" by (rule find_item_in [OF wf_arrays(1) [OF assms(1)]])
  show "take (b_size b) (b_items b) ! index_of item (bucket_items b) = item"
    using index_of_nth [OF assms(2)] by (simp add: bucket_items_def)
qed

text \<open>The bucket after a change of the weight in position \<open>i\<close>.\<close>

lemma adjusted:
  assumes wf: "bucket_wf b" and item: "item \<in> set (bucket_items b)" and i: "i = index_of item (bucket_items b)"
    and small: "sum_list (map uint (weight_list b)) - uint (weight_list b ! i) + uint w < 2 ^ 32"
    and b': "weight_list (b\<lparr>b_alg := a\<rparr>) = (weight_list b)[i := w]"
  defines "b' \<equiv> b\<lparr>b_alg := a, b_weight := b_weight b + (w - weight_list b ! i)\<rparr>"
  shows "contents b' = (contents b)[i := (item, w)]" "weight_list b' = (weight_list b)[i := w]"
    "uint (b_weight b') = sum_list (map uint (weight_list b'))"
proof -
  note i_in = index_in_bucket [OF wf item, folded i]
  have lw: "length (weight_list b) = b_size b" by (rule length_weight_list [OF wf])
  show wl: "weight_list b' = (weight_list b)[i := w]" using b' by (simp add: b'_def weight_list_def cong: bucket_alg.case_cong)
  have "zip (take (b_size b) (b_items b)) ((weight_list b)[i := w]) = (contents b)[i := (item, w)]"
    using i_in(1,3) lw wf_arrays(1) [OF wf]
    by (intro nth_equalityI) (auto simp: contents_def nth_list_update)
  then show "contents b' = (contents b)[i := (item, w)]" using wl by (simp add: contents_def b'_def)
  have "uint (weight_list b ! i) \<le> uint (b_weight b)" using nth_le_sum [of i "weight_list b"] i_in(1) lw wf_arrays(3) [OF wf] by simp
  then show "uint (b_weight b') = sum_list (map uint (weight_list b'))"
    using small wf_arrays(3) [OF wf] i_in(1) lw uint_shift [of "b_weight b" "weight_list b ! i" w]
    by (simp add: wl sum_update) (simp add: b'_def)
qed

lemma list_adjust_sums:
  fixes ws :: "u32 list"
  assumes i: "i < n" "n \<le> length ws" "n \<le> length sums"
    and sums: "\<And>j. j < n \<Longrightarrow> uint (sums ! j) = sum_list (map uint (take (Suc j) ws))"
    and small: "sum_list (map uint (take n ws)) - uint (ws ! i) + uint w < 2 ^ 32"
    and j: "j < n"
  defines "sums' \<equiv> take i sums @ map (\<lambda>s. s + (w - ws ! i)) (take (n - i) (drop i sums)) @ drop n sums"
  shows "uint (sums' ! j) = sum_list (map uint (take (Suc j) (ws[i := w])))"
proof (cases "j < i")
  case True
  then have "sums' ! j = sums ! j" using i by (simp add: sums'_def nth_append)
  then show ?thesis using sums [OF j] True by (simp add: take_update_cancel)
next
  case False
  have "j - i < length (take (n - i) (drop i sums))" "i + (j - i) = j" using i j False by auto
  then have s: "sums' ! j = sums ! j + (w - ws ! i)" using i j False by (simp add: sums'_def nth_append)
  let ?t = "take (Suc j) ws"
  have it: "i < length ?t" "?t ! i = ws ! i" using False i j by auto
  have le: "uint (ws ! i) \<le> uint (sums ! j)" using nth_le_sum [OF it(1)] it(2) sums [OF j] by simp
  have "sum_list (map uint ?t) \<le> sum_list (map uint (take n ws))"
  proof -
    have "take n ws = ?t @ drop (Suc j) (take n ws)" using j by (metis Suc_leI append_take_drop_id min_absorb1 take_take)
    then show ?thesis using sum_uint_nonneg [of "drop (Suc j) (take n ws)"] by (metis add_increasing2 map_append order_refl sum_list_append)
  qed
  then have "uint (sums ! j) - uint (ws ! i) + uint w < 2 ^ 32" using small sums [OF j] by simp
  then show ?thesis using uint_shift [OF _ le, of w] sums [OF j] it by (simp add: s take_update_swap sum_update)
qed

text \<open>The buckets with a weight for each item: the item gets its new weight, and the bucket the difference.\<close>

lemma adjust_item_weight:
  assumes wf: "bucket_wf b" and alg: "alg_code (b_alg b) \<in> {2, 3, 4, 5}"
    and small: "item \<in> set (bucket_items b) \<Longrightarrow> sum_list (map uint (weight_list b)) -
      uint (weight_list b ! index_of item (bucket_items b)) + uint (word_of_int weight :: u32) < 2 ^ 32"
  shows "exec_post (crush_bucket_adjust_item_weight h fp m b item weight) (\<lambda>(r, b').
    bucket_wf b' \<and> b_perm_n b' = b_perm_n b \<and>
    (if item \<in> set (bucket_items b)
     then contents b' = (contents b)[index_of item (bucket_items b) := (item, word_of_int weight)] \<and>
       b_weight b' = b_weight b + (word_of_int weight - weight_list b ! index_of item (bucket_items b)) \<and>
       (r = weight_diff weight (weight_list b ! index_of item (bucket_items b)) \<or>
        alg_code (b_alg b) = 4 \<and> \<not> h_ok h 0 \<and> r = - ENOMEM)
     else b' = b \<and> r = 0))"
proof (cases "item \<in> set (bucket_items b)")
  case False
  have "b_alg b \<noteq> OtherAlg n" for n using wf by (auto simp: bucket_wf_def)
  then show ?thesis using False wf alg find_absent [OF wf False]
    by (cases "b_alg b") (auto simp: crush_bucket_adjust_item_weight_def crush_adjust_list_bucket_item_weight_def
      crush_adjust_tree_bucket_item_weight_def crush_adjust_straw_bucket_item_weight_def
      crush_adjust_straw2_bucket_item_weight_def)
next
  case True
  let ?w = "word_of_int weight :: u32" let ?n = "b_size b" define i where "i = index_of item (bucket_items b)"
  note i_in = index_in_bucket [OF wf True, folded i_def]
  note len = wf_arrays [OF wf]
  have lw: "length (weight_list b) = ?n" by (rule length_weight_list [OF wf])
  have sm: "sum_list (map uint (weight_list b)) - uint (weight_list b ! i) + uint ?w < 2 ^ 32"
    using small [OF True] by (simp add: i_def)
  note adj = adjusted [OF wf True i_def sm]
  show ?thesis
  proof (cases "b_alg b")
    case (ListAlg ws sums)
    then have l: "?n \<le> length ws" "?n \<le> length sums" "weight_list b = take ?n ws"
      "\<And>j. j < ?n \<Longrightarrow> uint (sums ! j) = sum_list (map uint (take (Suc j) ws))"
      using wf by (simp_all add: bucket_wf_def weight_list_def)
    let ?sums = "take i sums @ map (\<lambda>s. s + (?w - ws ! i)) (take (?n - i) (drop i sums)) @ drop ?n sums"
    let ?a = "ListAlg (ws[i := ?w]) ?sums"
    have "weight_list (b\<lparr>b_alg := ?a\<rparr>) = (weight_list b)[i := ?w]" using l by (simp add: weight_list_def take_update_swap)
    note a = adj [OF this]
    have "uint (?sums ! j) = sum_list (map uint (take (Suc j) (ws[i := ?w])))" if "j < ?n" for j
      using list_adjust_sums [OF i_in(1) l(1,2,4) _ that] sm l i_in(1) by simp
    then have "bucket_wf (b\<lparr>b_alg := ?a, b_weight := b_weight b + (?w - weight_list b ! i)\<rparr>)"
      using a(3) len l i_in(1) by (simp add: bucket_wf_def)
    then show ?thesis using True ListAlg l i_in a(1)
      by (simp add: crush_bucket_adjust_item_weight_def crush_adjust_list_bucket_item_weight_def Let_def
        i_def [symmetric])
  next
    case (TreeAlg nn nw)
    let ?d = "calc_depth ?n" let ?ws = "weight_list b"
    have pos: "0 < ?n" using i_in(1) by simp
    have t: "?n \<le> 64" "unat nn = 2 ^ ?d" "tree_spec ?d ?ws nw" using wf TreeAlg pos by (auto simp: bucket_wf_def)
    have d: "0 < ?d" "?n \<le> 2 ^ (?d - 1)" using pos calc_depth_leaves [OF pos] by simp_all
    obtain nw' where nw': "shift_up (?d - 1) (nw[nd 0 i := ?w]) (nd 0 i) (?w - ?ws ! i) = Ret nw'"
      "tree_spec ?d (?ws[i := ?w]) nw'"
      using tree_spec_update [OF t(3) _ _ d(1) sm] i_in(1) lw d(2) by auto
    have wl: "weight_list (b\<lparr>b_alg := TreeAlg nn nw'\<rparr>) = ?ws[i := ?w]"
      using tree_spec_weights [OF nw'(2) d(1)] d(2) lw by (simp add: weight_list_def [of "b\<lparr>b_alg := TreeAlg nn nw'\<rparr>"])
    note a = adj [OF wl]
    have leaf: "nd 0 i < length nw" "nw ! nd 0 i = ?ws ! i"
      using path_less [of i ?d 0] i_in(1) d t(3) TreeAlg by (simp_all add: tree_spec_def weight_list_def leaf_nd)
    have "bucket_wf (b\<lparr>b_alg := TreeAlg nn nw', b_weight := b_weight b + (?w - ?ws ! i)\<rparr>)"
      using a(2,3) len t(1,2) nw'(2) by (simp add: bucket_wf_def)
    then show ?thesis using True TreeAlg leaf i_in a(1) nw'(1)
      by (simp add: crush_bucket_adjust_item_weight_def crush_adjust_tree_bucket_item_weight_def Let_def leaf_nd
        i_def [symmetric])
  next
    case (Straw ws strs)
    then have l: "?n \<le> length ws" "?n \<le> length strs" "weight_list b = take ?n ws"
      using wf by (simp_all add: bucket_wf_def weight_list_def)
    have b': "bucket_wf (b\<lparr>b_alg := Straw (ws[i := ?w]) strs', b_weight := b_weight b + (?w - weight_list b ! i)\<rparr>) \<and>
        contents (b\<lparr>b_alg := Straw (ws[i := ?w]) strs', b_weight := b_weight b + (?w - weight_list b ! i)\<rparr>) =
          (contents b)[i := (item, ?w)]" if "length strs' = length strs" for strs'
    proof -
      have "weight_list (b\<lparr>b_alg := Straw (ws[i := ?w]) strs'\<rparr>) = (weight_list b)[i := ?w]"
        using l by (simp add: weight_list_def take_update_swap)
      note a = adj [OF this]
      show ?thesis using a(1,3) len l that by (simp add: bucket_wf_def)
    qed
    have "exec_post (crush_calc_straw h 0 fp (straw_calc_version m) ?n (ws[i := ?w]) strs)
        (\<lambda>(r, strs'). (r = 0 \<or> \<not> h_ok h 0 \<and> r = - ENOMEM) \<and> length strs' = length strs)"
      using calc_straw_spec [of ?n "ws[i := ?w]" strs h 0 fp "straw_calc_version m"] l
      by (auto elim!: exec_post_mono split: if_splits)
    then show ?thesis using True Straw l i_in b'
      by (auto simp: crush_bucket_adjust_item_weight_def crush_adjust_straw_bucket_item_weight_def Let_def
        i_def [symmetric] elim!: exec_post_mono)
  next
    case (Straw2 ws)
    then have l: "?n \<le> length ws" "weight_list b = take ?n ws" using wf by (simp_all add: bucket_wf_def weight_list_def)
    have "weight_list (b\<lparr>b_alg := Straw2 (ws[i := ?w])\<rparr>) = (weight_list b)[i := ?w]"
      using l by (simp add: weight_list_def take_update_swap)
    note a = adj [OF this]
    have "bucket_wf (b\<lparr>b_alg := Straw2 (ws[i := ?w]), b_weight := b_weight b + (?w - weight_list b ! i)\<rparr>)"
      using a(3) len l by (simp add: bucket_wf_def)
    then show ?thesis using True Straw2 l i_in a(1)
      by (simp add: crush_bucket_adjust_item_weight_def crush_adjust_straw2_bucket_item_weight_def Let_def i_def [symmetric])
  qed (use alg wf in \<open>simp_all add: bucket_wf_def\<close>)
qed

text \<open>
  The items and weights after a change: a uniform bucket has one weight, which the code sets whatever the
  item; the others change the item found, if any.
\<close>

definition adjusted_contents :: "crush_bucket \<Rightarrow> int \<Rightarrow> u32 \<Rightarrow> (int \<times> u32) list" where
  "adjusted_contents b item w =
     (case b_alg b of
        Uniform _ \<Rightarrow> map (\<lambda>(x, _). (x, w)) (contents b)
      | _ \<Rightarrow> if item \<in> set (bucket_items b) then (contents b)[index_of item (bucket_items b) := (item, w)] else contents b)"

lemma contents_weights: "bucket_wf b \<Longrightarrow> map snd (contents b) = weight_list b"
  using length_weight_list [of b] by (simp add: contents_def bucket_wf_def)

lemma uint_times_nat:
  fixes w :: u32
  assumes "int n * uint w < 2 ^ 32"
  shows "uint (w * word_of_nat n) = int n * uint w"
proof -
  have "uint (w * word_of_nat n) = uint (word_of_int (int n * uint w) :: u32)" by (simp add: mult.commute)
  also have "\<dots> = int n * uint w" unfolding uint_word_of_int take_bit_eq_mod using assms by simp
  finally show ?thesis .
qed

lemma adjust_uniform:
  assumes wf: "bucket_wf b" and alg: "b_alg b = Uniform iw"
    and small: "int (b_size b) * uint (word_of_int weight :: u32) < 2 ^ 32"
  shows "\<exists>b'. crush_bucket_adjust_item_weight h fp m b item weight = Ret (sint (b_weight b' - b_weight b), b') \<and>
    bucket_wf b' \<and> b_perm_n b' = b_perm_n b \<and> contents b' = adjusted_contents b item (word_of_int weight)"
proof -
  let ?w = "word_of_int weight :: u32" let ?n = "word_of_nat (b_size b) :: u32"
  let ?b = "b\<lparr>b_alg := Uniform ?w, b_weight := ?w * ?n\<rparr>"
  have old: "b_weight b = iw * ?n"
  proof -
    have "word_of_int (uint (b_weight b)) = (word_of_int (int (b_size b) * uint iw) :: u32)"
      using wf alg by (simp add: bucket_wf_def weight_list_def sum_list_replicate)
    then show ?thesis by (simp add: mult.commute)
  qed
  have "uint (?w * ?n) = int (b_size b) * uint ?w" by (rule uint_times_nat [OF small])
  then have "bucket_wf ?b" using wf alg by (simp add: bucket_wf_def weight_list_def sum_list_replicate)
  moreover have "contents ?b = adjusted_contents b item ?w"
    using alg wf by (intro nth_equalityI) (simp_all add: contents_def adjusted_contents_def weight_list_def bucket_wf_def)
  moreover have "crush_bucket_adjust_item_weight h fp m b item weight = Ret (sint (b_weight ?b - b_weight b), ?b)"
    using alg by (simp add: crush_bucket_adjust_item_weight_def crush_adjust_uniform_bucket_item_weight_def Let_def old left_diff_distrib)
  ultimately show ?thesis by (intro exI [of _ ?b]) simp
qed

text \<open>C30: On a well-formed bucket of any of the five algorithms, whose total with the new weight fits 32 bits,
  \<open>crush_bucket_adjust_item_weight\<close> returns a well-formed bucket (every partial sum right again) in which the
  item has its new weight and nothing else changed; an item that is not there changes nothing; a uniform bucket
  gives the new weight to all its items, whatever the item named.  The result is the change of the bucket's
  weight, but for a straw bucket without memory for the straws it is \<open>-ENOMEM\<close>.\<close>
theorem crush_bucket_adjust_item_weight_updates:
  assumes wf: "bucket_wf b" and small: "(\<Sum>(x, w) \<leftarrow> adjusted_contents b item (word_of_int weight). uint w) < 2 ^ 32"
  shows "exec_post (crush_bucket_adjust_item_weight h fp m b item weight) (\<lambda>(r, b').
    bucket_wf b' \<and> b_perm_n b' = b_perm_n b \<and> contents b' = adjusted_contents b item (word_of_int weight) \<and>
    (r = sint (b_weight b' - b_weight b) \<or> alg_code (b_alg b) = 4 \<and> \<not> h_ok h 0 \<and> r = - ENOMEM))"
proof (cases "\<exists>iw. b_alg b = Uniform iw")
  case True
  then obtain iw where iw: "b_alg b = Uniform iw" by blast
  have "(\<Sum>(x, w) \<leftarrow> adjusted_contents b item (word_of_int weight). uint w) =
      int (b_size b) * uint (word_of_int weight :: u32)"
    using iw wf length_weight_list [OF wf]
    by (simp add: adjusted_contents_def case_prod_beta comp_def contents_def bucket_wf_def sum_list_triv)
  then show ?thesis using adjust_uniform [OF wf iw, of weight h fp m item] small by (auto simp: exec_post_def)
next
  case False
  then have alg: "alg_code (b_alg b) \<in> {2, 3, 4, 5}" using wf by (cases "b_alg b") (auto simp: bucket_wf_def)
  let ?w = "word_of_int weight :: u32" let ?i = "index_of item (bucket_items b)"
  have ac: "adjusted_contents b item ?w = (if item \<in> set (bucket_items b) then (contents b)[?i := (item, ?w)] else contents b)"
    using False by (auto simp: adjusted_contents_def split: bucket_alg.splits)
  have "sum_list (map uint (weight_list b)) - uint (weight_list b ! ?i) + uint ?w < 2 ^ 32" if "item \<in> set (bucket_items b)"
  proof -
    have "(\<Sum>(x, w) \<leftarrow> adjusted_contents b item ?w. uint w) = sum_list (map uint (map snd (adjusted_contents b item ?w)))"
      by (simp add: case_prod_unfold comp_def)
    also have "map snd (adjusted_contents b item ?w) = (weight_list b)[?i := ?w]"
      using that ac by (simp add: map_update contents_weights [OF wf])
    finally show ?thesis using small index_in_bucket [OF wf that] length_weight_list [OF wf] by (simp add: sum_update)
  qed
  from adjust_item_weight [OF wf alg this] show ?thesis
    by (rule exec_post_mono) (auto simp: ac weight_diff_def split: if_splits)
qed

theorem crush_bucket_adjust_item_weight_updates_witness:
  "exec_post (crush_bucket_adjust_item_weight sample_heap sample_fp empty_map sample_tree_bucket 7 5) (\<lambda>(r, b').
     bucket_wf b' \<and> contents b' = [(7, 5), (8, 2)] \<and> r = sint (b_weight b' - b_weight sample_tree_bucket))"
proof -
  have s: "alg_code (b_alg sample_tree_bucket) = 3" "bucket_items sample_tree_bucket = [7, 8]"
    "contents sample_tree_bucket = [(7, 1), (8, 2)]"
    by (simp_all add: sample_tree_bucket_def bucket_items_def weight_list_def contents_def crush_calc_tree_node_def upt_rec)
  have "adjusted_contents sample_tree_bucket 7 5 = [(7, 5), (8, 2)]"
    using s by (cases "b_alg sample_tree_bucket") (simp_all add: adjusted_contents_def)
  then show ?thesis
    using crush_bucket_adjust_item_weight_updates [OF sample_tree_wf, of 7 5 sample_heap sample_fp empty_map]
    by (auto simp: s elim!: exec_post_mono)
qed

section \<open>Recomputing the weights of a hierarchy\<close>

text \<open>
  A hierarchy of straw2 buckets, with a rank that makes it acyclic; and what of it reweighting keeps:
  everything but the weights of buckets, of which a parent holds copies.
\<close>

definition straw2_map :: "(int \<Rightarrow> nat) \<Rightarrow> crush_map \<Rightarrow> bool" where
  "straw2_map rk m \<longleftrightarrow> (\<forall>i b. get_bucket m i = Ret b \<longrightarrow>
     (\<exists>ws. b_alg b = Straw2 ws \<and> b_size b \<le> length ws) \<and> b_size b \<le> length (b_items b) \<and>
     (\<forall>c \<in> set (bucket_items b). c < 0 \<longrightarrow> (\<exists>b'. get_bucket m c = Ret b') \<and> rk c < rk i))"

definition same_bucket :: "crush_bucket \<Rightarrow> crush_bucket \<Rightarrow> bool" where
  "same_bucket b b' \<longleftrightarrow> b_size b' = b_size b \<and> b_items b' = b_items b \<and>
     (\<exists>ws ws'. b_alg b = Straw2 ws \<and> b_alg b' = Straw2 ws' \<and> length ws' = length ws \<and>
       (\<forall>p < b_size b. 0 \<le> b_items b ! p \<longrightarrow> ws' ! p = ws ! p))"

definition same_map :: "crush_map \<Rightarrow> crush_map \<Rightarrow> bool" where
  "same_map m m' \<longleftrightarrow>
     (\<forall>i b. get_bucket m i = Ret b \<longrightarrow> (\<exists>b'. get_bucket m' i = Ret b' \<and> same_bucket b b')) \<and>
     (\<forall>i b'. get_bucket m' i = Ret b' \<longrightarrow> (\<exists>b. get_bucket m i = Ret b))"

text \<open>The weight of all devices below a bucket.\<close>

primrec deep_weight :: "nat \<Rightarrow> crush_map \<Rightarrow> int \<Rightarrow> int" where
  "deep_weight 0 m i = 0"
| "deep_weight (Suc k) m i =
     (case get_bucket m i of
        Ret b \<Rightarrow> (\<Sum>p < b_size b. if b_items b ! p < 0 then deep_weight k m (b_items b ! p)
           else uint (weight_array (b_alg b) ! p))
      | _ \<Rightarrow> 0)"

lemma same_mapD:
  assumes "same_map m m'"
  shows "get_bucket m i = Ret b \<Longrightarrow> \<exists>b'. get_bucket m' i = Ret b' \<and> same_bucket b b'"
    and "get_bucket m' i = Ret b' \<Longrightarrow> \<exists>b. get_bucket m i = Ret b \<and> same_bucket b b'"
  using assms unfolding same_map_def by (blast, fastforce)

lemma same_bucket_refl: "b_alg b = Straw2 ws \<Longrightarrow> same_bucket b b"
  by (simp add: same_bucket_def)

lemma same_bucket_trans: "same_bucket a b \<Longrightarrow> same_bucket b c \<Longrightarrow> same_bucket a c"
  by (auto simp: same_bucket_def)

lemma same_map_refl: "straw2_map rk m \<Longrightarrow> same_map m m"
  unfolding same_map_def straw2_map_def by (meson same_bucket_refl)

lemma same_map_trans: "same_map m m' \<Longrightarrow> same_map m' m'' \<Longrightarrow> same_map m m''"
  unfolding same_map_def by (meson same_bucket_trans)

lemma straw2_map_same:
  assumes "straw2_map rk m" "same_map m m'"
  shows "straw2_map rk m'"
  unfolding straw2_map_def
proof (intro allI impI)
  fix i b'
  assume b': "get_bucket m' i = Ret b'"
  then obtain b where b: "get_bucket m i = Ret b" "same_bucket b b'"
    using same_mapD(2) [OF assms(2)] by blast
  have "\<forall>c \<in> set (bucket_items b). c < 0 \<longrightarrow> (\<exists>x. get_bucket m' c = Ret x) \<and> rk c < rk i"
    using assms(1) b(1) same_mapD(1) [OF assms(2)] unfolding straw2_map_def by blast
  moreover have "bucket_items b' = bucket_items b" using b(2) by (simp add: same_bucket_def bucket_items_def)
  moreover have "(\<exists>ws. b_alg b = Straw2 ws \<and> b_size b \<le> length ws) \<and> b_size b \<le> length (b_items b)"
    using assms(1) b(1) unfolding straw2_map_def by blast
  ultimately show "(\<exists>ws. b_alg b' = Straw2 ws \<and> b_size b' \<le> length ws) \<and> b_size b' \<le> length (b_items b') \<and>
      (\<forall>c \<in> set (bucket_items b'). c < 0 \<longrightarrow> (\<exists>x. get_bucket m' c = Ret x) \<and> rk c < rk i)"
    using b(2) by (auto simp: same_bucket_def)
qed

lemma deep_weight_same: "same_map m m' \<Longrightarrow> deep_weight k m' i = deep_weight k m i"
proof (induction k arbitrary: i)
  case (Suc k)
  show ?case
  proof (cases "get_bucket m i")
    case (Ret b)
    then obtain b' where b': "get_bucket m' i = Ret b'" "same_bucket b b'" using same_mapD(1) [OF Suc.prems] by blast
    then have "deep_weight (Suc k) m' i = (\<Sum>p < b_size b. if b_items b ! p < 0 then deep_weight k m (b_items b ! p)
        else uint (weight_array (b_alg b) ! p))"
      using Suc by (simp add: same_bucket_def) (intro sum.cong, auto simp: weight_array_def)
    then show ?thesis using Ret by simp
  qed (use same_mapD(2) [OF Suc.prems, of i] in \<open>auto split: exec.splits\<close>)
qed simp

lemma deep_weight_nonneg: "0 \<le> deep_weight k m i"
  by (induction k arbitrary: i) (auto split: exec.splits intro!: sum_nonneg)


text \<open>The depth need only exceed the rank; \<open>deep\<close> takes the least that does.\<close>

definition deep :: "(int \<Rightarrow> nat) \<Rightarrow> crush_map \<Rightarrow> int \<Rightarrow> int" where
  "deep rk m i = deep_weight (Suc (rk i)) m i"

lemma straw2_mapD:
  assumes "straw2_map rk m" "get_bucket m i = Ret b"
  obtains ws where "b_alg b = Straw2 ws" "b_size b \<le> length ws" "b_size b \<le> length (b_items b)"
    "\<And>p. p < b_size b \<Longrightarrow> b_items b ! p < 0 \<Longrightarrow> (\<exists>b'. get_bucket m (b_items b ! p) = Ret b') \<and> rk (b_items b ! p) < rk i"
proof -
  obtain ws where ws: "b_alg b = Straw2 ws" "b_size b \<le> length ws" "b_size b \<le> length (b_items b)"
    and kids: "\<And>c. c \<in> set (bucket_items b) \<Longrightarrow> c < 0 \<Longrightarrow> (\<exists>b'. get_bucket m c = Ret b') \<and> rk c < rk i"
    using assms unfolding straw2_map_def by blast
  have "b_items b ! p \<in> set (bucket_items b)" if "p < b_size b" for p
    using that ws(3) by (auto simp: bucket_items_def in_set_conv_nth)
  then show thesis using that ws kids by blast
qed

lemma deep_weight_deep:
  assumes "straw2_map rk m"
  shows "rk i < k \<Longrightarrow> deep_weight k m i = deep rk m i"
proof (induction k arbitrary: i rule: less_induct)
  case (less k)
  obtain k' where k: "k = Suc k'" "rk i \<le> k'" using less.prems by (cases k) auto
  show ?case
  proof (cases "get_bucket m i")
    case (Ret b)
    have "deep_weight k' m (b_items b ! p) = deep_weight (rk i) m (b_items b ! p)" if "p < b_size b" "b_items b ! p < 0" for p
    proof -
      have "rk (b_items b ! p) < rk i" using straw2_mapD [OF assms Ret] that by metis
      then show ?thesis using less.IH [of k'] less.IH [of "rk i"] k by simp
    qed
    then show ?thesis using Ret by (auto simp: deep_def k intro!: sum.cong)
  qed (simp_all add: deep_def k)
qed

lemma deep_same: "same_map m m' \<Longrightarrow> deep rk m' i = deep rk m i"
  unfolding deep_def by (rule deep_weight_same)

lemma deep_nonneg: "0 \<le> deep rk m i"
  unfolding deep_def by (rule deep_weight_nonneg)

text \<open>The weight an item contributes.\<close>

definition item_share :: "(int \<Rightarrow> nat) \<Rightarrow> crush_map \<Rightarrow> crush_bucket \<Rightarrow> nat \<Rightarrow> int" where
  "item_share rk m b p = (if b_items b ! p < 0 then deep rk m (b_items b ! p) else uint (weight_array (b_alg b) ! p))"

lemma item_share_nonneg: "0 \<le> item_share rk m b p"
  by (simp add: item_share_def deep_nonneg)

lemma item_share_same: "same_map m m' \<Longrightarrow> same_bucket b b' \<Longrightarrow> p < b_size b \<Longrightarrow> item_share rk m' b' p = item_share rk m b p"
  by (auto simp: item_share_def same_bucket_def deep_same weight_array_def)

lemma deep_sum:
  assumes "straw2_map rk m" "get_bucket m i = Ret b"
  shows "deep rk m i = (\<Sum>p < b_size b. item_share rk m b p)"
proof -
  have "deep_weight (rk i) m (b_items b ! p) = deep rk m (b_items b ! p)" if "p < b_size b" "b_items b ! p < 0" for p
    using straw2_mapD [OF assms] that deep_weight_deep [OF assms(1), of "b_items b ! p" "rk i"] by metis
  then show ?thesis using assms(2) by (auto simp: deep_def [of rk m i] item_share_def intro!: sum.cong)
qed

text \<open>
  The buckets below a bucket, itself included; and a bucket that is up to date: its weight is that of the
  devices below it, and so is the copy it keeps of the weight of each bucket in it.
\<close>

inductive below :: "crush_map \<Rightarrow> int \<Rightarrow> int \<Rightarrow> bool" for m where
  below_refl: "below m i i"
| below_item: "get_bucket m i = Ret b \<Longrightarrow> p < b_size b \<Longrightarrow> b_items b ! p < 0 \<Longrightarrow> below m (b_items b ! p) c \<Longrightarrow> below m i c"

definition settled :: "(int \<Rightarrow> nat) \<Rightarrow> crush_map \<Rightarrow> int \<Rightarrow> bool" where
  "settled rk m i \<longleftrightarrow> (\<exists>b. get_bucket m i = Ret b \<and> uint (b_weight b) = deep rk m i \<and>
     (\<forall>p < b_size b. uint (weight_array (b_alg b) ! p) = item_share rk m b p))"

lemma below_rank: "below m i c \<Longrightarrow> straw2_map rk m \<Longrightarrow> rk c \<le> rk i"
proof (induction rule: below.induct)
  case (below_item i b p c)
  then have "rk (b_items b ! p) < rk i" using straw2_mapD [OF below_item.prems below_item.hyps(1)] by metis
  then show ?case using below_item by simp
qed simp

lemma below_same_imp: "below m i c \<Longrightarrow> same_map m m' \<Longrightarrow> below m' i c"
proof (induction rule: below.induct)
  case (below_item i b p c)
  then obtain b' where "get_bucket m' i = Ret b'" "same_bucket b b'" using same_mapD(1) by blast
  then show ?case using below_item below.below_item [of m' i b' p c] by (simp add: same_bucket_def)
qed (rule below_refl)

lemma below_same_back: "below m' i c \<Longrightarrow> same_map m m' \<Longrightarrow> below m i c"
proof (induction rule: below.induct)
  case (below_item i b' p c)
  then obtain b where "get_bucket m i = Ret b" "same_bucket b b'" using same_mapD(2) by blast
  then show ?case using below_item below.below_item [of m i b p c] by (simp add: same_bucket_def)
qed (rule below_refl)

lemma below_same: "same_map m m' \<Longrightarrow> below m' i c \<longleftrightarrow> below m i c"
  using below_same_imp below_same_back by blast

lemma item_share_same_map: "same_map m m' \<Longrightarrow> item_share rk m' b p = item_share rk m b p"
  by (simp add: item_share_def deep_same)

lemma settled_kept: "same_map m m' \<Longrightarrow> get_bucket m' c = get_bucket m c \<Longrightarrow> settled rk m c \<Longrightarrow> settled rk m' c"
  by (auto simp: settled_def deep_same item_share_same_map)

text \<open>What a recursive call promises: the buckets below are up to date, and no other bucket changed.\<close>

definition reweighted :: "(int \<Rightarrow> nat) \<Rightarrow> crush_map \<Rightarrow> int \<Rightarrow> crush_map \<Rightarrow> bool" where
  "reweighted rk m i m' \<longleftrightarrow> same_map m m' \<and> (\<forall>c. below m i c \<longrightarrow> settled rk m' c) \<and>
     (\<forall>c. \<not> below m i c \<longrightarrow> get_bucket m' c = get_bucket m c)"

definition reweights :: "(int \<Rightarrow> nat) \<Rightarrow> nat \<Rightarrow> reweight \<Rightarrow> bool" where
  "reweights rk k rw \<longleftrightarrow> (\<forall>m i b. straw2_map rk m \<longrightarrow> get_bucket m i = Ret b \<longrightarrow> rk i < k \<longrightarrow> deep rk m i < 2 ^ 32 \<longrightarrow>
     (\<exists>m'. rw m i = Ret (0, m') \<and> reweighted rk m i m'))"

text \<open>The bucket \<open>i\<close> after the rounds for the positions in \<open>P\<close>: the weights there are up to date, and what is below.\<close>

definition kids_below :: "crush_map \<Rightarrow> crush_bucket \<Rightarrow> nat set \<Rightarrow> int \<Rightarrow> bool" where
  "kids_below m b P c \<longleftrightarrow> (\<exists>p \<in> P. b_items b ! p < 0 \<and> below m (b_items b ! p) c)"

definition rounds_done :: "(int \<Rightarrow> nat) \<Rightarrow> int \<Rightarrow> nat set \<Rightarrow> crush_map \<Rightarrow> crush_bucket \<Rightarrow> crush_map \<Rightarrow> crush_bucket \<Rightarrow> bool" where
  "rounds_done rk i P m b m' b' \<longleftrightarrow> same_map m m' \<and> get_bucket m' i = Ret b' \<and> same_bucket b b' \<and>
     (\<forall>q. q \<notin> P \<longrightarrow> weight_array (b_alg b') ! q = weight_array (b_alg b) ! q) \<and>
     (\<forall>p \<in> P. uint (weight_array (b_alg b') ! p) = item_share rk m b p) \<and>
     (\<forall>c. kids_below m b P c \<longrightarrow> settled rk m' c) \<and>
     (\<forall>c. c \<noteq> i \<longrightarrow> \<not> kids_below m b P c \<longrightarrow> get_bucket m' c = get_bucket m c)"

lemma kids_below_same: "same_map m m' \<Longrightarrow> same_bucket b b' \<Longrightarrow> kids_below m' b' P c \<longleftrightarrow> kids_below m b P c"
  by (simp add: kids_below_def below_same same_bucket_def)

lemma kids_below_not_self:
  assumes "straw2_map rk m" "get_bucket m i = Ret b" "P \<subseteq> {..<b_size b}"
  shows "\<not> kids_below m b P i"
proof
  assume "kids_below m b P i"
  then obtain p where "p < b_size b" "b_items b ! p < 0" "below m (b_items b ! p) i" using assms(3) by (auto simp: kids_below_def)
  moreover from this have "rk (b_items b ! p) < rk i" using straw2_mapD [OF assms(1,2)] by metis
  ultimately show False using below_rank [OF _ assms(1)] by fastforce
qed

lemma rounds_done_trans:
  assumes m: "straw2_map rk m" "get_bucket m i = Ret b" "P \<union> Q \<subseteq> {..<b_size b}" "P \<inter> Q = {}"
    and d: "rounds_done rk i P m b m1 b1" "rounds_done rk i Q m1 b1 m2 b2"
  shows "rounds_done rk i (P \<union> Q) m b m2 b2"
proof -
  have sm: "same_map m m1" "same_bucket b b1" "same_map m1 m2" "same_bucket b1 b2" using d by (simp_all add: rounds_done_def)
  note kb = kids_below_same [OF sm(1,2)]
  have un: "kids_below m b (P \<union> Q) c \<longleftrightarrow> kids_below m b P c \<or> kids_below m b Q c" for c by (auto simp: kids_below_def)
  have share: "item_share rk m1 b1 p = item_share rk m b p" if "p \<in> Q" for p
    using item_share_same [OF sm(1,2)] that m(3) by blast
  have "settled rk m2 c" if "kids_below m b (P \<union> Q) c" for c
  proof (cases "kids_below m b Q c")
    case False
    then have "kids_below m b P c" using that un by simp
    moreover from this have "c \<noteq> i" using kids_below_not_self [OF m(1,2)] m(3) by blast
    ultimately show ?thesis using False d kb settled_kept [OF sm(3)] by (simp add: rounds_done_def)
  qed (use d kb in \<open>simp add: rounds_done_def\<close>)
  moreover have "uint (weight_array (b_alg b2) ! p) = item_share rk m b p" if "p \<in> P \<union> Q" for p
    using that d share m(4) by (cases "p \<in> Q") (auto simp: rounds_done_def)
  ultimately show ?thesis
    using d same_map_trans [OF sm(1,3)] same_bucket_trans [OF sm(2,4)] un kb by (simp add: rounds_done_def)
qed

lemma put_same_map:
  assumes "straw2_map rk m" "get_bucket m i = Ret b" "same_bucket b b'"
  shows "same_map m (put_bucket m i b')" "get_bucket (put_bucket m i b') i = Ret b'"
    and "\<And>j. j \<noteq> i \<Longrightarrow> get_bucket (put_bucket m i b') j = get_bucket m j"
proof -
  have i: "0 \<le> - 1 - i" "- 1 - i < int (length (buckets m))" using assms(2) by (auto simp: get_bucket_def arr_get_def split: if_splits)
  then show g: "get_bucket (put_bucket m i b') i = Ret b'" by (rule get_put_same)
  show o: "get_bucket (put_bucket m i b') j = get_bucket m j" if "j \<noteq> i" for j using get_put_other [of i j] i that by simp
  show "same_map m (put_bucket m i b')"
    unfolding same_map_def
  proof (intro conjI allI impI)
    fix j c
    show "get_bucket m j = Ret c \<Longrightarrow> \<exists>c'. get_bucket (put_bucket m i b') j = Ret c' \<and> same_bucket c c'"
      using same_mapD(1) [OF same_map_refl [OF assms(1)]] o [of j] g assms(2,3) by (cases "j = i") auto
    show "get_bucket (put_bucket m i b') j = Ret c \<Longrightarrow> \<exists>c. get_bucket m j = Ret c"
      using o [of j] assms(2) by (cases "j = i") auto
  qed
qed

text \<open>Storing the bucket's own weight leaves the rounds done.\<close>

lemma rounds_done_weight:
  assumes m: "straw2_map rk m" "get_bucket m i = Ret b" "P \<subseteq> {..<b_size b}" and d: "rounds_done rk i P m b m1 b1"
  shows "rounds_done rk i P m b (put_bucket m1 i (b1\<lparr>b_weight := w\<rparr>)) (b1\<lparr>b_weight := w\<rparr>)"
proof -
  let ?b = "b1\<lparr>b_weight := w\<rparr>"
  have sm: "same_map m m1" "get_bucket m1 i = Ret b1" "same_bucket b b1" using d by (simp_all add: rounds_done_def)
  note s1 = straw2_map_same [OF m(1) sm(1)]
  have "same_bucket b1 ?b" by (rule straw2_mapD [OF s1 sm(2)]) (simp add: same_bucket_def)
  note put = put_same_map [OF s1 sm(2) this]
  have "settled rk (put_bucket m1 i ?b) c" if "kids_below m b P c" for c
  proof -
    have "c \<noteq> i" using that kids_below_not_self [OF m] by blast
    then show ?thesis using settled_kept [OF put(1)] put(3) [of c] that d by (simp add: rounds_done_def)
  qed
  then show ?thesis
    using d same_map_trans [OF sm(1) put(1)] put(2,3) \<open>same_bucket b1 ?b\<close> same_bucket_trans [OF sm(3)] by (simp add: rounds_done_def)
qed


text \<open>The part of a round before the sum is extended: the item's weight is up to date.\<close>

lemma reweight_round:
  assumes rw: "reweights rk k rw" and m: "straw2_map rk m" "get_bucket m i = Ret b" "rk i \<le> k" "p < b_size b"
    and small: "item_share rk m b p < 2 ^ 32"
  shows "\<exists>m' b'. exec_bind (get_bucket m i) (\<lambda>b.
     exec_bind (arr_get (b_items b) (int p)) (\<lambda>c.
       if c < 0
       then
         exec_bind (child_weight rw m c) (\<lambda>(w, m).
         exec_bind (get_bucket m i) (\<lambda>b.
         exec_bind (arr_set (weight_array (b_alg b)) (int p) w) (\<lambda>ws.
           Ret (put_bucket m i (b\<lparr>b_alg := with_weights (b_alg b) ws\<rparr>)))))
       else Ret m)) = Ret m' \<and> b_weight b' = b_weight b \<and> rounds_done rk i {p} m b m' b'"
proof -
  obtain ws where ws: "b_alg b = Straw2 ws" "b_size b \<le> length ws" "b_size b \<le> length (b_items b)"
    and kids: "b_items b ! p < 0 \<Longrightarrow> (\<exists>b'. get_bucket m (b_items b ! p) = Ret b') \<and> rk (b_items b ! p) < rk i"
    using straw2_mapD [OF m(1,2)] m(4) by metis
  let ?c = "b_items b ! p"
  show ?thesis
  proof (cases "?c < 0")
    case True
    then obtain bc where bc: "get_bucket m ?c = Ret bc" "rk ?c < rk i" using kids by blast
    have "deep rk m ?c < 2 ^ 32" using small True by (simp add: item_share_def)
    then obtain m1 where m1: "rw m ?c = Ret (0, m1)" "reweighted rk m ?c m1"
      using rw m(1,3) bc unfolding reweights_def by (meson less_le_trans)
    have sm: "same_map m m1" using m1(2) by (simp add: reweighted_def)
    obtain b1 where b1: "get_bucket m1 ?c = Ret b1" "uint (b_weight b1) = deep rk m ?c"
      using m1(2) below_refl [of m ?c] deep_same [OF sm] by (auto simp: reweighted_def settled_def)
    have kb: "kids_below m b {p} c \<longleftrightarrow> below m ?c c" for c using True by (simp add: kids_below_def)
    have not_i: "\<not> below m ?c i" using below_rank [OF _ m(1), of ?c i] bc(2) by auto
    then have b_kept: "get_bucket m1 i = Ret b" using m1(2) m(2) by (simp add: reweighted_def)
    let ?b = "b\<lparr>b_alg := Straw2 (ws[p := b_weight b1])\<rparr>"
    have "p \<noteq> q" if "0 \<le> b_items b ! q" for q using that True by auto
    then have sb: "same_bucket b ?b" using ws(1) by (simp add: same_bucket_def)
    note put = put_same_map [OF straw2_map_same [OF m(1) sm] b_kept sb]
    have "settled rk (put_bucket m1 i ?b) c" if "below m ?c c" for c
      using that not_i m1(2) settled_kept [OF put(1), of c] put(3) [of c] by (auto simp: reweighted_def)
    then have "rounds_done rk i {p} m b (put_bucket m1 i ?b) ?b"
      using same_map_trans [OF sm put(1)] put(2,3) sb kb m1(2) ws(1,2) m(4) b1(2) True
      by (simp add: rounds_done_def reweighted_def weight_array_def item_share_def)
    then show ?thesis using True m(2,4) ws m1(1) b1(1) b_kept
      by (intro exI [of _ "put_bucket m1 i ?b"] exI [of _ ?b]) (simp add: child_weight_def weight_array_def with_weights_def)
  next
    case False
    then have "rounds_done rk i {p} m b m b" using m(2) ws same_map_refl [OF m(1)]
      by (simp add: rounds_done_def kids_below_def item_share_def same_bucket_refl)
    then show ?thesis using False m(2,4) ws by (intro exI [of _ m] exI [of _ b]) simp
  qed
qed

lemma reweight_loop_spec:
  assumes rw: "reweights rk k rw" and i: "rk i \<le> k"
  shows "ps = [j..<b_size b] \<Longrightarrow> j \<le> b_size b \<Longrightarrow> straw2_map rk m \<Longrightarrow> get_bucket m i = Ret b \<Longrightarrow>
    uint (b_weight b) + (\<Sum>p \<in> set ps. item_share rk m b p) < 2 ^ 32 \<Longrightarrow>
    \<exists>m' b'. reweight_loop rw (\<lambda>p. p) i ps m = Ret (0, m') \<and> rounds_done rk i (set ps) m b m' b' \<and>
      uint (b_weight b') = uint (b_weight b) + (\<Sum>p \<in> set ps. item_share rk m b p)"
proof (induction ps arbitrary: j m b)
  case Nil
  obtain ws where "b_alg b = Straw2 ws" using straw2_mapD [OF Nil.prems(3,4)] by blast
  then show ?case using Nil.prems(4) same_map_refl [OF Nil.prems(3)] by (auto simp: rounds_done_def kids_below_def same_bucket_refl)
next
  case (Cons p ps)
  have "j < b_size b" using Cons.prems(1,2) by (cases "j = b_size b") auto
  then have j: "j < b_size b" "p = j" "ps = [Suc j..<b_size b]" "p \<notin> set ps" using Cons.prems(1) by (simp_all add: upt_conv_Cons)
  have sub: "{p} \<union> set ps \<subseteq> {..<b_size b}" "{p} \<inter> set ps = {}" using j by auto
  let ?rest = "\<Sum>p \<in> set ps. item_share rk m b p"
  have total: "uint (b_weight b) + (item_share rk m b p + ?rest) < 2 ^ 32" using Cons.prems(5) j(4) by simp
  have nonneg: "0 \<le> ?rest" by (intro sum_nonneg) (simp add: item_share_nonneg)
  then have "item_share rk m b p < 2 ^ 32" using total uint_ge_0 [of "b_weight b"] by linarith
  from reweight_round [OF rw Cons.prems(3,4) i _ this] j(1,2) obtain m1 b1 where
    m1: "exec_bind (get_bucket m i) (\<lambda>b.
     exec_bind (arr_get (b_items b) (int p)) (\<lambda>c.
       if c < 0
       then
         exec_bind (child_weight rw m c) (\<lambda>(w, m).
         exec_bind (get_bucket m i) (\<lambda>b.
         exec_bind (arr_set (weight_array (b_alg b)) (int p) w) (\<lambda>ws.
           Ret (put_bucket m i (b\<lparr>b_alg := with_weights (b_alg b) ws\<rparr>)))))
       else Ret m)) = Ret m1" "b_weight b1 = b_weight b" "rounds_done rk i {p} m b m1 b1"
    by blast
  have s1: "same_map m m1" "same_bucket b b1" "get_bucket m1 i = Ret b1" using m1(3) by (simp_all add: rounds_done_def)
  obtain ws1 where ws1: "b_alg b1 = Straw2 ws1" "b_size b1 \<le> length ws1"
    using straw2_mapD [OF straw2_map_same [OF Cons.prems(3) s1(1)] s1(3)] by blast
  let ?w = "weight_array (b_alg b1) ! p" let ?b2 = "b1\<lparr>b_weight := b_weight b1 + ?w\<rparr>" let ?m2 = "put_bucket m1 i ?b2"
  have w: "uint ?w = item_share rk m b p" using m1(3) by (simp add: rounds_done_def)
  have safe: "\<not> crush_addition_is_unsafe (b_weight b1) ?w" using total nonneg m1(2) w by (simp add: addition_unsafe_iff)
  have "arr_get (weight_array (b_alg b1)) (int p) = Ret ?w" using ws1 j(1,2) s1(2) by (simp add: weight_array_def same_bucket_def)
  then have run: "reweight_loop rw (\<lambda>p. p) i (p # ps) m = reweight_loop rw (\<lambda>p. p) i ps ?m2"
    using m1(1) s1(3) safe by (auto simp: Cons.prems(4))
  have "{p} \<subseteq> {..<b_size b}" using sub by simp
  note d2 = rounds_done_weight [OF Cons.prems(3,4) this m1(3), of "b_weight b1 + ?w"]
  have s2: "same_map m ?m2" "get_bucket ?m2 i = Ret ?b2" "same_bucket b ?b2" using d2 by (simp_all add: rounds_done_def)
  have w2: "uint (b_weight ?b2) = uint (b_weight b) + item_share rk m b p" using addition_safe_uint [OF safe] m1(2) w by simp
  have rest: "(\<Sum>p \<in> set ps. item_share rk ?m2 ?b2 p) = ?rest" using item_share_same [OF s2(1,3)] j(3) by (intro sum.cong) auto
  have size: "b_size ?b2 = b_size b" using s2(3) by (simp add: same_bucket_def)
  have "ps = [Suc j..<b_size ?b2]" "Suc j \<le> b_size ?b2" using j(1,3) size by simp_all
  from Cons.IH [OF this straw2_map_same [OF Cons.prems(3) s2(1)] s2(2)] total obtain m' b' where
    "reweight_loop rw (\<lambda>p. p) i ps ?m2 = Ret (0, m')" "rounds_done rk i (set ps) ?m2 ?b2 m' b'"
    "uint (b_weight b') = uint (b_weight ?b2) + ?rest" unfolding rest w2 by (auto simp: add.assoc)
  then show ?case unfolding run
    using rounds_done_trans [OF Cons.prems(3,4) sub d2] w2 j(4) by (intro exI [of _ m'] exI [of _ b']) (simp add: add.assoc)
qed

text \<open>With all rounds done and the sum stored, the bucket and all below are up to date.\<close>

lemma rounds_reweighted:
  assumes m: "straw2_map rk m" "get_bucket m i = Ret b" and d: "rounds_done rk i {..<b_size b} m b m' b'"
    and w: "uint (b_weight b') = (\<Sum>p < b_size b. item_share rk m b p)"
  shows "reweighted rk m i m'"
proof -
  have sm: "same_map m m'" "same_bucket b b'" "get_bucket m' i = Ret b'" using d by (simp_all add: rounds_done_def)
  have i: "settled rk m' i"
    using sm w d deep_same [OF sm(1)] deep_sum [OF m] item_share_same [OF sm(1,2)]
    by (simp add: settled_def rounds_done_def same_bucket_def)
  have "c = i \<or> kids_below m b {..<b_size b} c" if "below m i c" for c
    using that m(2) by (cases rule: below.cases) (auto simp: kids_below_def)
  moreover have "below m i c" if "kids_below m b {..<b_size b} c" for c
    using that m(2) below_item by (auto simp: kids_below_def)
  ultimately show ?thesis using i d sm(1) below_refl unfolding reweighted_def rounds_done_def by metis
qed

lemma reweights_bucket: "reweights rk k (crush_reweight_bucket k h fp)"
proof (induction k)
  case 0
  then show ?case by (simp add: reweights_def)
next
  case (Suc k)
  show ?case
    unfolding reweights_def
  proof (intro allI impI)
    fix m i b
    assume m: "straw2_map rk m" "get_bucket m i = Ret b" "rk i < Suc k" "deep rk m i < 2 ^ 32"
    obtain ws where ws: "b_alg b = Straw2 ws" using straw2_mapD [OF m(1,2)] by blast
    let ?b = "b\<lparr>b_weight := 0\<rparr>" let ?m = "put_bucket m i ?b"
    have "rounds_done rk i {} m b m b" using m(2) same_map_refl [OF m(1)] ws by (simp add: rounds_done_def kids_below_def same_bucket_refl)
    then have d0: "rounds_done rk i {} m b ?m ?b" by (intro rounds_done_weight [OF m(1,2)]) simp
    then have s0: "same_map m ?m" "get_bucket ?m i = Ret ?b" "same_bucket b ?b" by (simp_all add: rounds_done_def)
    have sum: "(\<Sum>p < b_size b. item_share rk ?m ?b p) = deep rk m i"
      using item_share_same [OF s0(1,3)] deep_sum [OF m(1,2)] by simp
    have dom: "set [0..<b_size b] = {..<b_size b}" by auto
    from reweight_loop_spec [OF Suc.IH, of i "[0..<b_size b]" 0 ?b ?m] obtain m' b' where
      m': "reweight_loop (crush_reweight_bucket k h fp) (\<lambda>p. p) i [0..<b_size b] ?m = Ret (0, m')"
      "rounds_done rk i {..<b_size b} ?m ?b m' b'" "uint (b_weight b') = deep rk m i"
      using m(3,4) s0(2) straw2_map_same [OF m(1) s0(1)] sum unfolding dom by auto
    have "rounds_done rk i ({} \<union> {..<b_size b}) m b m' b'" by (rule rounds_done_trans [OF m(1,2) _ _ d0 m'(2)]) simp_all
    then have "reweighted rk m i m'" using rounds_reweighted [OF m(1,2)] m'(3) deep_sum [OF m(1,2)] by simp
    moreover have "crush_reweight_bucket (Suc k) h fp m i = Ret (0, m')"
      using m(2) ws m'(1) by (simp add: crush_reweight_straw2_bucket_def reweight_items_def)
    ultimately show "\<exists>m'. crush_reweight_bucket (Suc k) h fp m i = Ret (0, m') \<and> reweighted rk m i m'" by blast
  qed
qed

text \<open>C35: In an acyclic hierarchy of straw2 buckets in which the devices below a bucket weigh less than 2 to the 32
  in total, \<open>crush_reweight_bucket\<close> on that bucket returns 0 (the fuel need only exceed the rank of the
  bucket), leaves the items and the weights of devices alone and changes no bucket that is not below it.
  Every bucket below, itself included, gets the total weight of the devices below it, and each copy of a
  weight that such a bucket keeps for a bucket in it is the total weight of the devices below that one.\<close>
theorem crush_reweight_bucket_total:
  assumes "straw2_map rk m" "get_bucket m i = Ret b" "rk i < fuel" "deep_weight fuel m i < 2 ^ 32"
  shows "exec_post (crush_reweight_bucket fuel h fp m i) (\<lambda>(r, m'). r = 0 \<and> same_map m m' \<and>
    (\<forall>c. \<not> below m i c \<longrightarrow> get_bucket m' c = get_bucket m c) \<and>
    (\<forall>c. below m i c \<longrightarrow> (\<exists>b'. get_bucket m' c = Ret b' \<and> uint (b_weight b') = deep_weight fuel m c \<and>
       (\<forall>p < b_size b'. b_items b' ! p < 0 \<longrightarrow> uint (weight_array (b_alg b') ! p) = deep_weight fuel m (b_items b' ! p)))))"
proof -
  have "deep rk m i < 2 ^ 32" using deep_weight_deep [OF assms(1,3)] assms(4) by simp
  then obtain m' where m': "crush_reweight_bucket fuel h fp m i = Ret (0, m')" "reweighted rk m i m'"
    using reweights_bucket [of rk fuel h fp] assms(1-3) unfolding reweights_def by blast
  have sm: "same_map m m'" using m'(2) by (simp add: reweighted_def)
  have "\<exists>b'. get_bucket m' c = Ret b' \<and> uint (b_weight b') = deep_weight fuel m c \<and>
      (\<forall>p < b_size b'. b_items b' ! p < 0 \<longrightarrow> uint (weight_array (b_alg b') ! p) = deep_weight fuel m (b_items b' ! p))"
    if in_c: "below m i c" for c
  proof -
    obtain b' where b': "get_bucket m' c = Ret b'" "uint (b_weight b') = deep rk m c"
      "\<And>p. p < b_size b' \<Longrightarrow> uint (weight_array (b_alg b') ! p) = item_share rk m b' p"
      using m'(2) in_c deep_same [OF sm] item_share_same_map [OF sm] by (auto simp: reweighted_def settled_def)
    have c: "rk c < fuel" using below_rank [OF in_c assms(1)] assms(3) by simp
    have "rk (b_items b' ! p) < fuel" if "p < b_size b'" "b_items b' ! p < 0" for p
      using straw2_mapD [OF straw2_map_same [OF assms(1) sm] b'(1)] that c by (metis less_trans)
    moreover have "uint (weight_array (b_alg b') ! p) = deep rk m (b_items b' ! p)" if "p < b_size b'" "b_items b' ! p < 0" for p
      using b'(3) [OF that(1)] that(2) by (simp add: item_share_def)
    ultimately show ?thesis using b'(1,2) c deep_weight_deep [OF assms(1)] by auto
  qed
  then show ?thesis using m' sm by (simp add: exec_post_def reweighted_def)
qed

definition sample_hierarchy :: crush_map where
  "sample_hierarchy = empty_map\<lparr>max_buckets := 2, buckets :=
     [Some ((bucket_header 0 2 2 (Straw2 [0, 7]))\<lparr>b_id := - 1, b_items := [- 2, 5], b_perm := [0, 0]\<rparr>),
      Some (sample_device_bucket\<lparr>b_id := - 2\<rparr>)]\<rparr>"

theorem crush_reweight_bucket_total_witness:
  "exec_post (crush_reweight_bucket 2 sample_heap sample_fp sample_hierarchy (- 1)) (\<lambda>(r, m'). r = 0 \<and>
    (\<exists>b'. get_bucket m' (- 1) = Ret b' \<and> b_weight b' = 10) \<and>
    (\<exists>b'. get_bucket m' (- 2) = Ret b' \<and> b_weight b' = 3))"
proof -
  let ?r = "(bucket_header 0 2 2 (Straw2 [0, 7]))\<lparr>b_id := - 1, b_items := [- 2, 5], b_perm := [0, 0]\<rparr>"
  have g: "get_bucket sample_hierarchy i = Ret b \<longleftrightarrow>
      i = - 1 \<and> b = ?r \<or> i = - 2 \<and> b = sample_device_bucket\<lparr>b_id := - 2\<rparr>" for i b
    by (auto simp: get_bucket_def arr_get_def sample_hierarchy_def nth_Cons' split: if_splits)
  have m: "straw2_map (\<lambda>i. if i = - 1 then 1 else 0) sample_hierarchy"
    by (auto simp: straw2_map_def g sample_device_bucket_def bucket_header_def bucket_items_def)
  have two: "{..<2 :: nat} = {0, 1}" by auto
  have "get_bucket sample_hierarchy (- 2) = Ret (sample_device_bucket\<lparr>b_id := - 2\<rparr>)" "get_bucket sample_hierarchy (- 1) = Ret ?r"
    by (simp_all add: g)
  moreover from this have dev: "deep_weight (Suc k) sample_hierarchy (- 2) = 3" for k
    by (simp add: sample_device_bucket_def two weight_array_def)
  ultimately have "deep_weight (Suc (Suc 0)) sample_hierarchy (- 1) = 10"
    by (subst deep_weight.simps(2)) (simp add: two weight_array_def del: deep_weight.simps)
  then have deep: "deep_weight 2 sample_hierarchy (- 1) = 10" "deep_weight 2 sample_hierarchy (- 2) = 3"
    using dev [of 1] by (simp_all only: numeral_2_eq_2 One_nat_def)
  have "get_bucket sample_hierarchy (- 1) = Ret ?r" by (simp add: g)
  then have below: "below sample_hierarchy (- 1) (- 1)" "below sample_hierarchy (- 1) (- 2)"
    using below_item [of sample_hierarchy "- 1" ?r 0 "- 2"] by (simp_all add: below_refl bucket_header_def)
  show ?thesis
    using crush_reweight_bucket_total [OF m, of "- 1" ?r 2 sample_heap sample_fp] g [of "- 1" ?r] deep below
    by (auto simp: word_uint_eq_iff elim!: exec_post_mono)
qed

end
