(* ===== verification/Striper.thy ===== *)
theory Striper
imports Std_Map "HOL-Library.List_Lexorder" "HOL-Library.Char_ord"
begin

text \<open>
  The striping of a file over objects: \<open>osdc/Striper.cc\<close> and \<open>osdc/Striper.h\<close>, the layouts of
  \<open>include/ceph_fs.h\<close> with their validity test in \<open>common/ceph_fs.cc\<close>, and the extents of
  \<open>osd/osd_types.h\<close>.  A range of bytes of a file is turned into one extent for each object, with the
  places of a buffer its bytes belong to, and back.
\<close>

section \<open>Data\<close>

record ceph_file_layout =
  fl_stripe_unit :: u32
  fl_stripe_count :: u32
  fl_object_size :: u32
  fl_cas_hash :: u32
  fl_object_stripe_unit :: u32
  fl_unused :: u32
  fl_pg_pool :: u32

record object_locator =
  ol_pool :: int
  ol_key :: string
  ol_nspace :: string
  ol_hash :: int

record object_extent =
  oe_oid :: string
  oe_objectno :: u64
  oe_offset :: u64
  oe_length :: u64
  oe_truncate_size :: u64
  oe_oloc :: object_locator
  oe_buffer_extents :: "(u64 \<times> u64) list"

type_synonym extent_map = "(string \<times> object_extent list) list"

definition CEPH_MIN_STRIPE_UNIT :: u32 where
  "CEPH_MIN_STRIPE_UNIT = 65536"

definition ceph_file_layout_is_valid :: "ceph_file_layout \<Rightarrow> bool" where
  "ceph_file_layout_is_valid layout =
     (let su = fl_stripe_unit layout; sc = fl_stripe_count layout; os = fl_object_size layout in
      if su = 0 \<or> and su (CEPH_MIN_STRIPE_UNIT - 1) \<noteq> 0 then False
      else if os = 0 \<or> and os (CEPH_MIN_STRIPE_UNIT - 1) \<noteq> 0 then False
      else if os < su \<or> os mod su \<noteq> 0 then False
      else if sc = 0 then False
      else True)"

definition file_to_object_locator :: "ceph_file_layout \<Rightarrow> object_locator" where
  "file_to_object_locator layout =
     \<lparr>ol_pool = uint (fl_pg_pool layout), ol_key = [], ol_nspace = [], ol_hash = -1\<rparr>"

section \<open>Object names\<close>

text \<open>What the format strings of the code use of \<open>printf\<close>: \<open>%llx\<close>, \<open>%08llx\<close> and \<open>%%\<close>, with one argument.\<close>

definition hex_digit :: "nat \<Rightarrow> char" where
  "hex_digit d = char_of (if d < 10 then 48 + d else 87 + d)"

fun hex_string :: "nat \<Rightarrow> string" where
  "hex_string n = (if n < 16 then [hex_digit n] else hex_string (n div 16) @ [hex_digit (n mod 16)])"

declare hex_string.simps [simp del]

definition pad0 :: "nat \<Rightarrow> string \<Rightarrow> string" where
  "pad0 w s = replicate (w - length s) CHR ''0'' @ s"

function c_format :: "string \<Rightarrow> u64 \<Rightarrow> string" where
  "c_format f n =
     (case f of [] \<Rightarrow> []
      | c # f \<Rightarrow>
          if c \<noteq> CHR ''%'' then c # c_format f n
          else if take 1 f = ''%'' then CHR ''%'' # c_format (drop 1 f) n
          else if take 3 f = ''llx'' then hex_string (unat n) @ c_format (drop 3 f) n
          else if take 5 f = ''08llx'' then pad0 8 (hex_string (unat n)) @ c_format (drop 5 f) n
          else [])"
  by pat_completeness auto
termination
  by (relation "measure (\<lambda>(f, n). length f)") auto

declare c_format.simps [simp del]

definition c_snprintf :: "nat \<Rightarrow> string \<Rightarrow> u64 \<Rightarrow> string" where
  "c_snprintf sz f n = take (sz - 1) (c_format f n)"

section \<open>Operations\<close>

definition object_truncate_size :: "ceph_file_layout \<Rightarrow> u64 \<Rightarrow> u64 \<Rightarrow> u64 exec" where
  "object_truncate_size layout objectno trunc_size =
     (if trunc_size = 0 \<or> trunc_size = -1 then Ret trunc_size
      else
        let object_size = (ucast (fl_object_size layout) :: u64);
            su = (ucast (fl_stripe_unit layout) :: u64);
            stripe_count = (ucast (fl_stripe_count layout) :: u64) in
        if \<not> object_size \<ge> su \<or> su = 0 \<or> stripe_count = 0 \<or> object_size = 0 then Fault
        else
          let stripes_per_object = object_size div su;
              objectsetno = objectno div stripe_count;
              trunc_objectsetno = trunc_size div object_size div stripe_count in
          Ret (if objectsetno > trunc_objectsetno then 0
               else if objectsetno < trunc_objectsetno then object_size
               else
                 let trunc_blockno = trunc_size div su;
                     trunc_stripeno = trunc_blockno div stripe_count;
                     trunc_stripepos = trunc_blockno mod stripe_count;
                     trunc_objectno = trunc_objectsetno * stripe_count + trunc_stripepos in
                 if objectno < trunc_objectno then (trunc_stripeno mod stripes_per_object + 1) * su
                 else if objectno > trunc_objectno then (trunc_stripeno mod stripes_per_object) * su
                 else (trunc_stripeno mod stripes_per_object) * su + trunc_size mod su))"

text \<open>The computation of one round of \<open>file_to_extents\<close>: the object of the block at \<open>cur\<close>, and the range in it.\<close>

definition block_extent :: "ceph_file_layout \<Rightarrow> u64 \<Rightarrow> u64 \<Rightarrow> (u64 \<times> u64 \<times> u64) exec" where
  "block_extent layout cur left =
     (let su = (ucast (fl_stripe_unit layout) :: u64);
          stripe_count = (ucast (fl_stripe_count layout) :: u64);
          stripes_per_object = (ucast (fl_object_size layout div fl_stripe_unit layout) :: u64) in
      if su = 0 \<or> stripe_count = 0 \<or> stripes_per_object = 0 then Fault
      else
        let blockno = cur div su;
            stripeno = blockno div stripe_count;
            stripepos = blockno mod stripe_count;
            objectsetno = stripeno div stripes_per_object;
            objectno = objectsetno * stripe_count + stripepos;
            block_start = (stripeno mod stripes_per_object) * su;
            block_off = cur mod su;
            mx = su - block_off;
            x_offset = block_start + block_off;
            x_len = (if left > mx then mx else left)
        in Ret (objectno, x_offset, x_len))"

text \<open>Lines 101 to 121: the range is a new extent of the object, or continues its last one.\<close>

definition add_extent ::
  "string \<Rightarrow> ceph_file_layout \<Rightarrow> u64 \<Rightarrow> u64 \<Rightarrow> u64 \<times> u64 \<times> u64 \<Rightarrow> extent_map \<Rightarrow> extent_map exec" where
  "add_extent object_format layout trunc_size pos x object_extents =
     (case x of (objectno, x_offset, x_len) \<Rightarrow>
        let oid = c_snprintf (length object_format + 32) object_format objectno;
            exv = (case map_of object_extents oid of None \<Rightarrow> [] | Some exv \<Rightarrow> exv) in
        if exv = [] \<or> oe_offset (last exv) + oe_length (last exv) \<noteq> x_offset
        then exec_bind (object_truncate_size layout objectno trunc_size) (\<lambda>ts.
               Ret (map_put object_extents oid
                 (exv @ [\<lparr>oe_oid = oid, oe_objectno = objectno, oe_offset = x_offset, oe_length = x_len,
                          oe_truncate_size = ts, oe_oloc = file_to_object_locator layout,
                          oe_buffer_extents = [(pos, x_len)]\<rparr>])))
        else
          let ex = last exv in
          Ret (map_put object_extents oid
            (butlast exv @ [ex\<lparr>oe_length := oe_length ex + x_len,
                               oe_buffer_extents := oe_buffer_extents ex @ [(pos, x_len)]\<rparr>])))"

lemma block_extent_progress:
  assumes "block_extent layout cur left = Ret (objectno, x_offset, x_len)" "left \<noteq> 0"
  shows "x_len \<noteq> 0" "x_len \<le> left" "unat (left - x_len) < unat left"
proof -
  define su where "su = (ucast (fl_stripe_unit layout) :: u64)"
  from assms have su: "su \<noteq> 0" and x: "x_len = (if left > su - cur mod su then su - cur mod su else left)"
    by (auto simp: block_extent_def Let_def su_def split: if_splits)
  have "su - cur mod su \<noteq> 0"
    using word_mod_less_divisor [of su cur] su by (auto simp: word_gt_0)
  with x assms(2) show "x_len \<noteq> 0" "x_len \<le> left"
    by (auto split: if_splits)
  then show "unat (left - x_len) < unat left"
    using assms(2) by (simp add: unat_sub word_le_nat_alt unat_gt_0)
qed

function file_to_extents_loop ::
  "string \<Rightarrow> ceph_file_layout \<Rightarrow> u64 \<Rightarrow> u64 \<Rightarrow> u64 \<Rightarrow> u64 \<Rightarrow> u64 \<Rightarrow> extent_map \<Rightarrow> extent_map exec" where
  "file_to_extents_loop object_format layout offset trunc_size buffer_offset cur left object_extents =
     (if left = 0 then Ret object_extents
      else case block_extent layout cur left of
             Ret (objectno, x_offset, x_len) \<Rightarrow>
               exec_bind (add_extent object_format layout trunc_size (cur - offset + buffer_offset)
                            (objectno, x_offset, x_len) object_extents) (\<lambda>m.
               file_to_extents_loop object_format layout offset trunc_size buffer_offset (cur + x_len) (left - x_len) m)
           | Fault \<Rightarrow> Fault
           | NoFuel \<Rightarrow> NoFuel)"
  by pat_completeness auto
termination
  by (relation "measure (\<lambda>(f, l, offset, ts, bo, cur, left, m). unat left)") (auto dest: block_extent_progress)

declare file_to_extents_loop.simps [simp del]

definition file_to_extents_map ::
  "string \<Rightarrow> ceph_file_layout \<Rightarrow> u64 \<Rightarrow> u64 \<Rightarrow> u64 \<Rightarrow> extent_map \<Rightarrow> u64 \<Rightarrow> extent_map exec" where
  "file_to_extents_map object_format layout offset len trunc_size object_extents buffer_offset =
     (if \<not> len > 0 then Fault
      else if \<not> fl_object_size layout \<ge> fl_stripe_unit layout then Fault
      else if fl_stripe_unit layout = 0 then Fault
      else file_to_extents_loop object_format layout offset trunc_size buffer_offset offset len object_extents)"

definition assimilate_extents :: "extent_map \<Rightarrow> object_extent list \<Rightarrow> object_extent list" where
  "assimilate_extents object_extents extents = extents @ concat (map snd object_extents)"

definition file_to_extents ::
  "string \<Rightarrow> ceph_file_layout \<Rightarrow> u64 \<Rightarrow> u64 \<Rightarrow> u64 \<Rightarrow> object_extent list \<Rightarrow> u64 \<Rightarrow> object_extent list exec" where
  "file_to_extents object_format layout offset len trunc_size extents buffer_offset =
     exec_bind (file_to_extents_map object_format layout offset len trunc_size [] buffer_offset) (\<lambda>m.
     Ret (assimilate_extents m extents))"

definition file_to_extents_ino ::
  "u64 \<Rightarrow> ceph_file_layout \<Rightarrow> u64 \<Rightarrow> u64 \<Rightarrow> u64 \<Rightarrow> object_extent list \<Rightarrow> object_extent list exec" where
  "file_to_extents_ino ino layout offset len trunc_size extents =
     file_to_extents (c_snprintf 32 ''%llx.%%08llx'' ino) layout offset len trunc_size extents 0"

text \<open>
  The loop of \<open>extent_to_file\<close>; \<open>stripes_per_object\<close> is computed before it.  The offset in the block is a
  remainder or 0, hence below the stripe unit in every round; the test for it only serves the termination.
\<close>

function extent_to_file_loop ::
  "u64 \<Rightarrow> u64 \<Rightarrow> u64 \<Rightarrow> u64 \<Rightarrow> u64 \<Rightarrow> u64 \<Rightarrow> u64 \<Rightarrow> (u64 \<times> u64) list \<Rightarrow> (u64 \<times> u64) list exec" where
  "extent_to_file_loop su stripe_count stripes_per_object objectno off len off_in_block extents =
     (if len = 0 then Ret extents
      else if stripe_count = 0 \<or> \<not> off_in_block < su then Fault
      else
        let stripepos = objectno mod stripe_count;
            objectsetno = objectno div stripe_count;
            stripeno = off div su + objectsetno * stripes_per_object;
            blockno = stripeno * stripe_count + stripepos;
            extent_off = blockno * su + off_in_block;
            extent_len = (if len < su - off_in_block then len else su - off_in_block)
        in extent_to_file_loop su stripe_count stripes_per_object objectno (off + extent_len) (len - extent_len) 0
             (extents @ [(extent_off, extent_len)]))"
  by pat_completeness auto
termination
  by (relation "measure (\<lambda>(su, sc, spo, n, off, len, ob, ex). unat len)")
     (auto simp: unat_sub word_le_nat_alt word_less_nat_alt unat_gt_0)

declare extent_to_file_loop.simps [simp del]

definition extent_to_file ::
  "ceph_file_layout \<Rightarrow> u64 \<Rightarrow> u64 \<Rightarrow> u64 \<Rightarrow> (u64 \<times> u64) list \<Rightarrow> (u64 \<times> u64) list exec" where
  "extent_to_file layout objectno off len extents =
     (let su = (ucast (fl_stripe_unit layout) :: u64);
          stripe_count = (ucast (fl_stripe_count layout) :: u64) in
      if \<not> fl_object_size layout \<ge> fl_stripe_unit layout then Fault
      else if su = 0 then Fault
      else extent_to_file_loop su stripe_count (ucast (fl_object_size layout div fl_stripe_unit layout)) objectno off len
             (off mod su) extents)"

definition get_num_objects :: "ceph_file_layout \<Rightarrow> u64 \<Rightarrow> u64 exec" where
  "get_num_objects layout sz =
     (let object_size = fl_object_size layout;
          stripe_unit = fl_stripe_unit layout;
          stripe_count = fl_stripe_count layout;
          period = (ucast (stripe_count * object_size) :: u64) in
      if period = 0 then Fault
      else
        let num_periods = (sz + period - 1) div period;
            remainder_bytes = sz mod period;
            done = (\<lambda>remainder_objs. Ret (num_periods * ucast stripe_count - remainder_objs)) in
        if remainder_bytes > 0 \<and> remainder_bytes < ucast (stripe_count * stripe_unit)
        then if stripe_unit = 0 then Fault
             else done (ucast stripe_count - (remainder_bytes + ucast stripe_unit - 1) div ucast stripe_unit)
        else done 0)"

end
