(* ===== verification/Striping.thy ===== *)
theory Striping
imports Striper
begin

text \<open>
  What the striping of \<open>Striper\<close> computes: the position in the file of each byte of each object, the
  extents as the preimages of a range under it, and the inverse, truncation and object count derived
  from the same function.
\<close>

section \<open>The layout as a bijection\<close>

definition lay_su :: "ceph_file_layout \<Rightarrow> nat" where
  "lay_su l = unat (fl_stripe_unit l)"

definition lay_sc :: "ceph_file_layout \<Rightarrow> nat" where
  "lay_sc l = unat (fl_stripe_count l)"

definition lay_spo :: "ceph_file_layout \<Rightarrow> nat" where
  "lay_spo l = unat (fl_object_size l) div unat (fl_stripe_unit l)"

text \<open>The position in the file of byte \<open>x\<close> of object \<open>o'\<close>, and the object and offset of a position.\<close>

definition filepos :: "ceph_file_layout \<Rightarrow> nat \<Rightarrow> nat \<Rightarrow> nat" where
  "filepos l o' x =
     ((o' div lay_sc l * lay_spo l + x div lay_su l) * lay_sc l + o' mod lay_sc l) * lay_su l + x mod lay_su l"

definition locate :: "ceph_file_layout \<Rightarrow> nat \<Rightarrow> nat \<times> nat" where
  "locate l b =
     (let stripe = b div lay_su l div lay_sc l in
      (stripe div lay_spo l * lay_sc l + b div lay_su l mod lay_sc l, stripe mod lay_spo l * lay_su l + b mod lay_su l))"

definition layout_ok :: "ceph_file_layout \<Rightarrow> bool" where
  "layout_ok l = (0 < lay_su l \<and> 0 < lay_sc l \<and> 0 < lay_spo l)"

lemma valid_layout_ok:
  assumes "ceph_file_layout_is_valid l"
  shows "layout_ok l" and "unat (fl_object_size l) = lay_spo l * lay_su l"
proof -
  from assms have su: "fl_stripe_unit l \<noteq> 0" "fl_stripe_count l \<noteq> 0" and le: "fl_stripe_unit l \<le> fl_object_size l"
    and md: "fl_object_size l mod fl_stripe_unit l = 0"
    by (auto simp: ceph_file_layout_is_valid_def Let_def not_less split: if_splits)
  have "unat (fl_object_size l) mod lay_su l = 0"
    using arg_cong [OF md, of unat] by (simp add: unat_mod_distrib lay_su_def)
  then show os: "unat (fl_object_size l) = lay_spo l * lay_su l"
    by (auto simp: lay_spo_def lay_su_def)
  show "layout_ok l"
    using su le by (simp add: layout_ok_def lay_su_def lay_sc_def lay_spo_def unat_gt_0 div_greater_zero_iff word_le_nat_alt)
qed

lemma locate_filepos:
  assumes "layout_ok l" "x < lay_spo l * lay_su l"
  shows "locate l (filepos l o' x) = (o', x)"
proof -
  have pos: "0 < lay_su l" "0 < lay_sc l" "0 < lay_spo l" and x: "x div lay_su l < lay_spo l"
    using assms by (auto simp: layout_ok_def less_mult_imp_div_less)
  show ?thesis
    using pos x by (simp add: locate_def filepos_def Let_def)
qed

lemma filepos_locate:
  assumes "layout_ok l" "locate l b = (o', x)"
  shows "filepos l o' x = b" "x < lay_spo l * lay_su l"
proof -
  have pos: "0 < lay_su l" "0 < lay_sc l" "0 < lay_spo l"
    using assms(1) by (auto simp: layout_ok_def)
  have m: "b div lay_su l mod lay_sc l < lay_sc l" "b mod lay_su l < lay_su l" "b div lay_su l div lay_sc l mod lay_spo l < lay_spo l"
    using pos by auto
  from assms(2) have o': "o' = b div lay_su l div lay_sc l div lay_spo l * lay_sc l + b div lay_su l mod lay_sc l"
    and x: "x = b div lay_su l div lay_sc l mod lay_spo l * lay_su l + b mod lay_su l"
    by (auto simp: locate_def Let_def)
  have "o' div lay_sc l = b div lay_su l div lay_sc l div lay_spo l" "o' mod lay_sc l = b div lay_su l mod lay_sc l"
    "x div lay_su l = b div lay_su l div lay_sc l mod lay_spo l" "x mod lay_su l = b mod lay_su l"
    using pos m by (simp_all add: o' x)
  then show "filepos l o' x = b"
    by (simp add: filepos_def)
  have "x < Suc (b div lay_su l div lay_sc l mod lay_spo l) * lay_su l"
    using m by (simp add: x)
  also have "\<dots> \<le> lay_spo l * lay_su l"
    using m by (intro mult_right_mono) auto
  finally show "x < lay_spo l * lay_su l" .
qed

lemma filepos_eq_iff:
  "layout_ok l \<Longrightarrow> x < lay_spo l * lay_su l \<Longrightarrow> filepos l o' x = b \<longleftrightarrow> locate l b = (o', x)"
  using locate_filepos filepos_locate by blast

lemma div_mod_add:
  assumes "b mod n + i < (n :: nat)"
  shows "(b + i) div n = b div n" "(b + i) mod n = b mod n + i"
proof -
  define q r where qr: "q = b div n" "r = b mod n"
  then have b: "b + i = q * n + (r + i)" and r: "r + i < n"
    using assms div_mult_mod_eq [of b n] by simp_all
  have "(b + i) div n = q" "(b + i) mod n = r + i"
    unfolding b using r by simp_all
  then show "(b + i) div n = b div n" "(b + i) mod n = b mod n + i"
    by (simp_all add: qr)
qed

text \<open>Within a block, positions and offsets advance together.\<close>

lemma locate_add:
  assumes "layout_ok l" "b mod lay_su l + i < lay_su l"
  shows "locate l (b + i) = (fst (locate l b), snd (locate l b) + i)"
  using assms by (simp add: locate_def Let_def div_mod_add)

lemma filepos_strict_mono:
  assumes "layout_ok l" "x < y"
  shows "filepos l o' x < filepos l o' y"
proof (cases "x div lay_su l = y div lay_su l")
  case True
  then have "x mod lay_su l < y mod lay_su l"
    using assms(2) by (metis add_less_cancel_left div_mult_mod_eq)
  with True show ?thesis
    by (simp add: filepos_def)
next
  case False
  with assms(2) have "x div lay_su l < y div lay_su l"
    using div_le_mono [of x y "lay_su l"] by simp
  then have "Suc ((o' div lay_sc l * lay_spo l + x div lay_su l) * lay_sc l + o' mod lay_sc l)
      \<le> (o' div lay_sc l * lay_spo l + y div lay_su l) * lay_sc l + o' mod lay_sc l"
    using assms(1) mult_le_mono1 [of "Suc (x div lay_su l)" "y div lay_su l" "lay_sc l"]
    by (simp add: layout_ok_def distrib_right)
  from mult_le_mono1 [OF this, of "lay_su l"] have "lay_su l + filepos l o' x \<le> filepos l o' y + x mod lay_su l"
    by (simp add: filepos_def)
  moreover have "x mod lay_su l < lay_su l"
    using assms(1) by (simp add: layout_ok_def)
  ultimately show ?thesis
    by linarith
qed

section \<open>The bytes of a range that an object holds\<close>

definition object_set :: "ceph_file_layout \<Rightarrow> nat \<Rightarrow> nat \<Rightarrow> nat \<Rightarrow> nat set" where
  "object_set l a b o' = {x. x < lay_spo l * lay_su l \<and> a \<le> filepos l o' x \<and> filepos l o' x < b}"

lemma object_set_empty [simp]: "object_set l a a o' = {}"
  by (auto simp: object_set_def)

lemma object_set_step:
  assumes ok: "layout_ok l" and a: "a \<le> c" and n: "c mod lay_su l + n \<le> lay_su l" and loc: "locate l c = (k, xo)"
  shows "object_set l a (c + n) o' = object_set l a c o' \<union> (if o' = k then {xo..<xo + n} else {})"
proof -
  have new: "filepos l o' x \<in> {c..<c + n} \<longleftrightarrow> o' = k \<and> x \<in> {xo..<xo + n}" if x: "x < lay_spo l * lay_su l" for x
  proof
    assume p: "filepos l o' x \<in> {c..<c + n}"
    then obtain i where i: "filepos l o' x = c + i" "i < n"
      by (metis atLeastLessThan_iff le_iff_add nat_add_left_cancel_less)
    with n ok loc have "locate l (c + i) = (k, xo + i)"
      by (simp add: locate_add)
    with i locate_filepos [OF ok x, of o'] show "o' = k \<and> x \<in> {xo..<xo + n}"
      by auto
  next
    assume k: "o' = k \<and> x \<in> {xo..<xo + n}"
    then obtain i where i: "x = xo + i" "i < n"
      by (metis atLeastLessThan_iff le_iff_add nat_add_left_cancel_less)
    with n ok loc have "locate l (c + i) = (k, x)"
      by (simp add: locate_add)
    with filepos_locate(1) [OF ok this] k i show "filepos l o' x \<in> {c..<c + n}"
      by simp
  qed
  have lt: "x < lay_spo l * lay_su l" if "x \<in> {xo..<xo + n}" for x
  proof -
    from that obtain i where i: "x = xo + i" "i < n"
      by (metis atLeastLessThan_iff le_iff_add nat_add_left_cancel_less)
    with n ok loc have "locate l (c + i) = (k, x)"
      by (simp add: locate_add)
    from filepos_locate(2) [OF ok this] show ?thesis .
  qed
  show ?thesis
  proof (rule set_eqI)
    fix x
    show "x \<in> object_set l a (c + n) o' \<longleftrightarrow> x \<in> object_set l a c o' \<union> (if o' = k then {xo..<xo + n} else {})"
      using new [of x] lt [of x] a by (auto simp: object_set_def)
  qed
qed

text \<open>The range an object holds is continued without a gap.\<close>

lemma object_set_continues:
  assumes ok: "layout_ok l" and eq: "{s..<s + n} = object_set l a c k" and n: "0 < n" and loc: "locate l c = (k, xo)"
  shows "s + n = xo"
proof -
  have fp: "filepos l k xo = c" "xo < lay_spo l * lay_su l"
    using filepos_locate [OF ok loc] by auto
  have mem: "x \<in> object_set l a c k \<longleftrightarrow> s \<le> x \<and> x < s + n" for x
    using eq [symmetric] by simp
  have s: "s + n - 1 \<in> object_set l a c k"
    using n by (simp add: mem)
  then have a: "a \<le> filepos l k (s + n - 1)" "filepos l k (s + n - 1) < filepos l k xo"
    by (auto simp: object_set_def fp)
  then have "s + n - 1 < xo"
    using filepos_strict_mono [OF ok] by (metis not_less_iff_gr_or_eq order_less_asym)
  moreover have "\<not> s + n < xo"
  proof
    assume lt: "s + n < xo"
    then have "filepos l k (s + n) < c" "a \<le> filepos l k (s + n)"
      using filepos_strict_mono [OF ok lt, of k] filepos_strict_mono [OF ok, of "s + n - 1" "s + n" k] n a fp by auto
    with lt fp have "s + n \<in> object_set l a c k"
      by (simp add: object_set_def)
    then show False
      by (simp add: mem)
  qed
  ultimately show ?thesis
    by simp
qed

section \<open>One round of the loop\<close>

lemma unat_ucast_32_64 [simp]: "unat (ucast (w :: u32) :: u64) = unat w"
  by (metis uint_ucast_u32_u64 nat_uint_eq)

lemma unat_lt_pow32: "unat (w :: u32) < 2 ^ 32"
  using unsigned_less [of w] by simp

lemma unat_lt_pow64: "unat (w :: u64) < 2 ^ 64"
  using unsigned_less [of w] by simp

lemma unat_plus_64: "unat (a :: u64) + unat b < 2 ^ 64 \<Longrightarrow> unat (a + b) = unat a + unat b"
  by (simp add: unat_add_lem [THEN iffD1])

lemma unat_mult_64: "unat (a :: u64) * unat b < 2 ^ 64 \<Longrightarrow> unat (a * b) = unat a * unat b"
  by (simp add: unat_mult_lem [THEN iffD1])

lemma object_bytes_lt: "lay_spo l * lay_su l < 2 ^ 32"
  unfolding lay_spo_def lay_su_def
  using le_less_trans [OF div_times_less_eq_dividend unat_lt_pow32, of "fl_object_size l" "unat (fl_stripe_unit l)"]
  by simp

lemma stripe_mod_lt: "0 < n \<Longrightarrow> a mod n * u + r < n * u" if "r < (u :: nat)" for a n r u :: nat
proof -
  assume "0 < n"
  then have "Suc (a mod n) * u \<le> n * u"
    by (intro mult_right_mono) (auto simp: Suc_le_eq)
  with that show ?thesis
    by simp
qed

lemma block_extent_locate:
  assumes ok: "layout_ok l"
  obtains k xo xl where "block_extent l cur left = Ret (k, xo, xl)" "locate l (unat cur) = (unat k, unat xo)"
    "unat xl = min (unat left) (lay_su l - unat cur mod lay_su l)"
proof -
  define su sc spo :: u64 where d: "su = ucast (fl_stripe_unit l)" "sc = ucast (fl_stripe_count l)"
    "spo = ucast (fl_object_size l div fl_stripe_unit l)"
  have u [simp]: "unat su = lay_su l" "unat sc = lay_sc l" "unat spo = lay_spo l"
    by (simp_all add: d lay_su_def lay_sc_def lay_spo_def unat_div_distrib)
  have pos: "0 < lay_su l" "0 < lay_sc l" "0 < lay_spo l"
    using ok by (auto simp: layout_ok_def)
  have nz: "su \<noteq> 0" "sc \<noteq> 0" "spo \<noteq> 0"
    using pos u by (metis less_irrefl unat_0)+
  define st where "st = cur div su div sc"
  define k where "k = st div spo * sc + cur div su mod sc"
  define xo where "xo = st mod spo * su + cur mod su"
  define xl where "xl = (if left > su - cur mod su then su - cur mod su else left)"
  have "unat (st div spo) * unat sc + unat (cur div su mod sc) \<le> unat (cur div su)"
  proof -
    have "unat (st div spo) \<le> unat st"
      by (simp add: unat_div_distrib)
    then have "unat (st div spo) * unat sc \<le> unat st * unat sc"
      by (rule mult_right_mono) simp
    also have "unat st * unat sc + unat (cur div su mod sc) = unat (cur div su)"
      by (simp add: st_def unat_div_distrib unat_mod_distrib)
    finally show ?thesis
      by simp
  qed
  with unat_lt_pow64 [of "cur div su"] have k: "unat k = unat (st div spo) * unat sc + unat (cur div su mod sc)"
    unfolding k_def by (simp add: unat_plus_64 unat_mult_64 del: u)
  have "unat (st mod spo) * unat su + unat (cur mod su) < 2 ^ 64"
    using stripe_mod_lt [of "unat (cur mod su)" "unat su" "unat spo" "unat st"] pos object_bytes_lt [of l]
    by (simp add: unat_mod_distrib)
  then have xo: "unat xo = unat (st mod spo) * unat su + unat (cur mod su)"
    unfolding xo_def by (simp add: unat_plus_64 unat_mult_64 del: u)
  have "unat (su - cur mod su) = lay_su l - unat cur mod lay_su l"
    using pos by (simp add: unat_sub word_le_nat_alt unat_mod_distrib less_imp_le)
  then have xl: "unat xl = min (unat left) (lay_su l - unat cur mod lay_su l)"
    by (auto simp: xl_def word_less_nat_alt)
  have "block_extent l cur left = Ret (k, xo, xl)"
    using nz by (simp add: block_extent_def Let_def d k_def xo_def xl_def st_def)
  moreover have "locate l (unat cur) = (unat k, unat xo)"
    by (simp add: locate_def Let_def k xo st_def unat_div_distrib unat_mod_distrib)
  ultimately show ?thesis
    using xl that by blast
qed

section \<open>The extents of a range\<close>

lemma ucast_eq_0_64 [simp]: "(ucast (w :: u32) :: u64) = 0 \<longleftrightarrow> w = 0"
  by (metis unat_ucast_32_64 unat_eq_zero)

lemma block_bytes_eq:
  assumes "layout_ok l" "locate l c = (k, xo)" "c mod lay_su l + n \<le> lay_su l" "a \<le> c"
  shows "map (\<lambda>x. filepos l k x - a + boff) [xo..<xo + n] = [c - a + boff..<c - a + boff + n]"
proof (rule nth_equalityI)
  fix i assume "i < length (map (\<lambda>x. filepos l k x - a + boff) [xo..<xo + n])"
  then have i: "i < n" by simp
  then have "filepos l k (xo + i) = c + i"
    using assms filepos_locate(1) [of l "c + i" k "xo + i"] by (simp add: locate_add)
  with i assms(4) show "map (\<lambda>x. filepos l k x - a + boff) [xo..<xo + n] ! i = [c - a + boff..<c - a + boff + n] ! i"
    by simp
qed simp

text \<open>The places of the buffer that a list of buffer extents names, in order.\<close>

definition buffer_bytes :: "(u64 \<times> u64) list \<Rightarrow> nat list" where
  "buffer_bytes bs = concat (map (\<lambda>(p, n). [unat p..<unat p + unat n]) bs)"

lemma buffer_bytes_simps [simp]:
  "buffer_bytes [] = []"
  "buffer_bytes ((p, n) # bs) = [unat p..<unat p + unat n] @ buffer_bytes bs"
  "buffer_bytes (bs @ cs) = buffer_bytes bs @ buffer_bytes cs"
  by (simp_all add: buffer_bytes_def)

text \<open>
  An extent is the one of its object for the positions from \<open>a\<close> to \<open>c\<close>: it is the range of all the bytes
  of the object at such positions, and byte by byte it has the place of the buffer that belongs to the position.
\<close>

definition extent_holds :: "ceph_file_layout \<Rightarrow> u64 \<Rightarrow> nat \<Rightarrow> nat \<Rightarrow> nat \<Rightarrow> object_extent \<Rightarrow> bool" where
  "extent_holds l ts a boff c ex \<longleftrightarrow>
     {unat (oe_offset ex)..<unat (oe_offset ex) + unat (oe_length ex)} = object_set l a c (unat (oe_objectno ex))
     \<and> 0 < unat (oe_length ex)
     \<and> buffer_bytes (oe_buffer_extents ex) =
         map (\<lambda>x. filepos l (unat (oe_objectno ex)) x - a + boff)
           [unat (oe_offset ex)..<unat (oe_offset ex) + unat (oe_length ex)]
     \<and> (\<forall>(p, n) \<in> set (oe_buffer_extents ex). n \<noteq> 0)
     \<and> object_truncate_size l (oe_objectno ex) ts = Ret (oe_truncate_size ex)
     \<and> oe_oloc ex = file_to_object_locator l"

definition extents_inv ::
  "(u64 \<Rightarrow> string) \<Rightarrow> ceph_file_layout \<Rightarrow> u64 \<Rightarrow> nat \<Rightarrow> nat \<Rightarrow> nat \<Rightarrow> extent_map \<Rightarrow> bool" where
  "extents_inv name l ts a boff c m \<longleftrightarrow>
     map_ok m \<and> fst ` set m \<subseteq> range name
     \<and> (\<forall>k. case map_of m (name k) of
               None \<Rightarrow> object_set l a c (unat k) = {}
             | Some exv \<Rightarrow> \<exists>ex. exv = [ex] \<and> oe_objectno ex = k \<and> oe_oid ex = name k \<and> extent_holds l ts a boff c ex)"

lemma object_truncate_size_total:
  assumes "layout_ok l"
  shows "\<exists>v. object_truncate_size l k ts = Ret v"
proof -
  have "0 < unat (fl_stripe_unit l)" "0 < unat (fl_stripe_count l)" "unat (fl_stripe_unit l) \<le> unat (fl_object_size l)"
    using assms by (auto simp: layout_ok_def lay_su_def lay_sc_def lay_spo_def div_greater_zero_iff)
  then have "fl_stripe_unit l \<noteq> 0" "fl_stripe_count l \<noteq> 0" "fl_object_size l \<noteq> 0"
    "(ucast (fl_stripe_unit l) :: u64) \<le> ucast (fl_object_size l)"
    by (auto simp: word_le_nat_alt)
  then show ?thesis
    by (auto simp: object_truncate_size_def Let_def)
qed

lemma extent_holds_new:
  assumes ok: "layout_ok l" and loc: "locate l c = (unat k, unat xo)" and emp: "object_set l a c (unat k) = {}"
    and xl: "c mod lay_su l + unat xl \<le> lay_su l" "0 < unat xl" and a: "a \<le> c" and pos: "unat p = c - a + boff"
    and ts: "object_truncate_size l k t = Ret v"
  shows "extent_holds l t a boff (c + unat xl)
    \<lparr>oe_oid = oid, oe_objectno = k, oe_offset = xo, oe_length = xl, oe_truncate_size = v,
     oe_oloc = file_to_object_locator l, oe_buffer_extents = [(p, xl)]\<rparr>"
  using object_set_step [OF ok a xl(1) loc, of "unat k"] emp ts xl(2) block_bytes_eq [OF ok loc xl(1) a]
  by (auto simp: extent_holds_def pos)

lemma extent_holds_other:
  assumes "layout_ok l" "a \<le> c" "c mod lay_su l + n \<le> lay_su l" "locate l c = (k, xo)"
    and "unat (oe_objectno ex) \<noteq> k" "extent_holds l t a boff c ex"
  shows "extent_holds l t a boff (c + n) ex"
  using assms object_set_step [OF assms(1-4), of "unat (oe_objectno ex)"] by (simp add: extent_holds_def)

lemma extent_holds_more:
  assumes ok: "layout_ok l" and loc: "locate l c = (unat k, unat xo)" and ex: "extent_holds l t a boff c ex" "oe_objectno ex = k"
    and xl: "c mod lay_su l + unat xl \<le> lay_su l" "0 < unat xl" and a: "a \<le> c" and pos: "unat p = c - a + boff"
  shows "oe_offset ex + oe_length ex = xo"
    and "extent_holds l t a boff (c + unat xl)
      (ex\<lparr>oe_length := oe_length ex + xl, oe_buffer_extents := oe_buffer_extents ex @ [(p, xl)]\<rparr>)"
proof -
  have h: "{unat (oe_offset ex)..<unat (oe_offset ex) + unat (oe_length ex)} = object_set l a c (unat k)" "0 < unat (oe_length ex)"
    using ex by (simp_all add: extent_holds_def)
  have xo: "unat (oe_offset ex) + unat (oe_length ex) = unat xo"
    by (rule object_set_continues [OF ok h loc])
  then show o': "oe_offset ex + oe_length ex = xo"
    using unat_lt_pow64 [of xo] by (simp add: word_unat_eq_iff unat_plus_64)
  have "locate l (c + (unat xl - 1)) = (unat k, unat xo + (unat xl - 1))"
    using locate_add [OF ok, of c "unat xl - 1"] loc xl by simp
  from filepos_locate(2) [OF ok this] have "unat xo + unat xl \<le> lay_spo l * lay_su l"
    using xl(2) by simp
  then have "unat (oe_length ex) + unat xl < 2 ^ 64"
    using xo object_bytes_lt [of l] by simp
  then have len: "unat (oe_length ex + xl) = unat (oe_length ex) + unat xl"
    by (rule unat_plus_64)
  have end': "unat (oe_offset ex) + unat (oe_length ex + xl) = unat xo + unat xl"
    using xo by (simp add: len)
  have up: "[unat (oe_offset ex)..<unat (oe_offset ex) + unat (oe_length ex + xl)]
      = [unat (oe_offset ex)..<unat xo] @ [unat xo..<unat xo + unat xl]"
    using upt_add_eq_append [of "unat (oe_offset ex)" "unat xo" "unat xl"] unfolding end' by (simp flip: xo)
  have "{unat (oe_offset ex)..<unat (oe_offset ex) + unat (oe_length ex + xl)} = object_set l a (c + unat xl) (unat k)"
    unfolding object_set_step [OF ok a xl(1) loc] h(1) [symmetric] using xo by (auto simp: len)
  then show "extent_holds l t a boff (c + unat xl)
      (ex\<lparr>oe_length := oe_length ex + xl, oe_buffer_extents := oe_buffer_extents ex @ [(p, xl)]\<rparr>)"
    using ex xl(2) xo block_bytes_eq [OF ok loc xl(1) a, of boff] unfolding extent_holds_def
    by (auto simp: up [unfolded len] pos len simp del: upt_Suc)
qed


lemma add_extent_inv:
  assumes ok: "layout_ok l" and name: "name = c_snprintf (length fmt + 32) fmt" "inj name"
    and inv: "extents_inv name l t a boff c m" and loc: "locate l c = (unat k, unat xo)"
    and xl: "c mod lay_su l + unat xl \<le> lay_su l" "0 < unat xl" and a: "a \<le> c" and pos: "unat p = c - a + boff"
  shows "exec_post (add_extent fmt l t p (k, xo, xl) m) (extents_inv name l t a boff (c + unat xl))"
proof -
  have ok_m: "map_ok m" and keys: "fst ` set m \<subseteq> range name"
    using inv unfolding extents_inv_def by simp_all
  have inv': "case map_of m (name k') of None \<Rightarrow> object_set l a c (unat k') = {}
      | Some exv \<Rightarrow> \<exists>ex. exv = [ex] \<and> oe_objectno ex = k' \<and> oe_oid ex = name k' \<and> extent_holds l t a boff c ex" for k'
    using inv unfolding extents_inv_def by blast
  have put: "extents_inv name l t a boff (c + unat xl) (map_put m (name k) [ex])"
    if ex: "oe_objectno ex = k" "oe_oid ex = name k" "extent_holds l t a boff (c + unat xl) ex" for ex
  proof -
    have "case map_of (map_put m (name k) [ex]) (name k') of None \<Rightarrow> object_set l a (c + unat xl) (unat k') = {}
      | Some exv \<Rightarrow> \<exists>ex. exv = [ex] \<and> oe_objectno ex = k' \<and> oe_oid ex = name k' \<and> extent_holds l t a boff (c + unat xl) ex" for k'
    proof (cases "k' = k")
      case True
      with ex ok_m show ?thesis by simp
    next
      case False
      then have n: "name k' \<noteq> name k" "unat k' \<noteq> unat k"
        using name(2) by (auto dest: injD simp flip: word_unat_eq_iff)
      have "extent_holds l t a boff (c + unat xl) ex'" if "oe_objectno ex' = k'" "extent_holds l t a boff c ex'" for ex'
        using extent_holds_other [OF ok a xl(1) loc _ that(2)] that(1) n(2) by simp
      with inv' [of k'] ok_m n object_set_step [OF ok a xl(1) loc, of "unat k'"] show ?thesis
        by (cases "map_of m (name k')") auto
    qed
    then show ?thesis
      using keys ok_m unfolding extents_inv_def by (simp add: keys_map_put)
  qed
  show ?thesis
  proof (cases "map_of m (name k)")
    case None
    then have emp: "object_set l a c (unat k) = {}"
      using inv' [of k] by simp
    obtain v where v: "object_truncate_size l k t = Ret v"
      using object_truncate_size_total [OF ok] by blast
    note new = put [OF _ _ extent_holds_new [OF ok loc emp xl a pos v, of "name k"], simplified]
    have "add_extent fmt l t p (k, xo, xl) m = Ret (map_put m (name k)
        [\<lparr>oe_oid = name k, oe_objectno = k, oe_offset = xo, oe_length = xl, oe_truncate_size = v,
          oe_oloc = file_to_object_locator l, oe_buffer_extents = [(p, xl)]\<rparr>])"
      using None v unfolding name(1) by (simp add: add_extent_def Let_def)
    with new show ?thesis
      by simp
  next
    case (Some exv)
    with inv' [of k] obtain ex where ex: "exv = [ex]" "oe_objectno ex = k" "oe_oid ex = name k" "extent_holds l t a boff c ex"
      by auto
    note more = extent_holds_more [OF ok loc ex(4,2) xl a pos]
    have "add_extent fmt l t p (k, xo, xl) m = Ret (map_put m (name k)
        [ex\<lparr>oe_length := oe_length ex + xl, oe_buffer_extents := oe_buffer_extents ex @ [(p, xl)]\<rparr>])"
      using Some ex(1) more(1) unfolding name(1) by (simp add: add_extent_def Let_def)
    with put [OF _ _ more(2)] ex(2,3) show ?thesis
      by simp
  qed
qed

lemma file_to_extents_loop_inv:
  assumes ok: "layout_ok l" and name: "name = c_snprintf (length fmt + 32) fmt" "inj name"
    and a: "unat offset \<le> unat cur" and lim: "unat cur + unat left < 2 ^ 64"
    and lim': "unat cur - unat offset + unat boff + unat left < 2 ^ 64"
    and inv: "extents_inv name l t (unat offset) (unat boff) (unat cur) m"
  shows "exec_post (file_to_extents_loop fmt l offset t boff cur left m)
    (extents_inv name l t (unat offset) (unat boff) (unat cur + unat left))"
  using a lim lim' inv
proof (induction "unat left" arbitrary: cur left m rule: less_induct)
  case less
  show ?case
  proof (cases "left = 0")
    case True
    then show ?thesis
      unfolding file_to_extents_loop.simps [of fmt l offset t boff cur left m] using less.prems by simp
  next
    case False
    obtain k xo xl where b: "block_extent l cur left = Ret (k, xo, xl)" and loc: "locate l (unat cur) = (unat k, unat xo)"
      and xl: "unat xl = min (unat left) (lay_su l - unat cur mod lay_su l)"
      by (rule block_extent_locate [OF ok, of cur left])
    note pr = block_extent_progress [OF b False]
    have md: "unat cur mod lay_su l < lay_su l"
      using ok by (simp add: layout_ok_def)
    have le: "unat cur mod lay_su l + unat xl \<le> lay_su l" "0 < unat xl" "unat xl \<le> unat left"
      using xl md False pr(1,2) by (auto simp: word_le_nat_alt unat_gt_0 intro: gr0I)
    have "unat (cur - offset) = unat cur - unat offset"
      using less.prems(1) by (simp add: unat_sub word_le_nat_alt)
    then have pos: "unat (cur - offset + boff) = unat cur - unat offset + unat boff"
      using less.prems(3) by (simp add: unat_plus_64)
    have cur': "unat (cur + xl) = unat cur + unat xl"
      using less.prems(2) le by (simp add: unat_plus_64)
    have left': "unat (left - xl) = unat left - unat xl"
      using le by (simp add: unat_sub word_le_nat_alt)
    have "exec_post (file_to_extents_loop fmt l offset t boff (cur + xl) (left - xl) m')
        (extents_inv name l t (unat offset) (unat boff) (unat cur + unat left))"
      if "extents_inv name l t (unat offset) (unat boff) (unat cur + unat xl) m'" for m'
      using less.hyps [OF pr(3), of "cur + xl" m'] less.prems(1-3) that le(3) by (simp add: cur' left')
    note rest = exec_post_mono [OF add_extent_inv [OF ok name less.prems(4) loc le(1,2) less.prems(1) pos] this]
    show ?thesis
      unfolding file_to_extents_loop.simps [of fmt l offset t boff cur left m] using False rest by (simp add: b)
  qed
qed

section \<open>The names of the objects\<close>

definition digit_value :: "char \<Rightarrow> nat" where
  "digit_value c = (if of_char c < (58 :: nat) then of_char c - 48 else of_char c - 87)"

definition hex_value :: "nat \<Rightarrow> string \<Rightarrow> nat" where
  "hex_value v s = foldl (\<lambda>v c. v * 16 + digit_value c) v s"

lemma digit_value_hex [simp]: "d < 16 \<Longrightarrow> digit_value (hex_digit d) = d"
  by (auto simp: digit_value_def hex_digit_def)

lemma hex_digit_not_percent: "d < 16 \<Longrightarrow> hex_digit d \<noteq> CHR ''%''"
proof
  assume "d < 16" "hex_digit d = CHR ''%''"
  then have "of_char (hex_digit d) = (37 :: nat)"
    by simp
  with \<open>d < 16\<close> show False
    by (simp add: hex_digit_def split: if_splits)
qed

lemma hex_value_string: "hex_value 0 (hex_string n) = n"
proof (induction n rule: hex_string.induct)
  case (1 n)
  then show ?case
    by (subst hex_string.simps) (auto simp: hex_value_def)
qed

lemma length_hex_string: "n < 16 ^ Suc k \<Longrightarrow> length (hex_string n) \<le> Suc k"
proof (induction k arbitrary: n)
  case (Suc k)
  then have "n div 16 < 16 ^ Suc k"
    by (simp add: less_mult_imp_div_less mult.commute)
  with Suc.IH show ?case
    by (subst hex_string.simps) simp
qed (simp add: hex_string.simps)

lemma length_hex_u64: "length (hex_string (unat (w :: u64))) \<le> 16"
  using length_hex_string [of "unat w" 15] unat_lt_pow64 [of w] by simp

lemma hex_string_no_percent: "CHR ''%'' \<notin> set (hex_string n)"
proof (induction n rule: hex_string.induct)
  case (1 n)
  then show ?case
    using hex_digit_not_percent [of n] hex_digit_not_percent [of "n mod 16"] by (subst hex_string.simps) auto
qed

lemma hex_value_pad0: "hex_value 0 (pad0 w s) = hex_value 0 s"
proof -
  have "foldl (\<lambda>v c. v * 16 + digit_value c) 0 (replicate n CHR ''0'') = 0" for n
    by (induction n) (simp_all add: digit_value_def)
  then show ?thesis
    by (simp add: hex_value_def pad0_def)
qed

lemma c_format_plain: "CHR ''%'' \<notin> set s \<Longrightarrow> c_format (s @ f) n = s @ c_format f n"
  by (induction s) (auto simp: c_format.simps [of "_ # _"])

text \<open>The name of an object: the inode number and the object number in hexadecimal digits.\<close>

definition object_name :: "u64 \<Rightarrow> u64 \<Rightarrow> string" where
  "object_name ino k = hex_string (unat ino) @ ''.'' @ pad0 8 (hex_string (unat k))"

lemma inj_object_name: "inj (object_name ino)"
proof (rule injI)
  fix j k
  assume "object_name ino j = object_name ino k"
  then have "hex_value 0 (pad0 8 (hex_string (unat j))) = hex_value 0 (pad0 8 (hex_string (unat k)))"
    by (simp add: object_name_def)
  then show "j = k"
    by (simp add: hex_value_pad0 hex_value_string word_unat_eq_iff)
qed

lemma ino_format: "c_snprintf 32 ''%llx.%%08llx'' ino = hex_string (unat ino) @ ''.%08llx''"
  using length_hex_u64 [of ino] by (simp add: c_snprintf_def c_format.simps)

lemma snprintf_object_name:
  "c_snprintf (length (hex_string (unat ino) @ ''.%08llx'') + 32) (hex_string (unat ino) @ ''.%08llx'') = object_name ino"
proof
  fix k
  have "c_format (hex_string (unat ino) @ ''.%08llx'') k = object_name ino k"
    unfolding c_format_plain [OF hex_string_no_percent] by (simp add: object_name_def c_format.simps)
  then show "c_snprintf (length (hex_string (unat ino) @ ''.%08llx'') + 32) (hex_string (unat ino) @ ''.%08llx'') k = object_name ino k"
    using length_hex_u64 [of k] by (simp add: c_snprintf_def object_name_def pad0_def)
qed

section \<open>The extents of a file\<close>

lemma object_le_filepos: "layout_ok l \<Longrightarrow> k \<le> filepos l k x"
proof -
  assume ok: "layout_ok l"
  have "k div lay_sc l * lay_sc l + k mod lay_sc l \<le> (k div lay_sc l * lay_spo l + x div lay_su l) * lay_sc l + k mod lay_sc l"
    using ok by (intro add_right_mono mult_right_mono) (auto simp: layout_ok_def intro: trans_le_add1)
  also have "\<dots> \<le> \<dots> * lay_su l"
    using ok by (simp add: layout_ok_def)
  finally show ?thesis
    by (simp add: filepos_def)
qed

lemma extents_inv_start: "extents_inv name l t a boff a []"
  by (simp add: extents_inv_def)

lemma extents_invD:
  fixes k :: u64
  assumes "extents_inv name l t a boff c m"
  shows "map_of m (name k) = Some exv \<Longrightarrow>
      \<exists>ex. exv = [ex] \<and> oe_objectno ex = k \<and> oe_oid ex = name k \<and> extent_holds l t a boff c ex"
    and "map_of m (name k) = None \<Longrightarrow> object_set l a c (unat k) = {}"
proof -
  have "case map_of m (name k) of None \<Rightarrow> object_set l a c (unat k) = {}
      | Some exv \<Rightarrow> \<exists>ex. exv = [ex] \<and> oe_objectno ex = k \<and> oe_oid ex = name k \<and> extent_holds l t a boff c ex"
    using assms unfolding extents_inv_def by blast
  then show "map_of m (name k) = Some exv \<Longrightarrow>
      \<exists>ex. exv = [ex] \<and> oe_objectno ex = k \<and> oe_oid ex = name k \<and> extent_holds l t a boff c ex"
    and "map_of m (name k) = None \<Longrightarrow> object_set l a c (unat k) = {}"
    by simp_all
qed

lemma extent_holds_nonempty: "extent_holds l t a boff c ex \<Longrightarrow> object_set l a c (unat (oe_objectno ex)) \<noteq> {}"
  unfolding extent_holds_def by (metis atLeastLessThan_empty_iff less_add_same_cancel1)

text \<open>The list of all extents, from the map: one for each object with a byte in the range.\<close>

lemma extents_inv_list:
  assumes inv: "extents_inv name l t a boff c m" and inj: "inj name"
  shows "distinct (map oe_objectno (concat (map snd m)))"
    and "oe_objectno ` set (concat (map snd m)) = {k :: u64. object_set l a c (unat k) \<noteq> {}}"
    and "ex \<in> set (concat (map snd m)) \<Longrightarrow> extent_holds l t a boff c ex \<and> oe_oid ex = name (oe_objectno ex)"
proof -
  have ok: "map_ok m" and keys: "fst ` set m \<subseteq> range name"
    using inv unfolding extents_inv_def by simp_all
  have entry: "\<exists>k ex. n = name k \<and> exv = [ex] \<and> oe_objectno ex = k \<and> oe_oid ex = name k \<and> extent_holds l t a boff c ex"
    if mem: "(n, exv) \<in> set m" for n exv
  proof -
    from mem keys obtain k where k: "n = name k"
      by force
    have "map_of m (name k) = Some exv"
      using mem ok k by (simp add: map_ok_distinct)
    from extents_invD(1) [OF inv this] k show ?thesis
      by blast
  qed
  have holds: "extent_holds l t a boff c ex \<and> oe_oid ex = name (oe_objectno ex)" if mem: "ex \<in> set (concat (map snd m))" for ex
  proof -
    from mem obtain n exv where "(n, exv) \<in> set m" "ex \<in> set exv"
      by auto
    with entry [of n exv] show ?thesis
      by auto
  qed
  then show "ex \<in> set (concat (map snd m)) \<Longrightarrow> extent_holds l t a boff c ex \<and> oe_oid ex = name (oe_objectno ex)" .
  have "map_ok m' \<Longrightarrow> set m' \<subseteq> set m \<Longrightarrow> map name (map oe_objectno (concat (map snd m'))) = map fst m'" for m'
  proof (induction m')
    case (Cons p m')
    then show ?case
      using entry [of "fst p" "snd p"] by (cases p) auto
  qed simp
  from this [OF ok] have "map name (map oe_objectno (concat (map snd m))) = map fst m"
    by simp
  with ok show "distinct (map oe_objectno (concat (map snd m)))"
    by (metis distinct_map map_ok_distinct)
  show "oe_objectno ` set (concat (map snd m)) = {k :: u64. object_set l a c (unat k) \<noteq> {}}"
  proof (intro set_eqI iffI)
    fix k
    assume "k \<in> oe_objectno ` set (concat (map snd m))"
    then obtain ex where "oe_objectno ex = k" "extent_holds l t a boff c ex"
      using holds by blast
    then show "k \<in> {k :: u64. object_set l a c (unat k) \<noteq> {}}"
      using extent_holds_nonempty by blast
  next
    fix k
    assume "k \<in> {k :: u64. object_set l a c (unat k) \<noteq> {}}"
    then obtain exv where "map_of m (name k) = Some exv"
      using extents_invD(2) [OF inv, of k] by (cases "map_of m (name k)") auto
    with extents_invD(1) [OF inv this] obtain ex where "map_of m (name k) = Some [ex]" "oe_objectno ex = k"
      by blast
    then show "k \<in> oe_objectno ` set (concat (map snd m))"
      by (force dest: map_of_SomeD)
  qed
qed

lemma file_to_extents_spec:
  assumes ok: "layout_ok l" and len: "0 < len" and lim: "unat offset + unat len < 2 ^ 64"
  obtains exts where "file_to_extents_ino ino l offset len t [] = Ret exts"
    "distinct (map oe_objectno exts)"
    "oe_objectno ` set exts = {k. object_set l (unat offset) (unat offset + unat len) (unat k) \<noteq> {}}"
    "\<And>ex. ex \<in> set exts \<Longrightarrow> extent_holds l t (unat offset) 0 (unat offset + unat len) ex \<and> oe_oid ex = object_name ino (oe_objectno ex)"
proof -
  let ?fmt = "hex_string (unat ino) @ ''.%08llx''"
  have su: "fl_stripe_unit l \<noteq> 0" "fl_stripe_unit l \<le> fl_object_size l"
    using ok by (auto simp: layout_ok_def lay_su_def lay_spo_def div_greater_zero_iff word_le_nat_alt)
  have "exec_post (file_to_extents_loop ?fmt l offset t 0 offset len [])
      (extents_inv (object_name ino) l t (unat offset) (unat (0 :: u64)) (unat offset + unat len))"
    by (rule file_to_extents_loop_inv [OF ok snprintf_object_name [symmetric] inj_object_name])
       (use lim in \<open>auto simp: extents_inv_start\<close>)
  then obtain m where m: "file_to_extents_loop ?fmt l offset t 0 offset len [] = Ret m"
    "extents_inv (object_name ino) l t (unat offset) 0 (unat offset + unat len) m"
    by (auto dest: exec_postD)
  have "file_to_extents_ino ino l offset len t [] = Ret (concat (map snd m))"
    using m(1) su len by (simp add: file_to_extents_ino_def file_to_extents_def file_to_extents_map_def
        ino_format assimilate_extents_def)
  with extents_inv_list [OF m(2) inj_object_name] show ?thesis
    using that by blast
qed

end
