(* ===== verification/Striping_Inverse.thy ===== *)
theory Striping_Inverse
imports Striping
begin

text \<open>
  The other operations of \<open>Striper\<close> against the same position function: the way back from an extent to the
  file, the size an object is truncated to, and the number of objects of a file; and the properties of the striping.
\<close>

section \<open>Back to the file\<close>

lemma filepos_add:
  "x mod lay_su l + i < lay_su l \<Longrightarrow> filepos l k (x + i) = filepos l k x + i"
  by (simp add: filepos_def div_mod_add)

lemma filepos_block:
  assumes "x mod lay_su l + n \<le> lay_su l"
  shows "map (filepos l k) [x..<x + n] = [filepos l k x..<filepos l k x + n]"
proof (rule nth_equalityI)
  fix i
  assume "i < length (map (filepos l k) [x..<x + n])"
  with assms show "map (filepos l k) [x..<x + n] ! i = [filepos l k x..<filepos l k x + n] ! i"
    by (simp add: filepos_add)
qed simp

text \<open>The position the code computes for a block does not wrap around when the last position of the extent does not.\<close>

lemma extent_off_exact:
  fixes objectno off :: u64
  assumes ok: "layout_ok l" and fp: "filepos l (unat objectno) (unat off) < 2 ^ 64"
    and su: "unat su = lay_su l" "unat sc = lay_sc l" "unat spo = lay_spo l"
  shows "unat (((off div su + objectno div sc * spo) * sc + objectno mod sc) * su + off mod su) = filepos l (unat objectno) (unat off)"
proof -
  define p where "p = unat (objectno div sc) * unat spo"
  define s where "s = unat (off div su) + p"
  define b where "b = s * unat sc + unat (objectno mod sc)"
  have pos: "0 < unat su" "0 < unat sc"
    using ok su by (auto simp: layout_ok_def)
  have fp': "b * unat su + unat (off mod su) < 2 ^ 64"
    using fp by (simp add: filepos_def su [symmetric] b_def s_def p_def unat_div_distrib unat_mod_distrib add.commute)
  have le: "p \<le> s" "s \<le> s * unat sc" "b \<le> b * unat su"
    using pos by (simp_all add: s_def)
  have b': "s * unat sc \<le> b"
    by (simp add: b_def)
  have p: "unat (objectno div sc * spo) = p"
    using le b' fp' unfolding p_def by (intro unat_mult_64) linarith
  have s: "unat (off div su + objectno div sc * spo) = s"
    using le b' fp' unfolding s_def p [symmetric] by (intro unat_plus_64) linarith
  have m: "unat ((off div su + objectno div sc * spo) * sc) = s * unat sc"
    using le b' fp' unfolding s [symmetric] by (intro unat_mult_64) linarith
  have b: "unat ((off div su + objectno div sc * spo) * sc + objectno mod sc) = b"
    using le fp' unfolding b_def m [symmetric] by (intro unat_plus_64) linarith
  have "unat (((off div su + objectno div sc * spo) * sc + objectno mod sc) * su) = b * unat su"
    using fp' unfolding b [symmetric] by (intro unat_mult_64) linarith
  then have "unat (((off div su + objectno div sc * spo) * sc + objectno mod sc) * su + off mod su) = b * unat su + unat (off mod su)"
    using fp' by (simp add: unat_plus_64)
  also have "\<dots> = filepos l (unat objectno) (unat off)"
    by (simp add: filepos_def su [symmetric] b_def s_def p_def unat_div_distrib unat_mod_distrib add.commute)
  finally show ?thesis .
qed

lemma extent_to_file_loop_spec:
  assumes ok: "layout_ok l" and su: "unat su = lay_su l" "unat sc = lay_sc l" "unat spo = lay_spo l"
    and fp: "0 < unat len \<Longrightarrow> filepos l (unat objectno) (unat off + unat len - 1) < 2 ^ 64" and lim: "unat off + unat len < 2 ^ 64"
    and ob: "len \<noteq> 0 \<Longrightarrow> ob = off mod su"
  shows "\<exists>new. extent_to_file_loop su sc spo objectno off len ob extents = Ret (extents @ new)
    \<and> buffer_bytes new = map (filepos l (unat objectno)) [unat off..<unat off + unat len]"
  using fp lim ob
proof (induction "unat len" arbitrary: len off ob extents rule: less_induct)
  case less
  show ?case
  proof (cases "len = 0")
    case True
    then show ?thesis
      by (simp add: extent_to_file_loop.simps)
  next
    case False
    have nz: "su \<noteq> 0" "sc \<noteq> 0"
      using ok su by (auto simp: layout_ok_def)
    have ob': "ob = off mod su" "ob < su" "unat ob = unat off mod lay_su l"
      using less.prems(3) False nz su word_mod_less_divisor [of su off] by (auto simp: word_gt_0 unat_mod_distrib)
    define el where "el = (if len < su - ob then len else su - ob)"
    have sub: "unat (su - ob) = lay_su l - unat ob"
      using ob' su by (simp add: unat_sub less_imp_le)
    then have el: "unat el = min (unat len) (lay_su l - unat ob)"
      by (auto simp: el_def word_less_nat_alt)
    have lt: "unat ob < lay_su l"
      using ob'(2) su by (simp add: word_less_nat_alt)
    have el': "0 < unat el" "unat el \<le> unat len" "unat off mod lay_su l + unat el \<le> lay_su l"
      using el lt ob'(3) False by (auto simp: unat_gt_0)
    have off': "unat (off + el) = unat off + unat el" and len': "unat (len - el) = unat len - unat el"
      using less.prems(2) el' by (simp_all add: unat_plus_64 unat_sub word_le_nat_alt)
    have mono: "filepos l (unat objectno) (unat off) < 2 ^ 64"
    proof (cases "unat len = 1")
      case False
      with el' have "unat off < unat off + unat len - 1"
        by linarith
      from filepos_strict_mono [OF ok this, of "unat objectno"] less.prems(1) el' show ?thesis
        by simp
    qed (use less.prems(1) in simp)
    have next_ob: "0 = (off + el) mod su" if "len - el \<noteq> 0"
    proof -
      have "el = su - ob"
        using that by (auto simp: el_def split: if_splits)
      with sub ob'(3) off' lt have "unat (off + el) = unat off - unat off mod lay_su l + lay_su l"
        by simp
      then have "unat (off + el) mod lay_su l = 0"
        by (simp add: minus_mod_eq_div_mult)
      then show ?thesis
        by (simp add: word_unat_eq_iff unat_mod_distrib su)
    qed
    have pre: "unat (len - el) < unat len" "0 < unat (len - el) \<Longrightarrow>
        filepos l (unat objectno) (unat (off + el) + unat (len - el) - 1) < 2 ^ 64" "unat (off + el) + unat (len - el) < 2 ^ 64"
      using less.prems(1,2) el' by (simp_all add: off' len')
    obtain new where new: "extent_to_file_loop su sc spo objectno (off + el) (len - el) 0
          (extents @ [(((off div su + objectno div sc * spo) * sc + objectno mod sc) * su + ob, el)])
        = Ret ((extents @ [(((off div su + objectno div sc * spo) * sc + objectno mod sc) * su + ob, el)]) @ new)"
      "buffer_bytes new = map (filepos l (unat objectno)) [unat (off + el)..<unat (off + el) + unat (len - el)]"
      using less.hyps [OF pre next_ob] by blast
    have split: "[unat off..<unat off + unat len] = [unat off..<unat off + unat el] @ [unat off + unat el..<unat off + unat len]"
      using el' by (metis le_add1 le_iff_add nat_add_left_cancel_le upt_add_eq_append)
    have "buffer_bytes ([(((off div su + objectno div sc * spo) * sc + objectno mod sc) * su + ob, el)] @ new)
        = map (filepos l (unat objectno)) [unat off..<unat off + unat len]"
      using new(2) filepos_block [OF el'(3)] el'(2)
      by (simp add: extent_off_exact [OF ok mono su] ob'(1) off' len' split)
    moreover have "extent_to_file_loop su sc spo objectno off len ob extents
        = Ret (extents @ ([(((off div su + objectno div sc * spo) * sc + objectno mod sc) * su + ob, el)] @ new))"
      unfolding extent_to_file_loop.simps [of su sc spo objectno off len ob extents] using False nz ob'(2) new(1)
      by (simp add: Let_def el_def)
    ultimately show ?thesis
      by blast
  qed
qed

lemma extent_to_file_spec:
  assumes ok: "layout_ok l" and fp: "0 < len \<Longrightarrow> filepos l (unat k) (unat off + unat len - 1) < 2 ^ 64"
    and lim: "unat off + unat len < 2 ^ 64"
  obtains new where "extent_to_file l k off len extents = Ret (extents @ new)"
    "buffer_bytes new = map (filepos l (unat k)) [unat off..<unat off + unat len]"
proof -
  let ?su = "ucast (fl_stripe_unit l) :: u64" and ?sc = "ucast (fl_stripe_count l) :: u64"
  let ?spo = "ucast (fl_object_size l div fl_stripe_unit l) :: u64"
  have su: "unat ?su = lay_su l" "unat ?sc = lay_sc l" "unat ?spo = lay_spo l"
    by (simp_all add: lay_su_def lay_sc_def lay_spo_def unat_div_distrib)
  have nz: "fl_stripe_unit l \<noteq> 0" "fl_stripe_unit l \<le> fl_object_size l"
    using ok by (auto simp: layout_ok_def lay_su_def lay_spo_def div_greater_zero_iff word_le_nat_alt)
  from extent_to_file_loop_spec [OF ok su, of len k off "off mod ?su" extents] fp lim obtain new where
    "extent_to_file_loop ?su ?sc ?spo k off len (off mod ?su) extents = Ret (extents @ new)"
    "buffer_bytes new = map (filepos l (unat k)) [unat off..<unat off + unat len]"
    by (auto simp: unat_gt_0 word_gt_0)
  with nz show ?thesis
    by (intro that [of new]) (simp_all add: extent_to_file_def Let_def)
qed

section \<open>Truncation\<close>

lemma lex_less:
  fixes n :: nat
  assumes "r < n" "r' < n"
  shows "q * n + r < q' * n + r' \<longleftrightarrow> q < q' \<or> q = q' \<and> r < r'"
proof -
  have "q * n + r < q' * n + r'" if "q < q'"
    using mult_le_mono1 [of "Suc q" q' n] that assms by simp
  moreover have "q' * n + r' < q * n + r" if "q' < q"
    using mult_le_mono1 [of "Suc q'" q n] that assms by simp
  ultimately show ?thesis
    by (metis add_less_cancel_left nat_neq_iff order_less_asym)
qed

lemma lex_eq:
  fixes n :: nat
  assumes "r < n" "r' < n"
  shows "q * n + r = q' * n + r' \<longleftrightarrow> q = q' \<and> r = r'"
  using lex_less [OF assms, of q q'] lex_less [OF assms(2,1), of q' q] by (metis nat_neq_iff)

lemma lex4_less:
  fixes u v w :: nat
  assumes "b < u" "b' < u" "c < v" "c' < v" "d < w" "d' < w"
  shows "((a * u + b) * v + c) * w + d < ((a' * u + b') * v + c') * w + d' \<longleftrightarrow>
    a < a' \<or> a = a' \<and> (b < b' \<or> b = b' \<and> (c < c' \<or> c = c' \<and> d < d'))"
  unfolding lex_less [OF assms(5,6)] lex_less [OF assms(3,4)] lex_less [OF assms(1,2)] lex_eq [OF assms(3,4)] lex_eq [OF assms(1,2)]
  by blast

text \<open>A position is before \<open>t\<close> when its object set, stripe, object of the set and offset in the block are, in this order.\<close>

lemma filepos_less_iff:
  fixes t :: nat
  assumes ok: "layout_ok l" and x: "x < lay_spo l * lay_su l"
  defines "st \<equiv> t div lay_su l div lay_sc l"
  shows "filepos l k x < t \<longleftrightarrow>
    k div lay_sc l < st div lay_spo l \<or> k div lay_sc l = st div lay_spo l \<and>
    (x div lay_su l < st mod lay_spo l \<or> x div lay_su l = st mod lay_spo l \<and>
     (k mod lay_sc l < t div lay_su l mod lay_sc l \<or> k mod lay_sc l = t div lay_su l mod lay_sc l \<and> x mod lay_su l < t mod lay_su l))"
proof -
  have pos: "0 < lay_su l" "0 < lay_sc l" "0 < lay_spo l" and xs: "x div lay_su l < lay_spo l"
    using ok x by (auto simp: layout_ok_def less_mult_imp_div_less)
  have t: "t = ((st div lay_spo l * lay_spo l + st mod lay_spo l) * lay_sc l + t div lay_su l mod lay_sc l) * lay_su l + t mod lay_su l"
    by (simp add: st_def)
  show ?thesis
    unfolding filepos_def by (subst t, rule lex4_less) (use pos xs in simp_all)
qed

definition truncated :: "ceph_file_layout \<Rightarrow> nat \<Rightarrow> nat \<Rightarrow> nat" where
  "truncated l k t =
     (let st = t div lay_su l div lay_sc l; pos = t div lay_su l mod lay_sc l in
      if st div lay_spo l < k div lay_sc l then 0
      else if k div lay_sc l < st div lay_spo l then lay_spo l * lay_su l
      else if k mod lay_sc l < pos then (st mod lay_spo l + 1) * lay_su l
      else if pos < k mod lay_sc l then st mod lay_spo l * lay_su l
      else st mod lay_spo l * lay_su l + t mod lay_su l)"

lemma truncated_cases:
  fixes a b' :: nat
  assumes "x < hi \<longleftrightarrow> b < b' \<or> b = b'" "x < lo \<longleftrightarrow> b < b'" "x < mid \<longleftrightarrow> b < b' \<or> b = b' \<and> d < d'" "x < (full :: nat)"
  shows "x < (if a' < a then 0 else if a < a' then full else if c < c' then hi else if c' < c then lo else mid) \<longleftrightarrow>
    a < a' \<or> a = a' \<and> (b < b' \<or> b = b' \<and> (c < (c' :: nat) \<or> c = c' \<and> d < (d' :: nat)))"
  using assms by (cases a a' rule: linorder_cases; cases c c' rule: linorder_cases) simp_all

lemma truncated_spec:
  assumes ok: "layout_ok l"
  shows "truncated l k t \<le> lay_spo l * lay_su l" "{..<truncated l k t} = object_set l 0 t k"
proof -
  define st where "st = t div lay_su l div lay_sc l"
  have pos: "0 < lay_su l" "0 < lay_sc l" "0 < lay_spo l"
    using ok by (auto simp: layout_ok_def)
  have s: "Suc (st mod lay_spo l) * lay_su l \<le> lay_spo l * lay_su l"
    using pos by (intro mult_right_mono) (auto simp: Suc_le_eq)
  have r: "t mod lay_su l < lay_su l"
    using pos by simp
  show le: "truncated l k t \<le> lay_spo l * lay_su l"
    using s r mod_less_divisor [OF pos(3), of st] by (auto simp: truncated_def Let_def st_def [symmetric])
  have "x < truncated l k t \<longleftrightarrow> filepos l k x < t" if x: "x < lay_spo l * lay_su l" for x
  proof -
    have lex: "x < q * lay_su l + i \<longleftrightarrow> x div lay_su l < q \<or> x div lay_su l = q \<and> x mod lay_su l < i" if "i < lay_su l" for q i
      using lex_less [of "x mod lay_su l" "lay_su l" i "x div lay_su l" q] that pos by simp
    show ?thesis
      unfolding filepos_less_iff [OF ok x] truncated_def Let_def st_def [symmetric]
      by (rule truncated_cases [OF _ _ lex [OF r] x])
         (use lex [OF pos(1), of "st mod lay_spo l"] lex [OF pos(1), of "st mod lay_spo l + 1"] in \<open>simp_all add: less_Suc_eq\<close>)
  qed
  with le show "{..<truncated l k t} = object_set l 0 t k"
    unfolding object_set_def by (intro set_eqI iffI) (simp_all, meson less_le_trans)
qed

lemma object_truncate_size_spec:
  assumes valid: "ceph_file_layout_is_valid l" and t: "t \<noteq> -1"
  obtains v where "object_truncate_size l k t = Ret v" "unat v = truncated l (unat k) (unat t)"
proof (cases "t = 0")
  case True
  have "truncated l (unat k) 0 = 0"
    by (simp add: truncated_def)
  with True show ?thesis
    by (intro that [of 0]) (simp_all add: object_truncate_size_def)
next
  case False
  define su sc os :: u64 where d: "su = ucast (fl_stripe_unit l)" "sc = ucast (fl_stripe_count l)" "os = ucast (fl_object_size l)"
  note ok = valid_layout_ok [OF valid]
  have pos: "0 < lay_su l" "0 < lay_sc l" "0 < lay_spo l"
    using ok(1) by (auto simp: layout_ok_def)
  have u: "unat su = lay_su l" "unat sc = lay_sc l" "unat os = lay_spo l * lay_su l"
    by (simp_all add: d lay_su_def lay_sc_def ok(2) [unfolded lay_su_def])
  have spo: "unat (os div su) = lay_spo l"
    using pos by (simp add: unat_div_distrib u)
  have nz: "su \<noteq> 0" "sc \<noteq> 0" "os \<noteq> 0" "su \<le> os"
    using u pos by (auto simp: word_le_nat_alt)
  define st where "st = t div su div sc"
  have st: "unat st = unat t div lay_su l div lay_sc l"
    by (simp add: st_def unat_div_distrib u)
  have S: "unat (t div os div sc) = unat st div lay_spo l"
    by (simp add: st unat_div_distrib u flip: div_mult2_eq) (simp add: mult.commute mult.left_commute)
  have tp: "unat (t div su mod sc) = unat t div lay_su l mod lay_sc l"
    by (simp add: unat_div_distrib unat_mod_distrib u)
  have "unat st div lay_spo l * lay_sc l + unat (t div su mod sc) \<le> unat st * lay_sc l + unat (t div su mod sc)"
    by (intro add_right_mono mult_right_mono) simp_all
  also have "\<dots> = unat (t div su)"
    by (simp add: tp st unat_div_distrib u)
  finally have to: "unat (t div os div sc * sc + t div su mod sc) = unat st div lay_spo l * lay_sc l + unat (t div su mod sc)"
    using unat_lt_pow64 [of "t div su"] by (simp add: unat_plus_64 unat_mult_64 S u)
  have lex: "unat k < unat st div lay_spo l * lay_sc l + unat (t div su mod sc) \<longleftrightarrow>
      unat k div lay_sc l < unat st div lay_spo l \<or> unat k div lay_sc l = unat st div lay_spo l \<and> unat k mod lay_sc l < unat (t div su mod sc)"
    "unat st div lay_spo l * lay_sc l + unat (t div su mod sc) < unat k \<longleftrightarrow>
      unat st div lay_spo l < unat k div lay_sc l \<or> unat st div lay_spo l = unat k div lay_sc l \<and> unat (t div su mod sc) < unat k mod lay_sc l"
    using lex_less [of "unat k mod lay_sc l" "lay_sc l" "unat (t div su mod sc)" "unat k div lay_sc l" "unat st div lay_spo l"]
      lex_less [of "unat (t div su mod sc)" "lay_sc l" "unat k mod lay_sc l" "unat st div lay_spo l" "unat k div lay_sc l"] pos
    by (simp_all add: tp)
  have cmp: "k < t div os div sc * sc + t div su mod sc \<longleftrightarrow> unat k mod lay_sc l < unat t div lay_su l mod lay_sc l"
    "t div os div sc * sc + t div su mod sc < k \<longleftrightarrow> unat t div lay_su l mod lay_sc l < unat k mod lay_sc l"
    if "unat k div lay_sc l = unat st div lay_spo l"
    unfolding word_less_nat_alt to lex using that by (simp_all add: tp)
  have "Suc (unat st mod lay_spo l) * lay_su l \<le> lay_spo l * lay_su l"
    using pos by (intro mult_right_mono) (auto simp: Suc_le_eq)
  then have lim: "Suc (unat st mod lay_spo l) * lay_su l < 2 ^ 32"
    using object_bytes_lt [of l] by simp
  have r: "unat t mod lay_su l < lay_su l"
    using pos by simp
  have m: "unat (st mod (os div su)) = unat st mod lay_spo l"
    by (simp add: unat_mod_distrib spo)
  have m1: "unat (st mod (os div su) + 1) = unat st mod lay_spo l + 1"
    using lim pos unat_plus_64 [of "st mod (os div su)" 1] unat_lt_pow64 [of st] mod_less_eq_dividend [of "unat st" "lay_spo l"]
      mult_le_mono2 [of 1 "lay_su l" "Suc (unat st mod lay_spo l)"] by (simp add: m)
  have v: "unat ((st mod (os div su) + 1) * su) = (unat st mod lay_spo l + 1) * lay_su l"
    "unat (st mod (os div su) * su) = unat st mod lay_spo l * lay_su l"
    using lim by (simp_all add: unat_mult_64 m m1 u)
  have v': "unat (st mod (os div su) * su + t mod su) = unat st mod lay_spo l * lay_su l + unat t mod lay_su l"
    using lim r by (simp add: unat_plus_64 v unat_mod_distrib u)
  define v0 where "v0 = (if t div os div sc < k div sc then 0 else if k div sc < t div os div sc then os
      else if k < t div os div sc * sc + t div su mod sc then (st mod (os div su) + 1) * su
      else if t div os div sc * sc + t div su mod sc < k then st mod (os div su) * su
      else st mod (os div su) * su + t mod su)"
  have "object_truncate_size l k t = Ret v0"
    unfolding object_truncate_size_def Let_def d [symmetric] v0_def st_def using False t nz by (simp add: not_less)
  moreover have "unat v0 = truncated l (unat k) (unat t)"
    unfolding v0_def truncated_def Let_def st [symmetric]
    by (simp add: word_less_nat_alt [of "t div os div sc"] word_less_nat_alt [of "k div sc"] S unat_div_distrib [of k] u cmp v v'
        del: One_nat_def)
  ultimately show ?thesis
    by (rule that)
qed

section \<open>The number of objects\<close>

lemma object_set_nonempty_iff:
  assumes ok: "layout_ok l"
  shows "object_set l 0 t k \<noteq> {} \<longleftrightarrow> filepos l k 0 < t"
proof
  assume "object_set l 0 t k \<noteq> {}"
  then obtain x where x: "filepos l k x < t"
    by (auto simp: object_set_def)
  with filepos_strict_mono [OF ok, of 0 x k] show "filepos l k 0 < t"
    by (cases "x = 0") auto
next
  assume "filepos l k 0 < t"
  with ok have "0 \<in> object_set l 0 t k"
    by (simp add: object_set_def layout_ok_def)
  then show "object_set l 0 t k \<noteq> {}"
    by blast
qed

definition ceil_div :: "nat \<Rightarrow> nat \<Rightarrow> nat" where
  "ceil_div a b = (a + b - 1) div b"

lemma ceil_div_less: "0 < b \<Longrightarrow> i < ceil_div a b \<longleftrightarrow> i * b < a"
proof -
  assume b: "0 < b"
  have "i < (a + b - 1) div b \<longleftrightarrow> Suc i * b \<le> a + b - 1"
    using b by (simp add: less_eq_div_iff_mult_less_eq Suc_le_eq [symmetric])
  with b show ?thesis
    unfolding ceil_div_def by auto
qed

lemma ceil_div_split: "0 < b \<Longrightarrow> ceil_div a b = a div b + (if a mod b = 0 then 0 else 1)"
proof -
  assume b: "0 < b"
  have "i < ceil_div a b \<longleftrightarrow> i < a div b + (if a mod b = 0 then 0 else 1)" for i
    unfolding ceil_div_less [OF b]
    using lex_less [of 0 b "a mod b" i "a div b"] b by (auto simp: less_Suc_eq)
  then show ?thesis
    by (metis less_irrefl linorder_neqE_nat)
qed

text \<open>The objects that hold a byte before position \<open>t\<close> are numbered from 0 on.\<close>

lemma objects_below:
  assumes ok: "layout_ok l"
  defines "period \<equiv> lay_sc l * (lay_spo l * lay_su l)"
  shows "{k. object_set l 0 t k \<noteq> {}} = {..<t div period * lay_sc l + min (lay_sc l) (ceil_div (t mod period) (lay_su l))}"
proof (rule set_eqI)
  fix k
  have pos: "0 < lay_su l" "0 < lay_sc l" "0 < lay_spo l"
    using ok by (auto simp: layout_ok_def)
  have km: "k mod lay_sc l < lay_sc l"
    using pos by simp
  have "k mod lay_sc l * lay_su l < lay_sc l * lay_su l"
    using km pos by simp
  also have "lay_sc l * lay_su l \<le> period"
    using pos by (simp add: period_def)
  finally have lt: "k mod lay_sc l * lay_su l < period" .
  have fp: "filepos l k 0 = k div lay_sc l * period + k mod lay_sc l * lay_su l"
    by (simp add: filepos_def period_def algebra_simps)
  have "filepos l k 0 < t \<longleftrightarrow> k div lay_sc l * period + k mod lay_sc l * lay_su l < t div period * period + t mod period"
    by (simp add: fp)
  also have "\<dots> \<longleftrightarrow> k div lay_sc l < t div period \<or> k div lay_sc l = t div period \<and> k mod lay_sc l * lay_su l < t mod period"
    using lt by (intro lex_less) auto
  also have "\<dots> \<longleftrightarrow> k div lay_sc l * lay_sc l + k mod lay_sc l < t div period * lay_sc l + min (lay_sc l) (ceil_div (t mod period) (lay_su l))"
  proof (cases "ceil_div (t mod period) (lay_su l) < lay_sc l")
    case True
    then have "min (lay_sc l) (ceil_div (t mod period) (lay_su l)) = ceil_div (t mod period) (lay_su l)"
      by simp
    then show ?thesis
      unfolding lex_less [OF km True] ceil_div_less [OF pos(1), symmetric] by (simp only: lex_less [OF km True])
  next
    case False
    then have "k mod lay_sc l * lay_su l < t mod period"
      using ceil_div_less [OF pos(1), of "k mod lay_sc l" "t mod period"] km by linarith
    with False show ?thesis
      using lex_less [OF km pos(2), of "k div lay_sc l" "Suc (t div period)"] by (auto simp: min.absorb1 less_Suc_eq add.commute)
  qed
  finally show "k \<in> {k. object_set l 0 t k \<noteq> {}} \<longleftrightarrow>
      k \<in> {..<t div period * lay_sc l + min (lay_sc l) (ceil_div (t mod period) (lay_su l))}"
    by (simp add: object_set_nonempty_iff [OF ok])
qed

lemma get_num_objects_spec:
  assumes valid: "ceph_file_layout_is_valid l"
    and period: "lay_sc l * unat (fl_object_size l) < 2 ^ 32"
    and lim: "unat sz + lay_sc l * unat (fl_object_size l) < 2 ^ 64"
  obtains n where "get_num_objects l sz = Ret n" "unat n = card {k. object_set l 0 (unat sz) k \<noteq> {}}"
proof -
  note ok = valid_layout_ok [OF valid]
  have pos: "0 < lay_su l" "0 < lay_sc l" "0 < lay_spo l"
    using ok(1) by (auto simp: layout_ok_def)
  define os su sc where d: "os = fl_object_size l" "su = fl_stripe_unit l" "sc = fl_stripe_count l"
  have u: "unat su = lay_su l" "unat sc = lay_sc l" "unat os = lay_spo l * lay_su l"
    by (simp_all add: d lay_su_def lay_sc_def ok(2) [unfolded lay_su_def])
  define P where "P = lay_sc l * (lay_spo l * lay_su l)"
  define p :: u64 where "p = ucast (sc * os)"
  have P: "P < 2 ^ 32" "unat sz + P < 2 ^ 64" "0 < P" "lay_sc l * lay_su l \<le> P"
    using period lim pos by (simp_all add: P_def d [symmetric] u)
  have "unat (sc * os) = P"
    using P(1) by (subst unat_mult_lem [THEN iffD1]) (simp_all add: u P_def)
  then have p: "unat p = P"
    by (simp add: p_def)
  have w: "unat (sc * su) = lay_sc l * lay_su l"
    using P by (simp add: u unat_mult_lem [THEN iffD1])
  have np: "unat ((sz + p - 1) div p) = ceil_div (unat sz) P"
  proof -
    have "unat (sz + p) = unat sz + P"
      using P by (simp add: unat_plus_64 p)
    then have "unat (sz + p - 1) = unat sz + P - 1"
      using P by (simp add: unat_sub word_le_nat_alt)
    then show ?thesis
      by (simp add: unat_div_distrib p ceil_div_def)
  qed
  have rm: "unat (sz mod p) = unat sz mod P"
    by (simp add: unat_mod_distrib p)
  have card: "card {k. object_set l 0 (unat sz) k \<noteq> {}} = unat sz div P * lay_sc l + min (lay_sc l) (ceil_div (unat sz mod P) (lay_su l))"
    unfolding objects_below [OF ok(1)] P_def by simp
  have nz: "p \<noteq> 0" "su \<noteq> 0"
    using p u P pos by auto
  have ceil: "ceil_div (unat sz) P = unat sz div P + (if unat sz mod P = 0 then 0 else 1)"
    by (rule ceil_div_split) (rule P(3))
  have "ceil_div (unat sz) P * lay_sc l \<le> ceil_div (unat sz) P * P"
    using P pos by (intro mult_le_mono2) (metis le_trans mult.right_neutral mult_le_mono2 Suc_leI One_nat_def)
  also have "\<dots> \<le> unat sz + P - 1"
    by (simp add: ceil_div_def)
  finally have "unat ((sz + p - 1) div p * ucast sc) = ceil_div (unat sz) P * lay_sc l"
    using P by (simp add: unat_mult_64 np u)
  note tot = this [unfolded ceil]
  show ?thesis
  proof (cases "0 < sz mod p \<and> sz mod p < ucast (sc * su)")
    case True
    then have r: "0 < unat sz mod P" "unat sz mod P < lay_sc l * lay_su l"
      by (simp_all add: word_less_nat_alt rm w)
    have c: "ceil_div (unat sz mod P) (lay_su l) \<le> lay_sc l"
      using ceil_div_less [OF pos(1), of "lay_sc l" "unat sz mod P"] r by linarith
    have s: "unat (sz mod p + ucast su) = unat sz mod P + lay_su l"
      using unat_lt_pow32 [of su] r P by (simp add: unat_plus_64 rm u)
    then have "unat (sz mod p + ucast su - 1) = unat sz mod P + lay_su l - 1"
      using pos by (simp add: unat_sub word_le_nat_alt)
    then have q: "unat ((sz mod p + ucast su - 1) div ucast su) = ceil_div (unat sz mod P) (lay_su l)"
      by (simp add: unat_div_distrib u ceil_div_def)
    then have ro: "unat (ucast sc - (sz mod p + ucast su - 1) div ucast su) = lay_sc l - ceil_div (unat sz mod P) (lay_su l)"
      using c by (simp add: unat_sub word_le_nat_alt u)
    have "get_num_objects l sz = Ret ((sz + p - 1) div p * ucast sc - (ucast sc - (sz mod p + ucast su - 1) div ucast su))"
      using True nz unfolding get_num_objects_def Let_def d [symmetric] p_def [symmetric] by simp
    moreover have "unat ((sz + p - 1) div p * ucast sc - (ucast sc - (sz mod p + ucast su - 1) div ucast su))
        = card {k. object_set l 0 (unat sz) k \<noteq> {}}"
      using c r by (subst unat_sub) (simp_all add: word_le_nat_alt tot ro card min.absorb2)
    ultimately show ?thesis
      by (rule that)
  next
    case False
    then have "unat sz mod P = 0 \<or> lay_sc l * lay_su l \<le> unat sz mod P"
      by (auto simp: word_less_nat_alt rm w not_less)
    then have "min (lay_sc l) (ceil_div (unat sz mod P) (lay_su l)) = (if unat sz mod P = 0 then 0 else lay_sc l)"
    proof
      assume "unat sz mod P = 0"
      with pos show ?thesis
        by (simp add: ceil_div_def)
    next
      assume le: "lay_sc l * lay_su l \<le> unat sz mod P"
      have "(lay_sc l - 1) * lay_su l < lay_sc l * lay_su l"
        using pos by simp
      with le have "lay_sc l - 1 < ceil_div (unat sz mod P) (lay_su l)" "0 < unat sz mod P"
        unfolding ceil_div_less [OF pos(1)] by linarith+
      then show ?thesis
        by simp
    qed
    then have "unat ((sz + p - 1) div p * ucast sc) = card {k. object_set l 0 (unat sz) k \<noteq> {}}"
      by (simp add: tot card)
    moreover have "get_num_objects l sz = Ret ((sz + p - 1) div p * ucast sc)"
      using False nz unfolding get_num_objects_def Let_def d [symmetric] p_def [symmetric] by auto
    ultimately show ?thesis
      using that by blast
  qed
qed

section \<open>Properties\<close>

text \<open>C2: For a range of a file, \<open>file_to_extents\<close> returns, and returns exactly one extent for each object that
  holds a byte of the range and none for the others.  The extent is the range of all these bytes, its buffer
  extents give for each of them, in order, its distance from the start of the range, and its name is that of the object.\<close>

theorem file_to_extents_exact:
  assumes "ceph_file_layout_is_valid l" "0 < len" "unat offset + unat len < 2 ^ 64"
  shows "\<exists>exts. file_to_extents_ino ino l offset len trunc_size [] = Ret exts
    \<and> distinct (map oe_objectno exts)
    \<and> unat ` oe_objectno ` set exts = {k. object_set l (unat offset) (unat offset + unat len) k \<noteq> {}}
    \<and> (\<forall>ex \<in> set exts. extent_holds l trunc_size (unat offset) 0 (unat offset + unat len) ex
                       \<and> oe_oid ex = object_name ino (oe_objectno ex))"
proof -
  note ok = valid_layout_ok(1) [OF assms(1)]
  obtain exts where e: "file_to_extents_ino ino l offset len trunc_size [] = Ret exts" "distinct (map oe_objectno exts)"
    "oe_objectno ` set exts = {k. object_set l (unat offset) (unat offset + unat len) (unat k) \<noteq> {}}"
    "\<And>ex. ex \<in> set exts \<Longrightarrow> extent_holds l trunc_size (unat offset) 0 (unat offset + unat len) ex
        \<and> oe_oid ex = object_name ino (oe_objectno ex)"
    using file_to_extents_spec [OF ok assms(2,3), of ino trunc_size] by blast
  have "k \<in> unat ` {k :: u64. object_set l (unat offset) (unat offset + unat len) (unat k) \<noteq> {}}"
    if k: "object_set l (unat offset) (unat offset + unat len) k \<noteq> {}" for k
  proof -
    from k obtain x where "filepos l k x < unat offset + unat len"
      by (auto simp: object_set_def)
    with object_le_filepos [OF ok, of k x] assms(3) have "unat (of_nat k :: u64) = k"
      by (simp add: unat_of_nat)
    with k show ?thesis
      by (metis (mono_tags, lifting) image_eqI mem_Collect_eq)
  qed
  then have "unat ` oe_objectno ` set exts = {k. object_set l (unat offset) (unat offset + unat len) k \<noteq> {}}"
    unfolding e(3) by blast
  with e show ?thesis
    by blast
qed

definition sample_layout :: ceph_file_layout where
  "sample_layout = \<lparr>fl_stripe_unit = 65536, fl_stripe_count = 2, fl_object_size = 131072, fl_cas_hash = 0,
     fl_object_stripe_unit = 0, fl_unused = 0, fl_pg_pool = 3\<rparr>"

lemma sample_layout_valid: "ceph_file_layout_is_valid sample_layout"
  by (simp add: ceph_file_layout_is_valid_def sample_layout_def CEPH_MIN_STRIPE_UNIT_def)

theorem file_to_extents_exact_witness:
  "\<exists>exts. file_to_extents_ino 1 sample_layout 65000 200000 0 [] = Ret exts \<and> distinct (map oe_objectno exts)
    \<and> (\<forall>ex \<in> set exts. extent_holds sample_layout 0 65000 0 265000 ex)"
  using file_to_extents_exact [OF sample_layout_valid, of 200000 65000 1 0] by auto

text \<open>C13: The extents of a range lead back to it: for each extent that \<open>file_to_extents\<close> returns,
  \<open>extent_to_file\<close> returns ranges of the file that are, byte by byte and in order, the places of the buffer
  shifted by the start of the range.\<close>

theorem extent_to_file_inverts:
  assumes "ceph_file_layout_is_valid l" "0 < len" "unat offset + unat len < 2 ^ 64"
    and "file_to_extents_ino ino l offset len trunc_size [] = Ret exts" "ex \<in> set exts"
  shows "\<exists>ranges. extent_to_file l (oe_objectno ex) (oe_offset ex) (oe_length ex) [] = Ret ranges
    \<and> buffer_bytes ranges = map (\<lambda>b. b + unat offset) (buffer_bytes (oe_buffer_extents ex))"
proof -
  note ok = valid_layout_ok(1) [OF assms(1)]
  let ?k = "unat (oe_objectno ex)" and ?r = "[unat (oe_offset ex)..<unat (oe_offset ex) + unat (oe_length ex)]"
  have h: "extent_holds l trunc_size (unat offset) 0 (unat offset + unat len) ex"
    using file_to_extents_spec [OF ok assms(2,3), of ino trunc_size] assms(4,5) by auto
  then have mem: "x \<in> set ?r \<longleftrightarrow> x \<in> object_set l (unat offset) (unat offset + unat len) ?k" for x
    unfolding extent_holds_def by auto
  have len: "0 < unat (oe_length ex)"
    using h by (simp add: extent_holds_def)
  have "unat (oe_offset ex) + unat (oe_length ex) - 1 \<in> set ?r"
    using len by auto
  then have last: "filepos l ?k (unat (oe_offset ex) + unat (oe_length ex) - 1) < 2 ^ 64"
    "unat (oe_offset ex) + unat (oe_length ex) < 2 ^ 64"
    using assms(3) object_bytes_lt [of l] len unfolding mem by (auto simp: object_set_def)
  obtain new where new: "extent_to_file l (oe_objectno ex) (oe_offset ex) (oe_length ex) [] = Ret ([] @ new)"
    "buffer_bytes new = map (filepos l ?k) ?r"
    using extent_to_file_spec [OF ok last(1,2)] by blast
  have "map (filepos l ?k) ?r = map (\<lambda>b. b + unat offset) (map (\<lambda>x. filepos l ?k x - unat offset + 0) ?r)"
    using mem by (auto simp: object_set_def simp del: set_upt)
  with new h show ?thesis
    unfolding extent_holds_def by simp
qed


lemma sample_extents:
  "file_to_extents_ino 1 sample_layout 65000 1000 0 [] = Ret
     [\<lparr>oe_oid = ''1.00000000'', oe_objectno = 0, oe_offset = 65000, oe_length = 536, oe_truncate_size = 0,
       oe_oloc = \<lparr>ol_pool = 3, ol_key = [], ol_nspace = [], ol_hash = -1\<rparr>, oe_buffer_extents = [(0, 536)]\<rparr>,
      \<lparr>oe_oid = ''1.00000001'', oe_objectno = 1, oe_offset = 0, oe_length = 464, oe_truncate_size = 0,
       oe_oloc = \<lparr>ol_pool = 3, ol_key = [], ol_nspace = [], ol_hash = -1\<rparr>, oe_buffer_extents = [(536, 464)]\<rparr>]"
  by code_simp

theorem extent_to_file_inverts_witness:
  "\<exists>exts ex ranges. file_to_extents_ino 1 sample_layout 65000 1000 0 [] = Ret exts \<and> ex \<in> set exts
    \<and> extent_to_file sample_layout (oe_objectno ex) (oe_offset ex) (oe_length ex) [] = Ret ranges
    \<and> buffer_bytes ranges = map (\<lambda>b. b + 65000) (buffer_bytes (oe_buffer_extents ex))"
proof -
  let ?ex = "\<lparr>oe_oid = ''1.00000001'', oe_objectno = 1, oe_offset = 0, oe_length = 464, oe_truncate_size = 0,
     oe_oloc = \<lparr>ol_pool = 3, ol_key = [], ol_nspace = [], ol_hash = -1\<rparr>, oe_buffer_extents = [(536, 464)]\<rparr>"
  show ?thesis
    using extent_to_file_inverts [OF sample_layout_valid _ _ sample_extents, of ?ex] sample_extents by fastforce
qed

text \<open>C28: When a file is truncated to a size, \<open>object_truncate_size\<close> is the size that leaves in an object exactly the
  bytes at positions of the file before that size.\<close>

theorem object_truncate_size_exact:
  assumes "ceph_file_layout_is_valid l" "trunc_size \<noteq> -1"
  shows "\<exists>v. object_truncate_size l objectno trunc_size = Ret v
    \<and> {..<unat v} = {x. x < unat (fl_object_size l) \<and> filepos l (unat objectno) x < unat trunc_size}"
proof -
  obtain v where "object_truncate_size l objectno trunc_size = Ret v" "unat v = truncated l (unat objectno) (unat trunc_size)"
    by (rule object_truncate_size_spec [OF assms])
  with truncated_spec(2) [OF valid_layout_ok(1) [OF assms(1)]] show ?thesis
    by (auto simp: object_set_def valid_layout_ok(2) [OF assms(1)])
qed

theorem object_truncate_size_exact_witness:
  "\<exists>v. object_truncate_size sample_layout 1 100000 = Ret v
    \<and> {..<unat v} = {x. x < 131072 \<and> filepos sample_layout 1 x < 100000}"
  using object_truncate_size_exact [OF sample_layout_valid, of 100000 1] by (simp add: sample_layout_def)

text \<open>For a valid layout whose sets of objects (\<open>stripe_count * object_size\<close> bytes) are smaller than \<open>2 ^ 32\<close> bytes,
  and a file size that together with one such set is below \<open>2 ^ 64\<close>, \<open>get_num_objects\<close> is the number of
  objects that hold a byte of a file of that size.  Without the first bound the code can divide by zero, as
  the last theorem here shows.\<close>

theorem get_num_objects_exact:
  assumes "ceph_file_layout_is_valid l"
    and "unat (fl_stripe_count l) * unat (fl_object_size l) < 2 ^ 32"
    and "unat sz + unat (fl_stripe_count l) * unat (fl_object_size l) < 2 ^ 64"
  shows "\<exists>n. get_num_objects l sz = Ret n \<and> unat n = card {k. object_set l 0 (unat sz) k \<noteq> {}}"
  using get_num_objects_spec [of l sz] assms unfolding lay_sc_def by blast

theorem get_num_objects_exact_witness:
  "\<exists>n. get_num_objects sample_layout 300000 = Ret n \<and> unat n = card {k. object_set sample_layout 0 300000 k \<noteq> {}}"
  using get_num_objects_exact [OF sample_layout_valid, of 300000] by (simp add: sample_layout_def)

definition wide_layout :: ceph_file_layout where
  "wide_layout = sample_layout\<lparr>fl_stripe_count := 1024, fl_object_size := 4194304\<rparr>"

text \<open>The size of a set of objects is computed with 32 bits: for a valid layout with 1024 objects of 4 MB it is 0,
  and \<open>get_num_objects\<close> divides by it, whatever the size of the file.\<close>

theorem get_num_objects_wraps:
  "ceph_file_layout_is_valid wide_layout \<and> get_num_objects wide_layout sz = Fault"
  by (simp add: ceph_file_layout_is_valid_def wide_layout_def sample_layout_def CEPH_MIN_STRIPE_UNIT_def get_num_objects_def)

end
