(* ===== verification/Crc32c.thy ===== *)
theory Crc32c
imports Crc32c_Tables
begin

unbundle bit_operations_syntax

text \<open>
  The checksum of \<open>common/sctp_crc32.c\<close>, which \<open>common/crc32c.cc\<close> chooses as \<open>ceph_crc32c\<close>: a remainder of
  polynomials over two elements, computed eight bytes at a time from tables.  It is compared with the
  computation bit by bit.
\<close>

section \<open>The code\<close>

text \<open>One byte from the table; the loops over the bytes before and after the rounds.\<close>

definition sb8_step :: "u32 \<Rightarrow> u8 \<Rightarrow> u32" where
  "sb8_step crc b = sctp_crc_tableil8_o32 ! unat ((crc XOR ucast b) AND 0x000000FF) XOR drop_bit 8 crc"

fun sb8_bytes :: "nat \<Rightarrow> u32 \<Rightarrow> u8 list \<Rightarrow> (u32 \<times> u8 list) exec" where
  "sb8_bytes 0 crc p_buf = Ret (crc, p_buf)"
| "sb8_bytes (Suc n) crc p_buf =
     (case p_buf of [] \<Rightarrow> Fault | b # p_buf \<Rightarrow> sb8_bytes n (sb8_step crc b) p_buf)"

text \<open>A round, on two words of four bytes in little-endian order.\<close>

definition sb8_round :: "u32 \<Rightarrow> u32 \<Rightarrow> u32 \<Rightarrow> u32" where
  "sb8_round crc w1 w2 =
     (let crc = crc XOR w1;
          term1 = sctp_crc_tableil8_o88 ! unat (crc AND 0x000000FF) XOR
                  sctp_crc_tableil8_o80 ! unat (drop_bit 8 crc AND 0x000000FF);
          term2 = drop_bit 16 crc;
          crc = term1 XOR sctp_crc_tableil8_o72 ! unat (term2 AND 0x000000FF) XOR
                sctp_crc_tableil8_o64 ! unat (drop_bit 8 term2 AND 0x000000FF);
          term1 = sctp_crc_tableil8_o56 ! unat (w2 AND 0x000000FF) XOR
                  sctp_crc_tableil8_o48 ! unat (drop_bit 8 w2 AND 0x000000FF);
          term2 = drop_bit 16 w2
      in crc XOR term1 XOR sctp_crc_tableil8_o40 ! unat (term2 AND 0x000000FF) XOR
         sctp_crc_tableil8_o32 ! unat (drop_bit 8 term2 AND 0x000000FF))"

fun sb8_rounds :: "nat \<Rightarrow> u32 \<Rightarrow> u8 list \<Rightarrow> (u32 \<times> u8 list) exec" where
  "sb8_rounds 0 crc p_buf = Ret (crc, p_buf)"
| "sb8_rounds (Suc n) crc p_buf =
     (if length p_buf < 8 then Fault
      else sb8_rounds n (sb8_round crc (le32_read p_buf) (le32_read (drop 4 p_buf))) (drop 8 p_buf))"

text \<open>The bytes before the first aligned one, the rounds, and the bytes left over.\<close>

definition sb8_split :: "u32 \<Rightarrow> u32 \<Rightarrow> u32 \<times> u32 \<times> u32" where
  "sb8_split len offset =
     (let init_bytes = (4 - offset) AND 0x3;
          init_bytes = (if init_bytes > len then len else init_bytes);
          running_length = ((len - init_bytes) div 8) * 8;
          end_bytes = len - init_bytes - running_length
      in (init_bytes, running_length, end_bytes))"

definition sctp_crc32c_sb8_64_bit :: "u32 \<Rightarrow> u8 list \<Rightarrow> u32 \<Rightarrow> u32 \<Rightarrow> u32 exec" where
  "sctp_crc32c_sb8_64_bit crc p_buf len offset =
     (case sb8_split len offset of (init_bytes, running_length, end_bytes) \<Rightarrow>
        exec_bind (sb8_bytes (unat init_bytes) crc p_buf) (\<lambda>(crc, p_buf).
        exec_bind (sb8_rounds (unat (running_length div 8)) crc p_buf) (\<lambda>(crc, p_buf).
        exec_bind (sb8_bytes (unat end_bytes) crc p_buf) (\<lambda>(crc, p_buf). Ret crc))))"

definition sb8_zero_step :: "u32 \<Rightarrow> u32" where
  "sb8_zero_step crc = sctp_crc_tableil8_o32 ! unat (crc AND 0x000000FF) XOR drop_bit 8 crc"

definition sb8_zero_round :: "u32 \<Rightarrow> u32" where
  "sb8_zero_round crc =
     (let term1 = sctp_crc_tableil8_o88 ! unat (crc AND 0x000000FF) XOR
                  sctp_crc_tableil8_o80 ! unat (drop_bit 8 crc AND 0x000000FF);
          term2 = drop_bit 16 crc;
          crc = term1 XOR sctp_crc_tableil8_o72 ! unat (term2 AND 0x000000FF) XOR
                sctp_crc_tableil8_o64 ! unat (drop_bit 8 term2 AND 0x000000FF);
          term1 = sctp_crc_tableil8_o56 ! 0 XOR sctp_crc_tableil8_o48 ! 0;
          term2 = (0 :: u32)
      in crc XOR term1 XOR sctp_crc_tableil8_o40 ! unat (term2 AND 0x000000FF) XOR
         sctp_crc_tableil8_o32 ! unat (drop_bit 8 term2 AND 0x000000FF))"

definition sctp_crc32c_sb8_64_bit_zero :: "u32 \<Rightarrow> u32 \<Rightarrow> u32 \<Rightarrow> u32" where
  "sctp_crc32c_sb8_64_bit_zero crc len offset =
     (case sb8_split len offset of (init_bytes, running_length, end_bytes) \<Rightarrow>
        (sb8_zero_step ^^ unat end_bytes)
          ((sb8_zero_round ^^ unat (running_length div 8)) ((sb8_zero_step ^^ unat init_bytes) crc)))"

text \<open>A buffer is its address and the bytes from there on; \<open>None\<close> is the null pointer.\<close>

definition update_crc32 :: "u32 \<Rightarrow> (u32 \<times> u8 list) option \<Rightarrow> u32 \<Rightarrow> u32 exec" where
  "update_crc32 crc32c buffer len =
     (if len = 0 then Ret crc32c
      else case buffer of
             Some (addr, bytes) \<Rightarrow> sctp_crc32c_sb8_64_bit crc32c bytes len (addr AND 0x3)
           | None \<Rightarrow> Ret (sctp_crc32c_sb8_64_bit_zero crc32c len 0))"

definition ceph_crc32c_sctp :: "u32 \<Rightarrow> (u32 \<times> u8 list) option \<Rightarrow> u32 \<Rightarrow> u32 exec" where
  "ceph_crc32c_sctp crc data len = update_crc32 crc data len"

definition ceph_crc32c :: "u32 \<Rightarrow> (u32 \<times> u8 list) option \<Rightarrow> u32 \<Rightarrow> u32 exec" where
  "ceph_crc32c crc data len = ceph_crc32c_sctp crc data len"

section \<open>Bit by bit\<close>

text \<open>The remainder by the polynomial \<open>0x1EDC6F41\<close>, reflected.\<close>

definition crc_bit :: "u32 \<Rightarrow> u32" where
  "crc_bit c = drop_bit 1 c XOR (if bit c 0 then 0x82F63B78 else 0)"

definition crc_byte :: "u32 \<Rightarrow> u8 \<Rightarrow> u32" where
  "crc_byte c b = (crc_bit ^^ 8) (c XOR ucast b)"

definition crc_bytes :: "u32 \<Rightarrow> u8 list \<Rightarrow> u32" where
  "crc_bytes c bs = foldl crc_byte c bs"

lemma crc_bit_xor: "crc_bit (a XOR b) = crc_bit a XOR crc_bit b"
  by (rule bit_word_eqI) (auto simp: crc_bit_def bit_simps)

lemma crc_bits_xor: "(crc_bit ^^ n) (a XOR b) = (crc_bit ^^ n) a XOR (crc_bit ^^ n) b"
  by (induction n) (simp_all add: crc_bit_xor)

lemma crc_bit_0 [simp]: "crc_bit 0 = 0"
  by (simp add: crc_bit_def)

lemma crc_bits_0 [simp]: "(crc_bit ^^ n) 0 = 0"
  by (induction n) simp_all

text \<open>Bits above the ones shifted out are only moved.\<close>

lemma crc_bit_push: "n \<le> 23 \<Longrightarrow> crc_bit (push_bit (Suc n) (ucast (b :: u8))) = push_bit n (ucast b)"
  by (rule bit_word_eqI) (auto simp: crc_bit_def bit_simps Suc_diff_le simp del: push_bit_Suc dest: bit_imp_le_length)

lemma crc_bits_push: "k + n \<le> 24 \<Longrightarrow> (crc_bit ^^ k) (push_bit (k + n) (ucast (b :: u8))) = push_bit n (ucast b)"
proof (induction k arbitrary: n)
  case (Suc k)
  then show ?case
    using Suc.IH [of "Suc n"] by (simp add: crc_bit_push del: push_bit_Suc)
qed simp

lemma crc_bits_push_more:
  "n \<le> 24 \<Longrightarrow> n \<le> k \<Longrightarrow> (crc_bit ^^ k) (push_bit n (ucast (b :: u8))) = (crc_bit ^^ (k - n)) (ucast b)"
  using crc_bits_push [of n 0 b] by (auto simp: le_iff_add add.commute [of n] funpow_add)

text \<open>A word as the sum of its bytes.\<close>

definition byte_of :: "u32 \<Rightarrow> nat \<Rightarrow> u8" where
  "byte_of w k = ucast (drop_bit (8 * k) w)"

lemma word_bytes:
  "w = ucast (byte_of w 0) XOR push_bit 8 (ucast (byte_of w 1)) XOR push_bit 16 (ucast (byte_of w 2)) XOR push_bit 24 (ucast (byte_of w 3))"
proof (rule bit_word_eqI)
  fix n :: nat
  assume n: "n < LENGTH(32)"
  then consider "n < 8" | "8 \<le> n" "n < 16" | "16 \<le> n" "n < 24" | "24 \<le> n" "n < 32"
    by fastforce
  then show "bit w n \<longleftrightarrow> bit (ucast (byte_of w 0) XOR push_bit 8 (ucast (byte_of w 1)) XOR push_bit 16 (ucast (byte_of w 2))
      XOR push_bit 24 (ucast (byte_of w 3)) :: u32) n"
    by cases (auto simp: byte_of_def bit_simps)
qed

lemma byte_mask: "unat (drop_bit (8 * k) w AND 0x000000FF) = unat (byte_of w k)"
proof -
  have "drop_bit (8 * k) w AND 0x000000FF = ucast (byte_of w k)"
  proof (rule bit_word_eqI)
    fix n :: nat
    have m: "(0x000000FF :: u32) = mask 8"
      by (simp add: mask_eq_exp_minus_1)
    show "bit (drop_bit (8 * k) w AND 0x000000FF) n \<longleftrightarrow> bit (ucast (byte_of w k) :: u32) n"
      unfolding m by (auto simp: byte_of_def bit_simps)
  qed
  moreover have "unat (byte_of w k) < 2 ^ 8"
    using unsigned_less [of "byte_of w k"] by simp
  ultimately show ?thesis
    by (simp add: unsigned_ucast_eq take_bit_nat_eq_self)
qed

section \<open>The tables\<close>

text \<open>All sums of the given words: entry \<open>i\<close> is the sum of those whose bit, from the last on, is set in \<open>i\<close>.\<close>

fun xor_span :: "u32 list \<Rightarrow> u32 list" where
  "xor_span [] = [0]"
| "xor_span (v # vs) = (let t = xor_span vs in t @ map ((XOR) v) t)"

lemma length_xor_span [simp]: "length (xor_span vs) = 2 ^ length vs"
  by (induction vs) (simp_all add: Let_def)

lemma add_power_xor:
  assumes "j < 2 ^ n"
  shows "(of_nat (2 ^ n + j) :: u32) = push_bit n 1 XOR of_nat j"
proof (rule bit_word_eqI)
  fix k :: nat
  assume k: "k < LENGTH(32)"
  have "\<not> bit j n"
    using assms by (simp add: bit_iff_odd)
  then have "2 ^ n + j = push_bit n 1 OR j"
    by (subst disjunctive_add [symmetric]) (auto simp: bit_simps push_bit_eq_mult)
  with \<open>\<not> bit j n\<close> k show "bit (of_nat (2 ^ n + j) :: u32) k \<longleftrightarrow> bit (push_bit n 1 XOR of_nat j :: u32) k"
    by (auto simp: bit_simps simp del: of_nat_add)
qed

text \<open>A linear function of the index is such a table.\<close>

definition powers :: "nat \<Rightarrow> u32 list" where
  "powers n = rev (map (\<lambda>k. push_bit k 1) [0..<n])"

lemma xor_span_linear:
  assumes "\<And>a b. f (a XOR b) = f a XOR f b" "i < 2 ^ n" "n \<le> 32"
  shows "xor_span (map f (powers n)) ! i = f (of_nat i)"
  using assms(2,3)
proof (induction n arbitrary: i)
  case 0
  have "f 0 = f 0 XOR f 0"
    using assms(1) [of 0 0] by simp
  then have "f 0 = 0"
    by simp
  with 0 show ?case
    by (simp add: powers_def)
next
  case (Suc n)
  have p: "powers (Suc n) = push_bit n 1 # powers n"
    by (simp add: powers_def)
  show ?case
  proof (cases "i < 2 ^ n")
    case True
    with Suc show ?thesis
      by (simp add: p Let_def nth_append powers_def)
  next
    case False
    then obtain j where j: "i = 2 ^ n + j" "j < 2 ^ n"
      using Suc.prems by (metis add_less_cancel_left le_iff_add mult_2 not_less power_Suc)
    have "(of_nat i :: u32) = push_bit n 1 XOR of_nat j"
      unfolding j(1) by (rule add_power_xor) (rule j(2))
    with Suc.IH [of j] Suc.prems j show ?thesis
      by (simp add: p Let_def nth_append powers_def assms(1))
  qed
qed

text \<open>The words the tables are spanned by: the powers of two, shifted by one to eight bytes.\<close>

definition crc_shift8 :: "u32 \<Rightarrow> u32" where
  "crc_shift8 c = crc_bit (crc_bit (crc_bit (crc_bit (crc_bit (crc_bit (crc_bit (crc_bit c)))))))"

lemma crc_shift8: "(crc_bit ^^ (8 * m)) = (crc_shift8 ^^ m)"
proof -
  have "crc_bit ^^ 8 = crc_shift8"
    by (simp add: crc_shift8_def fun_eq_iff eval_nat_numeral)
  then show ?thesis
    by (metis funpow_mult mult.commute)
qed

fun crc_basis :: "nat \<Rightarrow> u32 list" where
  "crc_basis 0 = powers 8"
| "crc_basis (Suc m) = map crc_shift8 (crc_basis m)"

lemma crc_basis: "crc_basis m = map (crc_bit ^^ (8 * m)) (powers 8)"
proof -
  have "crc_basis m = map (crc_shift8 ^^ m) (powers 8)"
    by (induction m) simp_all
  then show ?thesis
    by (simp add: crc_shift8)
qed

lemma crc_basis_0: "crc_basis 0 = [0x80, 0x40, 0x20, 0x10, 8, 4, 2, 1]"
  by (simp add: powers_def upt_rec numeral_eq_Suc push_bit_eq_mult)

lemma crc_basis_1: "crc_basis (Suc 0) = [0x82F63B78, 0x417B1DBC, 0x20BD8EDE, 0x105EC76F, 0x8AD958CF, 0xC79A971F, 0xE13B70F7, 0xF26B8303]"
  unfolding crc_basis.simps(2) [of 0] crc_basis_0 by (simp add: crc_shift8_def crc_bit_def)

lemma crc_basis_2: "crc_basis (Suc (Suc 0)) = [0xFBC3FAF9, 0xFF17C604, 0x7F8BE302, 0x3FC5F181, 0x9D14C3B8, 0x4E8A61DC, 0x274530EE, 0x13A29877]"
  unfolding crc_basis.simps(2) [of "Suc 0"] crc_basis_1 by (simp add: crc_shift8_def crc_bit_def)

lemma crc_basis_3: "crc_basis (Suc (Suc (Suc 0))) = [0x8B277743, 0xC76580D9, 0xE144FB14, 0x70A27D8A, 0x38513EC5, 0x9EDEA41A, 0x4F6F520D, 0xA541927E]"
  unfolding crc_basis.simps(2) [of "Suc (Suc 0)"] crc_basis_2 by (simp add: crc_shift8_def crc_bit_def)

lemma crc_basis_4: "crc_basis (Suc (Suc (Suc (Suc 0)))) = [0x52A0C93F, 0xABA65FE7, 0xD725148B, 0xE964B13D, 0xF64463E6, 0x7B2231F3, 0xBF672381, 0xDD45AAB8]"
  unfolding crc_basis.simps(2) [of "Suc (Suc (Suc 0))"] crc_basis_3 by (simp add: crc_shift8_def crc_bit_def)

lemma crc_basis_5: "crc_basis (Suc (Suc (Suc (Suc (Suc 0))))) = [0x6EA2D55C, 0x37516AAE, 0x1BA8B557, 0x8F2261D3, 0xC5670B91, 0xE045BEB0, 0x7022DF58, 0x38116FAC]"
  unfolding crc_basis.simps(2) [of "Suc (Suc (Suc (Suc 0)))"] crc_basis_4 by (simp add: crc_shift8_def crc_bit_def)

lemma crc_basis_6: "crc_basis (Suc (Suc (Suc (Suc (Suc (Suc 0)))))) = [0x1C08B7D6, 0xE045BEB, 0x85F4168D, 0xC00C303E, 0x6006181F, 0xB2F53777, 0xDB8CA0C3, 0xEF306B19]"
  unfolding crc_basis.simps(2) [of "Suc (Suc (Suc (Suc (Suc 0))))"] crc_basis_5 by (simp add: crc_shift8_def crc_bit_def)

lemma crc_basis_7: "crc_basis (Suc (Suc (Suc (Suc (Suc (Suc (Suc 0))))))) = [0xF56E0EF4, 0x7AB7077A, 0x3D5B83BD, 0x9C5BFAA6, 0x4E2DFD53, 0xA5E0C5D1, 0xD0065990, 0x68032CC8]"
  unfolding crc_basis.simps(2) [of "Suc (Suc (Suc (Suc (Suc (Suc 0)))))"] crc_basis_6 by (simp add: crc_shift8_def crc_bit_def)

lemma crc_basis_8: "crc_basis (Suc (Suc (Suc (Suc (Suc (Suc (Suc (Suc 0)))))))) = [0x34019664, 0x1A00CB32, 0xD006599, 0x847609B4, 0x423B04DA, 0x211D826D, 0x9278FA4E, 0x493C7D27]"
  unfolding crc_basis.simps(2) [of "Suc (Suc (Suc (Suc (Suc (Suc (Suc 0))))))"] crc_basis_7 by (simp add: crc_shift8_def crc_bit_def)

lemma sctp_crc_tableil8_o32_span: "sctp_crc_tableil8_o32 = xor_span (crc_basis (Suc 0))"
  unfolding crc_basis_1 sctp_crc_tableil8_o32_def by (simp add: Let_def)

lemma sctp_crc_tableil8_o40_span: "sctp_crc_tableil8_o40 = xor_span (crc_basis (Suc (Suc 0)))"
  unfolding crc_basis_2 sctp_crc_tableil8_o40_def by (simp add: Let_def)

lemma sctp_crc_tableil8_o48_span: "sctp_crc_tableil8_o48 = xor_span (crc_basis (Suc (Suc (Suc 0))))"
  unfolding crc_basis_3 sctp_crc_tableil8_o48_def by (simp add: Let_def)

lemma sctp_crc_tableil8_o56_span: "sctp_crc_tableil8_o56 = xor_span (crc_basis (Suc (Suc (Suc (Suc 0)))))"
  unfolding crc_basis_4 sctp_crc_tableil8_o56_def by (simp add: Let_def)

lemma sctp_crc_tableil8_o64_span: "sctp_crc_tableil8_o64 = xor_span (crc_basis (Suc (Suc (Suc (Suc (Suc 0))))))"
  unfolding crc_basis_5 sctp_crc_tableil8_o64_def by (simp add: Let_def)

lemma sctp_crc_tableil8_o72_span: "sctp_crc_tableil8_o72 = xor_span (crc_basis (Suc (Suc (Suc (Suc (Suc (Suc 0)))))))"
  unfolding crc_basis_6 sctp_crc_tableil8_o72_def by (simp add: Let_def)

lemma sctp_crc_tableil8_o80_span: "sctp_crc_tableil8_o80 = xor_span (crc_basis (Suc (Suc (Suc (Suc (Suc (Suc (Suc 0))))))))"
  unfolding crc_basis_7 sctp_crc_tableil8_o80_def by (simp add: Let_def)

lemma sctp_crc_tableil8_o88_span: "sctp_crc_tableil8_o88 = xor_span (crc_basis (Suc (Suc (Suc (Suc (Suc (Suc (Suc (Suc 0)))))))))"
  unfolding crc_basis_8 sctp_crc_tableil8_o88_def by (simp add: Let_def)

lemma crc_table:
  assumes "t = xor_span (crc_basis m)"
  shows "t ! unat (b :: u8) = (crc_bit ^^ (8 * m)) (ucast b)"
proof -
  have "unat b < 2 ^ 8"
    using unsigned_less [of b] by simp
  from xor_span_linear [where f = "crc_bit ^^ (8 * m)", OF crc_bits_xor this] show ?thesis
    by (simp add: assms crc_basis)
qed

lemmas crc_tables =
  crc_table [OF sctp_crc_tableil8_o32_span, simplified] crc_table [OF sctp_crc_tableil8_o40_span, simplified]
  crc_table [OF sctp_crc_tableil8_o48_span, simplified] crc_table [OF sctp_crc_tableil8_o56_span, simplified]
  crc_table [OF sctp_crc_tableil8_o64_span, simplified] crc_table [OF sctp_crc_tableil8_o72_span, simplified]
  crc_table [OF sctp_crc_tableil8_o80_span, simplified] crc_table [OF sctp_crc_tableil8_o88_span, simplified]

section \<open>The code computes the remainder\<close>

lemma crc_split_byte: "(crc_bit ^^ 8) c = (crc_bit ^^ 8) (ucast (ucast c :: u8)) XOR drop_bit 8 c"
proof -
  have s: "drop_bit 8 c = ucast (byte_of c 1) XOR push_bit 8 (ucast (byte_of c 2)) XOR push_bit 16 (ucast (byte_of c 3))"
    by (rule bit_word_eqI) (auto simp: byte_of_def bit_simps dest: bit_imp_le_length [of c])
  have b: "ucast c = byte_of c 0"
    by (simp add: byte_of_def)
  show ?thesis
    unfolding s b using crc_bits_push [of 8 0 "byte_of c 1"] crc_bits_push [of 8 8 "byte_of c 2"] crc_bits_push [of 8 16 "byte_of c 3"]
    by (subst word_bytes [of c]) (simp add: crc_bits_xor xor.assoc)
qed

lemma sb8_step: "sb8_step crc b = crc_byte crc b"
proof -
  let ?c = "crc XOR ucast b"
  have u: "unat (?c AND 0x000000FF) = unat (ucast ?c :: u8)"
    using byte_mask [of 0 ?c] by (simp add: byte_of_def)
  have d: "drop_bit 8 ?c = drop_bit 8 crc"
    by (rule bit_word_eqI) (auto simp: bit_simps dest: bit_imp_le_length [of b])
  show ?thesis
    unfolding sb8_step_def u crc_tables crc_byte_def crc_split_byte [of ?c] d by simp
qed

text \<open>Four bytes at once.\<close>

lemma crc_word:
  "crc_bytes crc [b0, b1, b2, b3] =
     (crc_bit ^^ 32) (crc XOR (ucast b0 XOR push_bit 8 (ucast b1) XOR push_bit 16 (ucast b2) XOR push_bit 24 (ucast b3)))"
proof -
  have f: "(crc_bit ^^ 32) x = (crc_bit ^^ 8) ((crc_bit ^^ 8) ((crc_bit ^^ 8) ((crc_bit ^^ 8) x)))" for x
    by (simp flip: funpow_add comp_def [of "crc_bit ^^ _", THEN fun_cong])
  show ?thesis
    using crc_bits_push [of 8 0] crc_bits_push [of 8 8] crc_bits_push [of 8 16]
    by (simp add: f crc_bytes_def crc_byte_def crc_bits_xor xor.assoc)
qed

lemma le32_read_xor:
  "le32_read (b0 # b1 # b2 # b3 # bs) =
     ucast b0 XOR push_bit 8 (ucast b1) XOR push_bit 16 (ucast b2) XOR push_bit 24 (ucast b3)"
  by (rule bit_word_eqI) (auto simp: le32_read_def bit_simps dest: bit_imp_le_length)

lemma sb8_round:
  "sb8_round crc w1 w2 = (crc_bit ^^ 32) ((crc_bit ^^ 32) (crc XOR w1) XOR w2)"
proof -
  define x where "x = crc XOR w1"
  have idx: "unat (x AND 0x000000FF) = unat (byte_of x 0)" "unat (drop_bit 8 x AND 0x000000FF) = unat (byte_of x 1)"
    "unat (drop_bit 16 x AND 0x000000FF) = unat (byte_of x 2)" "unat (drop_bit 8 (drop_bit 16 x) AND 0x000000FF) = unat (byte_of x 3)" for x
    using byte_mask [of 0 x] byte_mask [of 1 x] byte_mask [of 2 x] byte_mask [of 3 x] by simp_all
  have w: "(crc_bit ^^ k) y = (crc_bit ^^ k) (ucast (byte_of y 0)) XOR (crc_bit ^^ (k - 8)) (ucast (byte_of y 1))
      XOR (crc_bit ^^ (k - 16)) (ucast (byte_of y 2)) XOR (crc_bit ^^ (k - 24)) (ucast (byte_of y 3))" if "24 \<le> k" for k y
    using that by (subst word_bytes [of y]) (simp add: crc_bits_xor crc_bits_push_more)
  have "(crc_bit ^^ 32) ((crc_bit ^^ 32) x XOR w2) = (crc_bit ^^ 64) x XOR (crc_bit ^^ 32) w2"
    by (simp add: crc_bits_xor funpow_add [of 32 32 crc_bit, simplified])
  also have "\<dots> = sb8_round crc w1 w2"
    unfolding sb8_round_def Let_def x_def [symmetric] idx crc_tables w [of 64 x, simplified] w [of 32 w2, simplified]
    by (simp add: xor.assoc byte_of_def)
  finally show ?thesis
    by (simp add: x_def)
qed

lemma crc_bytes_simps [simp]:
  "crc_bytes c [] = c"
  "crc_bytes c (b # bs) = crc_bytes (crc_byte c b) bs"
  "crc_bytes c (as @ bs) = crc_bytes (crc_bytes c as) bs"
  by (simp_all add: crc_bytes_def)

lemma sb8_bytes: "n \<le> length bs \<Longrightarrow> sb8_bytes n crc bs = Ret (crc_bytes crc (take n bs), drop n bs)"
proof (induction n arbitrary: crc bs)
  case (Suc n)
  then show ?case
    by (cases bs) (simp_all add: sb8_step)
qed simp

lemma eight_bytes:
  assumes "8 \<le> length bs"
  obtains b0 b1 b2 b3 b4 b5 b6 b7 bs' where "bs = b0 # b1 # b2 # b3 # b4 # b5 # b6 # b7 # bs'"
  using assms by (auto simp: numeral_eq_Suc Suc_le_length_iff)

lemma sb8_rounds: "8 * n \<le> length bs \<Longrightarrow> sb8_rounds n crc bs = Ret (crc_bytes crc (take (8 * n) bs), drop (8 * n) bs)"
proof (induction n arbitrary: crc bs)
  case (Suc n)
  then have "8 \<le> length bs"
    by simp
  then obtain b0 b1 b2 b3 b4 b5 b6 b7 bs' where bs: "bs = b0 # b1 # b2 # b3 # b4 # b5 # b6 # b7 # bs'"
    by (rule eight_bytes)
  have "sb8_round crc (le32_read bs) (le32_read (drop 4 bs)) = crc_bytes (crc_bytes crc [b0, b1, b2, b3]) [b4, b5, b6, b7]"
    unfolding crc_word sb8_round by (simp add: bs le32_read_xor)
  then have r: "sb8_round crc (le32_read bs) (le32_read (drop 4 bs)) = crc_bytes crc [b0, b1, b2, b3, b4, b5, b6, b7]"
    by simp
  have "8 * n \<le> length bs'"
    using Suc.prems bs by simp
  moreover have "take (8 * Suc n) bs = [b0, b1, b2, b3, b4, b5, b6, b7] @ take (8 * n) bs'" "drop (8 * Suc n) bs = drop (8 * n) bs'"
    using take_add [of 8 "8 * n" bs] drop_drop [of "8 * n" 8 bs] by (simp_all add: bs add.commute)
  ultimately show ?case
    unfolding sb8_rounds.simps r using bs Suc.IH by simp
qed simp

lemma sb8_split:
  assumes "sb8_split len offset = (i, r, e)"
  shows "unat i + 8 * unat (r div 8) + unat e = unat len"
proof -
  define i0 where "i0 = (if (4 - offset) AND 0x3 > len then len else (4 - offset) AND 0x3)"
  from assms have d: "i = i0" "r = (len - i) div 8 * 8" "e = len - i - r"
    by (auto simp: sb8_split_def Let_def i0_def)
  have i: "unat i \<le> unat len"
    by (auto simp: d(1) i0_def word_le_nat_alt word_less_nat_alt)
  then have li: "unat (len - i) = unat len - unat i"
    by (simp add: unat_sub word_le_nat_alt)
  have lt: "unat (len - i) div 8 * 8 \<le> unat (len - i)"
    by simp
  have "unat ((len - i) div 8) * unat (8 :: u32) < 2 ^ 32"
    using le_less_trans [OF lt unsigned_less [of "len - i"]] by (simp add: unat_div_distrib)
  then have r: "unat r = unat (len - i) div 8 * 8"
    unfolding d(2) by (subst unat_mult_lem [THEN iffD1]) (simp_all add: unat_div_distrib)
  then have "r \<le> len - i"
    by (simp add: word_le_nat_alt)
  then have "unat e = unat (len - i) - unat r"
    by (simp add: d(3) unat_sub)
  with r li i show ?thesis
    by (simp add: unat_div_distrib)
qed

lemma sctp_crc32c_sb8_64_bit:
  assumes "unat len \<le> length bs"
  shows "sctp_crc32c_sb8_64_bit crc bs len offset = Ret (crc_bytes crc (take (unat len) bs))"
proof -
  obtain i r e where s: "sb8_split len offset = (i, r, e)"
    by (metis prod_cases3)
  note sum = sb8_split [OF s]
  have t: "take (unat len) bs = take (unat i) bs @ take (8 * unat (r div 8)) (drop (unat i) bs)
      @ take (unat e) (drop (8 * unat (r div 8)) (drop (unat i) bs))"
    unfolding sum [symmetric] take_add by (simp add: add.commute)
  show ?thesis
    unfolding t using assms sum
    by (simp add: sctp_crc32c_sb8_64_bit_def s sb8_bytes sb8_rounds)
qed

text \<open>Without a buffer, the bytes are taken to be 0.\<close>

lemma sb8_zero_step: "sb8_zero_step crc = crc_byte crc 0"
  using sb8_step [of crc 0] by (simp add: sb8_zero_step_def sb8_step_def)

lemma sb8_zero_round: "sb8_zero_round crc = sb8_round crc 0 0"
  by (simp add: sb8_zero_round_def sb8_round_def)

lemma sb8_zero_steps: "(sb8_zero_step ^^ n) crc = crc_bytes crc (replicate n 0)"
  by (induction n arbitrary: crc) (simp_all add: sb8_zero_step funpow_Suc_right del: funpow.simps(2))

lemma sb8_zero_rounds: "(sb8_zero_round ^^ n) crc = crc_bytes crc (replicate (8 * n) 0)"
proof (induction n arbitrary: crc)
  case (Suc n)
  have "sb8_zero_round crc = crc_bytes crc (replicate 8 0)"
    using crc_word [of _ 0 0 0 0] by (simp add: sb8_zero_round sb8_round numeral_eq_Suc)
  with Suc.IH [of "sb8_zero_round crc"] show ?case
    by (simp add: funpow_Suc_right replicate_add del: funpow.simps(2))
qed simp

lemma sctp_crc32c_sb8_64_bit_zero:
  "sctp_crc32c_sb8_64_bit_zero crc len offset = crc_bytes crc (replicate (unat len) 0)"
proof -
  obtain i r e where s: "sb8_split len offset = (i, r, e)"
    by (metis prod_cases3)
  show ?thesis
    unfolding sb8_split [OF s, symmetric]
    by (simp add: sctp_crc32c_sb8_64_bit_zero_def s sb8_zero_steps sb8_zero_rounds replicate_add)
qed

section \<open>Algebra of the checksum\<close>

lemma crc_byte_xor: "crc_byte (c XOR d) (a XOR b) = crc_byte c a XOR crc_byte d b"
  by (simp add: crc_byte_def crc_bits_xor unsigned_xor_eq xor.assoc xor.left_commute)

lemma crc_bytes_xor:
  "length as = length bs \<Longrightarrow> crc_bytes (c XOR d) (map2 (XOR) as bs) = crc_bytes c as XOR crc_bytes d bs"
  by (induction as bs arbitrary: c d rule: list_induct2) (simp_all add: crc_byte_xor)

text \<open>A change of the start value changes the result as if the bytes were 0.\<close>

lemma crc_bytes_start: "crc_bytes c bs = crc_bytes d bs XOR crc_bytes (c XOR d) (replicate (length bs) 0)"
proof -
  have "map2 (XOR) bs (replicate (length bs) 0) = bs"
    by (induction bs) simp_all
  with crc_bytes_xor [of bs "replicate (length bs) 0" d "c XOR d"] show ?thesis
    by (simp add: xor.left_commute [of d c d])
qed

lemma xor_right_cancel: "a XOR u = b XOR u \<longleftrightarrow> a = b" for a b u :: u32
  by (metis xor.assoc xor.right_neutral xor_self_eq)

text \<open>The shift by one bit is injective, since the polynomial has the highest bit.\<close>

lemma crc_bit_inj: "inj crc_bit"
proof (rule injI)
  fix a b :: u32
  assume e: "crc_bit a = crc_bit b"
  have hi: "bit (crc_bit x) 31 \<longleftrightarrow> bit x 0" for x
    by (auto simp: crc_bit_def bit_simps dest: bit_imp_le_length)
  from e have z: "bit a 0 \<longleftrightarrow> bit b 0"
    using hi by metis
  with e have "drop_bit 1 a = drop_bit 1 b"
    by (auto simp: crc_bit_def xor_right_cancel split: if_splits)
  then have s: "bit a (Suc n) \<longleftrightarrow> bit b (Suc n)" for n
    by (metis One_nat_def add.commute bit_drop_bit_eq comp_apply plus_1_eq_Suc)
  show "a = b"
  proof (rule bit_word_eqI)
    fix n
    show "bit a n \<longleftrightarrow> bit b n"
      using z s by (cases n) auto
  qed
qed

lemma crc_bits_inj: "inj (crc_bit ^^ n)"
  by (rule inj_fn) (rule crc_bit_inj)

lemma crc_bytes_inj: "crc_bytes c bs = crc_bytes d bs \<longleftrightarrow> c = d"
proof (induction bs arbitrary: c d)
  case (Cons b bs)
  then show ?case
    by (simp add: crc_byte_def inj_eq [OF crc_bits_inj] xor_right_cancel)
qed simp

lemma le32_bytes_read: "le32_bytes (le32_read (b0 # b1 # b2 # b3 # bs)) = [b0, b1, b2, b3]"
  unfolding le32_bytes_def le32_read_def
  by (intro list_all2_eq [THEN iffD2, OF list_all2_Cons [THEN iffD2]] conjI refl list.rel_intros bit_word_eqI)
     (auto simp: bit_simps dest: bit_imp_le_length)

lemma crc_four_inj:
  assumes "length as = 4" "length bs = 4" "crc_bytes c as = crc_bytes c bs"
  shows "as = bs"
proof -
  from assms(1,2) obtain a0 a1 a2 a3 b0 b1 b2 b3 where ab: "as = [a0, a1, a2, a3]" "bs = [b0, b1, b2, b3]"
    by (auto simp: numeral_eq_Suc length_Suc_conv)
  have "le32_read as = le32_read bs"
    using assms(3) unfolding ab crc_word inj_eq [OF crc_bits_inj] le32_read_xor
    by (simp add: xor.commute [of c] xor_right_cancel)
  then have "le32_bytes (le32_read as) = le32_bytes (le32_read bs)"
    by simp
  then show ?thesis
    unfolding ab le32_bytes_read .
qed

lemma crc_short_inj:
  assumes "length as = length bs" "length as \<le> 4" "crc_bytes c as = crc_bytes c bs"
  shows "as = bs"
proof -
  let ?z = "replicate (4 - length as) 0"
  have "as @ ?z = bs @ ?z"
    using assms by (intro crc_four_inj [where c = c]) auto
  with assms(1) show ?thesis
    by simp
qed

section \<open>Properties\<close>

text \<open>C7: The checksum computed from the tables, eight bytes at a time and from any alignment, is the remainder
  computed bit by bit of the bytes of the buffer; for a null pointer, that of as many zero bytes.\<close>

theorem ceph_crc32c_exact:
  assumes "unat len \<le> length bytes"
  shows "ceph_crc32c crc (Some (addr, bytes)) len = Ret (crc_bytes crc (take (unat len) bytes))
    \<and> ceph_crc32c crc None len = Ret (crc_bytes crc (replicate (unat len) 0))"
  using sctp_crc32c_sb8_64_bit [OF assms]
  by (auto simp: ceph_crc32c_def ceph_crc32c_sctp_def update_crc32_def sctp_crc32c_sb8_64_bit_zero)

theorem ceph_crc32c_exact_witness:
  "ceph_crc32c 0xFFFFFFFF (Some (6, [49, 50, 51, 52, 53, 54, 55, 56, 57])) 9
     = Ret (crc_bytes 0xFFFFFFFF [49, 50, 51, 52, 53, 54, 55, 56, 57])"
  using ceph_crc32c_exact [of 9 "[49, 50, 51, 52, 53, 54, 55, 56, 57]" "0xFFFFFFFF" 6] by simp

text \<open>C36: The checksum detects every change of a message within four consecutive bytes.\<close>

theorem ceph_crc32c_detects_burst:
  assumes "length as = length bs" "length as \<le> 4" "as \<noteq> bs" "unat len = length (xs @ as @ ys)"
  shows "ceph_crc32c crc (Some (addr, xs @ as @ ys)) len \<noteq> ceph_crc32c crc (Some (addr', xs @ bs @ ys)) len"
proof
  assume "ceph_crc32c crc (Some (addr, xs @ as @ ys)) len = ceph_crc32c crc (Some (addr', xs @ bs @ ys)) len"
  then have "crc_bytes crc (xs @ as @ ys) = crc_bytes crc (xs @ bs @ ys)"
    using assms(1,4) sctp_crc32c_sb8_64_bit [of len "xs @ as @ ys" crc] sctp_crc32c_sb8_64_bit [of len "xs @ bs @ ys" crc]
    by (cases "len = 0") (auto simp: ceph_crc32c_def ceph_crc32c_sctp_def update_crc32_def simp del: crc_bytes_simps(3))
  then have "crc_bytes (crc_bytes crc xs) as = crc_bytes (crc_bytes crc xs) bs"
    by (simp add: crc_bytes_inj)
  from crc_short_inj [OF assms(1,2) this] assms(3) show False
    by simp
qed

theorem ceph_crc32c_detects_burst_witness:
  "ceph_crc32c 0 (Some (0, [1, 2, 3, 4])) 4 \<noteq> ceph_crc32c 0 (Some (1, [1, 7, 9, 4])) 4"
  using ceph_crc32c_detects_burst [of "[2, 3]" "[7, 9]" 4 "[1]" "[4]" 0 0 1] by simp

end
