(* ===== verification/Pg_Map.thy ===== *)
theory Pg_Map
imports Crush_Hash
begin

unbundle bit_operations_syntax

text \<open>
  Placement groups: the mapping of the hash of an object to one of the groups of a pool, and the splitting
  of groups when their number grows.  From \<open>include/rados.h\<close> the function \<open>ceph_stable_mod\<close>, from \<open>common/ceph_hash.cc\<close>
  the hash of names, and from \<open>osd/osd_types.cc\<close> the methods of \<open>pg_t\<close> and \<open>pg_pool_t\<close> that use them.
\<close>

section \<open>Hashes of names\<close>

definition name_mix :: "u32 \<times> u32 \<times> u32 \<Rightarrow> u32 \<times> u32 \<times> u32" where
  "name_mix s = (case s of (a, b, c) \<Rightarrow>
     let a = a - b; a = a - c; a = a XOR drop_bit 13 c;
         b = b - c; b = b - a; b = b XOR push_bit 8 a;
         c = c - a; c = c - b; c = c XOR drop_bit 13 b;
         a = a - b; a = a - c; a = a XOR drop_bit 12 c;
         b = b - c; b = b - a; b = b XOR push_bit 16 a;
         c = c - a; c = c - b; c = c XOR drop_bit 5 b;
         a = a - b; a = a - c; a = a XOR drop_bit 3 c;
         b = b - c; b = b - a; b = b XOR push_bit 10 a;
         c = c - a; c = c - b; c = c XOR drop_bit 15 b
     in (a, b, c))"

text \<open>The four bytes at an index as a number; the bytes are read one by one.\<close>

definition key_word :: "u8 list \<Rightarrow> nat \<Rightarrow> u32 exec" where
  "key_word k i =
     (if i + 3 < length k
      then Ret (ucast (k ! i) + push_bit 8 (ucast (k ! (i + 1))) + push_bit 16 (ucast (k ! (i + 2))) + push_bit 24 (ucast (k ! (i + 3))))
      else Fault)"

function rjenkins_blocks :: "u8 list \<Rightarrow> nat \<Rightarrow> u32 \<times> u32 \<times> u32 \<Rightarrow> (u8 list \<times> nat \<times> u32 \<times> u32 \<times> u32) exec" where
  "rjenkins_blocks k len s =
     (if len < 12 then Ret (k, len, s)
      else case s of (a, b, c) \<Rightarrow>
        exec_bind (key_word k 0) (\<lambda>ka. exec_bind (key_word k 4) (\<lambda>kb. exec_bind (key_word k 8) (\<lambda>kc.
        rjenkins_blocks (drop 12 k) (len - 12) (name_mix (a + ka, b + kb, c + kc))))))"
  by pat_completeness auto
termination
  by (relation "measure (\<lambda>(k, len, s). len)") auto

declare rjenkins_blocks.simps [simp del]

text \<open>The \<open>switch\<close> over the bytes left falls through: with \<open>len\<close> of them, each one before \<open>len\<close> is added.\<close>

definition tail_byte :: "u8 list \<Rightarrow> nat \<Rightarrow> nat \<Rightarrow> nat \<Rightarrow> u32 exec" where
  "tail_byte k len i sh = (if i < len then if i < length k then Ret (push_bit sh (ucast (k ! i))) else Fault else Ret 0)"

definition rjenkins_tail :: "u8 list \<Rightarrow> nat \<Rightarrow> u32 \<times> u32 \<times> u32 \<Rightarrow> (u32 \<times> u32 \<times> u32) exec" where
  "rjenkins_tail k len s = (case s of (a, b, c) \<Rightarrow>
     exec_bind (tail_byte k len 10 24) (\<lambda>c3. exec_bind (tail_byte k len 9 16) (\<lambda>c2. exec_bind (tail_byte k len 8 8) (\<lambda>c1.
     exec_bind (tail_byte k len 7 24) (\<lambda>b3. exec_bind (tail_byte k len 6 16) (\<lambda>b2. exec_bind (tail_byte k len 5 8) (\<lambda>b1.
     exec_bind (tail_byte k len 4 0) (\<lambda>b0.
     exec_bind (tail_byte k len 3 24) (\<lambda>a3. exec_bind (tail_byte k len 2 16) (\<lambda>a2. exec_bind (tail_byte k len 1 8) (\<lambda>a1.
     exec_bind (tail_byte k len 0 0) (\<lambda>a0.
     Ret (a + a3 + a2 + a1 + a0, b + b3 + b2 + b1 + b0, c + c3 + c2 + c1)))))))))))))"

definition ceph_str_hash_rjenkins :: "u8 list \<Rightarrow> u32 \<Rightarrow> u32 exec" where
  "ceph_str_hash_rjenkins str len =
     exec_bind (rjenkins_blocks str (unat len) (0x9e3779b9, 0x9e3779b9, 0)) (\<lambda>(k, rest, a, b, c).
     exec_bind (rjenkins_tail k rest (a, b, c + len)) (\<lambda>s.
     case name_mix s of (a, b, c) \<Rightarrow> Ret c))"

text \<open>\<open>unsigned long\<close> has 32 bits on Windows.\<close>

fun hash_linux_loop :: "u8 list \<Rightarrow> nat \<Rightarrow> u32 \<Rightarrow> u32 exec" where
  "hash_linux_loop str 0 hsh = Ret hsh"
| "hash_linux_loop str (Suc n) hsh =
     (case str of [] \<Rightarrow> Fault
      | c # str \<Rightarrow> hash_linux_loop str n ((hsh + push_bit 4 (ucast c) + drop_bit 4 (ucast c)) * 11))"

definition ceph_str_hash_linux :: "u8 list \<Rightarrow> u32 \<Rightarrow> u32 exec" where
  "ceph_str_hash_linux str len = hash_linux_loop str (unat len) 0"

definition CEPH_STR_HASH_LINUX :: int where
  "CEPH_STR_HASH_LINUX = 1"

definition CEPH_STR_HASH_RJENKINS :: int where
  "CEPH_STR_HASH_RJENKINS = 2"

definition ceph_str_hash :: "int \<Rightarrow> u8 list \<Rightarrow> u32 \<Rightarrow> u32 exec" where
  "ceph_str_hash t s len =
     (if t = CEPH_STR_HASH_LINUX then ceph_str_hash_linux s len
      else if t = CEPH_STR_HASH_RJENKINS then ceph_str_hash_rjenkins s len
      else Ret (-1))"

section \<open>Groups and pools\<close>

record pg_t =
  m_pool :: u64
  m_seed :: u32
  m_preferred :: int

text \<open>The members of a pool that its placement depends on.\<close>

record pg_pool_t =
  pool_flags :: u64
  pool_type :: u8
  pool_size :: u8
  crush_ruleset :: u8
  object_hash :: u8
  pg_num :: u32
  pgp_num :: u32
  pg_num_mask :: u32
  pgp_num_mask :: u32

definition FLAG_HASHPSPOOL :: u64 where
  "FLAG_HASHPSPOOL = 1"

definition ceph_stable_mod :: "int \<Rightarrow> int \<Rightarrow> int \<Rightarrow> int" where
  "ceph_stable_mod x b bmask = (if x AND bmask < b then x AND bmask else x AND drop_bit 1 bmask)"

function bits_loop :: "int \<Rightarrow> int \<Rightarrow> int" where
  "bits_loop t b = (if t > 0 then bits_loop (drop_bit 1 t) (b + 1) else b)"
  by pat_completeness auto
termination
  by (relation "measure (\<lambda>(t, b). nat t)") (auto simp: drop_bit_eq_div)

declare bits_loop.simps [simp del]

definition calc_bits_of :: "int \<Rightarrow> int" where
  "calc_bits_of t = bits_loop t 0"

text \<open>\<open>1 << n\<close> for an \<open>int\<close>, and the mask below it.\<close>

definition bit_mask :: "int \<Rightarrow> int" where
  "bit_mask n = to_s32 (to_s32 (push_bit (nat n) 1) - 1)"

definition calc_pg_masks :: "pg_pool_t \<Rightarrow> pg_pool_t" where
  "calc_pg_masks p = p\<lparr>
     pg_num_mask := word_of_int (bit_mask (calc_bits_of (sint (pg_num p - 1)))),
     pgp_num_mask := word_of_int (bit_mask (calc_bits_of (sint (pgp_num p - 1))))\<rparr>"

definition set_pg_num :: "int \<Rightarrow> pg_pool_t \<Rightarrow> pg_pool_t" where
  "set_pg_num n p = calc_pg_masks (p\<lparr>pg_num := word_of_int n\<rparr>)"

definition set_pgp_num :: "int \<Rightarrow> pg_pool_t \<Rightarrow> pg_pool_t" where
  "set_pgp_num n p = calc_pg_masks (p\<lparr>pgp_num := word_of_int n\<rparr>)"

definition get_pg_num_divisor :: "pg_pool_t \<Rightarrow> pg_t \<Rightarrow> u32" where
  "get_pg_num_divisor p pgid =
     (if pg_num p = pg_num_mask p + 1 then pg_num p
      else
        let mask = drop_bit 1 (pg_num_mask p) in
        if m_seed pgid AND mask < pg_num p AND mask then pg_num_mask p + 1
        else drop_bit 1 (pg_num_mask p + 1))"

definition make_hash_str :: "u8 list \<Rightarrow> u8 list \<Rightarrow> u8 list" where
  "make_hash_str inkey nspace = (if nspace = [] then inkey else nspace @ [31] @ inkey)"

definition hash_key :: "pg_pool_t \<Rightarrow> u8 list \<Rightarrow> u8 list \<Rightarrow> u32 exec" where
  "hash_key p key ns =
     (let n = make_hash_str key ns in ceph_str_hash (uint (object_hash p)) n (of_nat (length n)))"

definition raw_hash_to_pg :: "pg_pool_t \<Rightarrow> u32 \<Rightarrow> u32" where
  "raw_hash_to_pg p v = word_of_int (ceph_stable_mod (sint v) (sint (pg_num p)) (sint (pg_num_mask p)))"

definition raw_pg_to_pg :: "pg_pool_t \<Rightarrow> pg_t \<Rightarrow> pg_t" where
  "raw_pg_to_pg p pg =
     pg\<lparr>m_seed := word_of_int (ceph_stable_mod (sint (m_seed pg)) (sint (pg_num p)) (sint (pg_num_mask p)))\<rparr>"

definition raw_pg_to_pps :: "pg_pool_t \<Rightarrow> pg_t \<Rightarrow> u32" where
  "raw_pg_to_pps p pg =
     (let s = word_of_int (ceph_stable_mod (sint (m_seed pg)) (sint (pgp_num p)) (sint (pgp_num_mask p))) in
      if pool_flags p AND FLAG_HASHPSPOOL \<noteq> 0
      then crush_hash32_2 CRUSH_HASH_RJENKINS1 s (ucast (m_pool pg))
      else s + ucast (m_pool pg))"

definition get_random_pg_position :: "pg_pool_t \<Rightarrow> pg_t \<Rightarrow> u32 \<Rightarrow> u32" where
  "get_random_pg_position p pg seed =
     (let r = crush_hash32_2 CRUSH_HASH_RJENKINS1 seed 123;
          r = (if pg_num p = pg_num_mask p + 1 then r AND NOT (pg_num_mask p)
               else
                 let smaller_mask = drop_bit 1 (pg_num_mask p) in
                 if m_seed pg AND smaller_mask < pg_num p AND smaller_mask
                 then r AND NOT (pg_num_mask p)
                 else r AND NOT smaller_mask)
      in r OR m_seed pg)"

section \<open>Splitting\<close>

definition get_ancestor :: "pg_t \<Rightarrow> u32 \<Rightarrow> pg_t" where
  "get_ancestor pg old_pg_num =
     pg\<lparr>m_seed := word_of_int (ceph_stable_mod (sint (m_seed pg)) (sint old_pg_num)
                    (bit_mask (calc_bits_of (sint old_pg_num))))\<rparr>"

lemma shift_in_range:
  assumes "\<not> 2147483648 \<le> n * 2 ^ k" "\<not> n < 1"
  shows "n < (2147483648 :: int)"
proof -
  have "n * 1 \<le> n * 2 ^ k"
    using assms(2) by (intro mult_left_mono) simp_all
  then show ?thesis
    using assms(1) by linarith
qed

text \<open>The loop of \<open>is_split\<close>; the children are listed in the order in which they are inserted.  A shift out of the
  range of an \<open>int\<close> is undefined.\<close>

function split_loop :: "pg_t \<Rightarrow> u32 \<Rightarrow> u32 \<Rightarrow> int \<Rightarrow> int \<Rightarrow> bool \<times> pg_t list \<Rightarrow> (bool \<times> pg_t list) exec" where
  "split_loop pg old_pg_num new_pg_num old_bits n acc =
     (if n < 1 \<or> old_bits < 1 \<or> n * 2 ^ nat (old_bits - 1) \<ge> 2 ^ 31 then Fault
      else
        let next_bit = push_bit (nat (old_bits - 1)) n;
            s = word_of_int next_bit OR m_seed pg in
        if s < old_pg_num \<or> s = m_seed pg then split_loop pg old_pg_num new_pg_num old_bits (n + 1) acc
        else if s \<ge> new_pg_num then Ret acc
        else if word_of_int (ceph_stable_mod (sint s) (sint old_pg_num) (bit_mask old_bits)) = m_seed pg
        then split_loop pg old_pg_num new_pg_num old_bits (n + 1) (True, snd acc @ [pg\<lparr>m_seed := s\<rparr>])
        else split_loop pg old_pg_num new_pg_num old_bits (n + 1) acc)"
  by pat_completeness auto
termination
  by (relation "measure (\<lambda>(pg, o', n', ob, n, acc). nat (2 ^ 31 - n))") (auto dest: shift_in_range)

declare split_loop.simps [simp del]

definition is_split :: "pg_t \<Rightarrow> u32 \<Rightarrow> u32 \<Rightarrow> (bool \<times> pg_t list) exec" where
  "is_split pg old_pg_num new_pg_num =
     (if \<not> m_seed pg < old_pg_num then Fault
      else if new_pg_num \<le> old_pg_num then Ret (False, [])
      else split_loop pg old_pg_num new_pg_num (calc_bits_of (sint old_pg_num)) 1 (False, []))"

definition get_split_bits :: "pg_t \<Rightarrow> u32 \<Rightarrow> u32 exec" where
  "get_split_bits pg n =
     (if n = 1 then Ret 0
      else if \<not> n > 1 then Fault
      else
        let p = calc_bits_of (sint n) in
        if p = 0 then Fault
        else
          let h = word_of_int (to_s32 (push_bit (nat (p - 1)) 1)) in
          if m_seed pg mod h < n mod h then Ret (word_of_int p) else Ret (word_of_int p - 1))"

definition get_parent :: "pg_t \<Rightarrow> pg_t exec" where
  "get_parent pg =
     (let bits = calc_bits_of (sint (m_seed pg)) in
      if bits = 0 then Fault
      else Ret (pg\<lparr>m_seed := m_seed pg AND NOT (push_bit (nat (bits - 1)) (-1))\<rparr>))"

end
