(* ===== verification/Osd_Map.thy ===== *)
theory Osd_Map
  imports Pg_Map Crush_Mapper
begin

unbundle bit_operations_syntax

text \<open>
  The map of the cluster (\<open>osd/OSDMap.cc\<close>, \<open>osd/OSDMap.h\<close>): which devices exist, are up and are in, and how a placement
  group is mapped to the devices that hold it.  The record has the members of \<open>OSDMap\<close> that the mapping reads.
  A read of a vector outside its bounds is a fault, except in \<open>exists\<close> and \<open>is_up\<close>: these read \<open>osd_state\<close> below
  \<open>max_osd\<close> only, and a map is taken to have that many entries there, which \<open>set_max_osd\<close> sees to.
\<close>

section \<open>State\<close>

definition CEPH_OSD_EXISTS :: u8 where
  "CEPH_OSD_EXISTS = 1"

definition CEPH_OSD_UP :: u8 where
  "CEPH_OSD_UP = 2"

definition CEPH_OSD_OUT :: u32 where
  "CEPH_OSD_OUT = 0"

definition CEPH_OSD_MAX_PRIMARY_AFFINITY :: u32 where
  "CEPH_OSD_MAX_PRIMARY_AFFINITY = 0x10000"

definition CEPH_OSD_DEFAULT_PRIMARY_AFFINITY :: u32 where
  "CEPH_OSD_DEFAULT_PRIMARY_AFFINITY = 0x10000"

record osd_map =
  num_osd :: int
  max_osd :: int
  osd_state :: "u8 list"
  osd_weight :: "u32 list"
  pg_temp :: "pg_t \<rightharpoonup> int list"
  primary_temp :: "pg_t \<rightharpoonup> int"
  osd_primary_affinity :: "u32 list option"
  pools :: "int \<rightharpoonup> pg_pool_t"
  crush :: crush_map

text \<open>\<open>vector::resize\<close>.\<close>

definition resize_list :: "nat \<Rightarrow> 'a \<Rightarrow> 'a list \<Rightarrow> 'a list" where
  "resize_list n d xs = take n xs @ replicate (n - length xs) d"

function num_osds_loop :: "osd_map \<Rightarrow> int \<Rightarrow> int \<Rightarrow> int exec" where
  "num_osds_loop m i n =
     (if i < max_osd m
      then exec_bind (arr_get (osd_state m) i) (\<lambda>s.
        num_osds_loop m (i + 1) (if s AND CEPH_OSD_EXISTS \<noteq> 0 then n + 1 else n))
      else Ret n)"
  by pat_completeness auto
termination
  by (relation "measure (\<lambda>(m, i, n). nat (max_osd m - i))") auto

declare num_osds_loop.simps [simp del]

definition calc_num_osds :: "osd_map \<Rightarrow> osd_map exec" where
  "calc_num_osds m = exec_bind (num_osds_loop m 0 0) (\<lambda>n. Ret (m\<lparr>num_osd := n\<rparr>))"

function new_osds_loop :: "osd_map \<Rightarrow> int \<Rightarrow> osd_map exec" where
  "new_osds_loop m o' =
     (if o' < max_osd m
      then exec_bind (arr_set (osd_state m) o' 0) (\<lambda>st. exec_bind (arr_set (osd_weight m) o' CEPH_OSD_OUT) (\<lambda>w.
        new_osds_loop (m\<lparr>osd_state := st, osd_weight := w\<rparr>) (o' + 1)))
      else Ret m)"
  by pat_completeness auto
termination
  by (relation "measure (\<lambda>(m, o'). nat (max_osd m - o'))") auto

declare new_osds_loop.simps [simp del]

text \<open>The vectors of addresses, of statistics and of identifiers are resized alike.\<close>

definition set_max_osd :: "int \<Rightarrow> osd_map \<Rightarrow> osd_map exec" where
  "set_max_osd k m =
     (if k < 0 then Fault
      else
        exec_bind (new_osds_loop (m\<lparr>max_osd := k, osd_state := resize_list (nat k) 0 (osd_state m),
            osd_weight := resize_list (nat k) 0 (osd_weight m)\<rparr>) (max_osd m)) (\<lambda>m.
        calc_num_osds (m\<lparr>osd_primary_affinity :=
          map_option (resize_list (nat k) CEPH_OSD_DEFAULT_PRIMARY_AFFINITY) (osd_primary_affinity m)\<rparr>)))"

definition exists_osd :: "osd_map \<Rightarrow> int \<Rightarrow> bool" where
  "exists_osd m osd \<longleftrightarrow> osd \<ge> 0 \<and> osd < max_osd m \<and> osd_state m ! nat osd AND CEPH_OSD_EXISTS \<noteq> 0"

definition is_up_osd :: "osd_map \<Rightarrow> int \<Rightarrow> bool" where
  "is_up_osd m osd \<longleftrightarrow> exists_osd m osd \<and> osd_state m ! nat osd AND CEPH_OSD_UP \<noteq> 0"

definition is_down_osd :: "osd_map \<Rightarrow> int \<Rightarrow> bool" where
  "is_down_osd m osd \<longleftrightarrow> \<not> is_up_osd m osd"

definition set_state_osd :: "int \<Rightarrow> u32 \<Rightarrow> osd_map \<Rightarrow> osd_map exec" where
  "set_state_osd o' s m =
     (if \<not> o' < max_osd m then Fault
      else exec_bind (arr_set (osd_state m) o' (ucast s)) (\<lambda>st. Ret (m\<lparr>osd_state := st\<rparr>)))"

definition set_weight_osd :: "int \<Rightarrow> u32 \<Rightarrow> osd_map \<Rightarrow> osd_map exec" where
  "set_weight_osd o' w m =
     (if \<not> o' < max_osd m then Fault
      else
        exec_bind (arr_set (osd_weight m) o' w) (\<lambda>ws.
        if w \<noteq> 0
        then exec_bind (arr_get (osd_state m) o') (\<lambda>s. exec_bind (arr_set (osd_state m) o' (s OR CEPH_OSD_EXISTS)) (\<lambda>st.
          Ret (m\<lparr>osd_weight := ws, osd_state := st\<rparr>)))
        else Ret (m\<lparr>osd_weight := ws\<rparr>)))"

definition get_weight :: "osd_map \<Rightarrow> int \<Rightarrow> u32 exec" where
  "get_weight m o' = (if \<not> o' < max_osd m then Fault else arr_get (osd_weight m) o')"

definition is_out_osd :: "osd_map \<Rightarrow> int \<Rightarrow> bool exec" where
  "is_out_osd m osd =
     (if \<not> exists_osd m osd then Ret True else exec_bind (get_weight m osd) (\<lambda>w. Ret (w = CEPH_OSD_OUT)))"

definition is_in_osd :: "osd_map \<Rightarrow> int \<Rightarrow> bool exec" where
  "is_in_osd m osd = exec_bind (is_out_osd m osd) (\<lambda>b. Ret (\<not> b))"

definition set_primary_affinity :: "int \<Rightarrow> int \<Rightarrow> osd_map \<Rightarrow> osd_map exec" where
  "set_primary_affinity o' w m =
     (if \<not> o' < max_osd m then Fault
      else
        let a = (case osd_primary_affinity m of None \<Rightarrow> replicate (nat (max_osd m)) CEPH_OSD_DEFAULT_PRIMARY_AFFINITY
                 | Some a \<Rightarrow> a) in
        exec_bind (arr_set a o' (word_of_int w)) (\<lambda>a. Ret (m\<lparr>osd_primary_affinity := Some a\<rparr>)))"

definition get_primary_affinity :: "osd_map \<Rightarrow> int \<Rightarrow> u32 exec" where
  "get_primary_affinity m o' =
     (if \<not> o' < max_osd m then Fault
      else case osd_primary_affinity m of None \<Rightarrow> Ret CEPH_OSD_DEFAULT_PRIMARY_AFFINITY | Some a \<Rightarrow> arr_get a o')"

definition get_all_osds :: "osd_map \<Rightarrow> int set" where
  "get_all_osds m = set (filter (exists_osd m) [0..max_osd m - 1])"

definition get_up_osds :: "osd_map \<Rightarrow> int set" where
  "get_up_osds m = set (filter (is_up_osd m) [0..max_osd m - 1])"

function num_up_loop :: "osd_map \<Rightarrow> int \<Rightarrow> u32 \<Rightarrow> u32 exec" where
  "num_up_loop m i n =
     (if i < max_osd m
      then exec_bind (arr_get (osd_state m) i) (\<lambda>s.
        num_up_loop m (i + 1) (if s AND CEPH_OSD_EXISTS \<noteq> 0 \<and> s AND CEPH_OSD_UP \<noteq> 0 then n + 1 else n))
      else Ret n)"
  by pat_completeness auto
termination
  by (relation "measure (\<lambda>(m, i, n). nat (max_osd m - i))") auto

declare num_up_loop.simps [simp del]

definition get_num_up_osds :: "osd_map \<Rightarrow> u32 exec" where
  "get_num_up_osds m = num_up_loop m 0 0"

function num_in_loop :: "osd_map \<Rightarrow> int \<Rightarrow> u32 \<Rightarrow> u32 exec" where
  "num_in_loop m i n =
     (if i < max_osd m
      then exec_bind (arr_get (osd_state m) i) (\<lambda>s.
        if s AND CEPH_OSD_EXISTS \<noteq> 0
        then exec_bind (get_weight m i) (\<lambda>w. num_in_loop m (i + 1) (if w \<noteq> CEPH_OSD_OUT then n + 1 else n))
        else num_in_loop m (i + 1) n)
      else Ret n)"
  by pat_completeness auto
termination
  by (relation "measure (\<lambda>(m, i, n). nat (max_osd m - i))") auto

declare num_in_loop.simps [simp del]

definition get_num_in_osds :: "osd_map \<Rightarrow> u32 exec" where
  "get_num_in_osds m = num_in_loop m 0 0"

definition get_any_up_osd :: "osd_map \<Rightarrow> int" where
  "get_any_up_osd m = (case filter (is_up_osd m) [0..max_osd m - 1] of [] \<Rightarrow> - 1 | i # _ \<Rightarrow> i)"

section \<open>Objects to placement groups\<close>

record object_locator_t =
  loc_pool :: int
  loc_key :: "u8 list"
  loc_nspace :: "u8 list"
  loc_hash :: int

definition get_pg_pool :: "osd_map \<Rightarrow> int \<Rightarrow> pg_pool_t option" where
  "get_pg_pool m p = pools m p"

definition object_locator_to_pg :: "osd_map \<Rightarrow> u8 list \<Rightarrow> object_locator_t \<Rightarrow> (int + pg_t) exec" where
  "object_locator_to_pg m oid loc =
     (case get_pg_pool m (loc_pool loc) of
        None \<Rightarrow> Ret (Inl (- ENOENT))
      | Some pool \<Rightarrow>
          exec_bind
            (if loc_hash loc \<ge> 0 then Ret (word_of_int (loc_hash loc))
             else if loc_key loc \<noteq> [] then hash_key pool (loc_key loc) (loc_nspace loc)
             else hash_key pool oid (loc_nspace loc)) (\<lambda>ps.
          Ret (Inr \<lparr>m_pool = word_of_int (loc_pool loc), m_seed = ps, m_preferred = - 1\<rparr>)))"

section \<open>Placement groups to devices\<close>

definition TYPE_REPLICATED :: u8 where
  "TYPE_REPLICATED = 1"

definition TYPE_ERASURE :: u8 where
  "TYPE_ERASURE = 3"

definition can_shift_osds :: "pg_pool_t \<Rightarrow> bool exec" where
  "can_shift_osds p =
     (if pool_type p = TYPE_REPLICATED then Ret True
      else if pool_type p = TYPE_ERASURE then Ret False
      else Fault)"

function shift_loop :: "osd_map \<Rightarrow> nat \<Rightarrow> nat \<Rightarrow> int list \<Rightarrow> nat \<times> int list" where
  "shift_loop m i removed osds =
     (if i < length osds
      then if \<not> exists_osd m (osds ! i) then shift_loop m (i + 1) (removed + 1) osds
           else shift_loop m (i + 1) removed (if removed > 0 then osds[i - removed := osds ! i] else osds)
      else (removed, osds))"
  by pat_completeness auto
termination
  by (relation "measure (\<lambda>(m, i, removed, osds). length osds - i)") auto

declare shift_loop.simps [simp del]

definition remove_nonexistent_osds :: "osd_map \<Rightarrow> pg_pool_t \<Rightarrow> int list \<Rightarrow> int list exec" where
  "remove_nonexistent_osds m pool osds =
     exec_bind (can_shift_osds pool) (\<lambda>shift.
     if shift
     then case shift_loop m 0 0 osds of (removed, osds) \<Rightarrow>
       Ret (if removed > 0 then take (length osds - removed) osds else osds)
     else Ret (map (\<lambda>p. if \<not> exists_osd m p then CRUSH_ITEM_NONE else p) osds))"

text \<open>\<open>CrushWrapper::do_rule\<close>.  The scratch area on the stack is not initialised: its contents are the argument \<open>junk\<close>.\<close>

definition do_rule :: "nat \<Rightarrow> (nat \<Rightarrow> int) \<Rightarrow> crush_map \<Rightarrow> int \<Rightarrow> int \<Rightarrow> nat \<Rightarrow> u32 list \<Rightarrow> (int list \<times> crush_map) exec" where
  "do_rule fuel junk c rule x maxout weight =
     crush_do_rule fuel c rule x maxout weight (int (length weight)) (map junk [0..<maxout * 3])"

fun first_some :: "int list \<Rightarrow> int" where
  "first_some [] = - 1"
| "first_some (o' # osds) = (if o' \<noteq> CRUSH_ITEM_NONE then o' else first_some osds)"

text \<open>The vector \<open>osds\<close> is empty when the callers of \<open>_pg_to_osds\<close> pass it.\<close>

definition pg_to_osds_pool ::
    "nat \<Rightarrow> (nat \<Rightarrow> int) \<Rightarrow> osd_map \<Rightarrow> pg_pool_t \<Rightarrow> pg_t \<Rightarrow> (int list \<times> int \<times> u32 \<times> osd_map) exec" where
  "pg_to_osds_pool fuel junk m pool pg =
     (let pps = raw_pg_to_pps pool pg; size = unat (pool_size pool) in
      exec_bind (crush_find_rule (crush m) (uint (crush_ruleset pool)) (uint (pool_type pool)) (int size)) (\<lambda>ruleno.
      exec_bind (if ruleno \<ge> 0 then do_rule fuel junk (crush m) ruleno (sint pps) size (osd_weight m)
                 else Ret ([], crush m)) (\<lambda>(osds, c).
      exec_bind (remove_nonexistent_osds m pool osds) (\<lambda>osds.
      Ret (osds, first_some osds, pps, m\<lparr>crush := c\<rparr>)))))"

text \<open>The loop over the erasure coded set runs from the last position to the first.\<close>

definition raw_to_up_osds :: "osd_map \<Rightarrow> pg_pool_t \<Rightarrow> int list \<Rightarrow> (int list \<times> int) exec" where
  "raw_to_up_osds m pool raw =
     exec_bind (can_shift_osds pool) (\<lambda>shift.
     if shift
     then let up = filter (\<lambda>o'. \<not> (\<not> exists_osd m o' \<or> is_down_osd m o')) raw in
       Ret (up, if up = [] then - 1 else hd up)
     else Ret (foldr (\<lambda>o' (up, primary).
         if \<not> exists_osd m o' \<or> is_down_osd m o' then (CRUSH_ITEM_NONE # up, primary) else (o' # up, o')) raw ([], - 1)))"

fun any_affinity :: "u32 list \<Rightarrow> int list \<Rightarrow> bool exec" where
  "any_affinity aff [] = Ret False"
| "any_affinity aff (p # osds) =
     (if p \<noteq> CRUSH_ITEM_NONE
      then exec_bind (arr_get aff p) (\<lambda>a.
        if a \<noteq> CEPH_OSD_DEFAULT_PRIMARY_AFFINITY then Ret True else any_affinity aff osds)
      else any_affinity aff osds)"

fun pick_primary :: "u32 list \<Rightarrow> u32 \<Rightarrow> int list \<Rightarrow> nat \<Rightarrow> int \<Rightarrow> int exec" where
  "pick_primary aff seed [] i pos = Ret pos"
| "pick_primary aff seed (o' # osds) i pos =
     (if o' = CRUSH_ITEM_NONE then pick_primary aff seed osds (i + 1) pos
      else
        exec_bind (arr_get aff o') (\<lambda>a.
        if a < CEPH_OSD_MAX_PRIMARY_AFFINITY \<and>
           drop_bit 16 (crush_hash32_2 CRUSH_HASH_RJENKINS1 seed (word_of_int o')) \<ge> a
        then pick_primary aff seed osds (i + 1) (if pos < 0 then int i else pos)
        else Ret (int i)))"

fun move_up :: "nat \<Rightarrow> int list \<Rightarrow> int list" where
  "move_up 0 osds = osds"
| "move_up (Suc i) osds = move_up i (osds[Suc i := osds ! i])"

definition apply_primary_affinity ::
    "osd_map \<Rightarrow> u32 \<Rightarrow> pg_pool_t \<Rightarrow> int list \<Rightarrow> int \<Rightarrow> (int list \<times> int) exec" where
  "apply_primary_affinity m seed pool osds primary =
     (case osd_primary_affinity m of
        None \<Rightarrow> Ret (osds, primary)
      | Some aff \<Rightarrow>
          exec_bind (any_affinity aff osds) (\<lambda>any.
          if \<not> any then Ret (osds, primary)
          else
            exec_bind (pick_primary aff seed osds 0 (- 1)) (\<lambda>pos.
            if pos < 0 then Ret (osds, primary)
            else
              let primary = osds ! nat pos in
              exec_bind (can_shift_osds pool) (\<lambda>shift.
              if shift \<and> pos > 0 then Ret ((move_up (nat pos) osds)[0 := primary], primary)
              else Ret (osds, primary)))))"

fun temp_loop :: "osd_map \<Rightarrow> pg_pool_t \<Rightarrow> int list \<Rightarrow> int list \<Rightarrow> int list exec" where
  "temp_loop m pool [] temp_pg = Ret temp_pg"
| "temp_loop m pool (p # ps) temp_pg =
     (if \<not> exists_osd m p \<or> is_down_osd m p
      then exec_bind (can_shift_osds pool) (\<lambda>shift.
        if shift then temp_loop m pool ps temp_pg else temp_loop m pool ps (temp_pg @ [CRUSH_ITEM_NONE]))
      else temp_loop m pool ps (temp_pg @ [p]))"

definition get_temp_osds :: "osd_map \<Rightarrow> pg_pool_t \<Rightarrow> pg_t \<Rightarrow> (int list \<times> int) exec" where
  "get_temp_osds m pool pg =
     (let pg = raw_pg_to_pg pool pg in
      exec_bind (case pg_temp m pg of None \<Rightarrow> Ret [] | Some ps \<Rightarrow> temp_loop m pool ps []) (\<lambda>temp_pg.
      Ret (temp_pg, case primary_temp m pg of Some pp \<Rightarrow> pp | None \<Rightarrow> first_some temp_pg)))"

text \<open>The pool number of a group is unsigned, the keys of \<open>pools\<close> are signed.\<close>

definition pg_to_osds :: "nat \<Rightarrow> (nat \<Rightarrow> int) \<Rightarrow> osd_map \<Rightarrow> pg_t \<Rightarrow> (int \<times> int list \<times> int \<times> osd_map) exec" where
  "pg_to_osds fuel junk m pg =
     (case get_pg_pool m (sint (m_pool pg)) of
        None \<Rightarrow> Ret (0, [], - 1, m)
      | Some pool \<Rightarrow>
          exec_bind (pg_to_osds_pool fuel junk m pool pg) (\<lambda>(raw, primary, _, m).
          Ret (int (length raw), raw, primary, m)))"

definition pg_to_raw_up :: "nat \<Rightarrow> (nat \<Rightarrow> int) \<Rightarrow> osd_map \<Rightarrow> pg_t \<Rightarrow> (int list \<times> int \<times> osd_map) exec" where
  "pg_to_raw_up fuel junk m pg =
     (case get_pg_pool m (sint (m_pool pg)) of
        None \<Rightarrow> Ret ([], - 1, m)
      | Some pool \<Rightarrow>
          exec_bind (pg_to_osds_pool fuel junk m pool pg) (\<lambda>(raw, _, pps, m).
          exec_bind (raw_to_up_osds m pool raw) (\<lambda>(up, primary).
          exec_bind (apply_primary_affinity m pps pool up primary) (\<lambda>(up, primary).
          Ret (up, primary, m)))))"

definition pg_to_up_acting_osds ::
    "nat \<Rightarrow> (nat \<Rightarrow> int) \<Rightarrow> osd_map \<Rightarrow> pg_t \<Rightarrow> ((int list \<times> int) \<times> (int list \<times> int) \<times> osd_map) exec" where
  "pg_to_up_acting_osds fuel junk m pg =
     (case get_pg_pool m (sint (m_pool pg)) of
        None \<Rightarrow> Ret (([], - 1), ([], - 1), m)
      | Some pool \<Rightarrow>
          exec_bind (pg_to_osds_pool fuel junk m pool pg) (\<lambda>(raw, _, pps, m).
          exec_bind (raw_to_up_osds m pool raw) (\<lambda>(up, primary).
          exec_bind (apply_primary_affinity m pps pool up primary) (\<lambda>(up, up_primary).
          exec_bind (get_temp_osds m pool pg) (\<lambda>(acting, acting_primary).
          Ret ((up, up_primary),
               (if acting = [] then (up, if acting_primary = - 1 then up_primary else acting_primary)
                else (acting, acting_primary)), m))))))"

fun rank_loop :: "int \<Rightarrow> int list \<Rightarrow> nat \<Rightarrow> nat \<Rightarrow> int exec" where
  "rank_loop osd acting i 0 = Ret (- 1)"
| "rank_loop osd acting i (Suc n) =
     exec_bind (arr_get acting (int i)) (\<lambda>a. if a = osd then Ret (int i) else rank_loop osd acting (i + 1) n)"

definition calc_pg_rank :: "int \<Rightarrow> int list \<Rightarrow> int \<Rightarrow> int exec" where
  "calc_pg_rank osd acting nrep =
     (let nrep = (if nrep = 0 then int (length acting) else nrep) in rank_loop osd acting 0 (nat nrep))"

definition calc_pg_role :: "int \<Rightarrow> int list \<Rightarrow> int \<Rightarrow> int exec" where
  "calc_pg_role osd acting nrep =
     (let nrep = (if nrep = 0 then int (length acting) else nrep) in calc_pg_rank osd acting nrep)"

definition primary_changed :: "int \<Rightarrow> int list \<Rightarrow> int \<Rightarrow> int list \<Rightarrow> bool exec" where
  "primary_changed oldprimary oldacting newprimary newacting =
     (if oldacting = [] \<and> newacting = [] then Ret False
      else if (oldacting = []) \<noteq> (newacting = []) then Ret True
      else if oldprimary \<noteq> newprimary then Ret True
      else
        exec_bind (calc_pg_rank oldprimary oldacting 0) (\<lambda>r. exec_bind (calc_pg_rank newprimary newacting 0) (\<lambda>r'.
        Ret (r \<noteq> r'))))"

end
