(* ===== verification/Pg_Split.thy ===== *)
theory Pg_Split
imports Pg_Map
begin

unbundle bit_operations_syntax

text \<open>
  The groups of a pool as classes of hashes: every hash is in one group, the groups stay put or split when
  their number grows, and the functions on a single group agree with this.
\<close>

section \<open>Folding a hash\<close>

definition fold_mod :: "nat \<Rightarrow> nat \<Rightarrow> nat \<Rightarrow> nat" where
  "fold_mod x b n = (if x mod 2 ^ n < b then x mod 2 ^ n else x mod 2 ^ (n - 1))"

definition mask_for :: "nat \<Rightarrow> nat \<Rightarrow> bool" where
  "mask_for b n \<longleftrightarrow> 0 < b \<and> b \<le> 2 ^ n \<and> 2 ^ (n - 1) \<le> b"

lemma mask_for_half: "mask_for b n \<Longrightarrow> x mod 2 ^ (n - 1) < b"
  unfolding mask_for_def by (rule less_le_trans [of _ "2 ^ (n - 1)"]) simp_all

lemma fold_mod_lt: "mask_for b n \<Longrightarrow> fold_mod x b n < b"
  using mask_for_half [of b n x] unfolding fold_mod_def by (cases "x mod 2 ^ n < b") simp_all

lemma fold_mod_id: "mask_for b n \<Longrightarrow> x < b \<Longrightarrow> fold_mod x b n = x"
  by (simp add: fold_mod_def mask_for_def)

lemma mask_for_mono: "mask_for b n \<Longrightarrow> mask_for b' n' \<Longrightarrow> b < b' \<Longrightarrow> n \<le> n'"
proof (rule ccontr)
  assume m: "mask_for b n" "mask_for b' n'" "b < b'" "\<not> n \<le> n'"
  then have "(2 :: nat) ^ n' \<le> 2 ^ (n - 1)"
    by (intro power_increasing) auto
  with m(1-3) show False
    unfolding mask_for_def by linarith
qed

lemma mod_pow_mod: "m \<le> n \<Longrightarrow> x mod 2 ^ n mod 2 ^ m = x mod (2 :: nat) ^ m"
  by (simp add: le_imp_power_dvd mod_mod_cancel)

lemma fold_mod_grow_le:
  assumes b: "mask_for b n" and b': "mask_for b' n'" and le: "b \<le> b'" "n \<le> n'"
  shows "fold_mod (fold_mod x b' n') b n = fold_mod x b n"
proof (cases "x mod 2 ^ n' < b'")
  case True
  then show ?thesis
    using le by (simp add: fold_mod_def mod_pow_mod)
next
  case False
  then have y: "fold_mod x b' n' = x mod 2 ^ (n' - 1)"
    by (simp add: fold_mod_def)
  show ?thesis
  proof (cases "n = n'")
    case True
    have "x mod 2 ^ (n - 1) < b"
      using b by (rule mask_for_half)
    with b have "fold_mod (x mod 2 ^ (n - 1)) b n = x mod 2 ^ (n - 1)"
      by (rule fold_mod_id)
    with False True le show ?thesis
      by (simp add: y fold_mod_def)
  next
    case False
    with le(2) show ?thesis
      unfolding y by (simp add: fold_mod_def mod_pow_mod)
  qed
qed

text \<open>Folding further gives the same as folding at once, and the mask does not matter.\<close>

lemma fold_mod_mask:
  assumes "mask_for b n" "mask_for b n'"
  shows "fold_mod x b n = fold_mod x b n'"
proof -
  have *: "fold_mod x b n = fold_mod x b n'" if m: "mask_for b n" "mask_for b n'" "n \<le> n'" for n n'
    using fold_mod_grow_le [OF m(1,2) le_refl m(3), of x] fold_mod_id [OF m(1) fold_mod_lt [OF m(2), of x]] by simp
  show ?thesis
  proof (cases "n \<le> n'")
    case True
    with assms show ?thesis
      by (rule *)
  next
    case False
    then have "n' \<le> n"
      by simp
    from * [OF assms(2,1) this] show ?thesis
      by (rule sym)
  qed
qed

lemma fold_mod_grow:
  assumes "mask_for b n" "mask_for b' n'" "b \<le> b'"
  shows "fold_mod (fold_mod x b' n') b n = fold_mod x b n"
proof (cases "n \<le> n'")
  case True
  with assms show ?thesis
    by (rule fold_mod_grow_le)
next
  case False
  with assms mask_for_mono [of b n b' n'] have "b = b'"
    by linarith
  with assms(2) have b: "mask_for b n'"
    by simp
  have "fold_mod (fold_mod x b n') b n = fold_mod x b n'"
    by (rule fold_mod_id [OF assms(1) fold_mod_lt [OF b]])
  also have "\<dots> = fold_mod x b n"
    by (rule fold_mod_mask [OF b assms(1)])
  finally show ?thesis
    using \<open>b = b'\<close> by simp
qed

section \<open>The code folds\<close>

lemma bits_loop_spec:
  "0 \<le> t \<Longrightarrow> \<exists>n. bits_loop t b = b + int n \<and> t < 2 ^ n \<and> (t = 0 \<and> n = 0 \<or> 0 < n \<and> 2 ^ (n - 1) \<le> t)"
proof (induction t b rule: bits_loop.induct)
  case (1 t b)
  show ?case
  proof (cases "t = 0")
    case True
    then show ?thesis
      by (intro exI [of _ 0]) (simp add: bits_loop.simps)
  next
    case False
    with 1(2) have t: "0 < t"
      by simp
    from 1(1) [OF t] obtain n where n: "bits_loop (drop_bit 1 t) (b + 1) = b + 1 + int n" "t div 2 < 2 ^ n"
      "t div 2 = 0 \<and> n = 0 \<or> 0 < n \<and> 2 ^ (n - 1) \<le> t div 2"
      using t by (auto simp: drop_bit_eq_div)
    have "2 ^ n \<le> t"
      using n(3)
    proof
      assume "t div 2 = 0 \<and> n = 0"
      with t show ?thesis
        by simp
    next
      assume "0 < n \<and> 2 ^ (n - 1) \<le> t div 2"
      then show ?thesis
        by (cases n) auto
    qed
    with n t show ?thesis
      by (intro exI [of _ "Suc n"]) (auto simp: bits_loop.simps [of t])
  qed
qed

lemma calc_bits_of_mask:
  assumes "0 < b" "b < 2 ^ 31"
  shows "\<exists>n \<le> 31. calc_bits_of (int b) = int n \<and> 0 < n \<and> b < 2 ^ n \<and> 2 ^ (n - 1) \<le> b"
    and "\<exists>n \<le> 31. calc_bits_of (int b - 1) = int n \<and> mask_for b n"
proof -
  have bi: "int b < 2 ^ 31"
    using assms(2) by simp
  have le: "n \<le> 31" if "2 ^ (n - 1) < (2 :: int) ^ 31" for n
    using power_less_imp_less_exp [OF _ that] by simp
  show "\<exists>n \<le> 31. calc_bits_of (int b) = int n \<and> 0 < n \<and> b < 2 ^ n \<and> 2 ^ (n - 1) \<le> b"
  proof -
    obtain n where n: "calc_bits_of (int b) = int n" "int b < 2 ^ n" "0 < n" "2 ^ (n - 1) \<le> int b"
      using bits_loop_spec [of "int b" 0] assms(1) by (auto simp: calc_bits_of_def)
    have "2 ^ (n - 1) < (2 :: int) ^ 31"
      using n(4) bi by linarith
    then have "n \<le> 31"
      by (rule le)
    moreover have "b < 2 ^ n" "2 ^ (n - 1) \<le> b"
      using n(2,4) by simp_all
    ultimately show ?thesis
      using n by blast
  qed
  show "\<exists>n \<le> 31. calc_bits_of (int b - 1) = int n \<and> mask_for b n"
  proof -
    obtain n where n: "calc_bits_of (int b - 1) = int n" "int b - 1 < 2 ^ n" "int b - 1 = 0 \<and> n = 0 \<or> 0 < n \<and> 2 ^ (n - 1) \<le> int b - 1"
      using bits_loop_spec [of "int b - 1" 0] assms(1) by (auto simp: calc_bits_of_def)
    have "n \<le> 31"
      using n(3)
    proof
      assume "0 < n \<and> 2 ^ (n - 1) \<le> int b - 1"
      with bi have "2 ^ (n - 1) < (2 :: int) ^ 31"
        by linarith
      then show ?thesis
        by (rule le)
    qed simp
    moreover have "mask_for b n"
    proof -
      have "int b \<le> 2 ^ n"
        using n(2) by linarith
      moreover have "2 ^ (n - 1) \<le> int b"
        using n(3) by auto
      ultimately
      have "int b \<le> int (2 ^ n)" "int (2 ^ (n - 1)) \<le> int b"
        by simp_all
      then have "b \<le> 2 ^ n" "2 ^ (n - 1) \<le> b"
        by (simp_all only: of_nat_le_iff)
      with assms(1) show ?thesis
        by (simp add: mask_for_def)
    qed
    ultimately show ?thesis
      using n(1) by blast
  qed
qed

lemma to_s32_small: "0 \<le> x \<Longrightarrow> x \<le> 2147483647 \<Longrightarrow> to_s32 x = x"
  by (rule to_s32_id) simp_all

lemma word_small: "0 \<le> x \<Longrightarrow> x \<le> 2147483647 \<Longrightarrow> uint (word_of_int x :: u32) = x \<and> sint (word_of_int x :: u32) = x"
  by (simp add: uint_word_of_int sint_uint signed_take_bit_int_eq_self)

lemma bit_mask_eq: "n \<le> 31 \<Longrightarrow> bit_mask (int n) = 2 ^ n - 1"
proof (cases "n = 31")
  case True
  then show ?thesis
    by (simp add: bit_mask_def to_s32_def push_bit_eq_mult)
next
  case False
  assume "n \<le> 31"
  with False have n: "n < 31" "(2 :: int) ^ n \<le> 2 ^ 30"
    using power_increasing [of n 30 "2 :: int"] by auto
  have pos: "(0 :: int) < 2 ^ n" and le: "(2 :: int) ^ n \<le> 1073741824"
    using n(2) by simp_all
  have "to_s32 (2 ^ n) = 2 ^ n"
    using pos le by (intro to_s32_small) linarith+
  moreover have "to_s32 (2 ^ n - 1) = 2 ^ n - 1"
    using pos le by (intro to_s32_small) linarith+
  ultimately show ?thesis
    by (simp add: bit_mask_def push_bit_eq_mult)
qed

lemma sint_mod: "n \<le> 32 \<Longrightarrow> sint (x :: u32) mod 2 ^ n = int (unat x mod 2 ^ n)"
proof -
  assume n: "n \<le> 32"
  have "take_bit n (sint x) = take_bit n (uint x)"
  proof (rule bit_eqI)
    fix k
    consider "n \<le> k" | "k = 31" | "k < 31"
      using n by linarith
    then show "bit (take_bit n (sint x)) k \<longleftrightarrow> bit (take_bit n (uint x)) k"
      using n by cases (auto simp: bit_simps)
  qed
  then show ?thesis
    by (simp add: take_bit_eq_mod zmod_int)
qed

lemma stable_mod_fold:
  fixes x :: u32
  assumes "mask_for b n" "n \<le> 31"
  shows "ceph_stable_mod (sint x) (int b) (2 ^ n - 1) = int (fold_mod (unat x) b n)"
proof -
  have "drop_bit 1 ((2 :: int) ^ n - 1) = 2 ^ (n - 1) - 1"
    by (cases n) (simp_all add: drop_bit_eq_div)
  moreover have "sint x mod 2 ^ n = int (unat x mod 2 ^ n)" "sint x mod 2 ^ (n - 1) = int (unat x mod 2 ^ (n - 1))"
    using assms(2) sint_mod [of n x] sint_mod [of "n - 1" x] by simp_all
  ultimately show ?thesis
    by (simp add: ceph_stable_mod_def fold_mod_def int_and_low_mask)
qed

section \<open>Pools\<close>

text \<open>A number of groups with its mask, as \<open>calc_pg_masks\<close> leaves it.\<close>

definition num_ok :: "u32 \<Rightarrow> u32 \<Rightarrow> bool" where
  "num_ok n msk \<longleftrightarrow> 0 < unat n \<and> unat n < 2 ^ 31 \<and> msk = word_of_int (bit_mask (calc_bits_of (sint (n - 1))))"

definition pool_ok :: "pg_pool_t \<Rightarrow> bool" where
  "pool_ok p \<longleftrightarrow> num_ok (pg_num p) (pg_num_mask p) \<and> num_ok (pgp_num p) (pgp_num_mask p)"

text \<open>The group of a hash among \<open>n\<close>, with any mask that fits.\<close>

definition group_of :: "nat \<Rightarrow> nat \<Rightarrow> nat" where
  "group_of n v = fold_mod v n (nat (calc_bits_of (int n)))"

lemma sint_small: "unat (w :: u32) < 2 ^ 31 \<Longrightarrow> sint w = int (unat w)"
proof -
  assume "unat w < 2 ^ 31"
  then have "int (unat w) < int (2 ^ 31)"
    by (simp only: of_nat_less_iff)
  then have "uint w \<le> 2147483647"
    by simp
  with word_small [of "uint w"] show ?thesis
    by simp
qed

lemma group_of_eq:
  assumes "mask_for n k" "n < 2 ^ 31"
  shows "fold_mod v n k = group_of n v"
proof -
  from assms have "0 < n"
    by (simp add: mask_for_def)
  from calc_bits_of_mask(1) [OF this assms(2)] obtain m where m: "calc_bits_of (int n) = int m" "mask_for n m"
    using \<open>0 < n\<close> by (auto simp: mask_for_def)
  then have "nat (calc_bits_of (int n)) = m"
    by simp
  then show ?thesis
    unfolding group_of_def by (simp only: fold_mod_mask [OF assms(1) m(2)])
qed

lemma num_ok_stable_mod:
  fixes v :: u32
  assumes "num_ok n msk"
  shows "word_of_int (ceph_stable_mod (sint v) (sint n) (sint msk)) = (of_nat (group_of (unat n) (unat v)) :: u32)"
proof -
  have n: "0 < unat n" "unat n < 2 ^ 31"
    using assms by (auto simp: num_ok_def)
  have "unat (n - 1) = unat n - 1"
    using n by (simp add: unat_sub word_le_nat_alt)
  then have "sint (n - 1) = int (unat n) - 1"
    using n sint_small [of "n - 1"] by simp
  moreover obtain k where k: "k \<le> 31" "calc_bits_of (int (unat n) - 1) = int k" "mask_for (unat n) k"
    using calc_bits_of_mask(2) [OF n] by blast
  ultimately have m: "msk = word_of_int (2 ^ k - 1)"
    using assms by (simp add: num_ok_def bit_mask_eq)
  have "sint msk = 2 ^ k - 1"
  proof -
    have "(2 :: int) ^ k \<le> 2147483648"
      using power_increasing [OF k(1), of "2 :: int"] by simp
    then show ?thesis
      unfolding m by (intro word_small [THEN conjunct2]) simp_all
  qed
  with stable_mod_fold [OF k(3,1), of v] sint_small [OF n(2)] show ?thesis
    by (simp add: group_of_eq [OF k(3) n(2)])
qed

lemma bits_of_num:
  assumes "0 < n" "n < 2 ^ 31"
  obtains k where "0 < k" "k \<le> 31" "calc_bits_of (int n) = int k" "n < 2 ^ k" "2 ^ (k - 1) \<le> n" "mask_for n k"
proof -
  from calc_bits_of_mask(1) [OF assms] obtain k where "k \<le> 31" "calc_bits_of (int n) = int k" "0 < k" "n < 2 ^ k" "2 ^ (k - 1) \<le> n"
    by blast
  with assms(1) show ?thesis
    by (intro that [of k]) (simp_all add: mask_for_def)
qed

lemma group_of_lt: "0 < n \<Longrightarrow> n < 2 ^ 31 \<Longrightarrow> group_of n v < n"
proof -
  assume n: "0 < n" "n < 2 ^ 31"
  then obtain k where "mask_for n k"
    by (rule bits_of_num)
  from fold_mod_lt [OF this] group_of_eq [OF this n(2)] show ?thesis
    by simp
qed

lemma group_of_id: "v < n \<Longrightarrow> n < 2 ^ 31 \<Longrightarrow> group_of n v = v"
proof -
  assume v: "v < n" and n: "n < 2 ^ 31"
  then have "0 < n"
    by simp
  then obtain k where "mask_for n k"
    using n by (rule bits_of_num)
  from fold_mod_id [OF this v] group_of_eq [OF this n] show ?thesis
    by simp
qed

text \<open>When the number of groups grows, a group is a part of one of the old groups.\<close>

lemma group_of_grow:
  assumes "0 < n" "n \<le> n'" "n' < 2 ^ 31"
  shows "group_of n (group_of n' v) = group_of n v"
proof -
  have n: "n < 2 ^ 31" "0 < n'"
    using assms by linarith+
  obtain k where k: "mask_for n k"
    using bits_of_num [OF assms(1) n(1)] by blast
  obtain k' where k': "mask_for n' k'"
    using bits_of_num [OF n(2) assms(3)] by blast
  show ?thesis
    using fold_mod_grow [OF k k' assms(2), of v] by (simp add: group_of_eq [OF k n(1)] group_of_eq [OF k' assms(3)])
qed

lemma num_ok_bound: "num_ok n msk \<Longrightarrow> 0 < unat n \<and> unat n < 2 ^ 31"
  by (simp add: num_ok_def)

lemma set_pg_num_ok:
  assumes "pool_ok p" "0 < n" "n < 2 ^ 31"
  shows "pool_ok (set_pg_num n p)" "unat (pg_num (set_pg_num n p)) = nat n"
proof -
  have "unat (word_of_int n :: u32) = nat n"
  proof -
    have "uint (word_of_int n :: u32) = n"
      using word_small [of n] assms(2,3) by simp
    then show ?thesis
      by (metis nat_uint_eq)
  qed
  then show "pool_ok (set_pg_num n p)" "unat (pg_num (set_pg_num n p)) = nat n"
    using assms by (auto simp: pool_ok_def num_ok_def set_pg_num_def calc_pg_masks_def nat_less_iff)
qed

lemma raw_hash_to_pg_group: "pool_ok p \<Longrightarrow> raw_hash_to_pg p v = of_nat (group_of (unat (pg_num p)) (unat v))"
  unfolding raw_hash_to_pg_def pool_ok_def by (rule num_ok_stable_mod) blast

lemma unat_group: "0 < n \<Longrightarrow> n < 2 ^ 31 \<Longrightarrow> unat (of_nat (group_of n v) :: u32) = group_of n v"
  using group_of_lt [of n v] by (simp add: unat_of_nat)

lemma raw_pg_to_pg_group:
  "pool_ok p \<Longrightarrow> raw_pg_to_pg p pg = pg\<lparr>m_seed := of_nat (group_of (unat (pg_num p)) (unat (m_seed pg)))\<rparr>"
  using raw_hash_to_pg_group [of p "m_seed pg"] by (simp add: raw_pg_to_pg_def raw_hash_to_pg_def)

lemma get_ancestor_group:
  assumes "0 < unat n" "unat n < 2 ^ 31"
  shows "get_ancestor pg n = pg\<lparr>m_seed := of_nat (group_of (unat n) (unat (m_seed pg)))\<rparr>"
proof -
  obtain k where k: "k \<le> 31" "calc_bits_of (int (unat n)) = int k" "mask_for (unat n) k"
    using bits_of_num [OF assms] by blast
  show ?thesis
    using stable_mod_fold [OF k(3,1), of "m_seed pg"] k
    by (simp add: get_ancestor_def sint_small [OF assms(2)] bit_mask_eq group_of_eq [OF k(3) assms(2)])
qed

section \<open>The children of a group\<close>

text \<open>The candidates of \<open>is_split\<close>, without words.\<close>

definition candidate :: "nat \<Rightarrow> nat \<Rightarrow> nat \<Rightarrow> nat" where
  "candidate k seed n = push_bit (k - 1) n OR seed"

lemma candidate_parts:
  "candidate k seed n div 2 ^ (k - 1) = n OR (seed div 2 ^ (k - 1))" "candidate k seed n mod 2 ^ (k - 1) = seed mod 2 ^ (k - 1)"
proof -
  have "drop_bit (k - 1) (candidate k seed n) = n OR drop_bit (k - 1) seed"
    unfolding candidate_def drop_bit_or by (simp add: drop_bit_eq_div push_bit_eq_mult)
  then show "candidate k seed n div 2 ^ (k - 1) = n OR (seed div 2 ^ (k - 1))"
    by (simp add: drop_bit_eq_div)
  have "take_bit (k - 1) (candidate k seed n) = take_bit (k - 1) seed"
    by (simp add: candidate_def take_bit_push_bit)
  then show "candidate k seed n mod 2 ^ (k - 1) = seed mod 2 ^ (k - 1)"
    by (simp add: take_bit_eq_mod)
qed

lemma or_le_one_mono: "c \<le> 1 \<Longrightarrow> m \<le> n \<Longrightarrow> m OR c \<le> n OR (c :: nat)"
proof -
  assume c: "c \<le> 1" and le: "m \<le> n"
  show ?thesis
  proof (cases "c = 0")
    case False
    with c have "c = 1"
      by simp
    then show ?thesis
      using le by (auto simp: or_Suc_0_eq elim!: evenE oddE)
  qed (use le in simp)
qed

lemma top_bit: "seed < 2 ^ k \<Longrightarrow> 0 < k \<Longrightarrow> seed div 2 ^ (k - 1) < (2 :: nat)"
  by (cases k) (auto intro: less_mult_imp_div_less)

lemma candidate_mono:
  assumes "seed < 2 ^ k" "0 < k" "m \<le> n"
  shows "candidate k seed m \<le> candidate k seed n"
proof -
  have "candidate k seed m div 2 ^ (k - 1) \<le> candidate k seed n div 2 ^ (k - 1)"
    unfolding candidate_parts using top_bit [OF assms(1,2)] assms(3) by (intro or_le_one_mono) simp_all
  then have "candidate k seed m div 2 ^ (k - 1) * 2 ^ (k - 1) + candidate k seed m mod 2 ^ (k - 1)
      \<le> candidate k seed n div 2 ^ (k - 1) * 2 ^ (k - 1) + candidate k seed n mod 2 ^ (k - 1)"
    unfolding candidate_parts(2) by (intro add_right_mono mult_right_mono) simp_all
  then show ?thesis
    by (simp only: div_mult_mod_eq)
qed

lemma candidate_ge:
  assumes "seed < 2 ^ k" "0 < k"
  shows "n * 2 ^ (k - 1) \<le> candidate k seed n"
proof -
  have "n \<le> candidate k seed n div 2 ^ (k - 1)"
    unfolding candidate_parts using top_bit [OF assms] by (auto simp: less_2_cases_iff or_Suc_0_eq)
  then have "n * 2 ^ (k - 1) \<le> candidate k seed n div 2 ^ (k - 1) * 2 ^ (k - 1)"
    by (rule mult_right_mono) simp
  then show ?thesis
    by (rule order_trans) simp
qed

text \<open>The children found from the \<open>n\<close>-th candidate on.\<close>

definition later_kids :: "nat \<Rightarrow> nat \<Rightarrow> nat \<Rightarrow> nat \<Rightarrow> nat \<Rightarrow> nat set" where
  "later_kids k seed old new n =
     {s. \<exists>j \<ge> n. s = candidate k seed j \<and> old \<le> s \<and> s < new \<and> group_of old s = seed}"

lemma later_kids_end:
  assumes "seed < 2 ^ k" "0 < k" "new \<le> candidate k seed n"
  shows "later_kids k seed old new n = {}"
proof -
  have "new \<le> candidate k seed j" if "n \<le> j" for j
    using candidate_mono [OF assms(1,2) that] assms(3) by linarith
  then show ?thesis
    unfolding later_kids_def by fastforce
qed

lemma later_kids_step:
  "later_kids k seed old new n =
     (if old \<le> candidate k seed n \<and> candidate k seed n < new \<and> group_of old (candidate k seed n) = seed
      then insert (candidate k seed n) (later_kids k seed old new (Suc n)) else later_kids k seed old new (Suc n))"
proof -
  have le: "n \<le> j \<longleftrightarrow> j = n \<or> Suc n \<le> j" for j
    by auto
  show ?thesis
    unfolding later_kids_def le by (rule set_eqI) auto
qed

lemma candidate_word:
  fixes seed :: u32
  assumes "0 < k" "n * 2 ^ (k - 1) < 2 ^ 31"
  shows "unat (word_of_int (push_bit (nat (int k - 1)) (int n)) OR seed) = candidate k (unat seed) n"
proof -
  have "push_bit (nat (int k - 1)) (int n) = int (n * 2 ^ (k - 1))"
    using assms(1) by (simp add: push_bit_eq_mult nat_diff_distrib)
  moreover have "unat (of_nat (n * 2 ^ (k - 1)) :: u32) = n * 2 ^ (k - 1)"
    using assms(2) unfolding unat_of_nat by simp
  ultimately have "unat (word_of_int (push_bit (nat (int k - 1)) (int n)) :: u32) = n * 2 ^ (k - 1)"
    by (metis of_int_of_nat_eq)
  then show ?thesis
    by (simp add: unsigned_or_eq candidate_def push_bit_eq_mult)
qed

lemma split_loop_spec:
  fixes old new :: u32
  defines "o' \<equiv> unat old" and "n' \<equiv> unat new"
  assumes seed: "seed = unat (m_seed pg)" "seed < o'" and num: "o' < n'" "n' \<le> 2 ^ 30"
    and k: "0 < k" "k \<le> 31" "o' < 2 ^ k" "2 ^ (k - 1) \<le> o'"
    and n: "1 \<le> n" "(n - 1) * 2 ^ (k - 1) < n'"
  shows "\<exists>cs. split_loop pg old new (int k) (int n) acc = Ret (fst acc \<or> cs \<noteq> [], snd acc @ map (\<lambda>s. pg\<lparr>m_seed := s\<rparr>) cs)
    \<and> unat ` set cs = later_kids k seed o' n' n"
  using n
proof (induction "n' - n" arbitrary: n acc rule: less_induct)
  case less
  have seed_k: "seed < 2 ^ k"
    using seed k(3) by linarith
  have "n * 2 ^ (k - 1) \<le> (n - 1) * 2 ^ (k - 1) + 2 ^ (k - 1)"
    using less.prems(1) by (cases n) auto
  then have lim: "n * 2 ^ (k - 1) < 2 ^ 31"
    using less.prems(2) num k(4) by simp
  define s :: u32 where "s = word_of_int (push_bit (nat (int k - 1)) (int n)) OR m_seed pg"
  have s: "unat s = candidate k seed n"
    unfolding s_def seed(1) by (rule candidate_word [OF k(1) lim])
  have "int (n * 2 ^ (k - 1)) < int (2 ^ 31)"
    using lim by (simp only: of_nat_less_iff)
  then have "int n * 2 ^ nat (int k - 1) < 2 ^ 31"
    using k(1) by (simp add: nat_diff_distrib)
  then have loop: "split_loop pg old new (int k) (int n) acc =
      (if s < old \<or> s = m_seed pg then split_loop pg old new (int k) (int (Suc n)) acc
       else if s \<ge> new then Ret acc
       else if word_of_int (ceph_stable_mod (sint s) (sint old) (bit_mask (int k))) = m_seed pg
       then split_loop pg old new (int k) (int (Suc n)) (True, snd acc @ [pg\<lparr>m_seed := s\<rparr>])
       else split_loop pg old new (int k) (int (Suc n)) acc)"
    using less.prems(1) k(1) unfolding split_loop.simps [of pg old new "int k" "int n" acc] Let_def s_def
    by (simp add: add.commute)
  have grp: "word_of_int (ceph_stable_mod (sint s) (sint old) (bit_mask (int k))) = m_seed pg \<longleftrightarrow> group_of o' (candidate k seed n) = seed"
  proof -
    have m: "mask_for o' k" "o' < 2 ^ 31" "0 < o'"
      using k num seed by (simp_all add: mask_for_def)
    have "word_of_int (ceph_stable_mod (sint s) (sint old) (bit_mask (int k))) = (of_nat (group_of o' (candidate k seed n)) :: u32)"
      using stable_mod_fold [OF m(1) k(2), of s] m(2)
      by (simp add: sint_small o'_def bit_mask_eq k(2) s group_of_eq [OF m(1,2)] flip: o'_def)
    then show ?thesis
      using unat_group [OF m(3,2), of "candidate k seed n"] seed(1) by (metis word_unat_eq_iff)
  qed
  note step = later_kids_step [of k seed o' n' n]
  show ?case
  proof (cases "candidate k seed n < n'")
    case False
    then have "\<not> s < old" "s \<noteq> m_seed pg" "new \<le> s"
      using num seed s by (auto simp: word_less_nat_alt word_le_nat_alt o'_def n'_def)
    then show ?thesis
      using later_kids_end [OF seed_k k(1), of n' n o'] False loop by (intro exI [of _ "[]"]) simp
  next
    case True
    then have "n * 2 ^ (k - 1) < n'"
      using candidate_ge [OF seed_k k(1), of n] by linarith
    moreover from this have "n < n'"
      by (rule le_less_trans [rotated]) simp
    ultimately have IH: "\<exists>cs. split_loop pg old new (int k) (int (Suc n)) acc' = Ret (fst acc' \<or> cs \<noteq> [], snd acc' @ map (\<lambda>s. pg\<lparr>m_seed := s\<rparr>) cs)
        \<and> unat ` set cs = later_kids k seed o' n' (Suc n)" for acc'
      by (intro less.hyps) simp_all
    show ?thesis
    proof (cases "o' \<le> candidate k seed n \<and> group_of o' (candidate k seed n) = seed")
      case True
      then have c: "\<not> s < old" "s \<noteq> m_seed pg" "\<not> new \<le> s"
        using \<open>candidate k seed n < n'\<close> seed s by (auto simp: word_less_nat_alt word_le_nat_alt o'_def n'_def)
      obtain cs where cs: "split_loop pg old new (int k) (int (Suc n)) (True, snd acc @ [pg\<lparr>m_seed := s\<rparr>])
          = Ret (True, (snd acc @ [pg\<lparr>m_seed := s\<rparr>]) @ map (\<lambda>s. pg\<lparr>m_seed := s\<rparr>) cs)"
        "unat ` set cs = later_kids k seed o' n' (Suc n)"
        using IH [of "(True, snd acc @ [pg\<lparr>m_seed := s\<rparr>])"] by auto
      show ?thesis
        unfolding loop step using c True grp cs \<open>candidate k seed n < n'\<close> by (intro exI [of _ "s # cs"]) (simp add: s)
    next
      case False
      have eq1: "split_loop pg old new (int k) (int n) acc = split_loop pg old new (int k) (int (Suc n)) acc"
      proof (cases "o' \<le> candidate k seed n")
        case True
        with False have "word_of_int (ceph_stable_mod (sint s) (sint old) (bit_mask (int k))) \<noteq> m_seed pg"
          unfolding grp by blast
        moreover have "\<not> new \<le> s"
          using \<open>candidate k seed n < n'\<close> by (simp add: word_le_nat_alt s n'_def)
        ultimately show ?thesis
          unfolding loop by (simp only: if_False if_cancel)
      next
        case False
        then have "s < old"
          by (simp add: word_less_nat_alt s o'_def)
        then show ?thesis
          unfolding loop by (simp only: if_True simp_thms)
      qed
      have eq2: "later_kids k seed o' n' n = later_kids k seed o' n' (Suc n)"
        using False by (subst step) (auto split: if_splits)
      show ?thesis
        unfolding eq1 eq2 by (rule IH)
    qed
  qed
qed

lemma all_kids:
  assumes seed: "seed < old" and k: "0 < k" "old < 2 ^ k" "2 ^ (k - 1) \<le> old" and num: "old < 2 ^ 31"
  shows "later_kids k seed old new 1 = {s. old \<le> s \<and> s < new \<and> group_of old s = seed}"
proof -
  have m: "mask_for old k"
    using seed k by (simp add: mask_for_def)
  have seed_k: "seed < 2 ^ k"
    using seed k(2) by linarith
  have "\<exists>j \<ge> 1. s = candidate k seed j" if s: "old \<le> s" "group_of old s = seed" for s
  proof -
    let ?h = "2 ^ (k - 1)"
    have g: "fold_mod s old k = seed"
      using s(2) group_of_eq [OF m num] by simp
    then have low: "s mod ?h = seed mod ?h"
      using k(1) by (auto simp: fold_mod_def mod_pow_mod split: if_splits)
    have "s div ?h OR seed div ?h = s div ?h"
    proof (cases "seed div ?h = 0")
      case False
      then have one: "seed div ?h = 1"
        using top_bit [OF seed_k k(1)] by simp
      then have "\<not> seed < ?h"
        by auto
      then have "s mod 2 ^ k = seed"
        using g mod_less_divisor [of ?h s] by (auto simp: fold_mod_def split: if_splits)
      then have "s mod (2 * ?h) div ?h = 1"
        using one k(1) by (cases k) auto
      then have "odd (s div ?h)"
        by (simp add: mod_mult2_eq mult.commute [of 2] odd_iff_mod_2_eq_one)
      then show ?thesis
        unfolding one by (simp add: or_Suc_0_eq)
    qed simp
    then have "candidate k seed (s div ?h) div ?h * ?h + candidate k seed (s div ?h) mod ?h = s div ?h * ?h + s mod ?h"
      unfolding candidate_parts low by simp
    then have "candidate k seed (s div ?h) = s"
      by (simp only: div_mult_mod_eq)
    moreover have "1 \<le> s div ?h"
      using s(1) k(3) by (simp add: Suc_le_eq div_greater_zero_iff)
    ultimately show ?thesis
      by metis
  qed
  then show ?thesis
    unfolding later_kids_def by blast
qed

lemma is_split_spec:
  fixes old new :: u32
  assumes "m_seed pg < old" "old < new" "unat new \<le> 2 ^ 30"
  obtains cs where "is_split pg old new = Ret (cs \<noteq> [], map (\<lambda>s. pg\<lparr>m_seed := s\<rparr>) cs)"
    "unat ` set cs = {s. unat old \<le> s \<and> s < unat new \<and> group_of (unat old) s = unat (m_seed pg)}"
proof -
  have n: "unat (m_seed pg) < unat old" "unat old < unat new"
    using assms by (simp_all add: word_less_nat_alt)
  have o': "0 < unat old" "unat old < 2 ^ 31"
    using n assms(3) by simp_all
  obtain k where k: "0 < k" "k \<le> 31" "calc_bits_of (int (unat old)) = int k" "unat old < 2 ^ k" "2 ^ (k - 1) \<le> unat old"
    using bits_of_num [OF o'] by blast
  from split_loop_spec [OF refl n assms(3) k(1,2,4,5), of 1 "(False, [])"] n
  obtain cs where cs: "split_loop pg old new (int k) 1 (False, []) = Ret (cs \<noteq> [], map (\<lambda>s. pg\<lparr>m_seed := s\<rparr>) cs)"
    "unat ` set cs = later_kids k (unat (m_seed pg)) (unat old) (unat new) 1"
    by auto
  have "\<not> new \<le> old"
    using assms(2) by (simp add: not_le)
  then have "is_split pg old new = split_loop pg old new (int k) 1 (False, [])"
    using assms(1) k(3) by (simp add: is_split_def sint_small [OF o'(2)])
  with cs all_kids [OF n(1) k(1,4,5) o'(2)] show ?thesis
    using that by simp
qed

section \<open>The bits of a hash that decide its group\<close>

definition deciding_bits :: "nat \<Rightarrow> nat \<Rightarrow> nat \<Rightarrow> nat" where
  "deciding_bits n k seed = (if seed mod 2 ^ (k - 1) < n mod 2 ^ (k - 1) then k else k - 1)"

lemma deciding_bits_spec:
  assumes n: "seed < n" "n < 2 ^ 31" and k: "0 < k" "n < 2 ^ k" "2 ^ (k - 1) \<le> n"
  shows "group_of n v = seed \<longleftrightarrow> v mod 2 ^ deciding_bits n k seed = seed"
proof -
  let ?h = "2 ^ (k - 1) :: nat"
  have m: "mask_for n k"
    using n k by (simp add: mask_for_def)
  have two: "2 ^ k = 2 * ?h"
    using k(1) by (cases k) simp_all
  have split: "x mod 2 ^ k = x mod ?h \<or> x mod 2 ^ k = ?h + x mod ?h" for x
  proof -
    have "x mod (?h * 2) = ?h * (x div ?h mod 2) + x mod ?h"
      by (rule mod_mult2_eq)
    moreover have "x div ?h mod 2 = 0 \<or> x div ?h mod 2 = 1"
      by linarith
    ultimately show ?thesis
      unfolding two by (auto simp: mult.commute)
  qed
  have lt: "x mod ?h < ?h" for x
    by simp
  have sd: "seed = seed mod ?h \<or> seed = ?h + seed mod ?h"
    using split [of seed] k n by simp
  have "n = n mod ?h \<or> n = ?h + n mod ?h"
    using split [of n] k(2) by simp
  then have nm: "n = ?h + n mod ?h"
    using lt [of n] k(3) by linarith
  have g: "group_of n v = (if v mod 2 ^ k < n then v mod 2 ^ k else v mod ?h)"
    using group_of_eq [OF m n(2), of v] by (simp add: fold_mod_def)
  show ?thesis
  proof (cases "seed mod ?h < n mod ?h")
    case True
    then have d: "deciding_bits n k seed = k"
      by (simp add: deciding_bits_def)
    show ?thesis
    proof (cases "v mod 2 ^ k < n")
      case False
      have "v mod 2 ^ k \<noteq> seed"
        using False n(1) by linarith
      moreover have "v mod ?h \<noteq> seed"
        using True False split [of v] lt [of v] nm sd n(1) by linarith
      ultimately show ?thesis
        unfolding d g using False by simp
    qed (simp add: d g)
  next
    case False
    then have d: "deciding_bits n k seed = k - 1"
      by (simp add: deciding_bits_def)
    show ?thesis
    proof (cases "v mod 2 ^ k < n")
      case True
      have "v mod 2 ^ k = seed \<longleftrightarrow> v mod ?h = seed"
      proof
        assume "v mod 2 ^ k = seed"
        then show "v mod ?h = seed"
          using False split [of v] lt [of seed] nm sd n(1) by linarith
      next
        assume "v mod ?h = seed"
        then show "v mod 2 ^ k = seed"
          using True False split [of v] lt [of seed] nm sd n(1) by linarith
      qed
      with True show ?thesis
        unfolding d g by simp
    qed (simp add: d g)
  qed
qed

lemma word_pow: "j \<le> 30 \<Longrightarrow> unat (word_of_int (to_s32 (push_bit j 1)) :: u32) = 2 ^ j"
proof -
  assume "j \<le> 30"
  then have "(2 :: int) ^ j \<le> 2 ^ 30"
    by (intro power_increasing) simp_all
  then have le: "(2 :: int) ^ j \<le> 2147483647"
    by simp
  then have "uint (word_of_int (to_s32 (push_bit j 1)) :: u32) = 2 ^ j"
    using word_small [of "2 ^ j"] by (simp add: to_s32_small push_bit_eq_mult)
  then show ?thesis
    by (metis nat_uint_eq nat_power_eq nat_numeral zero_le_numeral)
qed

lemma get_split_bits_spec:
  assumes n: "m_seed pg < n" "unat n < 2 ^ 31" and k: "0 < k" "k \<le> 31" "calc_bits_of (int (unat n)) = int k" "unat n < 2 ^ k" "2 ^ (k - 1) \<le> unat n"
  shows "get_split_bits pg n = Ret (of_nat (deciding_bits (unat n) k (unat (m_seed pg))))"
proof (cases "n = 1")
  case True
  have "2 ^ (k - 1) \<le> (1 :: nat)"
    using True k(5) by simp
  with less_exp [of "k - 1"] have "k - 1 < 1"
    by linarith
  with k(1) have "k = 1"
    by simp
  then show ?thesis
    using True by (simp add: get_split_bits_def deciding_bits_def)
next
  case False
  have "unat n \<noteq> 1" "0 < unat n"
    using False n(1) by (auto simp: word_unat_eq_iff word_less_nat_alt)
  then have gt: "n > 1"
    by (simp add: word_less_nat_alt)
  have h: "unat (word_of_int (to_s32 (push_bit (nat (int k - 1)) 1)) :: u32) = 2 ^ (k - 1)"
    using word_pow [of "k - 1"] k(1,2) by (simp add: nat_diff_distrib)
  define w :: u32 where "w = word_of_int (to_s32 (push_bit (nat (int k - 1)) 1))"
  have "m_seed pg mod w < n mod w \<longleftrightarrow> unat (m_seed pg) mod 2 ^ (k - 1) < unat n mod 2 ^ (k - 1)"
    using h by (simp add: word_less_nat_alt unat_mod_distrib w_def)
  moreover have "(word_of_int (int k) :: u32) - 1 = of_nat (k - 1)"
    using k(1) by (simp add: of_nat_diff)
  ultimately show ?thesis
    unfolding get_split_bits_def sint_small [OF n(2)] k(3) Let_def w_def [symmetric] using False gt k(1)
    by (simp add: deciding_bits_def)
qed

lemma calc_bits_of_pred:
  assumes "0 < N" and k: "0 < k" "N < 2 ^ k" "2 ^ (k - 1) \<le> N"
  shows "calc_bits_of (int N - 1) = int (if N = 2 ^ (k - 1) then k - 1 else k)"
proof -
  have N: "int N - 1 = int (N - 1)"
    using assms(1) by (simp add: of_nat_diff)
  obtain j where j: "calc_bits_of (int N - 1) = int j" "int (N - 1) < 2 ^ j" "int (N - 1) = 0 \<and> j = 0 \<or> 0 < j \<and> 2 ^ (j - 1) \<le> int (N - 1)"
    using bits_loop_spec [of "int (N - 1)" 0] by (auto simp: calc_bits_of_def N)
  have "int (N - 1) < int (2 ^ j)" "int (N - 1) = 0 \<and> j = 0 \<or> 0 < j \<and> int (2 ^ (j - 1)) \<le> int (N - 1)"
    using j(2,3) by simp_all
  then have lo: "N - 1 < 2 ^ j" and hi: "N = 1 \<and> j = 0 \<or> 0 < j \<and> 2 ^ (j - 1) \<le> N - 1"
    unfolding of_nat_less_iff of_nat_le_iff using assms(1) by auto
  have mono: "2 ^ a \<le> (2 :: nat) ^ b" if "a \<le> b" for a b
    using that by (rule power_increasing) simp
  have "j = (if N = 2 ^ (k - 1) then k - 1 else k)"
  proof (cases "N = 2 ^ (k - 1)")
    case True
    have "\<not> j < k - 1"
      using mono [of "Suc j" "k - 1"] lo True by auto
    moreover have "\<not> k - 1 < j"
    proof
      assume "k - 1 < j"
      then have "2 ^ (k - 1) \<le> (2 :: nat) ^ (j - 1)" "2 ^ (j - 1) \<le> N - 1"
        using mono [of "k - 1" "j - 1"] hi by auto
      with True assms(1) show False
        by linarith
    qed
    ultimately show ?thesis
      using True by simp
  next
    case False
    have "\<not> j < k"
    proof
      assume "j < k"
      then have "2 ^ j \<le> (2 :: nat) ^ (k - 1)"
        by (intro mono) simp
      with lo False k(3) show False
        by linarith
    qed
    moreover have "\<not> k < j"
    proof
      assume "k < j"
      then have "2 ^ k \<le> (2 :: nat) ^ (j - 1)" "2 ^ (j - 1) \<le> N - 1"
        using mono [of k "j - 1"] hi by auto
      with k(2) show False
        by linarith
    qed
    ultimately show ?thesis
      using False by simp
  qed
  with j(1) show ?thesis
    by simp
qed

lemma pg_num_mask_bits:
  assumes "pool_ok p" and k: "0 < k" "k \<le> 31" "unat (pg_num p) < 2 ^ k" "2 ^ (k - 1) \<le> unat (pg_num p)"
  defines "j \<equiv> if unat (pg_num p) = 2 ^ (k - 1) then k - 1 else k"
  shows "j \<le> 31" "pg_num_mask p = mask j"
proof -
  let ?n = "unat (pg_num p)"
  have n: "0 < ?n" "?n < 2 ^ 31" and msk: "pg_num_mask p = word_of_int (bit_mask (calc_bits_of (sint (pg_num p - 1))))"
    using assms(1) by (auto simp: pool_ok_def num_ok_def)
  have "unat (pg_num p - 1) = ?n - 1"
    using n by (simp add: unat_sub word_le_nat_alt)
  then have "sint (pg_num p - 1) = int ?n - 1"
    using n sint_small [of "pg_num p - 1"] by simp
  then have m: "pg_num_mask p = word_of_int (bit_mask (int j))"
    unfolding msk j_def using calc_bits_of_pred [OF n(1) k(1,3,4)] by simp
  show j: "j \<le> 31"
    using k(2) unfolding j_def by auto
  show "pg_num_mask p = mask j"
    unfolding m bit_mask_eq [OF j] by (simp add: mask_eq_exp_minus_1)
qed

lemma low_bits_or:
  fixes r seed :: u32
  assumes "unat seed < 2 ^ d"
  shows "unat ((r AND NOT (mask d)) OR seed) mod 2 ^ d = unat seed"
proof -
  have "take_bit d ((r AND NOT (mask d)) OR seed) = take_bit d seed"
    by (rule bit_word_eqI) (auto simp: bit_simps)
  then have "unat (take_bit d ((r AND NOT (mask d)) OR seed)) = unat (take_bit d seed)"
    by (simp only:)
  then have "unat ((r AND NOT (mask d)) OR seed) mod 2 ^ d = unat seed mod 2 ^ d"
    by (simp only: unsigned_take_bit_eq take_bit_eq_mod [where 'a = nat])
  with assms show ?thesis
    by simp
qed

lemma unat_and_mask: "unat (w AND mask j) = unat (w :: u32) mod 2 ^ j"
  unfolding take_bit_eq_mask [symmetric] by (simp only: unsigned_take_bit_eq take_bit_eq_mod [where 'a = nat])

lemma unat_mask_Suc: "j \<le> 31 \<Longrightarrow> unat (mask j + 1 :: u32) = 2 ^ j"
proof -
  assume "j \<le> 31"
  then have "(2 :: nat) ^ j \<le> 2 ^ 31"
    by (intro power_increasing) simp_all
  then have lt: "(2 :: nat) ^ j < 2 ^ 32"
    by simp
  have "mask j + 1 = (of_nat (2 ^ j) :: u32)"
    by (simp add: mask_eq_exp_minus_1)
  then show ?thesis
    using lt by (simp only: unat_of_nat) simp
qed

text \<open>The number of hashes, out of how many, that a group holds, and a hash in it.\<close>

lemma divisor_spec:
  assumes p: "pool_ok p" and k: "0 < k" "k \<le> 31" "unat (pg_num p) < 2 ^ k" "2 ^ (k - 1) \<le> unat (pg_num p)"
    and seed: "m_seed pg < pg_num p"
  defines "d \<equiv> deciding_bits (unat (pg_num p)) k (unat (m_seed pg))"
  shows "unat (get_pg_num_divisor p pg) = 2 ^ d"
    and "unat (get_random_pg_position p pg s) mod 2 ^ d = unat (m_seed pg)"
proof -
  let ?N = "unat (pg_num p)" and ?S = "unat (m_seed pg)" and ?h = "2 ^ (k - 1) :: nat"
  have S: "?S < ?N"
    using seed by (simp add: word_less_nat_alt)
  have "group_of ?N ?S = ?S" "?N < 2 ^ 31"
    using S p by (auto simp: pool_ok_def num_ok_def intro: group_of_id)
  then have "?S mod 2 ^ d = ?S"
    using deciding_bits_spec [OF S _ k(1,3,4), of ?S] by (simp add: d_def)
  then have Sd: "?S < 2 ^ d"
    by (metis mod_less_divisor zero_less_numeral zero_less_power)
  have "unat (get_pg_num_divisor p pg) = 2 ^ d \<and> unat (get_random_pg_position p pg s) mod 2 ^ d = ?S"
  proof (cases "?N = ?h")
    case True
    have m: "pg_num_mask p = mask (k - 1)" "k - 1 \<le> 31"
      using pg_num_mask_bits [OF p k] True by simp_all
    have "pg_num p = mask (k - 1) + 1"
      using unat_mask_Suc [OF m(2)] True by (metis word_unat_eq_iff)
    moreover have "d = k - 1"
      by (simp add: d_def deciding_bits_def True)
    ultimately show ?thesis
      using low_bits_or [OF Sd] True m by (simp add: get_pg_num_divisor_def get_random_pg_position_def Let_def)
  next
    case False
    have m: "pg_num_mask p = mask k"
      using pg_num_mask_bits [OF p k] False by simp
    have ne: "pg_num p \<noteq> mask k + 1"
      using unat_mask_Suc [OF k(2)] k(3) by (metis less_irrefl)
    have half: "drop_bit 1 (mask k :: u32) = mask (k - 1)" "drop_bit 1 (mask k + 1 :: u32) = mask (k - 1) + 1"
    proof -
      show "drop_bit 1 (mask k :: u32) = mask (k - 1)"
        using k(2) by (intro bit_word_eqI) (auto simp: bit_simps)
      have "unat (drop_bit 1 (mask k + 1 :: u32)) = unat (mask (k - 1) + 1 :: u32)"
        unfolding unat_drop_bit unat_mask_Suc [OF k(2)] using unat_mask_Suc [of "k - 1"] k(1,2) by (cases k) simp_all
      then show "drop_bit 1 (mask k + 1 :: u32) = mask (k - 1) + 1"
        by (simp only: word_unat_eq_iff)
    qed
    have cond: "m_seed pg AND mask (k - 1) < pg_num p AND mask (k - 1) \<longleftrightarrow> ?S mod ?h < ?N mod ?h"
      by (simp add: word_less_nat_alt unat_and_mask)
    show ?thesis
    proof (cases "?S mod ?h < ?N mod ?h")
      case True
      then have "d = k"
        by (simp add: d_def deciding_bits_def)
      with True show ?thesis
        using low_bits_or [OF Sd] unat_mask_Suc [OF k(2)]
        unfolding get_pg_num_divisor_def get_random_pg_position_def Let_def m half cond by (simp add: ne)
    next
      case False
      then have "d = k - 1"
        by (simp add: d_def deciding_bits_def)
      with False show ?thesis
        using low_bits_or [OF Sd] unat_mask_Suc [of "k - 1"] k(2)
        unfolding get_pg_num_divisor_def get_random_pg_position_def Let_def m half cond by (simp add: ne)
    qed
  qed
  then show "unat (get_pg_num_divisor p pg) = 2 ^ d" "unat (get_random_pg_position p pg s) mod 2 ^ d = ?S"
    by simp_all
qed

lemma get_parent_spec:
  assumes "0 < unat (m_seed pg)" "unat (m_seed pg) < 2 ^ 31"
  shows "get_parent pg = Ret (get_ancestor pg (m_seed pg))"
proof -
  let ?S = "unat (m_seed pg)"
  obtain k where k: "0 < k" "k \<le> 31" "calc_bits_of (int ?S) = int k" "?S < 2 ^ k" "2 ^ (k - 1) \<le> ?S" "mask_for ?S k"
    using bits_of_num [OF assms] by blast
  have "group_of ?S ?S = ?S mod 2 ^ (k - 1)"
    using group_of_eq [OF k(6) assms(2), of ?S] k(4) by (simp add: fold_mod_def)
  moreover have "m_seed pg AND NOT (push_bit (k - 1) (-1)) = of_nat (?S mod 2 ^ (k - 1))"
  proof -
    have "m_seed pg AND NOT (push_bit (k - 1) (-1)) = m_seed pg AND mask (k - 1)"
      by (rule bit_word_eqI) (auto simp: bit_simps)
    moreover have "?S mod 2 ^ (k - 1) < 2 ^ 32"
      using le_less_trans [OF mod_less_eq_dividend assms(2)] by (rule less_trans) simp
    ultimately show ?thesis
      unfolding word_unat_eq_iff unat_of_nat by (simp add: unat_and_mask)
  qed
  ultimately show ?thesis
    using k(1,3) get_ancestor_group [OF assms, of pg] sint_small [OF assms(2)]
    by (simp add: get_parent_def Let_def nat_diff_distrib)
qed

section \<open>Properties\<close>

text \<open>C8: When the number of groups of a pool grows, every object stays in its group or moves to a group that was split
  off it: the ancestor, for the old number, of the new group of a hash is the old group of the hash.  The old group
  has a number below the number of groups, and mapping it again does not change it.\<close>

theorem pg_split_stable:
  assumes "pool_ok p" "uint (pg_num p) \<le> n" "n < 2 ^ 31"
  shows "get_ancestor (raw_pg_to_pg (set_pg_num n p) pg) (pg_num p) = raw_pg_to_pg p pg
    \<and> m_seed (raw_pg_to_pg p pg) < pg_num p
    \<and> raw_pg_to_pg p (raw_pg_to_pg p pg) = raw_pg_to_pg p pg
    \<and> pool_ok (set_pg_num n p)"
proof -
  have N: "0 < unat (pg_num p)" "unat (pg_num p) < 2 ^ 31"
    using assms(1) by (auto simp: pool_ok_def num_ok_def)
  have "int (unat (pg_num p)) \<le> n"
    using assms(2) by simp
  then have n: "0 < n" "unat (pg_num p) \<le> nat n"
    using N(1) by linarith+
  have n31: "nat n < 2 ^ 31"
    using assms(3) n(1) by (simp add: nat_less_iff)
  note p' = set_pg_num_ok [OF assms(1) n(1) assms(3)]
  have "0 < nat n"
    using n(1) by simp
  then show ?thesis
    using p' N group_of_lt [OF N] unat_group [OF N] unat_group [OF _ n31] group_of_grow [OF N(1) n(2) n31]
      group_of_id [OF group_of_lt [OF N] N(2)]
    by (simp add: raw_pg_to_pg_group assms(1) get_ancestor_group word_less_nat_alt)
qed

definition sample_pool :: pg_pool_t where
  "sample_pool = set_pg_num 12 (set_pgp_num 12 \<lparr>pool_flags = 1, pool_type = 1, pool_size = 2, crush_ruleset = 0, object_hash = 2,
     pg_num = 1, pgp_num = 1, pg_num_mask = 0, pgp_num_mask = 0\<rparr>)"

lemma sample_pool_ok: "pool_ok sample_pool"
  by (simp add: sample_pool_def pool_ok_def num_ok_def set_pg_num_def set_pgp_num_def calc_pg_masks_def)

lemma sample_pool_simps [simp]: "pg_num sample_pool = 12" "pool_type sample_pool = 1" "pool_size sample_pool = 2"
  "crush_ruleset sample_pool = 0" "object_hash sample_pool = 2" "pool_flags sample_pool = 1"
  by (simp_all add: sample_pool_def set_pg_num_def set_pgp_num_def calc_pg_masks_def)

definition sample_pg :: pg_t where
  "sample_pg = \<lparr>m_pool = 0, m_seed = 3, m_preferred = -1\<rparr>"

theorem pg_split_stable_witness:
  "get_ancestor (raw_pg_to_pg (set_pg_num 100 sample_pool) sample_pg) 12 = raw_pg_to_pg sample_pool sample_pg"
  using pg_split_stable [OF sample_pool_ok, of 100 sample_pg] by simp

text \<open>C12: \<open>is_split\<close>, which steps through the candidates by the highest bit of the old number, returns, and returns exactly
  the groups that a search through all new groups finds: those whose ancestor is the given group.\<close>

theorem is_split_exact:
  assumes "m_seed pg < old_pg_num" "unat new_pg_num \<le> 2 ^ 30"
  shows "\<exists>children. is_split pg old_pg_num new_pg_num = Ret (children \<noteq> [], children)
    \<and> set children = {c. \<exists>s. c = pg\<lparr>m_seed := s\<rparr> \<and> old_pg_num \<le> s \<and> s < new_pg_num \<and> get_ancestor c old_pg_num = pg}"
proof (cases "new_pg_num \<le> old_pg_num")
  case True
  then show ?thesis
    using assms(1) by (auto simp: is_split_def intro!: exI [of _ "[]"])
next
  case False
  then have lt: "old_pg_num < new_pg_num"
    by simp
  obtain cs where cs: "is_split pg old_pg_num new_pg_num = Ret (cs \<noteq> [], map (\<lambda>s. pg\<lparr>m_seed := s\<rparr>) cs)"
    "unat ` set cs = {s. unat old_pg_num \<le> s \<and> s < unat new_pg_num \<and> group_of (unat old_pg_num) s = unat (m_seed pg)}"
    by (rule is_split_spec [OF assms(1) lt assms(2)])
  have o': "0 < unat old_pg_num" "unat old_pg_num < 2 ^ 31"
    using assms lt by (simp_all add: word_less_nat_alt)
  have mem: "s \<in> set cs \<longleftrightarrow> old_pg_num \<le> s \<and> s < new_pg_num \<and> get_ancestor (pg\<lparr>m_seed := s\<rparr>) old_pg_num = pg" for s
  proof -
    have "s \<in> set cs \<longleftrightarrow> unat s \<in> (unat :: u32 \<Rightarrow> nat) ` set cs"
      by (simp only: image_iff word_unat_eq_iff [symmetric] bex_simps) blast
    also have "\<dots> \<longleftrightarrow> old_pg_num \<le> s \<and> s < new_pg_num \<and> group_of (unat old_pg_num) (unat s) = unat (m_seed pg)"
      unfolding cs(2) by (simp add: word_le_nat_alt word_less_nat_alt)
    also have "group_of (unat old_pg_num) (unat s) = unat (m_seed pg) \<longleftrightarrow> get_ancestor (pg\<lparr>m_seed := s\<rparr>) old_pg_num = pg"
      unfolding get_ancestor_group [OF o'] using unat_group [OF o', of "unat s"]
      by (cases pg) (simp add: word_unat_eq_iff)
    finally show ?thesis .
  qed
  show ?thesis
    using cs(1) mem by (intro exI [of _ "map (\<lambda>s. pg\<lparr>m_seed := s\<rparr>) cs"]) auto
qed

theorem is_split_exact_witness:
  "\<exists>children. is_split sample_pg 12 100 = Ret (children \<noteq> [], children)
    \<and> set children = {c. \<exists>s. c = sample_pg\<lparr>m_seed := s\<rparr> \<and> 12 \<le> s \<and> s < 100 \<and> get_ancestor c 12 = sample_pg}"
  using is_split_exact [of sample_pg 12 100] by (simp add: sample_pg_def)



end
