(* ===== verification/Osd_Placement.thy ===== *)
theory Osd_Placement
  imports Osd_Map Crush_Placement Pg_Split
begin

unbundle bit_operations_syntax

text \<open>
  What the mapping of placement groups to devices promises: the loops of \<open>osd/OSDMap.cc\<close> against filters and
  permutations, the up set and the acting set, and the whole way from the name of an object to its devices.
\<close>

section \<open>Well-formed maps\<close>

definition osd_map_ok :: "osd_map \<Rightarrow> bool" where
  "osd_map_ok m \<longleftrightarrow> 0 \<le> max_osd m \<and> max_osd m \<le> CRUSH_ITEM_NONE
     \<and> int (length (osd_state m)) = max_osd m \<and> int (length (osd_weight m)) = max_osd m
     \<and> (case osd_primary_affinity m of None \<Rightarrow> True | Some a \<Rightarrow> int (length a) = max_osd m)"

definition pool_type_ok :: "pg_pool_t \<Rightarrow> bool" where
  "pool_type_ok p \<longleftrightarrow> pool_type p = TYPE_REPLICATED \<or> pool_type p = TYPE_ERASURE"

abbreviation replicated :: "pg_pool_t \<Rightarrow> bool" where
  "replicated p \<equiv> pool_type p = TYPE_REPLICATED"

lemma can_shift_osds_eq: "pool_type_ok p \<Longrightarrow> can_shift_osds p = Ret (replicated p)"
  by (auto simp: pool_type_ok_def can_shift_osds_def TYPE_REPLICATED_def TYPE_ERASURE_def)

lemma up_exists: "is_up_osd m x \<Longrightarrow> exists_osd m x"
  by (simp add: is_up_osd_def)

lemma not_live_iff [simp]: "(\<not> exists_osd m x \<or> is_down_osd m x) \<longleftrightarrow> \<not> is_up_osd m x"
  by (auto simp: is_down_osd_def is_up_osd_def)

lemma exists_osd_range: "exists_osd m x \<Longrightarrow> 0 \<le> x \<and> x < max_osd m"
  by (simp add: exists_osd_def)

lemma up_not_none: "osd_map_ok m \<Longrightarrow> is_up_osd m x \<Longrightarrow> x \<noteq> CRUSH_ITEM_NONE \<and> 0 \<le> x"
  by (auto simp: osd_map_ok_def dest!: up_exists exists_osd_range)

section \<open>The loops\<close>

lemma shift_loop_filter:
  assumes "removed \<le> i" "i \<le> length osds"
  shows "case shift_loop m i removed osds of (r, os) \<Rightarrow>
    length os = length osds \<and> r \<le> length os
    \<and> take (length os - r) os = take (i - removed) osds @ filter (exists_osd m) (drop i osds)"
  using assms
proof (induction m i removed osds rule: shift_loop.induct)
  case (1 m i removed osds)
  show ?case
  proof (cases "i < length osds")
    case False
    then show ?thesis
      using 1(3,4) by (subst shift_loop.simps) simp
  next
    case i: True
    then have d: "drop i osds = osds ! i # drop (Suc i) osds"
      by (simp add: Cons_nth_drop_Suc)
    show ?thesis
    proof (cases "exists_osd m (osds ! i)")
      case False
      then show ?thesis
        using 1(1) [OF i False] 1(3) i by (subst shift_loop.simps) (simp add: d)
    next
      case True
      let ?os = "if removed > 0 then osds[i - removed := osds ! i] else osds"
      have "take (Suc i - removed) ?os = take (i - removed) osds @ [osds ! i]"
        using i 1(3) by (auto simp: Suc_diff_le take_Suc_conv_app_nth)
      moreover have "drop (Suc i) ?os = drop (Suc i) osds" "length ?os = length osds"
        using 1(3) by auto
      ultimately show ?thesis
        using 1(2) [OF i] True 1(3) i by (subst shift_loop.simps) (simp add: d)
    qed
  qed
qed

lemma remove_nonexistent_osds_eq:
  assumes "pool_type_ok p"
  shows "remove_nonexistent_osds m p osds = Ret (if replicated p then filter (exists_osd m) osds
    else map (\<lambda>x. if exists_osd m x then x else CRUSH_ITEM_NONE) osds)"
  using shift_loop_filter [of 0 0 osds m]
  by (auto simp: remove_nonexistent_osds_def can_shift_osds_eq [OF assms] split: prod.splits)

lemma move_up_eq: "p < length osds \<Longrightarrow> move_up p osds = take 1 osds @ take p osds @ drop (Suc p) osds"
proof (induction p arbitrary: osds)
  case 0
  then show ?case by (cases osds) simp_all
next
  case (Suc p)
  then have "drop (Suc p) (osds[Suc p := osds ! p]) = osds ! p # drop (Suc (Suc p)) osds"
    by (subst Cons_nth_drop_Suc [symmetric]) simp_all
  then show ?case
    using Suc by (simp add: take_Suc_conv_app_nth)
qed

lemma move_to_front:
  assumes "p < length osds"
  shows "(move_up p osds)[0 := osds ! p] = osds ! p # take p osds @ drop (Suc p) osds"
  using assms by (cases osds) (simp_all add: move_up_eq)

lemma mset_move_to_front:
  assumes "p < length osds"
  shows "mset (osds ! p # take p osds @ drop (Suc p) osds) = mset osds"
proof -
  have "mset osds = mset (take p osds @ osds ! p # drop (Suc p) osds)"
    using id_take_nth_drop [OF assms] by simp
  then show ?thesis by simp
qed

lemma raw_to_up_indep:
  "foldr (\<lambda>o' (up, primary). if \<not> is_up_osd m o' then (CRUSH_ITEM_NONE # up, primary) else (o' # up, o')) raw ([], - 1)
   = (map (\<lambda>x. if is_up_osd m x then x else CRUSH_ITEM_NONE) raw,
      case filter (is_up_osd m) raw of [] \<Rightarrow> - 1 | x # _ \<Rightarrow> x)"
  by (induction raw) auto

definition up_set :: "osd_map \<Rightarrow> pg_pool_t \<Rightarrow> int list \<Rightarrow> int list" where
  "up_set m p raw = (if replicated p then filter (is_up_osd m) raw
     else map (\<lambda>x. if is_up_osd m x then x else CRUSH_ITEM_NONE) raw)"

definition first_up :: "osd_map \<Rightarrow> int list \<Rightarrow> int" where
  "first_up m raw = (case filter (is_up_osd m) raw of [] \<Rightarrow> - 1 | x # _ \<Rightarrow> x)"

lemma raw_to_up_osds_eq:
  assumes "pool_type_ok p"
  shows "raw_to_up_osds m p raw = Ret (up_set m p raw, first_up m raw)"
  unfolding raw_to_up_osds_def not_live_iff can_shift_osds_eq [OF assms]
  by (auto simp: up_set_def first_up_def raw_to_up_indep Let_def split: list.splits)

section \<open>Affinity\<close>

definition affinity_rejects :: "u32 list \<Rightarrow> u32 \<Rightarrow> int \<Rightarrow> bool" where
  "affinity_rejects aff seed x \<longleftrightarrow> aff ! nat x < CEPH_OSD_MAX_PRIMARY_AFFINITY
     \<and> drop_bit 16 (crush_hash32_2 CRUSH_HASH_RJENKINS1 seed (word_of_int x)) \<ge> aff ! nat x"

definition affinity_pick :: "u32 list \<Rightarrow> u32 \<Rightarrow> int list \<Rightarrow> int \<Rightarrow> bool" where
  "affinity_pick aff seed osds pos \<longleftrightarrow>
     (if pos < 0 then \<forall>x \<in> set osds. x = CRUSH_ITEM_NONE
      else nat pos < length osds \<and> osds ! nat pos \<noteq> CRUSH_ITEM_NONE
        \<and> (affinity_rejects aff seed (osds ! nat pos) \<longrightarrow>
             (\<forall>x \<in> set osds. x \<noteq> CRUSH_ITEM_NONE \<longrightarrow> affinity_rejects aff seed x)))"

abbreviation indexes :: "'a list \<Rightarrow> int list \<Rightarrow> bool" where
  "indexes aff osds \<equiv> \<forall>x \<in> set osds. x \<noteq> CRUSH_ITEM_NONE \<longrightarrow> 0 \<le> x \<and> x < int (length aff)"

lemma pick_primary_spec:
  assumes "indexes aff osds" "\<forall>x \<in> set pre. x \<noteq> CRUSH_ITEM_NONE \<longrightarrow> affinity_rejects aff seed x"
    "affinity_pick aff seed pre pos"
  shows "\<exists>r. pick_primary aff seed osds (length pre) pos = Ret r \<and> affinity_pick aff seed (pre @ osds) r"
  using assms
proof (induction osds arbitrary: pre pos)
  case Nil
  then show ?case by simp
next
  case (Cons x osds)
  show ?case
  proof (cases "x \<noteq> CRUSH_ITEM_NONE \<and> \<not> affinity_rejects aff seed x")
    case True
    then have "pick_primary aff seed (x # osds) (length pre) pos = Ret (int (length pre))"
      using Cons.prems(1) by (auto simp: arr_get_def affinity_rejects_def)
    moreover have "affinity_pick aff seed (pre @ x # osds) (int (length pre))"
      using True by (simp add: affinity_pick_def)
    ultimately show ?thesis by blast
  next
    case False
    let ?pos = "if x \<noteq> CRUSH_ITEM_NONE \<and> pos < 0 then int (length pre) else pos"
    have "pick_primary aff seed (x # osds) (length pre) pos = pick_primary aff seed osds (length (pre @ [x])) ?pos"
      using False Cons.prems(1) by (auto simp: arr_get_def affinity_rejects_def)
    moreover have "\<forall>y \<in> set (pre @ [x]). y \<noteq> CRUSH_ITEM_NONE \<longrightarrow> affinity_rejects aff seed y"
      using False Cons.prems(2) by auto
    moreover from this have "affinity_pick aff seed (pre @ [x]) ?pos"
      using Cons.prems(3) False by (auto simp: affinity_pick_def nth_append)
    ultimately show ?thesis
      using Cons.IH [of "pre @ [x]" ?pos] Cons.prems(1) by (simp del: pick_primary.simps)
  qed
qed

lemma any_affinity_eq:
  assumes "indexes aff osds"
  shows "any_affinity aff osds =
    Ret (\<exists>x \<in> set osds. x \<noteq> CRUSH_ITEM_NONE \<and> aff ! nat x \<noteq> CEPH_OSD_DEFAULT_PRIMARY_AFFINITY)"
  using assms by (induction osds) (auto simp: arr_get_def)

text \<open>The outcome of the two steps that turn the raw set into the up set and choose its primary.\<close>

definition up_outcome :: "osd_map \<Rightarrow> pg_pool_t \<Rightarrow> int list \<Rightarrow> int list \<times> int \<Rightarrow> bool" where
  "up_outcome m p raw r \<longleftrightarrow> (case r of (up, primary) \<Rightarrow>
     mset up = mset (up_set m p raw) \<and> (\<not> replicated p \<longrightarrow> up = up_set m p raw)
     \<and> (replicated p \<longrightarrow> primary = (if up = [] then - 1 else hd up))
     \<and> (if \<exists>x \<in> set raw. is_up_osd m x then primary \<in> set up \<and> is_up_osd m primary else primary = - 1)
     \<and> (\<forall>aff. osd_primary_affinity m = Some aff \<and> primary \<noteq> - 1 \<and> aff ! nat primary = 0 \<longrightarrow>
          (\<forall>x \<in> set raw. is_up_osd m x \<longrightarrow> aff ! nat x < CEPH_OSD_MAX_PRIMARY_AFFINITY)))"

lemma first_up_in:
  "\<exists>x \<in> set raw. is_up_osd m x \<Longrightarrow> first_up m raw \<in> set raw \<and> is_up_osd m (first_up m raw)"
  "\<not> (\<exists>x \<in> set raw. is_up_osd m x) \<Longrightarrow> first_up m raw = - 1"
  by (induction raw) (auto simp: first_up_def)

lemma up_set_members:
  "x \<in> set (up_set m p raw) \<and> x \<noteq> CRUSH_ITEM_NONE \<Longrightarrow> x \<in> set raw \<and> is_up_osd m x"
  "x \<in> set raw \<Longrightarrow> is_up_osd m x \<Longrightarrow> x \<in> set (up_set m p raw)"
  by (auto simp: up_set_def split: if_splits)

lemma up_set_replicated: "replicated p \<Longrightarrow> x \<in> set (up_set m p raw) \<Longrightarrow> x \<in> set raw \<and> is_up_osd m x"
  by (simp add: up_set_def)

lemma first_up_outcome:
  assumes "\<And>aff. osd_primary_affinity m = Some aff \<Longrightarrow>
    \<forall>x \<in> set raw. is_up_osd m x \<longrightarrow> aff ! nat x = CEPH_OSD_DEFAULT_PRIMARY_AFFINITY"
  shows "up_outcome m p raw (up_set m p raw, first_up m raw)"
proof -
  have "replicated p \<Longrightarrow> first_up m raw = (if up_set m p raw = [] then - 1 else hd (up_set m p raw))"
    by (auto simp: first_up_def up_set_def split: list.splits)
  moreover have "\<exists>x \<in> set raw. is_up_osd m x \<Longrightarrow> osd_primary_affinity m = Some aff \<Longrightarrow> aff ! nat (first_up m raw) \<noteq> 0" for aff
    using assms [of aff] first_up_in(1) [of raw m] by (auto simp: CEPH_OSD_DEFAULT_PRIMARY_AFFINITY_def)
  ultimately show ?thesis
    using first_up_in [of raw m] up_set_members(2) [of _ raw m p] by (auto simp: up_outcome_def)
qed

lemma picked_outcome:
  assumes m: "osd_map_ok m" and aff: "osd_primary_affinity m = Some aff"
    and pick: "affinity_pick aff seed (up_set m p raw) pos" "0 \<le> pos"
  shows "up_outcome m p raw (if replicated p \<and> 0 < pos
    then ((move_up (nat pos) (up_set m p raw))[0 := up_set m p raw ! nat pos], up_set m p raw ! nat pos)
    else (up_set m p raw, up_set m p raw ! nat pos))"
proof -
  let ?up = "up_set m p raw" and ?x = "up_set m p raw ! nat pos"
  have n: "nat pos < length ?up" "?x \<noteq> CRUSH_ITEM_NONE" and
    rej: "affinity_rejects aff seed ?x \<Longrightarrow> \<forall>x \<in> set ?up. x \<noteq> CRUSH_ITEM_NONE \<longrightarrow> affinity_rejects aff seed x"
    using pick by (auto simp: affinity_pick_def)
  have x: "?x \<in> set ?up" "?x \<in> set raw" "is_up_osd m ?x"
    using n up_set_members(1) [of ?x m p raw] by auto
  have zero: "aff ! nat ?x = 0 \<Longrightarrow> affinity_rejects aff seed ?x"
    by (simp add: affinity_rejects_def CEPH_OSD_MAX_PRIMARY_AFFINITY_def)
  have max: "aff ! nat y < CEPH_OSD_MAX_PRIMARY_AFFINITY" if "aff ! nat ?x = 0" "y \<in> set raw" "is_up_osd m y" for y
    using rej [OF zero [OF that(1)]] up_set_members(2) [OF that(2,3), of p] up_not_none [OF m that(3)]
    by (auto simp: affinity_rejects_def)
  have "\<exists>x \<in> set raw. is_up_osd m x"
    using x by blast
  moreover have "mset ((move_up (nat pos) ?up)[0 := ?x]) = mset ?up" "hd ((move_up (nat pos) ?up)[0 := ?x]) = ?x"
    "?x \<in> set ((move_up (nat pos) ?up)[0 := ?x])" "(move_up (nat pos) ?up)[0 := ?x] \<noteq> []"
    unfolding move_to_front [OF n(1)] mset_move_to_front [OF n(1)] by simp_all
  moreover have "pos = 0 \<Longrightarrow> ?x = hd ?up" "?up \<noteq> []"
    using n(1) by (auto simp: hd_conv_nth)
  ultimately show ?thesis
    using x max pick(2) aff by (auto simp: up_outcome_def)
qed

lemma apply_primary_affinity_outcome:
  assumes m: "osd_map_ok m" and p: "pool_type_ok p"
  shows "exec_post (apply_primary_affinity m seed p (up_set m p raw) (first_up m raw)) (up_outcome m p raw)"
proof (cases "osd_primary_affinity m")
  case None
  then show ?thesis
    using first_up_outcome [of m raw p] by (simp add: apply_primary_affinity_def)
next
  case (Some aff)
  have ix: "indexes aff (up_set m p raw)"
    using m Some up_set_members(1) [of _ m p raw]
    by (auto simp: osd_map_ok_def dest!: up_exists exists_osd_range)
  obtain pos where pos: "pick_primary aff seed (up_set m p raw) 0 (- 1) = Ret pos"
    and pick: "affinity_pick aff seed (up_set m p raw) pos"
    using pick_primary_spec [OF ix, of "[]" seed "- 1"] by (auto simp: affinity_pick_def)
  show ?thesis
  proof (cases "\<exists>x \<in> set (up_set m p raw). x \<noteq> CRUSH_ITEM_NONE \<and> aff ! nat x \<noteq> CEPH_OSD_DEFAULT_PRIMARY_AFFINITY")
    case False
    then have "\<forall>x \<in> set raw. is_up_osd m x \<longrightarrow> aff ! nat x = CEPH_OSD_DEFAULT_PRIMARY_AFFINITY"
      using up_set_members(2) [of _ raw m p] up_not_none [OF m] by blast
    then show ?thesis
      using first_up_outcome [of m raw p] Some any_affinity_eq [OF ix] False
      by (simp add: apply_primary_affinity_def)
  next
    case True
    then have "\<not> pos < 0"
      using pick by (auto simp: affinity_pick_def)
    then show ?thesis
      using picked_outcome [OF m Some pick] Some any_affinity_eq [OF ix] True pos can_shift_osds_eq [OF p]
      by (auto simp: apply_primary_affinity_def Let_def split: if_splits)
  qed
qed

section \<open>Up and acting\<close>

lemma temp_loop_eq:
  assumes "pool_type_ok p"
  shows "temp_loop m p ps acc = Ret (acc @ up_set m p ps)"
  by (induction ps arbitrary: acc) (auto simp: can_shift_osds_eq [OF assms] up_set_def is_down_osd_def is_up_osd_def)

definition temp_set :: "osd_map \<Rightarrow> pg_pool_t \<Rightarrow> pg_t \<Rightarrow> int list" where
  "temp_set m p pg = (case pg_temp m (raw_pg_to_pg p pg) of None \<Rightarrow> [] | Some ps \<Rightarrow> up_set m p ps)"

lemma get_temp_osds_eq:
  assumes "pool_type_ok p"
  shows "get_temp_osds m p pg =
    Ret (temp_set m p pg, case primary_temp m (raw_pg_to_pg p pg) of Some pp \<Rightarrow> pp | None \<Rightarrow> first_some (temp_set m p pg))"
  by (auto simp: get_temp_osds_def Let_def temp_loop_eq [OF assms] temp_set_def split: option.splits)

lemma first_some_cases:
  "first_some xs = - 1 \<and> (\<forall>x \<in> set xs. x = CRUSH_ITEM_NONE) \<or> first_some xs \<in> set xs \<and> first_some xs \<noteq> CRUSH_ITEM_NONE"
  by (induction xs) auto

text \<open>The acting set: the temporary set when it has been given one that is not empty, otherwise the up set.\<close>

definition acting_outcome :: "osd_map \<Rightarrow> pg_pool_t \<Rightarrow> pg_t \<Rightarrow> int list \<times> int \<Rightarrow> int list \<times> int \<Rightarrow> bool" where
  "acting_outcome m p pg u a \<longleftrightarrow>
     fst a = (if temp_set m p pg = [] then fst u else temp_set m p pg)
     \<and> (case primary_temp m (raw_pg_to_pg p pg) of
          Some pp \<Rightarrow> snd a = (if temp_set m p pg = [] \<and> pp = - 1 then snd u else pp)
        | None \<Rightarrow> snd a = - 1 \<and> (\<forall>x \<in> set (fst a). x = CRUSH_ITEM_NONE) \<or> snd a \<in> set (fst a) \<and> is_up_osd m (snd a))"

lemma is_up_crush [simp]: "is_up_osd (m\<lparr>crush := c\<rparr>) = is_up_osd m"
  by (simp add: fun_eq_iff is_up_osd_def exists_osd_def)

lemma up_set_crush [simp]: "up_set (m\<lparr>crush := c\<rparr>) = up_set m"
  by (simp add: fun_eq_iff up_set_def)

lemma temp_set_crush [simp]: "temp_set (m\<lparr>crush := c\<rparr>) = temp_set m"
  unfolding fun_eq_iff temp_set_def up_set_crush by simp

lemma up_outcome_crush [simp]: "up_outcome (m\<lparr>crush := c\<rparr>) = up_outcome m"
  by (simp add: fun_eq_iff up_outcome_def)

lemma acting_outcome_crush [simp]: "acting_outcome (m\<lparr>crush := c\<rparr>) = acting_outcome m"
  unfolding fun_eq_iff acting_outcome_def temp_set_crush is_up_crush by simp

lemma osd_map_ok_crush [simp]: "osd_map_ok (m\<lparr>crush := c\<rparr>) = osd_map_ok m"
  by (simp add: osd_map_ok_def split: option.splits)

lemma up_outcome_members:
  assumes "up_outcome m p raw (up, primary)" "x \<in> set up" "x \<noteq> CRUSH_ITEM_NONE"
  shows "x \<in> set raw \<and> is_up_osd m x"
proof -
  have "set up = set (up_set m p raw)"
    using assms(1) by (auto simp: up_outcome_def dest: mset_eq_setD)
  then show ?thesis using up_set_members(1) [of x m p raw] assms(2,3) by blast
qed

lemma up_outcome_none:
  assumes "osd_map_ok m" "up_outcome m p raw (up, primary)" "\<forall>x \<in> set raw. \<not> is_up_osd m x"
  shows "primary = - 1 \<and> (\<forall>x \<in> set up. x = CRUSH_ITEM_NONE)"
  using assms up_outcome_members [OF assms(2)] by (auto simp: up_outcome_def)

lemma acting_outcomeI:
  assumes m: "osd_map_ok m" and u: "up_outcome m p raw (up, primary)"
  shows "acting_outcome m p pg (up, primary)
    (if temp_set m p pg = []
     then (up, if (case primary_temp m (raw_pg_to_pg p pg) of Some pp \<Rightarrow> pp | None \<Rightarrow> first_some (temp_set m p pg)) = - 1
       then primary else (case primary_temp m (raw_pg_to_pg p pg) of Some pp \<Rightarrow> pp | None \<Rightarrow> first_some (temp_set m p pg)))
     else (temp_set m p pg,
       case primary_temp m (raw_pg_to_pg p pg) of Some pp \<Rightarrow> pp | None \<Rightarrow> first_some (temp_set m p pg)))"
proof (cases "temp_set m p pg = []")
  case True
  have "primary = - 1 \<and> (\<forall>x \<in> set up. x = CRUSH_ITEM_NONE) \<or> primary \<in> set up \<and> is_up_osd m primary"
  proof (cases "\<exists>x \<in> set raw. is_up_osd m x")
    case True
    then show ?thesis using u by (simp add: up_outcome_def)
  next
    case False
    then show ?thesis using up_outcome_none [OF m u] by blast
  qed
  then show ?thesis
    using True by (auto simp: acting_outcome_def split: option.splits)
next
  case False
  have "is_up_osd m x" if "x \<in> set (temp_set m p pg)" "x \<noteq> CRUSH_ITEM_NONE" for x
    using that up_set_members(1) [of x m p] by (auto simp: temp_set_def split: option.splits)
  then show ?thesis
    using False first_some_cases [of "temp_set m p pg"] by (auto simp: acting_outcome_def split: option.splits)
qed

lemma pg_to_osds_crush:
  assumes "pg_to_osds_pool fuel junk m p pg = Ret (raw, primary, pps, m')"
  shows "m' = m\<lparr>crush := crush m'\<rparr>"
  using assms by (auto simp: pg_to_osds_pool_def Let_def split: if_splits prod.splits)

lemma pg_to_up_acting_outcome:
  assumes m: "osd_map_ok m" and p: "get_pg_pool m (sint (m_pool pg)) = Some p" "pool_type_ok p"
    and raw: "pg_to_osds_pool fuel junk m p pg = Ret (raw, primary, pps, m')"
  shows "exec_post (pg_to_up_acting_osds fuel junk m pg) (\<lambda>(up, acting, m'').
    up_outcome m p raw up \<and> acting_outcome m p pg up acting \<and> m'' = m')"
proof -
  obtain c where m': "m' = m\<lparr>crush := c\<rparr>"
    using pg_to_osds_crush [OF raw] by metis
  then have ok: "osd_map_ok m'" using m by simp
  obtain up pr where a: "apply_primary_affinity m' pps p (up_set m' p raw) (first_up m' raw) = Ret (up, pr)"
    and u: "up_outcome m' p raw (up, pr)"
    using apply_primary_affinity_outcome [OF ok p(2), of pps raw] by (auto simp: exec_post_def)
  have eqs: "up_outcome m = up_outcome m'" "acting_outcome m = acting_outcome m'"
    using m' by simp_all
  show ?thesis
    unfolding eqs using acting_outcomeI [OF ok u, of pg] u
    by (simp add: pg_to_up_acting_osds_def p(1) raw raw_to_up_osds_eq [OF p(2)] a get_temp_osds_eq [OF p(2)])
qed

section \<open>From a group to its devices\<close>

lemma find_rule_from_result:
  "find_rule_from m rset t sz i k = Ret f \<Longrightarrow> 0 \<le> f \<Longrightarrow>
   int i \<le> f \<and> f < int (i + k) \<and> nat f < length (rules m) \<and> (\<exists>rl. rules m ! nat f = Some rl)"
proof (induction k arbitrary: i)
  case (Suc k)
  then show ?case
    by (auto simp: arr_get_def split: if_splits option.splits dest!: Suc.IH)
qed auto

lemma in_place_weight:
  assumes "in_place (leaf_rule_args c w (int (length w)) x t) item" "0 \<le> item"
  shows "item < int (length w) \<and> w ! nat item \<noteq> 0"
  using assms by (auto simp: in_place_def is_out_def leaf_rule_args_def arr_get_def split: if_splits)

lemma pg_to_osds_chooseleaf:
  assumes m: "map_ok rk (crush m)" "get_bucket (crush m) root = Ret b"
    and p: "pool_type_ok p" "0 < pool_size p"
    and find: "crush_find_rule (crush m) (uint (crush_ruleset p)) (uint (pool_type p)) (uint (pool_size p)) = Ret ruleno"
      "0 \<le> ruleno" "max_rules (crush m) \<le> 256"
    and rule: "rules (crush m) ! nat ruleno = Some rl" "rule_len rl = 3"
      "take 3 (steps rl) = [\<lparr>op = CRUSH_RULE_TAKE, arg1 = root, arg2 = z\<rparr>,
         \<lparr>op = CRUSH_RULE_CHOOSELEAF_FIRSTN, arg1 = n, arg2 = t\<rparr>, \<lparr>op = CRUSH_RULE_EMIT, arg1 = y, arg2 = y'\<rparr>]"
    and args: "args_ok (leaf_rule_args (crush m) (osd_weight m) (int (length (osd_weight m))) (sint (raw_pg_to_pps p pg)) t)"
      "firstn_fuel rk (leaf_rule_args (crush m) (osd_weight m) (int (length (osd_weight m))) (sint (raw_pg_to_pps p pg)) t) fuel"
  shows "exec_post (pg_to_osds_pool fuel junk m p pg) (\<lambda>(raw, _, _, m').
    length raw \<le> unat (pool_size p) \<and> distinct (filter (\<lambda>x. x \<noteq> CRUSH_ITEM_NONE) raw)
    \<and> (\<forall>x \<in> set raw. x \<noteq> CRUSH_ITEM_NONE \<longrightarrow> exists_osd m x \<and> under (crush m) root x
         \<and> x < int (length (osd_weight m)) \<and> osd_weight m ! nat x \<noteq> 0)
    \<and> map_ok rk (crush m') \<and> map_static (crush m') = map_static (crush m))"
proof -
  have f: "ruleno < int (max_rules (crush m))" "nat ruleno < length (rules (crush m))"
    using find_rule_from_result [of "crush m"] find(1,2) unfolding crush_find_rule_def by fastforce+
  then have f31: "ruleno < 2 ^ 31" using find(3) by simp
  have size: "0 < unat (pool_size p)" using p(2) by (simp add: word_less_nat_alt)
  have "exec_post (do_rule fuel junk (crush m) ruleno (sint (raw_pg_to_pps p pg)) (unat (pool_size p)) (osd_weight m))
    (\<lambda>(raw, c). length raw \<le> unat (pool_size p) \<and> distinct raw
      \<and> (\<forall>x \<in> set raw. 0 \<le> x \<and> under (crush m) root x \<and>
           in_place (leaf_rule_args (crush m) (osd_weight m) (int (length (osd_weight m))) (sint (raw_pg_to_pps p pg)) t) x)
      \<and> map_ok rk c \<and> map_static c = map_static (crush m))"
    unfolding do_rule_def
    by (rule do_rule_chooseleaf [OF m find(2) f(1) f31 f(2) rule size _ args]) simp
  then obtain raw c where run: "do_rule fuel junk (crush m) ruleno (sint (raw_pg_to_pps p pg)) (unat (pool_size p)) (osd_weight m) = Ret (raw, c)"
    and raw: "length raw \<le> unat (pool_size p)" "distinct raw" "map_ok rk c" "map_static c = map_static (crush m)"
    and item: "\<And>x. x \<in> set raw \<Longrightarrow> 0 \<le> x \<and> under (crush m) root x \<and> x < int (length (osd_weight m)) \<and> osd_weight m ! nat x \<noteq> 0"
    using in_place_weight [of "crush m" "osd_weight m" "sint (raw_pg_to_pps p pg)" t]
    by (auto simp: exec_post_def)
  have "length (filter (exists_osd m) raw) \<le> unat (pool_size p)"
    using raw(1) length_filter_le [of "exists_osd m" raw] by linarith
  moreover have "distinct (filter (\<lambda>x. x \<noteq> CRUSH_ITEM_NONE) (map (\<lambda>x. if exists_osd m x then x else CRUSH_ITEM_NONE) raw))"
    using raw(2) by (induction raw) auto
  ultimately show ?thesis
    using raw item find(1,2) run
    by (auto simp: pg_to_osds_pool_def Let_def remove_nonexistent_osds_eq [OF p(1)])
qed

section \<open>Changing the map\<close>

lemma length_resize_list [simp]: "length (resize_list n d xs) = n"
  by (simp add: resize_list_def)

lemma nth_resize_list: "i < n \<Longrightarrow> resize_list n d xs ! i = (if i < length xs then xs ! i else d)"
  by (simp add: resize_list_def nth_append)

text \<open>The loop that initialises new devices finds them initialised.\<close>

lemma new_osds_loop_id:
  "0 \<le> k \<Longrightarrow> int (length (osd_state m)) = max_osd m \<Longrightarrow> int (length (osd_weight m)) = max_osd m \<Longrightarrow>
   (\<And>i. k \<le> int i \<Longrightarrow> int i < max_osd m \<Longrightarrow> osd_state m ! i = 0 \<and> osd_weight m ! i = CEPH_OSD_OUT) \<Longrightarrow>
   new_osds_loop m k = Ret m"
proof (induction m k rule: new_osds_loop.induct)
  case (1 m k)
  show ?case
  proof (cases "k < max_osd m")
    case True
    have z: "osd_state m ! nat k = 0" "osd_weight m ! nat k = CEPH_OSD_OUT" using 1(5) [of "nat k"] 1(2) True by simp_all
    have set: "arr_set (osd_state m) k 0 = Ret (osd_state m)" "arr_set (osd_weight m) k CEPH_OSD_OUT = Ret (osd_weight m)"
      using list_update_id [of "osd_state m" "nat k"] list_update_id [of "osd_weight m" "nat k"] True 1(2-4)
      unfolding z by (simp_all add: arr_set_def)
    have "new_osds_loop m k = new_osds_loop m (k + 1)" by (subst new_osds_loop.simps) (simp add: True set)
    then show ?thesis using 1(1) [OF True, of "osd_weight m" "osd_state m"] 1(2-5) by simp
  qed (simp add: new_osds_loop.simps)
qed

lemma num_osds_loop_eq:
  "0 \<le> i \<Longrightarrow> int (length (osd_state m)) = max_osd m \<Longrightarrow>
   num_osds_loop m i n = Ret (n + int (card {x. exists_osd m x \<and> i \<le> x}))"
proof (induction m i n rule: num_osds_loop.induct)
  case (1 m i n)
  show ?case
  proof (cases "i < max_osd m")
    case False
    then have none: "{x. exists_osd m x \<and> i \<le> x} = {}" by (auto simp: exists_osd_def)
    show ?thesis using False unfolding none by (subst num_osds_loop.simps) simp
  next
    case True
    let ?later = "{x. exists_osd m x \<and> i + 1 \<le> x}"
    have fin: "finite ?later" by (rule finite_subset [of _ "{0..max_osd m}"]) (auto simp: exists_osd_def)
    have split: "{x. exists_osd m x \<and> i \<le> x} = (if exists_osd m i then insert i ?later else ?later)"
      by (auto simp: order_le_less)
    have ex: "exists_osd m i \<longleftrightarrow> osd_state m ! nat i AND CEPH_OSD_EXISTS \<noteq> 0" using True 1(2) by (simp add: exists_osd_def)
    have "num_osds_loop m i n = num_osds_loop m (i + 1) (if exists_osd m i then n + 1 else n)"
      unfolding ex using True 1(2,3) by (subst num_osds_loop.simps) (simp add: arr_get_def)
    also have "\<dots> = Ret ((if exists_osd m i then n + 1 else n) + int (card ?later))"
      using 1(1) [OF True, of "osd_state m ! nat i"] 1(2,3) ex by simp
    also have "\<dots> = Ret (n + int (card {x. exists_osd m x \<and> i \<le> x}))"
      unfolding split using fin by simp
    finally show ?thesis .
  qed
qed

text \<open>Changing the number of devices keeps those that stay, and counts them.\<close>

lemma set_max_osd_run:
  assumes "osd_map_ok m" "0 \<le> k" "k \<le> CRUSH_ITEM_NONE"
  defines "m1 \<equiv> m\<lparr>max_osd := k, osd_state := resize_list (nat k) 0 (osd_state m),
    osd_weight := resize_list (nat k) 0 (osd_weight m), osd_primary_affinity :=
      map_option (resize_list (nat k) CEPH_OSD_DEFAULT_PRIMARY_AFFINITY) (osd_primary_affinity m)\<rparr>"
  shows "set_max_osd k m = Ret (m1\<lparr>num_osd := int (card {x. exists_osd m1 x})\<rparr>)"
proof -
  let ?m0 = "m\<lparr>max_osd := k, osd_state := resize_list (nat k) 0 (osd_state m), osd_weight := resize_list (nat k) 0 (osd_weight m)\<rparr>"
  have len: "int (length (osd_state m)) = max_osd m" "int (length (osd_weight m)) = max_osd m" "0 \<le> max_osd m"
    using assms(1) by (simp_all add: osd_map_ok_def)
  have "new_osds_loop ?m0 (max_osd m) = Ret ?m0"
    using len assms(2) by (intro new_osds_loop_id) (auto simp: nth_resize_list CEPH_OSD_OUT_def)
  moreover have "num_osds_loop m1 0 0 = Ret (int (card {x. exists_osd m1 x}))"
  proof -
    have "{x. exists_osd m1 x \<and> 0 \<le> x} = {x. exists_osd m1 x}" by (auto simp: exists_osd_def)
    moreover have "int (length (osd_state m1)) = max_osd m1" using assms(2) by (simp add: m1_def)
    ultimately show ?thesis using num_osds_loop_eq [of 0 m1 0] by simp
  qed
  ultimately show ?thesis
    using assms(2) by (simp add: set_max_osd_def calc_num_osds_def m1_def)
qed

lemma resized_state:
  assumes "osd_map_ok m" "0 \<le> k"
  shows "exists_osd (m\<lparr>max_osd := k, osd_state := resize_list (nat k) 0 (osd_state m), osd_weight := w, osd_primary_affinity := a\<rparr>) x
      \<longleftrightarrow> exists_osd m x \<and> x < k"
    "is_up_osd (m\<lparr>max_osd := k, osd_state := resize_list (nat k) 0 (osd_state m), osd_weight := w, osd_primary_affinity := a\<rparr>) x
      \<longleftrightarrow> is_up_osd m x \<and> x < k"
proof -
  have len: "int (length (osd_state m)) = max_osd m" using assms(1) by (simp add: osd_map_ok_def)
  have at: "resize_list (nat k) 0 (osd_state m) ! nat x = (if x < max_osd m then osd_state m ! nat x else 0)" if "0 \<le> x" "x < k"
    using that len by (simp add: nth_resize_list) linarith
  show "exists_osd (m\<lparr>max_osd := k, osd_state := resize_list (nat k) 0 (osd_state m), osd_weight := w, osd_primary_affinity := a\<rparr>) x
      \<longleftrightarrow> exists_osd m x \<and> x < k"
    "is_up_osd (m\<lparr>max_osd := k, osd_state := resize_list (nat k) 0 (osd_state m), osd_weight := w, osd_primary_affinity := a\<rparr>) x
      \<longleftrightarrow> is_up_osd m x \<and> x < k"
    using at by (auto simp: is_up_osd_def exists_osd_def split: if_splits)
qed

text \<open>On a map whose vectors have one entry for each device number, \<open>set_max_osd\<close> to a number from 0 to the special
  number \<open>CRUSH_ITEM_NONE\<close> returns such a map again; the devices below the new number stay as they were, up or
  down and with their weights, no other exists, and \<open>num_osd\<close> is the number of devices that exist.\<close>
theorem set_max_osd_keeps:
  assumes "osd_map_ok m" "0 \<le> k" "k \<le> CRUSH_ITEM_NONE"
  shows "exec_post (set_max_osd k m) (\<lambda>m'. osd_map_ok m' \<and> max_osd m' = k \<and>
    (\<forall>x. exists_osd m' x \<longleftrightarrow> exists_osd m x \<and> x < k) \<and> (\<forall>x. is_up_osd m' x \<longleftrightarrow> is_up_osd m x \<and> x < k) \<and>
    (\<forall>x. exists_osd m' x \<longrightarrow> get_weight m' x = get_weight m x) \<and> num_osd m' = int (card (get_all_osds m')))"
proof -
  define m1 where "m1 = m\<lparr>max_osd := k, osd_state := resize_list (nat k) 0 (osd_state m),
    osd_weight := resize_list (nat k) 0 (osd_weight m), osd_primary_affinity :=
      map_option (resize_list (nat k) CEPH_OSD_DEFAULT_PRIMARY_AFFINITY) (osd_primary_affinity m)\<rparr>"
  define m' where "m' = m1\<lparr>num_osd := int (card {x. exists_osd m1 x})\<rparr>"
  have run: "set_max_osd k m = Ret m'" unfolding m'_def m1_def by (rule set_max_osd_run [OF assms])
  have same: "exists_osd m' = exists_osd m1" "is_up_osd m' = is_up_osd m1" by (simp_all add: fun_eq_iff exists_osd_def is_up_osd_def m'_def)
  have ex: "exists_osd m' x \<longleftrightarrow> exists_osd m x \<and> x < k" "is_up_osd m' x \<longleftrightarrow> is_up_osd m x \<and> x < k" for x
    unfolding same unfolding m1_def by (rule resized_state [OF assms(1,2)])+
  have len: "int (length (osd_weight m)) = max_osd m" using assms(1) by (simp add: osd_map_ok_def)
  have num: "num_osd m' = int (card (get_all_osds m'))"
  proof -
    have "get_all_osds m' = {x. exists_osd m' x}" by (auto simp: get_all_osds_def exists_osd_def)
    then show ?thesis unfolding same by (simp add: m'_def)
  qed
  have ok: "osd_map_ok m'" "max_osd m' = k" using assms by (auto simp: osd_map_ok_def m'_def m1_def split: option.splits)
  have w: "get_weight m' x = get_weight m x" if "exists_osd m' x" for x
  proof -
    have x: "0 \<le> x" "x < max_osd m" "x < k" using that ex by (auto dest: exists_osd_range)
    moreover have "nat x < length (osd_weight m)" using x len by linarith
    ultimately show ?thesis using len by (simp add: get_weight_def arr_get_def nth_resize_list m'_def m1_def)
  qed
  show ?thesis unfolding exec_post_def run using ok w ex num by simp
qed

section \<open>Hashes of names\<close>

lemma key_word_total: "i + 3 < length k \<Longrightarrow> \<exists>w. key_word k i = Ret w"
  by (simp add: key_word_def)

lemma rjenkins_blocks_total:
  "len \<le> length k \<Longrightarrow> \<exists>k' n s'. rjenkins_blocks k len s = Ret (k', n, s') \<and> n \<le> length k'"
proof (induction k len s rule: rjenkins_blocks.induct)
  case (1 k len s)
  obtain a b c where s: "s = (a, b, c)" by (cases s)
  show ?case
  proof (cases "len < 12")
    case False
    obtain ka kb kc where "key_word k 0 = Ret ka" "key_word k 4 = Ret kb" "key_word k 8 = Ret kc"
      using key_word_total [of 0 k] key_word_total [of 4 k] key_word_total [of 8 k] False 1(2) by auto
    then have "rjenkins_blocks k len s = rjenkins_blocks (drop 12 k) (len - 12) (name_mix (a + ka, b + kb, c + kc))"
      using False by (subst rjenkins_blocks.simps) (simp add: s)
    then show ?thesis using 1(1) [OF False, of a "(b, c)" b c ka kb kc] 1(2) s by simp
  qed (use 1(2) in \<open>simp add: rjenkins_blocks.simps s\<close>)
qed

lemma tail_byte_total: "len \<le> length k \<Longrightarrow> \<exists>w. tail_byte k len i sh = Ret w"
  by (simp add: tail_byte_def)

lemma rjenkins_tail_total:
  assumes "len \<le> length k"
  shows "\<exists>s'. rjenkins_tail k len s = Ret s'"
proof -
  obtain f where "tail_byte k len i sh = Ret (f i sh)" for i sh using tail_byte_total [OF assms] by metis
  then show ?thesis by (cases s) (simp add: rjenkins_tail_def)
qed

lemma hash_linux_total: "n \<le> length str \<Longrightarrow> \<exists>v. hash_linux_loop str n hsh = Ret v"
proof (induction n arbitrary: str hsh)
  case (Suc n)
  then show ?case by (cases str) auto
qed simp

lemma ceph_str_hash_total:
  assumes "unat len \<le> length s"
  shows "\<exists>v. ceph_str_hash t s len = Ret v"
proof -
  obtain k n s' where "rjenkins_blocks s (unat len) (0x9e3779b9, 0x9e3779b9, 0) = Ret (k, n, s')" "n \<le> length k"
    using rjenkins_blocks_total [OF assms] by blast
  moreover obtain a b c where "s' = (a, b, c)" by (cases s')
  moreover obtain r where "rjenkins_tail k n (a, b, c + len) = Ret r" using rjenkins_tail_total [OF calculation(2)] by blast
  ultimately have "\<exists>v. ceph_str_hash_rjenkins s len = Ret v"
    by (simp add: ceph_str_hash_rjenkins_def split: prod.splits)
  then show ?thesis
    using hash_linux_total [OF assms, of 0] by (auto simp: ceph_str_hash_def ceph_str_hash_linux_def)
qed

lemma hash_key_total: "\<exists>v. hash_key p key ns = Ret v"
proof -
  have "unat (of_nat (length n) :: u32) \<le> length n" for n :: "u8 list" by (simp add: unat_of_nat)
  then show ?thesis unfolding hash_key_def Let_def by (rule ceph_str_hash_total)
qed

section \<open>From the name of an object to its devices\<close>

text \<open>The rule of the pool takes a root, chooses leaves of different buckets of a type below it, and emits them.\<close>

definition leaf_rule :: "crush_map \<Rightarrow> pg_pool_t \<Rightarrow> int \<Rightarrow> int \<Rightarrow> bool" where
  "leaf_rule c p root t \<longleftrightarrow> (\<exists>ruleno rl z n y y'.
     crush_find_rule c (uint (crush_ruleset p)) (uint (pool_type p)) (uint (pool_size p)) = Ret ruleno \<and> 0 \<le> ruleno \<and>
     rules c ! nat ruleno = Some rl \<and> rule_len rl = 3 \<and>
     take 3 (steps rl) = [\<lparr>op = CRUSH_RULE_TAKE, arg1 = root, arg2 = z\<rparr>,
       \<lparr>op = CRUSH_RULE_CHOOSELEAF_FIRSTN, arg1 = n, arg2 = t\<rparr>, \<lparr>op = CRUSH_RULE_EMIT, arg1 = y, arg2 = y'\<rparr>])"

abbreviation pool_args :: "osd_map \<Rightarrow> pg_pool_t \<Rightarrow> pg_t \<Rightarrow> int \<Rightarrow> choose_args" where
  "pool_args m p pg t \<equiv>
     leaf_rule_args (crush m) (osd_weight m) (int (length (osd_weight m))) (sint (raw_pg_to_pps p pg)) t"

text \<open>What the up set and its primary are.\<close>

definition good_up :: "osd_map \<Rightarrow> pg_pool_t \<Rightarrow> int \<Rightarrow> int list \<Rightarrow> int \<Rightarrow> bool" where
  "good_up m p root up primary \<longleftrightarrow> length up \<le> unat (pool_size p) \<and>
     distinct (filter (\<lambda>x. x \<noteq> CRUSH_ITEM_NONE) up) \<and> (replicated p \<longrightarrow> CRUSH_ITEM_NONE \<notin> set up) \<and>
     (\<forall>x \<in> set up. x \<noteq> CRUSH_ITEM_NONE \<longrightarrow> is_up_osd m x \<and> is_in_osd m x = Ret True \<and> under (crush m) root x) \<and>
     (if \<forall>x \<in> set up. x = CRUSH_ITEM_NONE then primary = - 1
      else primary \<in> set up \<and> primary \<noteq> CRUSH_ITEM_NONE \<and> (replicated p \<longrightarrow> primary = hd up))"

lemma up_set_distinct:
  assumes "osd_map_ok m" "distinct (filter (\<lambda>x. x \<noteq> CRUSH_ITEM_NONE) raw)"
  shows "distinct (filter (\<lambda>x. x \<noteq> CRUSH_ITEM_NONE) (up_set m p raw))"
proof -
  have "filter (\<lambda>x. x \<noteq> CRUSH_ITEM_NONE) (up_set m p raw) = filter (is_up_osd m) (filter (\<lambda>x. x \<noteq> CRUSH_ITEM_NONE) raw)"
    using up_not_none [OF assms(1)] by (induction raw) (auto simp: up_set_def)
  then show ?thesis using assms(2) by (metis distinct_filter)
qed

lemma good_upI:
  assumes m: "osd_map_ok m" and u: "up_outcome m p raw (up, primary)"
    and raw: "length raw \<le> unat (pool_size p)" "distinct (filter (\<lambda>x. x \<noteq> CRUSH_ITEM_NONE) raw)"
    and mem: "\<And>x. x \<in> set raw \<Longrightarrow> x \<noteq> CRUSH_ITEM_NONE \<Longrightarrow> exists_osd m x \<and> under (crush m) root x
      \<and> x < int (length (osd_weight m)) \<and> osd_weight m ! nat x \<noteq> 0"
  shows "good_up m p root up primary"
proof -
  have ms: "mset up = mset (up_set m p raw)" using u by (simp add: up_outcome_def)
  then have sets: "set up = set (up_set m p raw)" "length up = length (up_set m p raw)"
    by (auto dest: mset_eq_setD mset_eq_length)
  have "length (up_set m p raw) \<le> length raw" by (simp add: up_set_def)
  then have len: "length up \<le> unat (pool_size p)" using sets(2) raw(1) by linarith
  have "mset (filter (\<lambda>x. x \<noteq> CRUSH_ITEM_NONE) up) = mset (filter (\<lambda>x. x \<noteq> CRUSH_ITEM_NONE) (up_set m p raw))"
    unfolding mset_filter ms ..
  then have dist: "distinct (filter (\<lambda>x. x \<noteq> CRUSH_ITEM_NONE) up)"
    using up_set_distinct [OF m raw(2), of p] by (metis mset_eq_imp_distinct_iff)
  have rep: "CRUSH_ITEM_NONE \<notin> set up" if "replicated p"
    using up_set_replicated [OF that, of CRUSH_ITEM_NONE m raw] sets(1) up_not_none [OF m] by blast
  have live: "is_up_osd m x \<and> is_in_osd m x = Ret True \<and> under (crush m) root x" if "x \<in> set up" "x \<noteq> CRUSH_ITEM_NONE" for x
  proof -
    have x: "x \<in> set raw" "is_up_osd m x" using up_outcome_members [OF u that] by simp_all
    have "0 \<le> x" "x < max_osd m" using exists_osd_range [OF up_exists [OF x(2)]] by simp_all
    then show ?thesis using x mem [OF x(1) that(2)] m
      by (simp add: is_in_osd_def is_out_osd_def get_weight_def arr_get_def osd_map_ok_def CEPH_OSD_OUT_def)
  qed
  have prim: "if \<forall>x \<in> set up. x = CRUSH_ITEM_NONE then primary = - 1
      else primary \<in> set up \<and> primary \<noteq> CRUSH_ITEM_NONE \<and> (replicated p \<longrightarrow> primary = hd up)"
  proof (cases "\<exists>x \<in> set raw. is_up_osd m x")
    case True
    then have "primary \<in> set up" "is_up_osd m primary" "replicated p \<longrightarrow> primary = (if up = [] then - 1 else hd up)"
      using u by (simp_all add: up_outcome_def)
    then show ?thesis using up_not_none [OF m] by (auto split: if_splits)
  next
    case False
    then show ?thesis using up_outcome_none [OF m u] by auto
  qed
  show ?thesis unfolding good_up_def using len dist rep live prim by blast
qed

lemma pg_to_up_acting_good:
  assumes m: "osd_map_ok m" "map_ok rk (crush m)" "get_bucket (crush m) root = Ret b" "max_rules (crush m) \<le> 256"
    and p: "get_pg_pool m (sint (m_pool pg)) = Some p" "pool_type_ok p" "0 < pool_size p" "leaf_rule (crush m) p root t"
    and args: "args_ok (pool_args m p pg t)" "firstn_fuel rk (pool_args m p pg t) fuel"
  shows "exec_post (pg_to_up_acting_osds fuel junk m pg) (\<lambda>(up, acting, m').
    good_up m p root (fst up) (snd up) \<and> acting_outcome m p pg up acting \<and>
    map_ok rk (crush m') \<and> map_static (crush m') = map_static (crush m) \<and> m' = m\<lparr>crush := crush m'\<rparr>)"
proof -
  obtain ruleno rl z n y y' where rule: "crush_find_rule (crush m) (uint (crush_ruleset p)) (uint (pool_type p)) (uint (pool_size p)) = Ret ruleno"
    "0 \<le> ruleno" "rules (crush m) ! nat ruleno = Some rl" "rule_len rl = 3"
    "take 3 (steps rl) = [\<lparr>op = CRUSH_RULE_TAKE, arg1 = root, arg2 = z\<rparr>,
       \<lparr>op = CRUSH_RULE_CHOOSELEAF_FIRSTN, arg1 = n, arg2 = t\<rparr>, \<lparr>op = CRUSH_RULE_EMIT, arg1 = y, arg2 = y'\<rparr>]"
    using p(4) unfolding leaf_rule_def by blast
  obtain raw pr pps m' where run: "pg_to_osds_pool fuel junk m p pg = Ret (raw, pr, pps, m')"
    and raw: "length raw \<le> unat (pool_size p)" "distinct (filter (\<lambda>x. x \<noteq> CRUSH_ITEM_NONE) raw)"
      "map_ok rk (crush m')" "map_static (crush m') = map_static (crush m)"
    and mem: "\<And>x. x \<in> set raw \<Longrightarrow> x \<noteq> CRUSH_ITEM_NONE \<Longrightarrow> exists_osd m x \<and> under (crush m) root x
      \<and> x < int (length (osd_weight m)) \<and> osd_weight m ! nat x \<noteq> 0"
    using pg_to_osds_chooseleaf [OF m(2,3) p(2,3) rule(1,2) m(4) rule(3-5) args, of junk] by (auto simp: exec_post_def)
  have "good_up m p root (fst u) (snd u)" if "up_outcome m p raw u" for u
    using good_upI [OF m(1) _ raw(1,2) mem, of "fst u" "snd u"] that by simp
  then show ?thesis
    using exec_post_mono [OF pg_to_up_acting_outcome [OF m(1) p(1,2) run]] raw(3,4) pg_to_osds_crush [OF run]
    by (auto simp: case_prod_unfold)
qed

lemma object_locator_to_pg_total:
  assumes "get_pg_pool m (loc_pool loc) = Some p"
  shows "\<exists>pg. object_locator_to_pg m oid loc = Ret (Inr pg) \<and> m_pool pg = word_of_int (loc_pool loc)"
proof -
  obtain v where "hash_key p key ns = Ret (v key ns)" for key ns using hash_key_total [of p] by metis
  then show ?thesis using assms by (simp add: object_locator_to_pg_def)
qed

text \<open>C3: Every object of a pool is placed on devices that can serve it.  The map is consistent (one entry per device
  number in every vector, a well-formed CRUSH map), the pool is replicated or erasure coded, its number is one
  of 64 bits, its rule takes a root, chooses leaves of different buckets of some type and emits them, and the
  tunables of the map and the fuel are in range.  Then the name of the object is mapped to a group of the pool,
  and the group to an up set of at most as many devices as the pool has replicas, all different, all up, in, and
  below the root; in a replicated pool there are no holes.  The primary is one of them, the first in a
  replicated pool, and -1 only if there is none.  The acting set is the temporary set of the group without the
  devices that are down, if that is not empty, and otherwise the up set; unless a temporary primary is set,
  its primary is a device of it that is up, or -1 if it has none.  Of the map only the caches of CRUSH change.\<close>
theorem object_placed_on_live_osds:
  assumes "osd_map_ok m" "map_ok rk (crush m)" "get_bucket (crush m) root = Ret b" "max_rules (crush m) \<le> 256"
    and "pools m (loc_pool loc) = Some p" "- (2 ^ 63) \<le> loc_pool loc" "loc_pool loc < 2 ^ 63"
    and "pool_type_ok p" "0 < pool_size p" "leaf_rule (crush m) p root t"
    and "\<And>pg. args_ok (pool_args m p pg t)" "\<And>pg. firstn_fuel rk (pool_args m p pg t) fuel"
  shows "exec_post (object_locator_to_pg m oid loc) (\<lambda>r. \<exists>pg. r = Inr pg \<and> m_pool pg = word_of_int (loc_pool loc) \<and>
    exec_post (pg_to_up_acting_osds fuel junk m pg) (\<lambda>((up, up_primary), (acting, acting_primary), m').
      good_up m p root up up_primary \<and>
      acting = (if temp_set m p pg = [] then up else temp_set m p pg) \<and>
      (case primary_temp m (raw_pg_to_pg p pg) of
         Some pp \<Rightarrow> acting_primary = (if temp_set m p pg = [] \<and> pp = - 1 then up_primary else pp)
       | None \<Rightarrow> acting_primary = - 1 \<and> (\<forall>x \<in> set acting. x = CRUSH_ITEM_NONE) \<or>
           acting_primary \<in> set acting \<and> is_up_osd m acting_primary) \<and>
      m' = m\<lparr>crush := crush m'\<rparr> \<and> map_ok rk (crush m') \<and> map_static (crush m') = map_static (crush m)))"
proof -
  obtain pg where pg: "object_locator_to_pg m oid loc = Ret (Inr pg)" "m_pool pg = word_of_int (loc_pool loc)"
    using object_locator_to_pg_total [of m loc p oid] assms(5) by (auto simp: get_pg_pool_def)
  have "sint (word_of_int (loc_pool loc) :: u64) = loc_pool loc"
    using assms(6,7) by (simp add: int_word_sint)
  then have "get_pg_pool m (sint (m_pool pg)) = Some p" using assms(5) pg(2) by (simp add: get_pg_pool_def)
  from pg_to_up_acting_good [OF assms(1-4) this assms(8-12), of junk] obtain up upr act apr m' where
    r: "pg_to_up_acting_osds fuel junk m pg = Ret ((up, upr), (act, apr), m')"
    "good_up m p root up upr" "acting_outcome m p pg (up, upr) (act, apr)"
    "map_ok rk (crush m')" "map_static (crush m') = map_static (crush m)" "m' = m\<lparr>crush := crush m'\<rparr>"
    by (auto simp: exec_post_def)
  note a = r(3) [unfolded acting_outcome_def fst_conv snd_conv]
  show ?thesis unfolding exec_post_def
    by (intro exI [of _ "Inr pg"] exI [of _ pg] exI [of _ "((up, upr), (act, apr), m')"] conjI refl pg r(1))
      (unfold prod.case, intro conjI r(2) a [THEN conjunct1] a [THEN conjunct2] r(4-6))
qed

definition sample_osd_map :: osd_map where
  "sample_osd_map = \<lparr>num_osd = 4, max_osd = 4, osd_state = [3, 3, 1, 3], osd_weight = replicate 4 0x10000, pg_temp = Map.empty,
     primary_temp = Map.empty, osd_primary_affinity = None, pools = [0 \<mapsto> sample_pool], crush = sample_map\<rparr>"

lemma sample_osd_map_ok: "osd_map_ok sample_osd_map"
  by (simp add: osd_map_ok_def sample_osd_map_def)

theorem set_max_osd_keeps_witness:
  "exec_post (set_max_osd 2 sample_osd_map) (\<lambda>m'. osd_map_ok m' \<and> max_osd m' = 2 \<and> is_up_osd m' 1 \<and> \<not> exists_osd m' 3)"
proof -
  have "is_up_osd sample_osd_map 1"
    by (simp add: is_up_osd_def exists_osd_def sample_osd_map_def CEPH_OSD_EXISTS_def CEPH_OSD_UP_def)
  then show ?thesis using set_max_osd_keeps [OF sample_osd_map_ok, of 2] by (auto elim!: exec_post_mono)
qed

theorem object_placed_on_live_osds_witness:
  "exec_post (object_locator_to_pg sample_osd_map [104, 105] \<lparr>loc_pool = 0, loc_key = [], loc_nspace = [], loc_hash = - 1\<rparr>) (\<lambda>r.
    \<exists>pg. r = Inr pg \<and> exec_post (pg_to_up_acting_osds 70000 (\<lambda>_. 0) sample_osd_map pg) (\<lambda>((up, up_primary), (acting, acting_primary), m').
      good_up sample_osd_map sample_pool (- 1) up up_primary \<and> acting = up))"
proof -
  let ?loc = "\<lparr>loc_pool = 0, loc_key = [], loc_nspace = [], loc_hash = - 1\<rparr>"
  have c: "crush sample_osd_map = sample_map" "osd_weight sample_osd_map = replicate 4 0x10000" "pools sample_osd_map 0 = Some sample_pool"
    "pg_temp sample_osd_map = Map.empty"
    by (simp_all add: sample_osd_map_def)
  have b: "get_bucket sample_map (- 1) = Ret (mk_bucket (- 1) 2 [- 2, - 3] (Straw2 [0x20000, 0x20000]))" by (simp add: get_sample_bucket)
  have p: "pool_type_ok sample_pool" "0 < pool_size sample_pool" "max_rules sample_map \<le> 256"
    by (simp_all add: pool_type_ok_def TYPE_REPLICATED_def sample_map_def)
  have "crush_find_rule sample_map 0 1 2 = Ret 0"
    by (simp add: crush_find_rule_def sample_map_def sample_rule_def mk_rule_def arr_get_def)
  then have rule: "leaf_rule sample_map sample_pool (- 1) 1" unfolding leaf_rule_def
    by (intro exI [of _ "0 :: int"] exI [of _ sample_rule]) (simp add: sample_map_def sample_rule_def mk_rule_def)
  have args: "args_ok (pool_args sample_osd_map sample_pool pg 1)" "firstn_fuel sample_rank (pool_args sample_osd_map sample_pool pg 1) 70000" for pg
    by (simp_all add: c args_ok_def firstn_fuel_def counters_ok_def local_bound_def leaf_rule_args_def sample_map_def sample_rank_def
      to_u32_def to_s32_id)
  have "temp_set sample_osd_map sample_pool pg = []" for pg by (simp add: temp_set_def c)
  then show ?thesis
    using object_placed_on_live_osds [OF sample_osd_map_ok, of sample_rank "- 1" _ ?loc sample_pool 1 70000 "[104, 105]" "\<lambda>_. 0"]
      sample_map_ok b p rule args c by (auto simp: case_prod_unfold elim!: exec_post_mono)
qed

end
