(* ===== verification/Spec2Isabelle.thy ===== *)
theory Spec2Isabelle
  imports Dokan_Client Crush_Indep Crush_Weights Striping_Inverse Crc32c Osd_Placement
begin

text \<open>
  Verification of ceph-dokan, a client for the Ceph file system on Windows: a driver for the Dokan library that
  serves the requests of Windows from \<open>libcephfs\<close>, and of \<open>libcephfs\<close> the parts that decide where data lies.

  \<^bold>\<open>The parts and their theories.\<close>  All sources are named relative to \<open>src/\<close>.

  \<^item> \<open>Ceph_Prelude\<close>: the integer types of C as words, the result \<open>exec\<close> of code that can fail (\<open>Ret\<close>,
    \<open>Fault\<close> for a failing assertion or an access outside an object, \<open>NoFuel\<close>), arrays with bounds, bytes.
    \<open>Std_Map\<close>: \<open>std::map\<close> as the list of its pairs in order.  \<open>Host_Env\<close>: the calls the driver makes to
    \<open>libcephfs\<close> and Windows, an environment that answers them in any way (\<open>env\<close>: from the history of calls to
    a reply), and computations over it (\<open>io\<close>), with rules for their results and the calls they make.
  \<^item> \<open>Posix_Acl\<close> (\<open>dokan/posix_acl.cc\<close>, \<open>posix_acl.h\<close>): access control lists in memory and in their binary
    form.  \<open>Acl_Walk\<close>: the functions of the same file that read and set them through \<open>libcephfs\<close>
    (\<open>permission_walk\<close>, \<open>fuse_init_acl\<close> and the like).
  \<^item> \<open>Revise\<close> (\<open>revise/revise.cpp\<close>, \<open>pipe/\<close>): the questions to the policy server over a named pipe, byte
    by byte.
  \<^item> \<open>Dokan_Driver\<close>, \<open>Dokan_Dir\<close>, \<open>Dokan_Main\<close> (\<open>dokan/ceph_dokan.c\<close>): the callbacks \<open>WinCeph...\<close>, one
    definition each, with the same name, and \<open>main\<close> with its command line.  \<open>Dokan_Handles\<close>: Dokan as a
    step relation (\<open>dokan_step\<close>) that calls them in any order with any arguments, and the descriptors that are
    open after a history of calls.  \<open>Dokan_Props\<close>: the properties of single callbacks and of reachable states.
  \<^item> \<open>Interval_Set\<close> (\<open>include/interval_set.h\<close>): the class for members of type \<open>int\<close> and of the unsigned
    types of 64 bits.  \<open>Client_Fd\<close> (\<open>client/Client.h\<close>, \<open>client/Client.cc\<close>, \<open>libcephfs.cc\<close>): the descriptors
    of the client library, and the mount.  \<open>Dokan_Client\<close>: the driver together with it.
  \<^item> \<open>Crush_Types\<close>, \<open>Crush_Hash\<close>, \<open>Crush_Ln\<close> (\<open>crush/crush.h\<close>, \<open>crush.c\<close>, \<open>hash.c\<close>, \<open>crush_ln_table.h\<close>):
    maps, hashes and the logarithm in fixed point.  \<open>Crush_Choose\<close>, \<open>Crush_Mapper\<close> (\<open>crush/mapper.c\<close>): the
    choice from a bucket, the placement and the interpreter of rules.  \<open>Crush_Placement\<close>, \<open>Crush_Indep\<close>: their
    properties.
  \<^item> \<open>Crush_Builder\<close>, \<open>Crush_Edit\<close>, \<open>Crush_Weights\<close> (\<open>crush/builder.c\<close>): making and editing maps.
  \<^item> \<open>Striper\<close> (\<open>osdc/Striper.cc\<close>): files as extents of objects; \<open>Striping\<close>, \<open>Striping_Inverse\<close>: the
    properties.
  \<^item> \<open>Crc32c_Tables\<close>, \<open>Crc32c\<close> (\<open>common/sctp_crc32.c\<close>): the checksum of messages.
  \<^item> \<open>Pg_Map\<close>, \<open>Pg_Split\<close> (\<open>osd/osd_types.cc\<close>, \<open>common/ceph_hash.cc\<close>): objects to placement groups.
    \<open>Osd_Map\<close>, \<open>Osd_Placement\<close> (\<open>osd/OSDMap.cc\<close>): placement groups to devices.

  Data goes down through these parts: the driver turns a request into calls of \<open>libcephfs\<close>, the client library
  stripes a range of a file over objects, the name of an object is hashed to a placement group, and CRUSH
  maps the group to devices.  A definition has the name of the function it models; a structure is a record
  with the members the modelled code uses, and a class method takes its object as an argument and returns it.

  \<^bold>\<open>What the lemmas show.\<close>

  \<^item> Access control: \<open>posix_acl_valid\<close> accepts exactly the canonical lists, \<open>posix_acl_permission\<close> decides the POSIX
    rule on them, the binary form is read back, a new file gets valid lists, and \<open>permission_walk\<close> decides from
    what the library answers.
  \<^item> Driver: whatever the library and the policy server answer, the open descriptors are those of the handles, up
    to the unmounting, and all can be closed; a request whose permission check fails changes nothing; a rename is made only
    after \<open>FileMove\<close> has let it pass; listings are complete; sizes of reads and writes are bounded; the command line is read as written.
  \<^item> Interval sets implement sets of integers as long as no sum overflows.
  \<^item> CRUSH: every choice returns an item of the bucket; a placement returns, and returns different devices that are in
    and below the root; buckets are made and edited with all their sums right; recomputing a hierarchy gives every
    bucket the weight below it.
  \<^item> Striping: the extents of a range are exactly its bytes, and lead back to it.  The checksum is the remainder
    of the bytes, and detects bursts.  Groups split without moving objects elsewhere.  Every object is placed on
    devices that are up.
  \<^item> Where the code does not do what it means to, a theorem says what it does instead: policy questions that pass when the
    server is gone, user numbers cut to 16 bits, free space that wraps around, buffers that are overrun by long
    paths, tree buckets built from uninitialised memory, and others.

  \<^bold>\<open>Interfaces.\<close>  \<open>item_chooser\<close> (a bucket's choose method gives one of its items and keeps the bucket) is
  interpreted for the permutation choice and for \<open>crush_bucket_choose\<close>; \<open>item_adder\<close> (an addition appends) for
  \<open>crush_bucket_add_item\<close>; \<open>id_pool\<close> (taking an identifier gives a free one) for the free descriptors.

  \<^bold>\<open>Bounds and fuel.\<close>  Integers have the width of the source: words where the code computes with them, integers
  with the wrap-around written out otherwise.  \<open>crush_choose_firstn\<close> and its relatives take fuel for their
  retry loops and for the descent; \<open>firstn_fuel\<close> says how much is enough (more than the tries, the local
  retries and the rank of any bucket), and the theorems then have a result.  \<open>crush_reweight_bucket\<close> takes fuel
  for its recursion, and more than the rank of the bucket is enough.  The loops over directory entries take a
  bound, and the listing returns when it exceeds the number of entries.  All other loops are shown to end by their
  definitions.

  \<^bold>\<open>Parameters.\<close>  Not in the sources, and so parameters: the answers of \<open>libcephfs\<close>, Windows and the policy
  server (\<open>env\<close>), the conversions between UTF-16 and UTF-8 and \<open>_wtoi\<close>, the success of allocations and the
  contents of memory that is not initialised (\<open>heap\<close>), and floating-point arithmetic in the computation of straws.  The small
  messages of fixed size of the driver and the policy client are taken to be allocated.  What a theorem
  assumes of a parameter is in its statement and in the text before it.

  \<^bold>\<open>Not modelled.\<close>  The protocols with metadata servers, monitors and devices (\<open>client/\<close> but for the descriptors,
  \<open>osdc/Objecter.cc\<close>, \<open>osdc/ObjectCacher.cc\<close>, \<open>mon/\<close>, \<open>mds/\<close>, \<open>msg/\<close>, \<open>messages/\<close>, \<open>auth/\<close>), which are concurrent and
  live on network I/O; encodings into buffers; the text compiler of CRUSH maps; the updates of the OSD map from
  increments; logging, configuration and debug output.
\<close>

section \<open>From construction to placement\<close>

text \<open>A bucket built by \<open>crush_make_bucket\<close> with a weight can be drawn from: \<open>crush_bucket_choose\<close> returns,
  with one of the items the bucket was built from, and the bucket can be drawn from again.\<close>
theorem made_bucket_can_be_chosen_from:
  assumes "1 \<le> alg" "alg \<le> 5" "0 < sz" "sz \<le> length items" "sz \<le> length weights" "sz < 0xffff" "alg = 3 \<Longrightarrow> sz \<le> 64"
    and "alg \<ge> 4 \<Longrightarrow> sum_list (map uint (given_weights alg sz weights)) < 2 ^ 32"
  shows "exec_post (crush_make_bucket h fp m alg hsh t sz items (Some weights)) (\<lambda>r. case r of
    None \<Rightarrow> True
  | Some b \<Rightarrow> b_weight b \<noteq> 0 \<longrightarrow>
      exec_post (crush_bucket_choose b x r') (\<lambda>(item, b'). item \<in> set (take sz items) \<and> bucket_ok b'))"
proof -
  have "exec_post (crush_bucket_choose b x r') (\<lambda>(item, b'). item \<in> set (take sz items) \<and> bucket_ok b')"
    if b: "bucket_wf b" "b_perm_n b = 0" "b_size b = sz" "contents b = zip (take sz items) ws"
      "length ws = sz" "b_weight b \<noteq> 0" for b ws
  proof -
    have ok: "bucket_ok b" using bucket_wf_ok [OF b(1,2)] b(3,6) assms(6) by simp
    have "take sz (b_items b) = map fst (contents b)"
      using length_weight_list [OF b(1)] wf_arrays(1) [OF b(1)] b(3) by (simp add: contents_def)
    also have "\<dots> = take sz items" using b(4,5) assms(4) by simp
    finally have items: "take sz (b_items b) = take sz items" .
    obtain i b' where "i < sz" "crush_bucket_choose b x r' = Ret (b_items b ! i, b')" "bucket_ok b'"
      using choose.pick_item [OF ok, of x r'] assms(3) b(3) by auto
    moreover have "b_items b ! i \<in> set (take sz items)"
      using \<open>i < sz\<close> wf_arrays(1) [OF b(1)] b(3) unfolding items [symmetric] by (auto simp: in_set_conv_nth)
    ultimately show ?thesis by simp
  qed
  moreover have "length (given_weights alg sz weights) = sz" using assms(5) by (simp add: given_weights_def)
  ultimately show ?thesis
    using make_bucket_spec [OF assms(1,2,4,5) _ assms(7,8), of h fp m hsh t] assms(6)
    by (auto simp: made_def elim!: exec_post_mono split: option.splits)
qed

theorem made_bucket_can_be_chosen_from_witness:
  "exec_post (crush_make_bucket sample_heap sample_fp empty_map 5 0 1 2 [7, 8] (Some [1, 2])) (\<lambda>r. case r of
    None \<Rightarrow> True
  | Some b \<Rightarrow> b_weight b \<noteq> 0 \<longrightarrow> exec_post (crush_bucket_choose b 42 0) (\<lambda>(item, b'). item \<in> {7, 8}))"
  using made_bucket_can_be_chosen_from [of 5 2 "[7, 8]" "[1, 2]" sample_heap sample_fp empty_map 0 1 42 0]
  by (auto simp: given_weights_def elim!: exec_post_mono split: option.splits)

end
